(* ===== verification/Prelude.thy ===== *)
theory Prelude
  imports Main "HOL-Library.Word"
begin

text \<open>
  Shared vocabulary of the development: the machine integer types of the C++ code, the
  exceptions and faults a handler can end in, the result type with its sequencing
  operator, the effects an element has on its ports, and the generic lemmas on byte
  ranges, filters and words that the component theories use.

  Two facts about the platform are fixed here once: the program runs on a little-endian
  machine with 8-bit bytes, 16/32-bit integers of exactly that width (x86-64, the target
  of \<^verbatim>\<open>click/configure\<close> at user level), and every access outside the allocated buffer of a
  packet is a fault of its own (\<open>OutOfBounds\<close>), never an unspecified value.
\<close>

unbundle bit_operations_syntax

named_theorems wire_simps
  \<comment> \<open>sizes and decodings of the wire formats\<close>

named_theorems pkt_simps
  \<comment> \<open>packet primitives of Click\<close>

type_synonym u8 = "8 word"
type_synonym u16 = "16 word"
type_synonym u32 = "32 word"
type_synonym byte = u8
type_synonym ipaddr = u32
  \<comment> \<open>an \<open>in_addr\<close>: the address in network byte order, as the host reads it\<close>

section \<open>Results\<close>

text \<open>
  What can escape a call: the four exception classes of \<^verbatim>\<open>elements/exceptions\<close>, and the
  undefined behaviours the code can run into (null pointer of a failed allocation, access
  outside a packet's buffer, \<open>back()\<close> of an empty vector, a failed \<open>assert\<close>, a
  division by zero).
\<close>

datatype exn =
    ZeroChecksumException string
  | InvalidChecksumException string
  | RequestNotFoundException string
  | ReservedFieldsIncorrectException string
  | NullPointer
  | OutOfBounds
  | EmptyVector
  | AssertionFailure
  | DivisionByZero

type_synonym 'a res = "exn + 'a"

definition res_bind :: "'e + 'a \<Rightarrow> ('a \<Rightarrow> 'e + 'b) \<Rightarrow> 'e + 'b" where
  "res_bind m f = (case m of Inl e \<Rightarrow> Inl e | Inr x \<Rightarrow> f x)"

lemma res_bind_Inl [simp]: "res_bind (Inl e) f = Inl e"
  by (simp add: res_bind_def)

lemma res_bind_Inr [simp]: "res_bind (Inr x) f = f x"
  by (simp add: res_bind_def)

lemma res_bind_eq_Inr_iff:
  "res_bind m f = Inr y \<longleftrightarrow> (\<exists>x. m = Inr x \<and> f x = Inr y)"
  by (cases m) auto

lemma res_bind_eq_Inl_iff:
  "res_bind m f = Inl e \<longleftrightarrow> m = Inl e \<or> (\<exists>x. m = Inr x \<and> f x = Inl e)"
  by (cases m) auto

lemma res_bind_if:
  "res_bind (if b then m else m') f = (if b then res_bind m f else res_bind m' f)"
  by simp

section \<open>Byte ranges\<close>

text \<open>
  \<open>chunk off n xs\<close> is the range a pointer \<open>xs + off\<close> to an \<open>n\<close>-byte object denotes;
  \<open>patch off bs xs\<close> stores the bytes of an object there.
\<close>

definition chunk :: "nat \<Rightarrow> nat \<Rightarrow> 'a list \<Rightarrow> 'a list" where
  "chunk off n xs = take n (drop off xs)"

definition patch :: "nat \<Rightarrow> 'a list \<Rightarrow> 'a list \<Rightarrow> 'a list" where
  "patch off bs xs = take off xs @ bs @ drop (off + length bs) xs"

lemma length_chunk [simp]: "length (chunk off n xs) = min n (length xs - off)"
  by (simp add: chunk_def)

lemma length_patch [simp]:
  "off + length bs \<le> length xs \<Longrightarrow> length (patch off bs xs) = length xs"
  by (simp add: patch_def)

lemma chunk_patch_same:
  "off + length bs \<le> length xs \<Longrightarrow> chunk off (length bs) (patch off bs xs) = bs"
  by (simp add: chunk_def patch_def)

lemma chunk_patch_within:
  assumes "off \<le> o'" and "o' + n \<le> off + length bs" and "off + length bs \<le> length xs"
  shows "chunk o' n (patch off bs xs) = chunk (o' - off) n bs"
  using assms by (simp add: chunk_def patch_def)

lemma chunk_patch_after:
  assumes "off + length bs \<le> o'" and "off + length bs \<le> length xs"
  shows "chunk o' n (patch off bs xs) = chunk o' n xs"
  using assms by (simp add: chunk_def patch_def)

lemma chunk_patch_before:
  assumes "o' + n \<le> off" and "off + length bs \<le> length xs"
  shows "chunk o' n (patch off bs xs) = chunk o' n xs"
  using assms by (simp add: chunk_def patch_def min_def take_drop)

lemma chunk_0_self [simp]: "chunk 0 (length xs) xs = xs"
  by (simp add: chunk_def)

lemma chunk_chunk:
  "i + m \<le> n \<Longrightarrow> chunk i m (chunk off n xs) = chunk (off + i) m xs"
  by (simp add: chunk_def drop_take min_def add.commute)

lemma chunk_append_left:
  "off + n \<le> length xs \<Longrightarrow> chunk off n (xs @ ys) = chunk off n xs"
  by (simp add: chunk_def)

lemma chunk_append_right:
  "length xs \<le> off \<Longrightarrow> chunk off n (xs @ ys) = chunk (off - length xs) n ys"
  by (simp add: chunk_def)

lemma nth_chunk: "i < n \<Longrightarrow> off + n \<le> length xs \<Longrightarrow> chunk off n xs ! i = xs ! (off + i)"
  by (simp add: chunk_def)

lemma chunk_split:
  "chunk off (m + n) xs = chunk off m xs @ chunk (off + m) n xs"
  by (simp add: chunk_def take_add add.commute)

section \<open>Words\<close>

lemma unat_lt_256 [simp]: "unat (x :: u8) < 256"
  using unsigned_less [of x, where 'a = nat] by simp

lemma unat_lt_65536 [simp]: "unat (x :: u16) < 65536"
  using unsigned_less [of x, where 'a = nat] by simp

lemma unat_lt_2_32 [simp]: "unat (x :: u32) < 4294967296"
  using unsigned_less [of x, where 'a = nat] by simp

lemma unat_ucast_8_16 [simp]: "unat (ucast (x :: u8) :: u16) = unat x"
  using unat_lt_256 [of x] by (simp add: unsigned_ucast_eq take_bit_eq_mod del: unat_lt_256)

lemma unat_ucast_16_32 [simp]: "unat (ucast (x :: u16) :: u32) = unat x"
  using unat_lt_65536 [of x] by (simp add: unsigned_ucast_eq take_bit_eq_mod del: unat_lt_65536)

lemma unat_ucast_8_32 [simp]: "unat (ucast (x :: u8) :: u32) = unat x"
  using unat_lt_256 [of x] by (simp add: unsigned_ucast_eq take_bit_eq_mod del: unat_lt_256)

lemma unat_ucast_32_16: "unat (ucast (x :: u32) :: u16) = unat x mod 65536"
  by (simp add: unsigned_ucast_eq take_bit_eq_mod)

text \<open>
  The C conversions of an \<open>unsigned int\<close> argument to the \<open>uint16_t\<close> of a wire field and
  back: lossless exactly on 16-bit values.
\<close>

lemma ucast_ucast_16:
  assumes "unat (x :: u32) < 65536"
  shows "ucast (ucast x :: u16) = x"
  by (rule word_unat_eq_iff [THEN iffD2]) (use assms in \<open>simp add: unat_ucast_32_16\<close>)

lemma ucast_ucast_8_32 [simp]: "ucast (ucast (x :: u8) :: u32) = x"
  by (rule bit_word_eqI) (auto simp: bit_simps)

end
