(* ===== verification/Checksum.thy ===== *)
theory Checksum
  imports Prelude
begin

text \<open>
  Byte order and the Internet checksum: \<^verbatim>\<open>click/lib/in_cksum.c\<close> and the inline functions of
  \<^verbatim>\<open>click/include/clicknet/ip.h\<close>. The C code reads the data as native 16-bit words, so on
  the little-endian target a word is \<open>le16\<close> of two consecutive bytes. The lemmas relate
  the 32-bit accumulator to one's-complement arithmetic on natural numbers: a checksum is
  zero exactly when the sum of the words is a positive multiple of 65535, which is what
  makes a stored checksum verify.
\<close>

section \<open>Little-endian loads and stores, network byte order\<close>

definition le16 :: "byte \<Rightarrow> byte \<Rightarrow> u16" where
  "le16 a b = ucast a OR push_bit 8 (ucast b)"

definition u16_bytes :: "u16 \<Rightarrow> byte list" where
  "u16_bytes v = [ucast v, ucast (drop_bit 8 v)]"

definition le32 :: "byte \<Rightarrow> byte \<Rightarrow> byte \<Rightarrow> byte \<Rightarrow> u32" where
  "le32 a b c d =
     ucast a OR push_bit 8 (ucast b) OR push_bit 16 (ucast c) OR push_bit 24 (ucast d)"

definition u32_bytes :: "u32 \<Rightarrow> byte list" where
  "u32_bytes v =
     [ucast v, ucast (drop_bit 8 v), ucast (drop_bit 16 v), ucast (drop_bit 24 v)]"

definition htons :: "u16 \<Rightarrow> u16" where
  "htons v = le16 (ucast (drop_bit 8 v)) (ucast v)"

definition htonl :: "u32 \<Rightarrow> u32" where
  "htonl v =
     le32 (ucast (drop_bit 24 v)) (ucast (drop_bit 16 v)) (ucast (drop_bit 8 v)) (ucast v)"

abbreviation ntohs :: "u16 \<Rightarrow> u16" where "ntohs \<equiv> htons"
abbreviation ntohl :: "u32 \<Rightarrow> u32" where "ntohl \<equiv> htonl"

lemma length_u16_bytes [simp]: "length (u16_bytes v) = 2"
  by (simp add: u16_bytes_def)

lemma length_u32_bytes [simp]: "length (u32_bytes v) = 4"
  by (simp add: u32_bytes_def)

lemma le16_bytes [simp]: "le16 (ucast v) (ucast (drop_bit 8 v)) = v"
  unfolding le16_def by (rule bit_word_eqI) (auto simp: bit_simps)

lemma le32_bytes [simp]:
  "le32 (ucast v) (ucast (drop_bit 8 v)) (ucast (drop_bit 16 v)) (ucast (drop_bit 24 v)) = v"
  (is "?l = v")
proof (rule bit_word_eqI)
  fix n assume "n < LENGTH(32)"
  then consider "n < 8" | "8 \<le> n" "n < 16" | "16 \<le> n" "n < 24" | "24 \<le> n" "n < 32"
    by fastforce
  then show "bit ?l n = bit v n"
    by cases (auto simp: le32_def bit_simps)
qed

lemma le16_lo [simp]: "ucast (le16 a b) = a"
  unfolding le16_def by (rule bit_word_eqI) (auto simp: bit_simps)

lemma le16_hi [simp]: "ucast (drop_bit 8 (le16 a b)) = b"
  unfolding le16_def
  by (rule bit_word_eqI) (auto simp: bit_simps dest: bit_imp_le_length)

lemma le32_parts [simp]:
  "ucast (le32 a b c d) = a"
  "ucast (drop_bit 8 (le32 a b c d)) = b"
  "ucast (drop_bit 16 (le32 a b c d)) = c"
  "ucast (drop_bit 24 (le32 a b c d)) = d"
  unfolding le32_def
  by (rule bit_word_eqI; fastforce simp: bit_simps dest: bit_imp_le_length)+

lemma ntohs_htons [simp]: "htons (htons v) = v"
  by (simp add: htons_def)

lemma ntohl_htonl [simp]: "htonl (htonl v) = v"
  by (simp add: htonl_def)

lemma unat_le16: "unat (le16 a b) = unat a + 256 * unat b"
proof -
  have "le16 a b = ucast a + push_bit 8 (ucast b)"
    unfolding le16_def
    by (rule disjunctive_add [symmetric]) (auto simp: bit_simps dest: bit_imp_le_length)
  also have "unat \<dots> = unat a + 256 * unat b"
    using unat_lt_256 [of a] unat_lt_256 [of b]
    by (simp add: unat_word_ariths push_bit_eq_mult del: unat_lt_256)
  finally show ?thesis .
qed

lemma unat_htons: "unat (htons v) = unat v div 256 + 256 * (unat v mod 256)"
proof -
  have "unat (ucast (drop_bit 8 v) :: byte) = unat v div 256"
    using unat_lt_65536 [of v]
    by (simp add: unsigned_ucast_eq take_bit_eq_mod drop_bit_eq_div unat_div_distrib
          del: unat_lt_65536)
  moreover have "unat (ucast v :: byte) = unat v mod 256"
    by (simp add: unsigned_ucast_eq take_bit_eq_mod)
  ultimately show ?thesis by (simp add: htons_def unat_le16)
qed

section \<open>The checksum routines\<close>

text \<open>
  \<open>click_in_cksum\<close>: the \<open>while (nleft > 1)\<close> loop over the 16-bit words with its 32-bit
  accumulator, the odd trailing byte, the two folds and the complement.
\<close>

fun cksum_loop :: "byte list \<Rightarrow> u32 \<Rightarrow> u32" where
  "cksum_loop (a # b # w) acc = cksum_loop w (acc + ucast (le16 a b))"
| "cksum_loop [a] acc = acc + ucast (le16 a 0)"
| "cksum_loop [] acc = acc"

definition click_in_cksum :: "byte list \<Rightarrow> u16" where
  "click_in_cksum addr =
     (let acc = cksum_loop addr 0;
          acc1 = (acc AND 0xffff) + drop_bit 16 acc;
          acc2 = acc1 + drop_bit 16 acc1
      in ucast (NOT acc2))"

text \<open>
  \<open>click_in_cksum_pseudohdr_raw\<close>, the portable branch (the inline assembly is for
  \<^verbatim>\<open>__i386__\<close> only). \<open>packet_len\<close> and \<open>proto\<close> are passed to \<open>htons\<close> and so truncated to 16
  bits; \<open>csum\<close> is a 16-bit checksum, as the assertion says.
\<close>

definition click_in_cksum_pseudohdr_raw ::
  "u16 \<Rightarrow> ipaddr \<Rightarrow> ipaddr \<Rightarrow> byte \<Rightarrow> u16 \<Rightarrow> u16" where
  "click_in_cksum_pseudohdr_raw csum src dst proto packet_len =
     (let c0 = NOT (ucast csum) AND 0xffff :: u32;
          c1 = c0 + ((src AND 0xffff) + drop_bit 16 src);
          c2 = c1 + ((dst AND 0xffff) + drop_bit 16 dst);
          c3 = c2 + (ucast (htons packet_len) + ucast (htons (ucast proto)));
          c4 = (c3 AND 0xffff) + drop_bit 16 c3
      in ucast (NOT (c4 + drop_bit 16 c4) AND 0xffff))"

text \<open>
  The option scan of \<open>click_in_cksum_pseudohdr_hard\<close>: the final destination of a source
  route, if the header carries one. The argument is the option area, from the end of the
  20-byte header to \<open>ip_hl << 2\<close>.
\<close>

definition IPOPT_EOL :: byte where "IPOPT_EOL = 0"
definition IPOPT_NOP :: byte where "IPOPT_NOP = 1"
definition IPOPT_LSRR :: byte where "IPOPT_LSRR = 131"
definition IPOPT_SSRR :: byte where "IPOPT_SSRR = 137"

function source_route_dst :: "byte list \<Rightarrow> ipaddr option" where
  "source_route_dst [] = None"
| "source_route_dst (k # opt) =
     (if k = IPOPT_NOP then source_route_dst opt
      else if k = IPOPT_EOL then None
      else case opt of [] \<Rightarrow> None
           | l # _ \<Rightarrow>
               if unat l < 2 \<or> unat l > length (k # opt) then None
               else if (k = IPOPT_SSRR \<or> k = IPOPT_LSRR) \<and> 7 \<le> unat l
                 then (case chunk (unat l - 4) 4 (k # opt) of
                         [a, b, c, d] \<Rightarrow> Some (le32 a b c d)
                       | _ \<Rightarrow> None)
               else source_route_dst (drop (unat l) (k # opt)))"
  by pat_completeness auto
termination
  by (relation "measure length") auto

definition click_in_cksum_pseudohdr ::
  "u16 \<Rightarrow> nat \<Rightarrow> byte list \<Rightarrow> ipaddr \<Rightarrow> ipaddr \<Rightarrow> byte \<Rightarrow> u16 \<Rightarrow> u16" where
  "click_in_cksum_pseudohdr data_csum hl options src dst proto transport_len =
     (if hl = 5 then click_in_cksum_pseudohdr_raw data_csum src dst proto transport_len
      else click_in_cksum_pseudohdr_raw data_csum src
             (case source_route_dst options of None \<Rightarrow> dst | Some d \<Rightarrow> d) proto transport_len)"

text \<open>\<open>click_update_in_cksum\<close>: the incremental update of RFC 1624.\<close>

definition click_update_in_cksum :: "u16 \<Rightarrow> u16 \<Rightarrow> u16 \<Rightarrow> u16" where
  "click_update_in_cksum csum old_hw new_hw =
     (let acc = (NOT (ucast csum) AND 0xffff) + (NOT (ucast old_hw) AND 0xffff) + ucast new_hw :: u32;
          acc1 = (acc AND 0xffff) + drop_bit 16 acc
      in ucast (NOT (acc1 + drop_bit 16 acc1)))"


section \<open>One's-complement arithmetic\<close>

text \<open>The exact sum of the 16-bit words, and the result of folding it into 16 bits.\<close>

fun word_sum :: "byte list \<Rightarrow> nat" where
  "word_sum (a # b # w) = unat (le16 a b) + word_sum w"
| "word_sum [a] = unat a"
| "word_sum [] = 0"

definition ones_fold :: "nat \<Rightarrow> nat" where
  "ones_fold s =
     (let s1 = s mod 65536 + s div 65536 in (s1 + s1 div 65536) mod 65536)"

lemma word_sum_append: "even (length xs) \<Longrightarrow> word_sum (xs @ ys) = word_sum xs + word_sum ys"
  by (induction xs rule: word_sum.induct) auto

lemma word_sum_bound: "2 * word_sum bs \<le> 65535 * (length bs + 1)"
proof (induction bs rule: word_sum.induct)
  case (1 a b w)
  then show ?case using unat_lt_65536 [of "le16 a b"] by (simp del: unat_lt_65536)
next
  case (2 a)
  then show ?case using unat_lt_256 [of a] by (simp del: unat_lt_256)
qed simp

lemma word_sum_lt:
  assumes "length bs \<le> 65535"
  shows "word_sum bs < 4294967296"
  using word_sum_bound [of bs] assms by simp

lemma unat_cksum_loop:
  "unat acc + word_sum bs < 4294967296 \<Longrightarrow> unat (cksum_loop bs acc) = unat acc + word_sum bs"
proof (induction bs acc rule: cksum_loop.induct)
  case (1 a b w acc)
  then have "unat (acc + ucast (le16 a b)) = unat acc + unat (le16 a b)"
    by (simp add: unat_word_ariths)
  with 1 show ?case by simp
next
  case (2 a acc)
  then show ?case by (simp add: unat_word_ariths unat_le16)
qed simp

lemma ones_fold_le: "ones_fold s \<le> 65535"
  by (simp add: ones_fold_def Let_def flip: less_Suc_eq_le)

lemma ones_fold_bounds:
  assumes "s < 4294967296"
  defines "h \<equiv> s div 65536" and "l \<equiv> s mod 65536"
  shows "ones_fold s = (if h + l < 65536 then h + l else h + l - 65535)"
proof -
  have "h < 65536" "l < 65536" using assms by auto
  moreover have "ones_fold s = ((l + h) + (l + h) div 65536) mod 65536"
    by (simp add: ones_fold_def h_def l_def Let_def)
  moreover have "(l + h) div 65536 = (if h + l < 65536 then 0 else 1)"
    using calculation(1,2) by (auto simp: div_eq_dividend_iff)
  ultimately show ?thesis by (auto simp: le_mod_geq)
qed

lemma ones_fold_mod:
  assumes "s < 4294967296"
  shows "ones_fold s mod 65535 = s mod 65535"
proof -
  have "s = 65535 * (s div 65536) + (s div 65536 + s mod 65536)"
    by simp
  then have "s mod 65535 = (s div 65536 + s mod 65536) mod 65535"
    by (metis mod_mult_self4)
  then show ?thesis using ones_fold_bounds [OF assms] by (auto simp: le_mod_geq)
qed

lemma ones_fold_eq_0_iff:
  assumes "s < 4294967296"
  shows "ones_fold s = 0 \<longleftrightarrow> s = 0"
  using ones_fold_bounds [OF assms] by (auto; presburger)

lemma ones_fold_eq_65535_iff:
  assumes "s < 4294967296"
  shows "ones_fold s = 65535 \<longleftrightarrow> 0 < s \<and> 65535 dvd s"
proof -
  have "65535 dvd s \<longleftrightarrow> 65535 dvd ones_fold s"
    using ones_fold_mod [OF assms] by (simp add: dvd_eq_mod_eq_0)
  then show ?thesis
    using ones_fold_le [of s] ones_fold_eq_0_iff [OF assms]
    by (auto dest: dvd_imp_le)
qed

text \<open>The two folds of the C code, on the accumulator read as a number.\<close>

lemma and_ffff: "x AND 0xffff = take_bit 16 (x :: u32)"
  by (simp add: take_bit_eq_mask mask_eq_exp_minus_1)

lemma unat_and_ffff: "unat (x AND 0xffff :: u32) = unat x mod 65536"
  by (simp add: and_ffff take_bit_eq_mod unat_mod_distrib)

lemma unat_shr16: "unat (drop_bit 16 x :: u32) = unat x div 65536"
  by (simp add: drop_bit_eq_div unat_div_distrib)

lemma unat_not_16: "unat (NOT z :: u16) = 65535 - unat z"
proof -
  have "NOT z = - 1 - z" by (simp add: not_eq_complement)
  then show ?thesis by (simp add: unat_sub unsigned_minus_1_eq_mask mask_eq_exp_minus_1)
qed

lemma unat_fold16:
  "unat (ucast (NOT (let a = (x AND 0xffff) + drop_bit 16 x in a + drop_bit 16 a) :: u32) :: u16)
     = 65535 - ones_fold (unat x)"
proof -
  define a where "a = (x AND 0xffff) + drop_bit 16 x"
  have x: "unat x < 4294967296" by simp
  have d: "unat x div 65536 < 65536" and m: "unat x mod 65536 < 65536"
    using x by (simp_all add: less_mult_imp_div_less)
  have ua: "unat a = unat x mod 65536 + unat x div 65536"
    using d m by (simp add: a_def unat_word_ariths unat_and_ffff unat_shr16)
  have ub: "unat (a + drop_bit 16 a) = unat a + unat a div 65536"
    using d m ua by (simp add: unat_word_ariths unat_shr16)
  have n: "ucast (NOT y :: u32) = NOT (ucast y :: u16)" for y
    by (rule bit_word_eqI) (auto simp: bit_simps)
  have "unat (ucast (a + drop_bit 16 a) :: u16) = ones_fold (unat x)"
    by (simp add: unat_ucast_32_16 ub ua ones_fold_def Let_def)
  then show ?thesis by (simp add: a_def [symmetric] n unat_not_16)
qed


theorem unat_click_in_cksum:
  assumes "length bs \<le> 65535"
  shows "unat (click_in_cksum bs) = 65535 - ones_fold (word_sum bs)"
proof -
  have "unat (cksum_loop bs 0) = word_sum bs"
    using unat_cksum_loop [of 0 bs] word_sum_lt [OF assms] by simp
  then show ?thesis
    using unat_fold16 [of "cksum_loop bs 0"] by (simp add: click_in_cksum_def Let_def)
qed

theorem click_in_cksum_zero_iff:
  assumes "length bs \<le> 65535"
  shows "click_in_cksum bs = 0 \<longleftrightarrow> 0 < word_sum bs \<and> 65535 dvd word_sum bs"
proof -
  have "click_in_cksum bs = 0 \<longleftrightarrow> ones_fold (word_sum bs) = 65535"
    using unat_click_in_cksum [OF assms] ones_fold_le [of "word_sum bs"]
    by (auto simp: unat_eq_0 [symmetric])
  then show ?thesis
    using ones_fold_eq_65535_iff [OF word_sum_lt [OF assms]] by simp
qed

text \<open>
  Storing the checksum of the data with a zero checksum field into that field: the data
  then sums to a positive multiple of 65535, whatever it is.
\<close>

lemma ones_fold_complement:
  assumes "s < 4294967296"
  shows "0 < s + (65535 - ones_fold s) \<and> 65535 dvd s + (65535 - ones_fold s)"
proof -
  have "(s + (65535 - ones_fold s)) mod 65535 = 0"
  proof -
    obtain q where q: "s = ones_fold s + q * 65535 \<or> s + q * 65535 = ones_fold s"
      using ones_fold_mod [OF assms] by (metis mod_eq_nat1E mod_eq_nat2E mult.commute nat_le_linear)
    have le: "ones_fold s \<le> 65535" by (rule ones_fold_le)
    from q show ?thesis
    proof
      assume "s = ones_fold s + q * 65535"
      then have "s + (65535 - ones_fold s) = (q + 1) * 65535" using le by simp
      then show ?thesis by (metis mod_mult_self2_is_0)
    next
      assume *: "s + q * 65535 = ones_fold s"
      then have "q = 0 \<or> s = 0" using le by (cases q) auto
      with * ones_fold_eq_0_iff [OF assms] le show ?thesis by auto
    qed
  qed
  moreover have "0 < s + (65535 - ones_fold s)"
    using ones_fold_eq_0_iff [OF assms] by (cases "s = 0") auto
  ultimately show ?thesis by (simp add: dvd_eq_mod_eq_0)
qed

definition pseudo_sum :: "ipaddr \<Rightarrow> ipaddr \<Rightarrow> byte \<Rightarrow> u16 \<Rightarrow> nat" where
  "pseudo_sum src dst proto len =
     (unat src mod 65536 + unat src div 65536) + (unat dst mod 65536 + unat dst div 65536)
     + (unat (htons len) + 256 * unat proto)"

lemma unat_shr16_lt: "unat (x :: u32) div 65536 < 65536"
  using unat_lt_2_32 [of x] by (simp add: less_mult_imp_div_less del: unat_lt_2_32)

lemma pseudo_sum_lt: "pseudo_sum src dst proto len < 393216"
  using unat_shr16_lt [of src] unat_shr16_lt [of dst] unat_lt_256 [of proto]
    unat_lt_65536 [of "htons len"]
    mod_less_divisor [of 65536 "unat src"] mod_less_divisor [of 65536 "unat dst"]
  unfolding pseudo_sum_def by (simp del: unat_lt_256 unat_lt_65536 mod_less_divisor)


lemma unat_pseudohdr_raw:
  "unat (click_in_cksum_pseudohdr_raw csum src dst proto len)
     = 65535 - ones_fold ((65535 - unat csum) + pseudo_sum src dst proto len)"
proof -
  define c3 :: u32 where
    "c3 = (NOT (ucast csum) AND 0xffff) + ((src AND 0xffff) + drop_bit 16 src)
       + ((dst AND 0xffff) + drop_bit 16 dst) + (ucast (htons len) + ucast (htons (ucast proto)))"
  have n: "unat (NOT (ucast csum) AND 0xffff :: u32) = 65535 - unat csum"
  proof -
    have "NOT (ucast csum) AND 0xffff = (ucast (NOT csum) :: u32)"
      unfolding and_ffff by (rule bit_word_eqI) (auto simp: bit_simps)
    moreover have "NOT csum = - 1 - csum" by (simp add: not_eq_complement)
    ultimately show ?thesis
      by (simp add: unat_sub unsigned_minus_1_eq_mask mask_eq_exp_minus_1)
  qed
  have p: "unat (htons (ucast proto)) = 256 * unat proto"
    using unat_lt_256 [of proto] by (simp add: unat_htons del: unat_lt_256)
  have "unat c3 = (65535 - unat csum) + pseudo_sum src dst proto len"
    using pseudo_sum_lt [of src dst proto len] unat_lt_65536 [of csum]
      unat_lt_65536 [of "htons (ucast proto)"]
    by (simp add: c3_def unat_word_ariths n [unfolded unat_and_ffff] unat_and_ffff unat_shr16
          p pseudo_sum_def add.assoc del: unat_lt_65536)
  moreover have "click_in_cksum_pseudohdr_raw csum src dst proto len
      = ucast (NOT (let a = (c3 AND 0xffff) + drop_bit 16 c3 in a + drop_bit 16 a))"
    unfolding click_in_cksum_pseudohdr_raw_def Let_def c3_def add.assoc and_ffff
    by (rule bit_word_eqI) (auto simp: bit_simps)
  ultimately show ?thesis using unat_fold16 [of c3] by simp
qed


theorem udp_checksum_verifies:
  assumes "s < 4294967296" and "s + unat r < 4294967296" and "0 < proto"
    and csum: "unat csum = 65535 - ones_fold s"
    and r: "r = click_in_cksum_pseudohdr_raw csum src dst proto len"
    and csum': "unat csum' = 65535 - ones_fold (s + unat r)"
  shows "click_in_cksum_pseudohdr_raw csum' src dst proto len = 0"
proof -
  define P where "P = pseudo_sum src dst proto len"
  have P: "P < 393216" by (simp add: P_def pseudo_sum_lt)
  have "0 < P" using \<open>0 < proto\<close> by (auto simp: P_def pseudo_sum_def unat_gt_0 word_neq_0_conv)
  define t where "t = ones_fold s + P"
  have t: "t < 4294967296" using P ones_fold_le [of s] by (simp add: t_def)
  have ur: "unat r = 65535 - ones_fold t"
    using ones_fold_le [of s] by (simp add: r unat_pseudohdr_raw csum t_def P_def)
  define t' where "t' = ones_fold (s + unat r) + P"
  have t': "t' < 4294967296" using P ones_fold_le [of "s + unat r"] by (simp add: t'_def)
  have "t' mod 65535 = (s + unat r + P) mod 65535"
    unfolding t'_def using ones_fold_mod [OF assms(2)] by (metis mod_add_left_eq)
  also have "\<dots> = (s mod 65535 + (unat r + P)) mod 65535"
    by (simp add: mod_add_left_eq add.assoc)
  also have "\<dots> = (ones_fold s mod 65535 + (unat r + P)) mod 65535"
    using ones_fold_mod [OF assms(1)] by simp
  also have "\<dots> = (ones_fold s + (unat r + P)) mod 65535"
    by (rule mod_add_left_eq)
  also have "\<dots> = (t + (65535 - ones_fold t)) mod 65535"
    by (simp add: t_def ur add_ac)
  also have "\<dots> = 0" using ones_fold_complement [OF t] by (simp add: dvd_eq_mod_eq_0)
  finally have "ones_fold t' = 65535"
    using \<open>0 < P\<close> ones_fold_eq_65535_iff [OF t'] by (simp add: t'_def dvd_eq_mod_eq_0)
  then have "unat (click_in_cksum_pseudohdr_raw csum' src dst proto len) = 0"
    using ones_fold_le [of "s + unat r"]
    by (simp add: unat_pseudohdr_raw csum' t'_def P_def)
  then show ?thesis by (simp add: unat_eq_0)
qed

section \<open>Properties\<close>

text \<open>
  C19: \<open>click_in_cksum\<close>, with its 32-bit accumulator and the two folds, is the Internet checksum
  of RFC 1071 on every buffer of an IP packet's size, odd lengths included: the complement of
  the one's complement sum of the 16-bit words, so that a buffer verifies (gives 0) exactly
  when the plain sum of its words is a positive multiple of 65535.
\<close>

theorem cksum_is_internet_checksum:
  assumes "length bs \<le> 65535"
  shows "unat (click_in_cksum bs) = 65535 - ones_fold (word_sum bs) \<and>
    (click_in_cksum bs = 0 \<longleftrightarrow> 0 < word_sum bs \<and> 65535 dvd word_sum bs)"
  using unat_click_in_cksum [OF assms] click_in_cksum_zero_iff [OF assms] by blast

theorem cksum_is_internet_checksum_witness:
  "unat (click_in_cksum [0x45, 0, 0x12]) = 65535 - ones_fold (word_sum [0x45, 0, 0x12])"
  using cksum_is_internet_checksum [of "[0x45, 0, 0x12]"] by simp

end
