(* ===== verification/Packet_Buffer.thy ===== *)
theory Packet_Buffer
  imports Checksum
begin

text \<open>
  Click's packet object (\<^verbatim>\<open>click/include/click/packet.hh\<close>, \<^verbatim>\<open>click/lib/packet.cc\<close>, user-level
  branches): one allocated buffer, a data window into it, header pointers and the
  destination annotation. Pointers into the buffer are offsets from \<open>_head\<close>, so moving the
  window (\<open>push\<close>, \<open>pull\<close>, \<open>take\<close>) leaves the header pointers alone, as in the C++ code.
  Reads and writes through a pointer are checked against the allocated buffer, not against
  the data window: reading the tailroom is what the hardware does, reading past \<open>_end\<close> is
  a fault.

  The memory allocator is a parameter: \<open>mem n\<close> is \<open>None\<close> when \<open>new\<close> fails and otherwise
  the (unspecified) contents of the \<open>n\<close> bytes it returns.
\<close>

type_synonym allocator = "nat \<Rightarrow> (nat \<Rightarrow> byte) option"

record packet =
  p_buf :: "byte list"            \<comment> \<open>\<open>_head\<close> to \<open>_end\<close>\<close>
  p_data :: nat                   \<comment> \<open>\<open>_data - _head\<close>\<close>
  p_len :: nat                    \<comment> \<open>\<open>_tail - _data\<close>\<close>
  p_mac :: "nat option"           \<comment> \<open>\<open>_aa.mac\<close>\<close>
  p_nh :: "nat option"            \<comment> \<open>\<open>_aa.nh\<close>\<close>
  p_h :: "nat option"             \<comment> \<open>\<open>_aa.h\<close>\<close>
  p_dst_ip_anno :: ipaddr
  p_use_count :: nat              \<comment> \<open>\<open>_use_count\<close>\<close>
  p_data_packet :: bool           \<comment> \<open>\<open>_data_packet\<close> is set\<close>

definition buffer_length :: "packet \<Rightarrow> nat" where
  "buffer_length p = length (p_buf p)"

definition headroom :: "packet \<Rightarrow> nat" where
  "headroom p = p_data p"

definition tailroom :: "packet \<Rightarrow> nat" where
  "tailroom p = length (p_buf p) - (p_data p + p_len p)"

definition wf_pkt :: "packet \<Rightarrow> bool" where
  "wf_pkt p \<longleftrightarrow> p_data p + p_len p \<le> length (p_buf p)"

definition pkt_bytes :: "packet \<Rightarrow> byte list" where
  "pkt_bytes p = chunk (p_data p) (p_len p) (p_buf p)"

section \<open>Memory access\<close>

definition rd :: "packet \<Rightarrow> nat \<Rightarrow> nat \<Rightarrow> byte list res" where
  "rd p off n =
     (if off + n \<le> length (p_buf p) then Inr (chunk off n (p_buf p)) else Inl OutOfBounds)"

definition rd8 :: "packet \<Rightarrow> nat \<Rightarrow> byte res" where
  "rd8 p off = (if off < length (p_buf p) then Inr (p_buf p ! off) else Inl OutOfBounds)"

definition wr :: "packet \<Rightarrow> nat \<Rightarrow> byte list \<Rightarrow> packet res" where
  "wr p off bs =
     (if off + length bs \<le> length (p_buf p) then Inr (p\<lparr>p_buf := patch off bs (p_buf p)\<rparr>)
      else Inl OutOfBounds)"

section \<open>Allocation, sharing\<close>

definition min_buffer_length :: nat where
  "min_buffer_length = 64"

definition alloc_data :: "allocator \<Rightarrow> nat \<Rightarrow> nat \<Rightarrow> nat \<Rightarrow> byte list option" where
  "alloc_data mem hroom len troom =
     (let n = max (len + hroom + troom) min_buffer_length
      in map_option (\<lambda>f. map f [0..<n]) (mem n))"

text \<open>\<open>Packet::make\<close>: with \<open>data\<close> null the contents stay what the allocator returned.\<close>

definition Packet_make :: "allocator \<Rightarrow> nat \<Rightarrow> byte list option \<Rightarrow> nat \<Rightarrow> nat \<Rightarrow> packet option" where
  "Packet_make mem hroom data len troom =
     (case alloc_data mem hroom len troom of
        None \<Rightarrow> None
      | Some b \<Rightarrow>
          Some \<lparr>p_buf = (case data of None \<Rightarrow> b | Some d \<Rightarrow> patch hroom (take len d) b),
                p_data = hroom, p_len = len, p_mac = None, p_nh = None, p_h = None,
                p_dst_ip_anno = 0, p_use_count = 1, p_data_packet = False\<rparr>)"

definition shared :: "packet \<Rightarrow> bool" where
  "shared p \<longleftrightarrow> p_data_packet p \<or> 1 < p_use_count p"

text \<open>
  \<open>expensive_uniqueify(extra, 0, true)\<close>, the branch without further clones: the buffer is
  copied behind \<open>extra\<close> fresh bytes and the header pointers move with it, in the same packet object. With further
  clones (\<open>_use_count > 1\<close>) the code makes one more clone and does this to it: the packet returned has
  the same contents.
\<close>

definition expensive_uniqueify :: "allocator \<Rightarrow> nat \<Rightarrow> packet \<Rightarrow> packet option" where
  "expensive_uniqueify mem extra p =
     (case alloc_data mem (headroom p + extra) (p_len p) (tailroom p) of
        None \<Rightarrow> None
      | Some b \<Rightarrow>
          Some (p\<lparr>p_buf := patch extra (p_buf p) b,
                  p_data := p_data p + extra,
                  p_mac := map_option ((+) extra) (p_mac p),
                  p_nh := map_option ((+) extra) (p_nh p),
                  p_h := map_option ((+) extra) (p_h p),
                  p_use_count := 1, p_data_packet := False\<rparr>))"

definition uniqueify :: "allocator \<Rightarrow> packet \<Rightarrow> packet option" where
  "uniqueify mem p = (if \<not> shared p then Some p else expensive_uniqueify mem 0 p)"

section \<open>Moving the data window\<close>

definition pkt_push :: "allocator \<Rightarrow> nat \<Rightarrow> packet \<Rightarrow> packet option" where
  "pkt_push mem len p =
     (if len \<le> headroom p \<and> \<not> shared p then Some (p\<lparr>p_data := p_data p - len, p_len := p_len p + len\<rparr>)
      else map_option (\<lambda>q. q\<lparr>p_data := p_data q - len, p_len := p_len q + len\<rparr>)
             (expensive_uniqueify mem ((len + 128) div 4 * 4) p))"

definition pkt_pull :: "nat \<Rightarrow> packet \<Rightarrow> packet" where
  "pkt_pull len p =
     (let len = (if len > p_len p then p_len p else len)
      in p\<lparr>p_data := p_data p + len, p_len := p_len p - len\<rparr>)"

definition pkt_take :: "nat \<Rightarrow> packet \<Rightarrow> packet" where
  "pkt_take len p =
     (let len = (if len > p_len p then p_len p else len) in p\<lparr>p_len := p_len p - len\<rparr>)"

section \<open>Header pointers and annotations\<close>

definition has_network_header :: "packet \<Rightarrow> bool" where
  "has_network_header p \<longleftrightarrow> p_nh p \<noteq> None"

definition set_mac_header :: "nat \<Rightarrow> nat \<Rightarrow> packet \<Rightarrow> packet res" where
  "set_mac_header off len p =
     (if off + len \<le> length (p_buf p) then Inr (p\<lparr>p_mac := Some off, p_nh := Some (off + len)\<rparr>)
      else Inl AssertionFailure)"

definition set_ether_header :: "nat \<Rightarrow> packet \<Rightarrow> packet res" where
  "set_ether_header off p = set_mac_header off 14 p"

definition set_network_header :: "nat \<Rightarrow> nat \<Rightarrow> packet \<Rightarrow> packet res" where
  "set_network_header off len p =
     (if off + len \<le> length (p_buf p) then Inr (p\<lparr>p_nh := Some off, p_h := Some (off + len)\<rparr>)
      else Inl AssertionFailure)"

definition set_ip_header :: "nat \<Rightarrow> nat \<Rightarrow> packet \<Rightarrow> packet res" where
  "set_ip_header off len p = set_network_header off len p"

definition set_dst_ip_anno :: "ipaddr \<Rightarrow> packet \<Rightarrow> packet" where
  "set_dst_ip_anno a p = p\<lparr>p_dst_ip_anno := a\<rparr>"

section \<open>Effects of an element on its ports\<close>

text \<open>
  What a handler does to packets: hand one to an output port (ownership goes with it), or
  free one. A handler that does neither with its input packet leaks it.
\<close>

datatype effect = Push nat packet | Kill packet

text \<open>Timers: the delay, in milliseconds from now, for which a \<open>Timer\<close> is scheduled.\<close>

datatype timer = Unscheduled | After_msec int

section \<open>Laws of the primitives\<close>

lemma alloc_data_length:
  "alloc_data mem h l t = Some b \<Longrightarrow> length b = max (l + h + t) 64"
  by (auto simp: alloc_data_def Let_def min_buffer_length_def)

lemma Packet_make_SomeD:
  assumes "Packet_make mem h None l t = Some p"
  shows "p_data p = h" "p_len p = l" "length (p_buf p) = max (l + h + t) 64"
    "p_nh p = None" "p_h p = None" "p_mac p = None" "p_use_count p = 1" "\<not> p_data_packet p"
    "p_dst_ip_anno p = 0"
  using assms by (auto simp: Packet_make_def alloc_data_length split: option.splits)

lemma wf_pkt_make: "Packet_make mem h None l t = Some p \<Longrightarrow> wf_pkt p"
  by (simp add: wf_pkt_def Packet_make_SomeD)

lemma wf_pkt_pull [pkt_simps]: "wf_pkt p \<Longrightarrow> wf_pkt (pkt_pull n p)"
  by (auto simp: wf_pkt_def pkt_pull_def Let_def)

lemma wf_pkt_take [pkt_simps]: "wf_pkt p \<Longrightarrow> wf_pkt (pkt_take n p)"
  by (auto simp: wf_pkt_def pkt_take_def Let_def)

lemma pkt_bytes_pull:
  "pkt_bytes (pkt_pull n p) = drop n (pkt_bytes p)"
  by (auto simp: pkt_bytes_def pkt_pull_def chunk_def Let_def drop_take add.commute)

lemma pkt_bytes_take:
  assumes "wf_pkt p"
  shows "pkt_bytes (pkt_take n p) = take (p_len p - n) (pkt_bytes p)"
  using assms by (auto simp: pkt_bytes_def pkt_take_def chunk_def wf_pkt_def Let_def)

lemma pkt_push_fast:
  assumes "len \<le> p_data p" and "\<not> shared p"
  shows "pkt_push mem len p = Some (p\<lparr>p_data := p_data p - len, p_len := p_len p + len\<rparr>)"
  using assms by (simp add: pkt_push_def headroom_def)

theorem pkt_pull_push:
  assumes "pkt_push mem len p = Some q" and "wf_pkt p"
  shows "wf_pkt q \<and> pkt_bytes (pkt_pull len q) = pkt_bytes p"
proof (cases "len \<le> headroom p \<and> \<not> shared p")
  case True
  with assms have q: "q = p\<lparr>p_data := p_data p - len, p_len := p_len p + len\<rparr>"
    by (simp add: pkt_push_def)
  from True assms(2) show ?thesis
    by (simp add: q wf_pkt_def pkt_pull_def pkt_bytes_def headroom_def)
next
  case False
  define e where "e = (len + 128) div 4 * 4"
  have "len \<le> e" by (simp add: e_def)
  from False assms(1) obtain b where b: "alloc_data mem (p_data p + e) (p_len p) (tailroom p) = Some b"
    and q: "p_buf q = patch e (p_buf p) b" "p_data q = p_data p + e - len" "p_len q = p_len p + len"
    by (auto simp: pkt_push_def expensive_uniqueify_def headroom_def e_def split: option.splits)
  have lb: "e + length (p_buf p) \<le> length b"
    using alloc_data_length [OF b] assms(2) by (simp add: tailroom_def wf_pkt_def)
  have "chunk (p_data p + e) (p_len p) (patch e (p_buf p) b) = chunk (p_data p) (p_len p) (p_buf p)"
    using lb assms(2) by (simp add: chunk_patch_within wf_pkt_def)
  with \<open>len \<le> e\<close> lb assms(2) q show ?thesis
    by (simp add: wf_pkt_def pkt_pull_def pkt_bytes_def)
qed

section \<open>Properties\<close>

text \<open>
  Prepending room for a header and pulling it again gives back the data of the packet,
  whether \<open>push\<close> finds headroom or has to copy a full or shared buffer into a larger one.
\<close>

theorem push_then_pull:
  assumes "pkt_push mem len p = Some q" and "wf_pkt p"
  shows "wf_pkt q \<and> p_len q = p_len p + len \<and> pkt_bytes (pkt_pull len q) = pkt_bytes p"
proof -
  have "p_len q = p_len p + len"
    using assms(1) by (auto simp: pkt_push_def expensive_uniqueify_def split: if_splits option.splits)
  with pkt_pull_push [OF assms] show ?thesis by simp
qed

theorem push_then_pull_witness:
  "\<exists>q. pkt_push (\<lambda>n. Some (\<lambda>i. 0)) 14 \<lparr>p_buf = [1, 2, 3], p_data = 1, p_len = 2, p_mac = None,
       p_nh = Some 1, p_h = None, p_dst_ip_anno = 0, p_use_count = 2, p_data_packet = False\<rparr> = Some q \<and>
     pkt_bytes (pkt_pull 14 q) = [2, 3]"
proof -
  let ?p = "\<lparr>p_buf = [1, 2, 3 :: byte], p_data = 1, p_len = 2, p_mac = None,
       p_nh = Some 1, p_h = None, p_dst_ip_anno = 0, p_use_count = 2, p_data_packet = False\<rparr>"
  have "\<exists>q. pkt_push (\<lambda>n. Some (\<lambda>i. 0)) 14 ?p = Some q"
    by (simp add: pkt_push_def shared_def expensive_uniqueify_def alloc_data_def Let_def)
  moreover have "wf_pkt ?p" "pkt_bytes ?p = [2, 3]" by (simp_all add: wf_pkt_def pkt_bytes_def chunk_def)
  ultimately show ?thesis using push_then_pull [of "\<lambda>n. Some (\<lambda>i. 0)" 14 ?p] by auto
qed

end
