(* ===== verification/Wire_Formats.thy ===== *)
theory Wire_Formats
  imports Packet_Buffer
begin

text \<open>
  The structures the elements overlay on packet memory, and the decoded structures they
  pass around: \<^verbatim>\<open>elements/packets/packets.hh\<close>, \<^verbatim>\<open>elements/packets/structures.hh\<close>,
  \<^verbatim>\<open>elements/structures/EthernetAddress.hh\<close> and the header structs of \<^verbatim>\<open>click/include/clicknet\<close>.
  A struct is a record; \<open>enc_\<dots>\<close> is its memory image and \<open>dec_\<dots>\<close> what the fields read
  from memory. Multi-byte fields hold the raw stored value, so the code's \<open>htons\<close> and
  \<open>ntohs\<close> stay visible in the builders and processors. Bit fields are laid out from the
  least significant bit (System V ABI, little endian), which is why the structs list them
  in reverse wire order.

  The locale \<open>wire_format\<close> is the contract of such an overlay: a fixed size and a decoding
  that inverts the encoding in both directions. Its lemmas say what a store followed by a
  load through the same pointer yields; every struct is an interpretation.
\<close>

section \<open>The contract of an overlay\<close>

locale wire_format =
  fixes enc :: "'s \<Rightarrow> byte list"
    and dec :: "byte list \<Rightarrow> 's"
    and size_of :: nat
  assumes length_enc: "length (enc s) = size_of"
    and dec_enc: "dec (enc s) = s"
    and enc_dec: "length bs = size_of \<Longrightarrow> enc (dec bs) = bs"
begin

lemma load_store:
  assumes "off + size_of \<le> length buf"
  shows "dec (chunk off size_of (patch off (enc s) buf)) = s"
  using assms chunk_patch_same [of off "enc s" buf] by (simp add: length_enc dec_enc)

lemma store_load:
  assumes "off + size_of \<le> length buf"
  shows "patch off (enc (dec (chunk off size_of buf))) buf = buf"
proof -
  have "enc (dec (chunk off size_of buf)) = chunk off size_of buf"
    using assms by (intro enc_dec) simp
  then show ?thesis
    using assms by (simp add: patch_def chunk_def min_def) (metis add.commute append_take_drop_id drop_drop)
qed

lemma enc_inject: "enc s = enc t \<longleftrightarrow> s = t"
  by (metis dec_enc)

end

section \<open>Link, network and transport headers\<close>

record click_ether =
  ether_dhost :: "byte list"
  ether_shost :: "byte list"
  ether_type :: u16

definition enc_ether :: "click_ether \<Rightarrow> byte list" where
  "enc_ether e = ether_dhost e @ ether_shost e @ u16_bytes (ether_type e)"

definition dec_ether :: "byte list \<Rightarrow> click_ether" where
  "dec_ether bs = \<lparr>ether_dhost = chunk 0 6 bs, ether_shost = chunk 6 6 bs,
                   ether_type = le16 (bs ! 12) (bs ! 13)\<rparr>"

definition sizeof_ether :: nat where "sizeof_ether = 14"
definition ETHERTYPE_IP :: u16 where "ETHERTYPE_IP = 0x0800"

record click_ip =
  ip_v :: "4 word"
  ip_hl :: "4 word"
  ip_tos :: byte
  ip_len :: u16
  ip_id :: u16
  ip_off :: u16
  ip_ttl :: byte
  ip_p :: byte
  ip_sum :: u16
  ip_src :: ipaddr
  ip_dst :: ipaddr

definition enc_ip :: "click_ip \<Rightarrow> byte list" where
  "enc_ip h =
     [ucast (ip_hl h) OR push_bit 4 (ucast (ip_v h)), ip_tos h]
     @ u16_bytes (ip_len h) @ u16_bytes (ip_id h) @ u16_bytes (ip_off h)
     @ [ip_ttl h, ip_p h] @ u16_bytes (ip_sum h)
     @ u32_bytes (ip_src h) @ u32_bytes (ip_dst h)"

definition dec_ip :: "byte list \<Rightarrow> click_ip" where
  "dec_ip bs =
     \<lparr>ip_v = ucast (drop_bit 4 (bs ! 0)), ip_hl = ucast (bs ! 0), ip_tos = bs ! 1,
      ip_len = le16 (bs ! 2) (bs ! 3), ip_id = le16 (bs ! 4) (bs ! 5),
      ip_off = le16 (bs ! 6) (bs ! 7), ip_ttl = bs ! 8, ip_p = bs ! 9,
      ip_sum = le16 (bs ! 10) (bs ! 11),
      ip_src = le32 (bs ! 12) (bs ! 13) (bs ! 14) (bs ! 15),
      ip_dst = le32 (bs ! 16) (bs ! 17) (bs ! 18) (bs ! 19)\<rparr>"

definition sizeof_ip :: nat where "sizeof_ip = 20"
definition IP_PROTO_ICMP :: byte where "IP_PROTO_ICMP = 1"
definition IP_PROTO_IPIP :: byte where "IP_PROTO_IPIP = 4"
definition IP_PROTO_UDP :: byte where "IP_PROTO_UDP = 17"

record click_udp =
  uh_sport :: u16
  uh_dport :: u16
  uh_ulen :: u16
  uh_sum :: u16

definition enc_udp :: "click_udp \<Rightarrow> byte list" where
  "enc_udp u = u16_bytes (uh_sport u) @ u16_bytes (uh_dport u) @ u16_bytes (uh_ulen u)
               @ u16_bytes (uh_sum u)"

definition dec_udp :: "byte list \<Rightarrow> click_udp" where
  "dec_udp bs = \<lparr>uh_sport = le16 (bs ! 0) (bs ! 1), uh_dport = le16 (bs ! 2) (bs ! 3),
                 uh_ulen = le16 (bs ! 4) (bs ! 5), uh_sum = le16 (bs ! 6) (bs ! 7)\<rparr>"

definition sizeof_udp :: nat where "sizeof_udp = 8"

section \<open>Mobile IP messages (packets.hh)\<close>

text \<open>A byte of eight one-bit fields, the first declared in the least significant bit.\<close>

definition bits8 :: "bool list \<Rightarrow> byte" where
  "bits8 bs = horner_sum of_bool 2 bs"

record registrationRequestPacket =
  rrp_type :: byte
  rrp_x :: bool
  rrp_T :: bool
  rrp_r :: bool
  rrp_G :: bool
  rrp_M :: bool
  rrp_D :: bool
  rrp_B :: bool
  rrp_S :: bool
  rrp_lifetime :: u16
  rrp_homeAddress :: ipaddr
  rrp_homeAgent :: ipaddr
  rrp_careOfAddress :: ipaddr
  rrp_identification1 :: u32
  rrp_identification2 :: u32

definition enc_regreq :: "registrationRequestPacket \<Rightarrow> byte list" where
  "enc_regreq f =
     [rrp_type f,
      bits8 [rrp_x f, rrp_T f, rrp_r f, rrp_G f, rrp_M f, rrp_D f, rrp_B f, rrp_S f]]
     @ u16_bytes (rrp_lifetime f) @ u32_bytes (rrp_homeAddress f) @ u32_bytes (rrp_homeAgent f)
     @ u32_bytes (rrp_careOfAddress f) @ u32_bytes (rrp_identification1 f)
     @ u32_bytes (rrp_identification2 f)"

definition dec_regreq :: "byte list \<Rightarrow> registrationRequestPacket" where
  "dec_regreq bs =
     \<lparr>rrp_type = bs ! 0,
      rrp_x = bit (bs ! 1) 0, rrp_T = bit (bs ! 1) 1, rrp_r = bit (bs ! 1) 2,
      rrp_G = bit (bs ! 1) 3, rrp_M = bit (bs ! 1) 4, rrp_D = bit (bs ! 1) 5,
      rrp_B = bit (bs ! 1) 6, rrp_S = bit (bs ! 1) 7,
      rrp_lifetime = le16 (bs ! 2) (bs ! 3),
      rrp_homeAddress = le32 (bs ! 4) (bs ! 5) (bs ! 6) (bs ! 7),
      rrp_homeAgent = le32 (bs ! 8) (bs ! 9) (bs ! 10) (bs ! 11),
      rrp_careOfAddress = le32 (bs ! 12) (bs ! 13) (bs ! 14) (bs ! 15),
      rrp_identification1 = le32 (bs ! 16) (bs ! 17) (bs ! 18) (bs ! 19),
      rrp_identification2 = le32 (bs ! 20) (bs ! 21) (bs ! 22) (bs ! 23)\<rparr>"

definition sizeof_regreq :: nat where "sizeof_regreq = 24"

record registrationReplyPacket =
  rpp_type :: byte
  rpp_code :: byte
  rpp_lifetime :: u16
  rpp_homeAddress :: ipaddr
  rpp_homeAgent :: ipaddr
  rpp_identification1 :: u32
  rpp_identification2 :: u32

definition enc_regrep :: "registrationReplyPacket \<Rightarrow> byte list" where
  "enc_regrep f =
     [rpp_type f, rpp_code f] @ u16_bytes (rpp_lifetime f) @ u32_bytes (rpp_homeAddress f)
     @ u32_bytes (rpp_homeAgent f) @ u32_bytes (rpp_identification1 f)
     @ u32_bytes (rpp_identification2 f)"

definition dec_regrep :: "byte list \<Rightarrow> registrationReplyPacket" where
  "dec_regrep bs =
     \<lparr>rpp_type = bs ! 0, rpp_code = bs ! 1, rpp_lifetime = le16 (bs ! 2) (bs ! 3),
      rpp_homeAddress = le32 (bs ! 4) (bs ! 5) (bs ! 6) (bs ! 7),
      rpp_homeAgent = le32 (bs ! 8) (bs ! 9) (bs ! 10) (bs ! 11),
      rpp_identification1 = le32 (bs ! 12) (bs ! 13) (bs ! 14) (bs ! 15),
      rpp_identification2 = le32 (bs ! 16) (bs ! 17) (bs ! 18) (bs ! 19)\<rparr>"

definition sizeof_regrep :: nat where "sizeof_regrep = 20"

record routerAdvertisementMessage =
  ram_type :: byte
  ram_code :: byte
  ram_checksum :: u16
  ram_numAddrs :: byte
  ram_addrEntrySize :: byte
  ram_lifetime :: u16
  ram_address :: ipaddr
  ram_preferenceLevel :: u32
  ram_type2 :: byte
  ram_length :: byte
  ram_sequenceNumber :: u16
  ram_registrationLifetime :: u16
  ram_T :: bool
  ram_r :: bool
  ram_G :: bool
  ram_M :: bool
  ram_F :: bool
  ram_H :: bool
  ram_B :: bool
  ram_R :: bool
  ram_reserved :: "5 word"
  ram_I :: bool
  ram_X :: bool
  ram_U :: bool
  ram_careOfAddress :: ipaddr

definition enc_adv :: "routerAdvertisementMessage \<Rightarrow> byte list" where
  "enc_adv f =
     [ram_type f, ram_code f] @ u16_bytes (ram_checksum f)
     @ [ram_numAddrs f, ram_addrEntrySize f] @ u16_bytes (ram_lifetime f)
     @ u32_bytes (ram_address f) @ u32_bytes (ram_preferenceLevel f)
     @ [ram_type2 f, ram_length f] @ u16_bytes (ram_sequenceNumber f)
     @ u16_bytes (ram_registrationLifetime f)
     @ [bits8 [ram_T f, ram_r f, ram_G f, ram_M f, ram_F f, ram_H f, ram_B f, ram_R f],
        ucast (ram_reserved f) OR push_bit 5 (bits8 [ram_I f, ram_X f, ram_U f])]
     @ u32_bytes (ram_careOfAddress f)"

definition dec_adv :: "byte list \<Rightarrow> routerAdvertisementMessage" where
  "dec_adv bs =
     \<lparr>ram_type = bs ! 0, ram_code = bs ! 1, ram_checksum = le16 (bs ! 2) (bs ! 3),
      ram_numAddrs = bs ! 4, ram_addrEntrySize = bs ! 5, ram_lifetime = le16 (bs ! 6) (bs ! 7),
      ram_address = le32 (bs ! 8) (bs ! 9) (bs ! 10) (bs ! 11),
      ram_preferenceLevel = le32 (bs ! 12) (bs ! 13) (bs ! 14) (bs ! 15),
      ram_type2 = bs ! 16, ram_length = bs ! 17, ram_sequenceNumber = le16 (bs ! 18) (bs ! 19),
      ram_registrationLifetime = le16 (bs ! 20) (bs ! 21),
      ram_T = bit (bs ! 22) 0, ram_r = bit (bs ! 22) 1, ram_G = bit (bs ! 22) 2,
      ram_M = bit (bs ! 22) 3, ram_F = bit (bs ! 22) 4, ram_H = bit (bs ! 22) 5,
      ram_B = bit (bs ! 22) 6, ram_R = bit (bs ! 22) 7,
      ram_reserved = ucast (bs ! 23),
      ram_I = bit (bs ! 23) 5, ram_X = bit (bs ! 23) 6, ram_U = bit (bs ! 23) 7,
      ram_careOfAddress = le32 (bs ! 24) (bs ! 25) (bs ! 26) (bs ! 27)\<rparr>"

definition sizeof_adv :: nat where "sizeof_adv = 28"

record routerSolicitationMessage =
  rsm_type :: byte
  rsm_code :: byte
  rsm_checksum :: u16
  rsm_reserved :: u32

definition enc_sol :: "routerSolicitationMessage \<Rightarrow> byte list" where
  "enc_sol f = [rsm_type f, rsm_code f] @ u16_bytes (rsm_checksum f) @ u32_bytes (rsm_reserved f)"

definition dec_sol :: "byte list \<Rightarrow> routerSolicitationMessage" where
  "dec_sol bs = \<lparr>rsm_type = bs ! 0, rsm_code = bs ! 1, rsm_checksum = le16 (bs ! 2) (bs ! 3),
                 rsm_reserved = le32 (bs ! 4) (bs ! 5) (bs ! 6) (bs ! 7)\<rparr>"

definition sizeof_sol :: nat where "sizeof_sol = 8"

lemmas sizeofs [wire_simps] =
  sizeof_ether_def sizeof_ip_def sizeof_udp_def sizeof_regreq_def sizeof_regrep_def
  sizeof_adv_def sizeof_sol_def

section \<open>Decoded structures (structures.hh)\<close>

type_synonym ethaddr = "byte list"

record UDPHeader =
  sourcePort :: u32
  destinationPort :: u32

record IPHeader =
  ipsource :: ipaddr
  ipdestination :: ipaddr

record EtherHeader =
  ethsource :: ethaddr
  ethdestination :: ethaddr

record tunnelIP =
  tun_source :: ipaddr
  tun_destination :: ipaddr
  tun_ttl :: u32
  tun_originalIP :: IPHeader

record routerAdvertisement =
  ra_lifetime :: u32
  ra_code :: u32
  ra_sequenceNumber :: u32
  ra_registrationLifetime :: u32
  ra_homeAgent :: bool
  ra_foreignAgent :: bool
  ra_careOfAddress :: ipaddr
  ra_IP :: IPHeader

record routerSolicitation =
  rs_IP :: IPHeader

record registrationRequest =
  rr_S :: bool
  rr_B :: bool
  rr_D :: bool
  rr_M :: bool
  rr_G :: bool
  rr_r :: bool
  rr_T :: bool
  rr_x :: bool
  rr_lifetime :: u32
  rr_home :: ipaddr
  rr_homeAgent :: ipaddr
  rr_careOf :: ipaddr
  rr_UDP :: UDPHeader
  rr_IP :: IPHeader
  rr_identification :: u32

record registrationReply =
  rp_code :: u32
  rp_lifetime :: u32
  rp_home :: ipaddr
  rp_homeAgent :: ipaddr
  rp_UDP :: UDPHeader
  rp_IP :: IPHeader
  rp_identification :: u32

record agentConnection =
  ac_connected :: bool
  ac_isHome :: bool
  ac_agentAddress :: ipaddr
  ac_careOfAddress :: ipaddr
  ac_lifetime :: u32
  ac_remainingLifetime :: u32

definition init_agentConnection :: agentConnection where
  "init_agentConnection = \<lparr>ac_connected = False, ac_isHome = True, ac_agentAddress = 0,
     ac_careOfAddress = 0, ac_lifetime = 0, ac_remainingLifetime = 0\<rparr>"

text \<open>\<open>IPAddress()\<close> is 0.0.0.0, the default of every \<open>IPHeader\<close> field.\<close>

definition init_IPHeader :: IPHeader where
  "init_IPHeader = \<lparr>ipsource = 0, ipdestination = 0\<rparr>"

definition IP_ANY :: ipaddr where "IP_ANY = 0"
definition IP_BROADCAST :: ipaddr where "IP_BROADCAST = 0xffffffff"

section \<open>EthernetAddress\<close>

definition EthernetAddress0 :: ethaddr where
  "EthernetAddress0 = replicate 6 0"

definition EthernetAddress :: "byte list \<Rightarrow> ethaddr" where
  "EthernetAddress data = map (\<lambda>i. data ! i) [0..<6]"

definition isZero :: "ethaddr \<Rightarrow> bool" where
  "isZero eth \<longleftrightarrow> list_all (\<lambda>i. eth ! i = 0) [0..<6]"

definition isBroadcast :: "ethaddr \<Rightarrow> bool" where
  "isBroadcast eth \<longleftrightarrow> list_all (\<lambda>i. eth ! i = 255) [0..<6]"


section \<open>Every overlay meets the contract\<close>

lemma bit_bits8 [simp]:
  "length bs \<le> 8 \<Longrightarrow> bit (bits8 bs) n \<longleftrightarrow> n < length bs \<and> bs ! n"
  by (auto simp: bits8_def bit_horner_sum_bit_iff)

lemma bits8_of_byte [simp]:
  "bits8 [bit b 0, bit b (Suc 0), bit b 2, bit b 3, bit b 4, bit b 5, bit b 6, bit b 7] = b"
proof (rule bit_word_eqI)
  fix n assume "n < LENGTH(8)"
  then have "n \<in> {0, 1, 2, 3, 4, 5, 6, 7}" by auto
  then show "bit (bits8 [bit b 0, bit b (Suc 0), bit b 2, bit b 3, bit b 4, bit b 5, bit b 6, bit b 7]) n
      = bit b n" by auto
qed

lemma nibbles_of_byte [simp]:
  "ucast (ucast b :: 4 word) OR push_bit 4 (ucast (ucast (drop_bit 4 b) :: 4 word)) = (b :: byte)"
  by (rule bit_word_eqI) (auto simp: bit_simps)

lemma nibble_lo [simp]: "ucast (ucast (l :: 4 word) OR push_bit 4 (ucast (h :: 4 word)) :: byte) = l"
  by (rule bit_word_eqI) (auto simp: bit_simps)

lemma nibble_hi [simp]:
  "ucast (drop_bit 4 (ucast (l :: 4 word)) OR drop_bit 4 (push_bit 4 (ucast (h :: 4 word))) :: byte) = h"
  by (rule bit_word_eqI) (auto simp: bit_simps dest: bit_imp_le_length)

lemma reserved_lo [simp]: "ucast (ucast (l :: 5 word) OR push_bit 5 h :: byte) = l"
  by (rule bit_word_eqI) (auto simp: bit_simps)

lemma reserved_hi [simp]:
  "bit (ucast (l :: 5 word) OR push_bit 5 h :: byte) 5 = bit h 0"
  "bit (ucast (l :: 5 word) OR push_bit 5 h :: byte) 6 = bit h 1"
  "bit (ucast (l :: 5 word) OR push_bit 5 h :: byte) 7 = bit h 2"
  by (auto simp: bit_simps dest: bit_imp_le_length)

lemma reserved_of_byte [simp]:
  "ucast (ucast b :: 5 word) OR push_bit 5 (bits8 [bit b 5, bit b 6, bit b 7]) = (b :: byte)"
proof (rule bit_word_eqI)
  fix n assume "n < LENGTH(8)"
  then have "n \<in> {0, 1, 2, 3, 4, 5, 6, 7}" by auto
  then show "bit (ucast (ucast b :: 5 word) OR push_bit 5 (bits8 [bit b 5, bit b 6, bit b 7]) :: byte) n
      = bit b n" by (auto simp: bit_simps)
qed

lemma u16_bytes_le16 [simp]: "u16_bytes (le16 a b) = [a, b]"
  by (simp add: u16_bytes_def)

lemma u32_bytes_le32 [simp]: "u32_bytes (le32 a b c d) = [a, b, c, d]"
  by (simp add: u32_bytes_def)

text \<open>An explicit list of a given length, to compute the encodings of a decoding.\<close>

lemma list_length_8: "length bs = 8 \<Longrightarrow> \<exists>a b c d e f g h. bs = [a, b, c, d, e, f, g, h]"
  by (auto simp: numeral_eq_Suc length_Suc_conv)

lemma length_split:
  assumes "length bs = m + n"
  obtains xs ys where "bs = xs @ ys" "length xs = m" "length ys = n"
  using assms by (metis append_take_drop_id length_drop length_take diff_add_inverse le_add1 min_absorb2)

lemma nth_list_explicit:
  "bs = map ((!) bs) [0..<length bs]"
  by (simp add: map_nth)

interpretation ip: wire_format enc_ip dec_ip sizeof_ip
proof
  show "length (enc_ip s) = sizeof_ip" for s
    by (simp add: enc_ip_def sizeof_ip_def)
  show "dec_ip (enc_ip s) = s" for s
    by (simp add: enc_ip_def dec_ip_def u16_bytes_def u32_bytes_def)
  show "enc_ip (dec_ip bs) = bs" if "length bs = sizeof_ip" for bs
  proof -
    have "enc_ip (dec_ip bs) = map ((!) bs) [0..<20]"
      by (simp add: enc_ip_def dec_ip_def upt_rec) (simp add: numeral_eq_Suc)
    then show ?thesis using that nth_list_explicit [of bs] by (simp add: sizeof_ip_def)
  qed
qed

interpretation udp: wire_format enc_udp dec_udp sizeof_udp
proof
  show "length (enc_udp s) = sizeof_udp" for s
    by (simp add: enc_udp_def sizeof_udp_def)
  show "dec_udp (enc_udp s) = s" for s
    by (simp add: enc_udp_def dec_udp_def u16_bytes_def)
  show "enc_udp (dec_udp bs) = bs" if "length bs = sizeof_udp" for bs
  proof -
    have "enc_udp (dec_udp bs) = map ((!) bs) [0..<8]"
      by (simp add: enc_udp_def dec_udp_def upt_rec) (simp add: numeral_eq_Suc)
    then show ?thesis using that nth_list_explicit [of bs] by (simp add: sizeof_udp_def)
  qed
qed

interpretation regreq: wire_format enc_regreq dec_regreq sizeof_regreq
proof
  show "length (enc_regreq s) = sizeof_regreq" for s
    by (simp add: enc_regreq_def sizeof_regreq_def)
  show "dec_regreq (enc_regreq s) = s" for s
    by (simp add: enc_regreq_def dec_regreq_def u16_bytes_def u32_bytes_def)
  show "enc_regreq (dec_regreq bs) = bs" if "length bs = sizeof_regreq" for bs
  proof -
    have "enc_regreq (dec_regreq bs) = map ((!) bs) [0..<24]"
      by (simp add: enc_regreq_def dec_regreq_def upt_rec) (simp add: numeral_eq_Suc)
    then show ?thesis using that nth_list_explicit [of bs] by (simp add: sizeof_regreq_def)
  qed
qed

interpretation regrep: wire_format enc_regrep dec_regrep sizeof_regrep
proof
  show "length (enc_regrep s) = sizeof_regrep" for s
    by (simp add: enc_regrep_def sizeof_regrep_def)
  show "dec_regrep (enc_regrep s) = s" for s
    by (simp add: enc_regrep_def dec_regrep_def u16_bytes_def u32_bytes_def)
  show "enc_regrep (dec_regrep bs) = bs" if "length bs = sizeof_regrep" for bs
  proof -
    have "enc_regrep (dec_regrep bs) = map ((!) bs) [0..<20]"
      by (simp add: enc_regrep_def dec_regrep_def upt_rec) (simp add: numeral_eq_Suc)
    then show ?thesis using that nth_list_explicit [of bs] by (simp add: sizeof_regrep_def)
  qed
qed

interpretation adv: wire_format enc_adv dec_adv sizeof_adv
proof
  show "length (enc_adv s) = sizeof_adv" for s
    by (simp add: enc_adv_def sizeof_adv_def)
  show "dec_adv (enc_adv s) = s" for s
    by (simp add: enc_adv_def dec_adv_def u16_bytes_def u32_bytes_def)
  show "enc_adv (dec_adv bs) = bs" if "length bs = sizeof_adv" for bs
  proof -
    have "enc_adv (dec_adv bs) = map ((!) bs) [0..<28]"
      by (simp add: enc_adv_def dec_adv_def upt_rec) (simp add: numeral_eq_Suc)
    then show ?thesis using that nth_list_explicit [of bs] by (simp add: sizeof_adv_def)
  qed
qed

interpretation sol: wire_format enc_sol dec_sol sizeof_sol
proof
  show "length (enc_sol s) = sizeof_sol" for s
    by (simp add: enc_sol_def sizeof_sol_def)
  show "dec_sol (enc_sol s) = s" for s
    by (simp add: enc_sol_def dec_sol_def u16_bytes_def u32_bytes_def)
  show "enc_sol (dec_sol bs) = bs" if "length bs = sizeof_sol" for bs
  proof -
    have "enc_sol (dec_sol bs) = map ((!) bs) [0..<8]"
      by (simp add: enc_sol_def dec_sol_def upt_rec) (simp add: numeral_eq_Suc)
    then show ?thesis using that nth_list_explicit [of bs] by (simp add: sizeof_sol_def)
  qed
qed

lemmas length_encs [wire_simps] =
  ip.length_enc udp.length_enc regreq.length_enc regrep.length_enc adv.length_enc sol.length_enc

lemma ether_roundtrip:
  assumes "length (ether_dhost e) = 6" and "length (ether_shost e) = 6"
  shows "length (enc_ether e) = sizeof_ether" and "dec_ether (enc_ether e) = e"
  using assms
  by (simp_all add: enc_ether_def dec_ether_def sizeof_ether_def chunk_def nth_append u16_bytes_def)

end
