(* ===== verification/Packet_Processors.thy ===== *)
theory Packet_Processors
  imports Packet_Builders
begin

text \<open>
  \<^verbatim>\<open>elements/packets/PacketProcessors.cc\<close>: recognising and decoding the messages. Every read
  goes through the packet's buffer and may fault; a bad checksum is an exception. The
  functions that verify a checksum write zero into the field, recompute and write the old
  value back: on the path that returns, the packet is unchanged, so they return the decoded
  structure only; on the throwing path no caller uses the packet again.

  \<open>UDPHeader structure;\<close> and the like declare uninitialised locals. Where the code can
  return one, its value is the parameter \<open>undef\<close>.
\<close>

datatype PacketType = IPINIP | ADVERTISEMENT | SOLICITATION | REGISTRATION | REPLY | UNKOWN

definition getPacketType :: "packet \<Rightarrow> PacketType res" where
  "getPacketType p =
     res_bind (rd p (p_data p + 12) 2) (\<lambda>ty.
     let etherOffset = (if le16 (ty ! 0) (ty ! 1) = htons ETHERTYPE_IP then sizeof_ether else 0) in
     case p_nh p of
       None \<Rightarrow> Inr UNKOWN
     | Some nh \<Rightarrow>
         res_bind (rd8 p (nh + 9)) (\<lambda>proto.
         if proto = IP_PROTO_ICMP then
           (let f = p_data p + sizeof_ip + etherOffset in
            res_bind (rd8 p f) (\<lambda>type.
            if type = 9 then
              res_bind (rd8 p (f + 1)) (\<lambda>code.
                if code = 16 \<or> code = 0 then Inr ADVERTISEMENT else Inr UNKOWN)
            else if type = 10 then Inr SOLICITATION
            else Inr UNKOWN))
         else if proto = IP_PROTO_IPIP then Inr IPINIP
         else if proto = IP_PROTO_UDP then
           (let f = p_data p + (sizeof_ip + sizeof_udp) + etherOffset in
            res_bind (rd8 p f) (\<lambda>type.
            if type = 1 then Inr REGISTRATION
            else if type = 3 then Inr REPLY
            else Inr UNKOWN))
         else Inr UNKOWN))"

definition processEtherHeader :: "packet \<Rightarrow> bool \<Rightarrow> (EtherHeader \<times> packet) res" where
  "processEtherHeader p stripHeader =
     res_bind (rd p (p_data p) sizeof_ether) (\<lambda>bs.
     let format = dec_ether bs;
         structure = \<lparr>ethsource = EthernetAddress (ether_shost format),
                      ethdestination = EthernetAddress (ether_dhost format)\<rparr>
     in Inr (structure, if stripHeader then pkt_pull sizeof_ether p else p))"

text \<open>
  \<open>processUDPHeader\<close>: the checksum covers \<open>uh_ulen\<close> bytes from the transport header on,
  a length the sender chose.
\<close>

definition processUDPHeader :: "UDPHeader \<Rightarrow> packet \<Rightarrow> UDPHeader res" where
  "processUDPHeader undef p =
     (case p_nh p of
        None \<Rightarrow> Inr undef
      | Some nh \<Rightarrow>
          res_bind (rd8 p (nh + 9)) (\<lambda>proto.
          if proto \<noteq> IP_PROTO_UDP then Inr undef
          else
          res_bind (rd p (nh + sizeof_ip) sizeof_udp) (\<lambda>bs.
          let format = dec_udp bs;
              structure = \<lparr>sourcePort = ucast (ntohs (uh_sport format)),
                           destinationPort = ucast (ntohs (uh_dport format))\<rparr>;
              length = ntohs (uh_ulen format) in
          if uh_sum format = 0 then Inr structure
          else
          res_bind (deref (p_h p)) (\<lambda>udp.
          res_bind (rd p udp (unat length)) (\<lambda>data.
          res_bind (rd p nh sizeof_ip) (\<lambda>hbs.
          let ip = dec_ip hbs; hl = unat (ip_hl ip) in
          res_bind (rd p (nh + sizeof_ip) (4 * hl - sizeof_ip)) (\<lambda>options.
          if click_in_cksum_pseudohdr (click_in_cksum data) hl options (ip_src ip) (ip_dst ip)
               (ip_p ip) length \<noteq> 0
          then Inl (InvalidChecksumException ''UDP Header'')
          else Inr structure)))))))"

definition processIPHeader :: "packet \<Rightarrow> IPHeader res" where
  "processIPHeader p =
     (case p_nh p of
        None \<Rightarrow> Inr init_IPHeader
      | Some nh \<Rightarrow>
          res_bind (rd p nh sizeof_ip) (\<lambda>bs.
          let format = dec_ip bs;
              structure = \<lparr>ipsource = ip_src format, ipdestination = ip_dst format\<rparr> in
          if ip_sum format = 0 then Inl (ZeroChecksumException ''IP Header'')
          else if click_in_cksum (enc_ip (format\<lparr>ip_sum := 0\<rparr>)) \<noteq> ip_sum format
            then Inl (InvalidChecksumException ''IP Header'')
          else Inr structure))"

text \<open>
  \<open>processTunnelIPPacket\<close> reads the outer header at the data pointer and the inner one right
  behind it. With \<open>stripIPHeader\<close> it drops the outer header, copies the outer TTL into the
  inner header, recomputes that header's checksum and points the annotations at it.
\<close>

definition processTunnelIPPacket :: "packet \<Rightarrow> bool \<Rightarrow> (tunnelIP \<times> packet) res" where
  "processTunnelIPPacket p stripIPHeader =
     res_bind (rd p (p_data p) sizeof_ip) (\<lambda>outer.
     res_bind (rd p (p_data p + sizeof_ip) sizeof_ip) (\<lambda>inner.
     let ipinip = dec_ip outer; ip = dec_ip inner;
         structure = \<lparr>tun_source = ip_src ipinip, tun_destination = ip_dst ipinip,
                      tun_ttl = ucast (ip_ttl ipinip),
                      tun_originalIP = \<lparr>ipsource = ip_src ip, ipdestination = ip_dst ip\<rparr>\<rparr> in
     if \<not> stripIPHeader then Inr (structure, p)
     else
       let q = pkt_pull sizeof_ip p in
       res_bind (rd q (p_data q) sizeof_ip) (\<lambda>bs.
       res_bind (wr q (p_data q)
          (enc_ip (with_sum ((dec_ip bs)\<lparr>ip_ttl := ucast (tun_ttl structure)\<rparr>)))) (\<lambda>q.
       res_bind (set_ip_header (p_data q) sizeof_ip q) (\<lambda>q.
       Inr (structure, set_dst_ip_anno (ipdestination (tun_originalIP structure)) q))))))"

definition processRouterAdvertisementMessage :: "packet \<Rightarrow> routerAdvertisement res" where
  "processRouterAdvertisementMessage p =
     res_bind (rd p (p_data p + sizeof_ip) sizeof_adv) (\<lambda>bs.
     let format = dec_adv bs in
     if click_in_cksum (enc_adv (format\<lparr>ram_checksum := 0\<rparr>)) \<noteq> ram_checksum format
     then Inl (InvalidChecksumException ''Advertisement'')
     else res_bind (processIPHeader p) (\<lambda>ip.
       Inr \<lparr>ra_lifetime = ucast (ntohs (ram_lifetime format)),
            ra_code = ucast (ram_code format),
            ra_sequenceNumber = ucast (ntohs (ram_sequenceNumber format)),
            ra_registrationLifetime = ucast (ntohs (ram_registrationLifetime format)),
            ra_homeAgent = ram_H format,
            ra_foreignAgent = ram_H format,
            ra_careOfAddress = ram_careOfAddress format,
            ra_IP = ip\<rparr>))"

definition processRouterSolicitationMessage :: "packet \<Rightarrow> routerSolicitation res" where
  "processRouterSolicitationMessage p =
     res_bind (rd p (p_data p + sizeof_ip) sizeof_sol) (\<lambda>bs.
     let format = dec_sol bs in
     if click_in_cksum (enc_sol (format\<lparr>rsm_checksum := 0\<rparr>)) \<noteq> rsm_checksum format
     then Inl (InvalidChecksumException ''Advertisement'')
     else res_bind (processIPHeader p) (\<lambda>ip. Inr \<lparr>rs_IP = ip\<rparr>))"

definition processRegistrationRequestPacket :: "UDPHeader \<Rightarrow> packet \<Rightarrow> registrationRequest res" where
  "processRegistrationRequestPacket undef p =
     res_bind (rd p (p_data p + (sizeof_ip + sizeof_udp)) sizeof_regreq) (\<lambda>bs.
     let format = dec_regreq bs in
     res_bind (processUDPHeader undef p) (\<lambda>udp.
     res_bind (processIPHeader p) (\<lambda>ip.
     Inr \<lparr>rr_S = rrp_S format, rr_B = rrp_B format, rr_D = rrp_D format, rr_M = rrp_M format,
          rr_G = rrp_G format, rr_r = rrp_r format, rr_T = rrp_T format, rr_x = rrp_x format,
          rr_lifetime = ucast (ntohs (rrp_lifetime format)), rr_home = rrp_homeAddress format,
          rr_homeAgent = rrp_homeAgent format, rr_careOf = rrp_careOfAddress format,
          rr_UDP = udp, rr_IP = ip,
          rr_identification = ntohl (rrp_identification2 format)\<rparr>)))"

definition processRegistrationReplyPacket :: "UDPHeader \<Rightarrow> packet \<Rightarrow> registrationReply res" where
  "processRegistrationReplyPacket undef p =
     res_bind (rd p (p_data p + (sizeof_ip + sizeof_udp)) sizeof_regrep) (\<lambda>bs.
     let format = dec_regrep bs in
     res_bind (processUDPHeader undef p) (\<lambda>udp.
     res_bind (processIPHeader p) (\<lambda>ip.
     Inr \<lparr>rp_code = ucast (rpp_code format), rp_lifetime = ucast (ntohs (rpp_lifetime format)),
          rp_home = rpp_homeAddress format, rp_homeAgent = rpp_homeAgent format,
          rp_UDP = udp, rp_IP = ip,
          rp_identification = ntohl (rpp_identification2 format)\<rparr>)))"

end
