(* ===== verification/Wire_Roundtrip.thy ===== *)
theory Wire_Roundtrip
  imports Packet_Processors
begin

text \<open>
  What the builders put on the wire is what the processors read off it. The first part
  lifts the packet primitives to the bytes of the data window; the second describes the
  datagrams the builders produce; the third runs the processors on a packet that carries
  such a datagram, whatever buffer it sits in on the receiving host.
\<close>

section \<open>Windows\<close>

lemma pkt_bytes_annos [simp]:
  "pkt_bytes (p\<lparr>p_nh := a\<rparr>) = pkt_bytes p" "pkt_bytes (p\<lparr>p_h := b\<rparr>) = pkt_bytes p"
  "pkt_bytes (p\<lparr>p_mac := c\<rparr>) = pkt_bytes p" "pkt_bytes (p\<lparr>p_dst_ip_anno := d\<rparr>) = pkt_bytes p"
  by (simp_all add: pkt_bytes_def)

lemma wf_pkt_annos [simp]:
  "wf_pkt (p\<lparr>p_nh := a\<rparr>) = wf_pkt p" "wf_pkt (p\<lparr>p_h := b\<rparr>) = wf_pkt p"
  "wf_pkt (p\<lparr>p_mac := c\<rparr>) = wf_pkt p" "wf_pkt (p\<lparr>p_dst_ip_anno := d\<rparr>) = wf_pkt p"
  by (simp_all add: wf_pkt_def)

lemma rd_data:
  assumes "wf_pkt p" and "i + n \<le> p_len p"
  shows "rd p (p_data p + i) n = Inr (chunk i n (pkt_bytes p))"
  using assms by (simp add: rd_def wf_pkt_def pkt_bytes_def chunk_chunk)

lemma rd8_data:
  assumes "wf_pkt p" and "i < p_len p"
  shows "rd8 p (p_data p + i) = Inr (pkt_bytes p ! i)"
  using assms by (simp add: rd8_def wf_pkt_def pkt_bytes_def nth_chunk)

lemma length_pkt_bytes: "wf_pkt p \<Longrightarrow> length (pkt_bytes p) = p_len p"
  by (simp add: pkt_bytes_def wf_pkt_def)

lemma wf_pkt_bufE:
  assumes "wf_pkt p"
  obtains A Z where "p_buf p = A @ pkt_bytes p @ Z" "length A = p_data p"
proof
  show "p_buf p = take (p_data p) (p_buf p) @ pkt_bytes p @ drop (p_data p + p_len p) (p_buf p)"
    by (simp add: pkt_bytes_def chunk_def) (metis add.commute append_take_drop_id drop_drop)
  show "length (take (p_data p) (p_buf p)) = p_data p"
    using assms by (simp add: wf_pkt_def)
qed

lemma patch_append_mid:
  "i + length bs \<le> length w \<Longrightarrow> patch (length A + i) bs (A @ w @ Z) = A @ patch i bs w @ Z"
  by (simp add: patch_def)

lemma pkt_bytes_store:
  assumes "wf_pkt p" and "i + length bs \<le> p_len p"
  shows "pkt_bytes (store (p_data p + i) bs p) = patch i bs (pkt_bytes p)"
proof -
  from assms(1) obtain A Z where b: "p_buf p = A @ pkt_bytes p @ Z" "length A = p_data p"
    by (rule wf_pkt_bufE)
  have "patch (p_data p + i) bs (p_buf p) = A @ patch i bs (pkt_bytes p) @ Z"
    using patch_append_mid [of i bs "pkt_bytes p" A Z] assms b by (simp add: length_pkt_bytes)
  moreover have "length (patch i bs (pkt_bytes p)) = p_len p"
    using assms by (simp add: length_pkt_bytes)
  ultimately have "chunk (p_data p) (p_len p) (patch (p_data p + i) bs (p_buf p))
      = patch i bs (pkt_bytes p)"
    using b(2) by (simp add: chunk_def)
  then show ?thesis by (simp add: pkt_bytes_def store_def)
qed

lemma wf_pkt_store:
  "wf_pkt p \<Longrightarrow> off + length bs \<le> length (p_buf p) \<Longrightarrow> wf_pkt (store off bs p)"
  by (simp add: wf_pkt_def store_def)

lemma patch_prefix: "length g = length h \<Longrightarrow> patch 0 h (g @ xs) = h @ xs"
  by (simp add: patch_def)

lemma patch_middle:
  "length g = length h \<Longrightarrow> patch (length pre) h (pre @ g @ xs) = pre @ h @ xs"
  by (simp add: patch_def)


lemma store_sel [simp]:
  "p_data (store off bs p) = p_data p" "p_len (store off bs p) = p_len p"
  "p_nh (store off bs p) = p_nh p" "p_h (store off bs p) = p_h p"
  "p_mac (store off bs p) = p_mac p" "p_dst_ip_anno (store off bs p) = p_dst_ip_anno p"
  "shared (store off bs p) = shared p"
  by (simp_all add: store_def shared_def)

lemma wr_window:
  assumes "wf_pkt p" and "i + length bs \<le> p_len p"
  shows "wr p (p_data p + i) bs = Inr (store (p_data p + i) bs p)"
    and "wf_pkt (store (p_data p + i) bs p)"
proof -
  have "p_data p + i + length bs \<le> length (p_buf p)"
    using assms by (simp add: wf_pkt_def)
  then show "wr p (p_data p + i) bs = Inr (store (p_data p + i) bs p)"
    and "wf_pkt (store (p_data p + i) bs p)"
    using assms by (simp_all add: wr_eq_store wf_pkt_store)
qed

lemmas window_simps = wr_window wr_window [where i = 0, simplified]
  pkt_bytes_store pkt_bytes_store [where i = 0, simplified]

lemma push_window:
  assumes "wf_pkt p" and "n \<le> p_data p" and "\<not> shared p"
  obtains q g where "pkt_push mem n p = Some q" "wf_pkt q" "pkt_bytes q = g @ pkt_bytes p"
    "length g = n" "p_data q = p_data p - n" "p_len q = n + p_len p" "\<not> shared q"
proof
  let ?q = "p\<lparr>p_data := p_data p - n, p_len := p_len p + n\<rparr>"
  show "pkt_push mem n p = Some ?q" using assms by (simp add: pkt_push_fast)
  show "wf_pkt ?q" using assms by (simp add: wf_pkt_def)
  have "chunk (p_data p - n) (n + p_len p) (p_buf p)
      = chunk (p_data p - n) n (p_buf p) @ chunk (p_data p) (p_len p) (p_buf p)"
    using assms(2) chunk_split [of "p_data p - n" n "p_len p" "p_buf p"] by simp
  then show "pkt_bytes ?q = chunk (p_data p - n) n (p_buf p) @ pkt_bytes p"
    by (simp add: pkt_bytes_def add.commute)
  show "length (chunk (p_data p - n) n (p_buf p)) = n"
    using assms by (simp add: wf_pkt_def)
qed (use assms in \<open>simp_all add: shared_def\<close>)

lemma set_ip_header_window:
  assumes "wf_pkt p" and "n \<le> p_len p"
  shows "set_ip_header (p_data p) n p
    = Inr (p\<lparr>p_nh := Some (p_data p), p_h := Some (p_data p + n)\<rparr>)"
  using assms by (simp add: set_ip_header_def set_network_header_def wf_pkt_def)

section \<open>The datagrams on the wire\<close>

definition ip_datagram :: "byte \<Rightarrow> byte \<Rightarrow> ipaddr \<Rightarrow> ipaddr \<Rightarrow> byte \<Rightarrow> byte list \<Rightarrow> byte list" where
  "ip_datagram proto tos source destination ttl payload =
     enc_ip (with_sum (base_ip (sizeof_ip + length payload) proto tos source destination ttl))
     @ payload"

definition udp_segment :: "ipaddr \<Rightarrow> u32 \<Rightarrow> ipaddr \<Rightarrow> u32 \<Rightarrow> byte list \<Rightarrow> byte list" where
  "udp_segment source sport destination dport payload =
     (let len = of_nat (sizeof_udp + length payload) :: u16;
          h = \<lparr>uh_sport = htons (ucast sport), uh_dport = htons (ucast dport),
               uh_ulen = htons len, uh_sum = 0\<rparr>
      in enc_udp (h\<lparr>uh_sum := click_in_cksum_pseudohdr_raw
                      (click_in_cksum (enc_udp h @ payload)) source destination IP_PROTO_UDP len\<rparr>)
         @ payload)"

lemma length_udp_segment [simp]:
  "length (udp_segment s sp d dp payload) = sizeof_udp + length payload"
  by (simp add: udp_segment_def Let_def wire_simps)

lemma length_ip_datagram [simp]:
  "length (ip_datagram pr tos s d ttl payload) = sizeof_ip + length payload"
  by (simp add: ip_datagram_def wire_simps)

text \<open>The IP header is written over the first 20 pushed bytes \<open>g\<close>.\<close>

lemma put_ip_header:
  assumes "wf_pkt q" and "pkt_bytes q = g @ rest" and "20 \<le> length g" and lh: "length h = 20"
  obtains q' where "wr q (p_data q) h = Inr q'"
    "set_ip_header (p_data q) 20 q' = Inr (q'\<lparr>p_nh := Some (p_data q), p_h := Some (p_data q + 20)\<rparr>)"
    "wf_pkt q'" "pkt_bytes q' = h @ drop 20 g @ rest" "p_data q' = p_data q" "p_len q' = p_len q"
proof -
  have "20 \<le> p_len q" using assms(1-3) length_pkt_bytes [of q] by simp
  with assms show thesis
    by (intro that [of "store (p_data q) h q"])
       (use set_ip_header_window [of "store (p_data q) h q" 20] in
          \<open>simp_all add: window_simps patch_def\<close>)
qed

lemma length_enc_ip: "length (enc_ip h) = 20"
  by (simp add: wire_simps)

lemma ICMPIPfy_bytes:
  assumes "wf_pkt p" and "20 \<le> p_data p" and "\<not> shared p"
  obtains q where "ICMPIPfy mem p source destination ttl = Inr q" "wf_pkt q"
    "pkt_bytes q = ip_datagram IP_PROTO_ICMP 0 source destination ttl (pkt_bytes p)"
    "p_nh q = Some (p_data q)" "p_h q = Some (p_data q + 20)" "p_dst_ip_anno q = destination"
proof -
  obtain q1 g where q1: "pkt_push mem 20 p = Some q1" "wf_pkt q1"
    "pkt_bytes q1 = g @ pkt_bytes p" "length g = 20" "p_data q1 = p_data p - 20"
    "p_len q1 = 20 + p_len p" "\<not> shared q1"
    by (rule push_window [OF assms])
  have g: "20 \<le> length g" using q1 by simp
  obtain q2 where q2:
    "wr q1 (p_data q1) (enc_ip (with_sum (base_ip (p_len q1) IP_PROTO_ICMP 0 source destination ttl))) = Inr q2"
    "set_ip_header (p_data q1) 20 q2 = Inr (q2\<lparr>p_nh := Some (p_data q1), p_h := Some (p_data q1 + 20)\<rparr>)"
    "wf_pkt q2"
    "pkt_bytes q2 = enc_ip (with_sum (base_ip (p_len q1) IP_PROTO_ICMP 0 source destination ttl))
       @ drop 20 g @ pkt_bytes p"
    "p_data q2 = p_data q1" "p_len q2 = p_len q1"
    by (rule put_ip_header [OF q1(2,3) g length_enc_ip])
  show thesis
    by (rule that [of "set_dst_ip_anno destination
          (q2\<lparr>p_nh := Some (p_data q1), p_h := Some (p_data q1 + 20)\<rparr>)"])
       (use q1 q2 assms(1) in
          \<open>simp_all add: ICMPIPfy_def sizeof_ip_def set_dst_ip_anno_def ip_datagram_def length_pkt_bytes\<close>)
qed

lemma unat_of_nat_16: "n < 65536 \<Longrightarrow> unat (of_nat n :: u16) = n"
  by (simp add: unsigned_of_nat take_bit_nat_eq_self)

lemma UDPIPfy_bytes:
  assumes "wf_pkt p" and "28 \<le> p_data p" and "\<not> shared p" and small: "p_len p < 65508"
  obtains q where "UDPIPfy mem p source sport destination dport ttl = Inr q" "wf_pkt q"
    "pkt_bytes q = ip_datagram IP_PROTO_UDP 0 source destination ttl
                     (udp_segment source sport destination dport (pkt_bytes p))"
    "p_nh q = Some (p_data q)" "p_h q = Some (p_data q + 20)" "p_dst_ip_anno q = destination"
proof -
  obtain q1 g where q1: "pkt_push mem 28 p = Some q1" "wf_pkt q1"
    "pkt_bytes q1 = g @ pkt_bytes p" "length g = 28" "p_data q1 = p_data p - 28"
    "p_len q1 = 28 + p_len p" "\<not> shared q1"
    by (rule push_window [OF assms(1-3)])
  have g: "20 \<le> length g" using q1 by simp
  define ih where "ih = enc_ip (with_sum (base_ip (28 + p_len p) IP_PROTO_UDP 0 source destination ttl))"
  obtain q2 where q2: "wr q1 (p_data q1) ih = Inr q2"
    "set_ip_header (p_data q1) 20 q2 = Inr (q2\<lparr>p_nh := Some (p_data q1), p_h := Some (p_data q1 + 20)\<rparr>)"
    "wf_pkt q2" "pkt_bytes q2 = ih @ drop 20 g @ pkt_bytes p" "p_data q2 = p_data q1" "p_len q2 = p_len q1"
    unfolding ih_def by (rule put_ip_header [OF q1(2,3) g length_enc_ip])
  define q3 where "q3 = q2\<lparr>p_nh := Some (p_data q1), p_h := Some (p_data q1 + 20),
                          p_dst_ip_anno := destination\<rparr>"
  define len where "len = (of_nat (8 + p_len p) :: u16)"
  define h where "h = \<lparr>uh_sport = htons (ucast sport), uh_dport = htons (ucast dport),
               uh_ulen = htons len, uh_sum = 0\<rparr>"
  define u where "u = h\<lparr>uh_sum := click_in_cksum_pseudohdr_raw
      (click_in_cksum (enc_udp h @ pkt_bytes p)) source destination IP_PROTO_UDP len\<rparr>"
  have l: "length ih = 20" "length (enc_udp h) = 8" "length (enc_udp u) = 8" "unat len = 8 + p_len p"
    using small unat_of_nat_16 [of "8 + p_len p"] by (simp_all add: ih_def wire_simps len_def)
  have q3: "wf_pkt q3" "p_data q3 = p_data q1" "p_len q3 = 28 + p_len p"
    "pkt_bytes q3 = ih @ drop 20 g @ pkt_bytes p"
    using q1 q2 by (simp_all add: q3_def)
  define q4 where "q4 = store (p_data q1 + 20) (enc_udp h) q3"
  have q4: "wr q3 (p_data q1 + 20) (enc_udp h) = Inr q4" "wf_pkt q4"
    "pkt_bytes q4 = ih @ enc_udp h @ pkt_bytes p" "p_data q4 = p_data q1" "p_len q4 = 28 + p_len p"
    using q1 q3 l wr_window [of q3 20 "enc_udp h"] pkt_bytes_store [of q3 20 "enc_udp h"]
    by (simp_all add: q4_def patch_def)
  have r: "rd q4 (p_data q1 + 20) (unat len) = Inr (enc_udp h @ pkt_bytes p)"
    using rd_data [OF q4(2), of 20 "unat len"] q4 l assms(1) by (simp add: chunk_def length_pkt_bytes)
  define q5 where "q5 = store (p_data q1 + 20) (enc_udp u) q4"
  have q5: "wr q4 (p_data q1 + 20) (enc_udp u) = Inr q5" "wf_pkt q5"
    "pkt_bytes q5 = ih @ enc_udp u @ pkt_bytes p"
    using q4 l wr_window [of q4 20 "enc_udp u"] pkt_bytes_store [of q4 20 "enc_udp u"]
    by (simp_all add: q5_def patch_def)
  show thesis
  proof
    have *: "(8 :: nat) + 20 = 28" "28 + p_len p - 20 = 8 + p_len p" by simp_all
    have u: "u = \<lparr>uh_sport = htons (ucast sport), uh_dport = htons (ucast dport), uh_ulen = htons len,
        uh_sum = click_in_cksum_pseudohdr_raw (click_in_cksum (enc_udp h @ pkt_bytes p))
                   source destination IP_PROTO_UDP len\<rparr>"
      by (simp add: u_def h_def)
    show "UDPIPfy mem p source sport destination dport ttl = Inr q5"
      using q1(1,6) q2(1,2,6) q3(2,3) q4(1) r q5(1)
      unfolding UDPIPfy_def Let_def sizeof_udp_def sizeof_ip_def *
      by (simp add: ih_def [symmetric] set_dst_ip_anno_def q3_def [symmetric] *
            len_def [symmetric] h_def [symmetric] u [symmetric]
            click_in_cksum_pseudohdr_def del: of_nat_add)
    show "wf_pkt q5" by (rule q5)
    show "pkt_bytes q5 = ip_datagram IP_PROTO_UDP 0 source destination ttl
                     (udp_segment source sport destination dport (pkt_bytes p))"
      using assms(1) q1(6)
      by (simp add: q5 ip_datagram_def udp_segment_def Let_def u_def h_def len_def ih_def
            length_pkt_bytes sizeof_ip_def sizeof_udp_def length_encs)
  qed (simp_all add: q5_def q4_def q3_def q2)
qed


section \<open>Arrival of a datagram\<close>

text \<open>
  The packet an element sees after \<open>Strip(14)\<close> and \<open>CheckIPHeader\<close>: the datagram is the
  data window, the network header pointer is its start and the transport header pointer
  the end of an option-free IP header. What the buffer holds around the window is up to
  the receiving host.
\<close>

definition arrives :: "packet \<Rightarrow> byte list \<Rightarrow> bool" where
  "arrives p bs \<longleftrightarrow> wf_pkt p \<and> pkt_bytes p = bs \<and>
     p_nh p = Some (p_data p) \<and> p_h p = Some (p_data p + sizeof_ip)"

text \<open>A packet that holds nothing but the datagram.\<close>

definition deliver :: "byte list \<Rightarrow> packet" where
  "deliver bs = \<lparr>p_buf = bs, p_data = 0, p_len = length bs, p_mac = None, p_nh = Some 0,
     p_h = Some sizeof_ip, p_dst_ip_anno = 0, p_use_count = 1, p_data_packet = False\<rparr>"

lemma arrives_deliver [simp]: "arrives (deliver bs) bs"
  by (simp add: arrives_def deliver_def wf_pkt_def pkt_bytes_def)

lemma arrives_len: "arrives p bs \<Longrightarrow> p_len p = length bs"
  using length_pkt_bytes [of p] by (simp add: arrives_def)

lemma arrives_rd:
  assumes "arrives p bs" and "i + n \<le> length bs"
  shows "rd p (p_data p + i) n = Inr (chunk i n bs)"
  using assms rd_data [of p i n] arrives_len [OF assms(1)] by (simp add: arrives_def)

lemma arrives_rd8:
  assumes "arrives p bs" and "i < length bs"
  shows "rd8 p (p_data p + i) = Inr (bs ! i)"
  using assms rd8_data [of p i] arrives_len [OF assms(1)] by (simp add: arrives_def)

lemmas arrives_rd0 = arrives_rd [where i = 0, simplified]

text \<open>Reading the header of a datagram back.\<close>

lemma ip_datagram_header:
  "chunk 0 sizeof_ip (ip_datagram proto tos s d ttl payload)
     = enc_ip (with_sum (base_ip (sizeof_ip + length payload) proto tos s d ttl))"
  by (simp add: ip_datagram_def chunk_def wire_simps)

lemma chunk_ip_payload:
  "chunk (sizeof_ip + i) n (ip_datagram proto tos s d ttl payload) = chunk i n payload"
  by (simp add: ip_datagram_def chunk_def wire_simps)

lemma nth_ip_payload:
  "ip_datagram proto tos s d ttl payload ! (sizeof_ip + i) = payload ! i"
  by (simp add: ip_datagram_def nth_append wire_simps)

lemma nth_ip_proto: "ip_datagram proto tos s d ttl payload ! 9 = proto"
  by (simp add: ip_datagram_def with_sum_def base_ip_def enc_ip_def u16_bytes_def u32_bytes_def)

lemma ip_datagram_src:
  "le16 (chunk 12 2 (ip_datagram proto tos s d ttl payload) ! 0)
        (chunk 12 2 (ip_datagram proto tos s d ttl payload) ! 1) = ucast s"
proof -
  have "chunk 12 2 (ip_datagram proto tos s d ttl payload) = take 2 (u32_bytes s)"
    by (simp add: ip_datagram_def with_sum_def base_ip_def enc_ip_def u16_bytes_def u32_bytes_def
          chunk_def)
  moreover have "le16 (ucast s) (ucast (drop_bit 8 s)) = ucast s"
    unfolding le16_def by (rule bit_word_eqI) (auto simp: bit_simps)
  ultimately show ?thesis by (simp add: u32_bytes_def)
qed

text \<open>The checksum field of the header a builder writes; it may happen to be zero.\<close>

definition header_sum :: "byte \<Rightarrow> byte \<Rightarrow> ipaddr \<Rightarrow> ipaddr \<Rightarrow> byte \<Rightarrow> nat \<Rightarrow> u16" where
  "header_sum proto tos s d ttl len = ip_sum (with_sum (base_ip len proto tos s d ttl))"

theorem processIPHeader_datagram:
  assumes "arrives p (ip_datagram proto tos s d ttl payload)"
  shows "processIPHeader p =
    (if header_sum proto tos s d ttl (sizeof_ip + length payload) = 0
     then Inl (ZeroChecksumException ''IP Header'')
     else Inr \<lparr>ipsource = s, ipdestination = d\<rparr>)"
proof -
  have "rd p (p_data p) sizeof_ip
      = Inr (enc_ip (with_sum (base_ip (sizeof_ip + length payload) proto tos s d ttl)))"
    using arrives_rd0 [OF assms, of sizeof_ip] by (simp add: ip_datagram_header)
  moreover have "p_nh p = Some (p_data p)" using assms by (simp add: arrives_def)
  ultimately show ?thesis
    by (simp add: processIPHeader_def ip.dec_enc header_sum_def with_sum_def base_ip_def)
qed


lemma word_sum_enc_udp:
  "word_sum (enc_udp (h\<lparr>uh_sum := r\<rparr>) @ xs) = word_sum (enc_udp (h\<lparr>uh_sum := 0\<rparr>) @ xs) + unat r"
  by (simp add: enc_udp_def u16_bytes_def) (simp add: le16_def)

theorem udp_segment_verifies:
  assumes "length payload < 65508"
  shows "click_in_cksum_pseudohdr_raw (click_in_cksum (udp_segment s sport d dport payload))
           s d IP_PROTO_UDP (of_nat (sizeof_udp + length payload)) = 0"
proof -
  define len :: u16 where "len = of_nat (sizeof_udp + length payload)"
  define h where "h = \<lparr>uh_sport = htons (ucast sport), uh_dport = htons (ucast dport),
               uh_ulen = htons len, uh_sum = 0\<rparr>"
  define r where "r = click_in_cksum_pseudohdr_raw (click_in_cksum (enc_udp h @ payload)) s d IP_PROTO_UDP len"
  have seg: "udp_segment s sport d dport payload = enc_udp (h\<lparr>uh_sum := r\<rparr>) @ payload"
    by (simp add: udp_segment_def Let_def h_def r_def len_def)
  have l: "length (enc_udp (h\<lparr>uh_sum := x\<rparr>) @ payload) \<le> 65535" for x
    using assms by (simp add: wire_simps)
  have h0: "h\<lparr>uh_sum := 0\<rparr> = h" by (simp add: h_def)
  have "click_in_cksum_pseudohdr_raw (click_in_cksum (enc_udp (h\<lparr>uh_sum := r\<rparr>) @ payload))
      s d IP_PROTO_UDP len = 0"
  proof (rule udp_checksum_verifies)
    show "word_sum (enc_udp h @ payload) < 4294967296"
      using word_sum_lt [OF l [of 0]] by (simp add: h0)
    show "word_sum (enc_udp h @ payload) + unat r < 4294967296"
      using word_sum_lt [OF l [of r]] by (simp add: word_sum_enc_udp h0)
    show "0 < IP_PROTO_UDP" by (simp add: IP_PROTO_UDP_def)
    show "unat (click_in_cksum (enc_udp h @ payload)) = 65535 - ones_fold (word_sum (enc_udp h @ payload))"
      using unat_click_in_cksum [OF l [of 0]] by (simp add: h0)
    show "unat (click_in_cksum (enc_udp (h\<lparr>uh_sum := r\<rparr>) @ payload))
        = 65535 - ones_fold (word_sum (enc_udp h @ payload) + unat r)"
      using unat_click_in_cksum [OF l [of r]] by (simp add: word_sum_enc_udp h0)
  qed (rule r_def)
  then show ?thesis by (simp add: seg len_def)
qed

theorem processUDPHeader_datagram:
  assumes p: "arrives p (ip_datagram IP_PROTO_UDP tos s d ttl (udp_segment s sport d dport payload))"
    and small: "length payload < 65508"
  shows "processUDPHeader undef p =
    Inr \<lparr>sourcePort = ucast (ucast sport :: u16), destinationPort = ucast (ucast dport :: u16)\<rparr>"
proof -
  let ?seg = "udp_segment s sport d dport payload"
  let ?dg = "ip_datagram IP_PROTO_UDP tos s d ttl ?seg"
  define len :: u16 where "len = of_nat (sizeof_udp + length payload)"
  have ul: "unat len = 8 + length payload"
    using small unat_of_nat_16 [of "8 + length payload"] by (simp add: len_def wire_simps)
  have nh: "p_nh p = Some (p_data p)" "p_h p = Some (p_data p + sizeof_ip)"
    using p by (simp_all add: arrives_def)
  have proto: "rd8 p (p_data p + 9) = Inr IP_PROTO_UDP"
    using arrives_rd8 [OF p, of 9] by (simp add: nth_ip_proto wire_simps)
  obtain usum where u: "chunk 0 sizeof_udp ?seg = enc_udp \<lparr>uh_sport = htons (ucast sport),
      uh_dport = htons (ucast dport), uh_ulen = htons len, uh_sum = usum\<rparr>"
    by (simp add: udp_segment_def Let_def chunk_def wire_simps len_def)
  have hd: "rd p (p_data p + sizeof_ip) sizeof_udp = Inr (chunk 0 sizeof_udp ?seg)"
    using arrives_rd [OF p, of sizeof_ip sizeof_udp] chunk_ip_payload [of 0] by simp
  have seg: "rd p (p_data p + sizeof_ip) (unat len) = Inr ?seg"
    using arrives_rd [OF p, of sizeof_ip "unat len"] chunk_ip_payload [of 0 "unat len"]
      chunk_0_self [of ?seg] by (simp add: ul wire_simps)
  have ih: "rd p (p_data p) sizeof_ip
      = Inr (enc_ip (with_sum (base_ip (sizeof_ip + length ?seg) IP_PROTO_UDP tos s d ttl)))"
    using arrives_rd0 [OF p, of sizeof_ip] by (simp add: ip_datagram_header)
  have op: "rd p (p_data p + sizeof_ip) 0 = Inr []"
    using arrives_rd [OF p, of sizeof_ip 0] by (simp add: chunk_def)
  have hl: "unat (of_nat (sizeof_ip div 4) :: 4 word) = 5" "20 - sizeof_ip = 0"
    by (simp_all add: sizeof_ip_def)
  show ?thesis
    using udp_segment_verifies [OF small, of s sport d dport]
    by (simp add: processUDPHeader_def nh proto hd u udp.dec_enc seg ih ip.dec_enc with_sum_def
          base_ip_def op hl click_in_cksum_pseudohdr_def len_def [symmetric] Let_def
          del: of_nat_add)
qed


section \<open>The control messages\<close>

text \<open>
  A source address whose first two octets are 8.0 sits where an Ethernet frame has its
  type field, and makes \<open>getPacketType\<close> take the packet for a frame.
\<close>

definition looks_like_ether :: "ipaddr \<Rightarrow> bool" where
  "looks_like_ether s \<longleftrightarrow> ucast s = htons ETHERTYPE_IP"

lemma getPacketType_datagram:
  assumes p: "arrives p (ip_datagram proto tos s d ttl payload)" and "\<not> looks_like_ether s"
  shows "getPacketType p =
    (if proto = IP_PROTO_ICMP then
       res_bind (rd8 p (p_data p + sizeof_ip)) (\<lambda>type.
         if type = 9 then res_bind (rd8 p (p_data p + sizeof_ip + 1)) (\<lambda>code.
             if code = 16 \<or> code = 0 then Inr ADVERTISEMENT else Inr UNKOWN)
         else if type = 10 then Inr SOLICITATION else Inr UNKOWN)
     else if proto = IP_PROTO_IPIP then Inr IPINIP
     else if proto = IP_PROTO_UDP then
       res_bind (rd8 p (p_data p + (sizeof_ip + sizeof_udp))) (\<lambda>type.
         if type = 1 then Inr REGISTRATION else if type = 3 then Inr REPLY else Inr UNKOWN)
     else Inr UNKOWN)"
proof -
  have "rd p (p_data p + 12) 2 = Inr (chunk 12 2 (ip_datagram proto tos s d ttl payload))"
    using arrives_rd [OF p, of 12 2] by (simp add: wire_simps)
  moreover have "rd8 p (p_data p + 9) = Inr proto"
    using arrives_rd8 [OF p, of 9] by (simp add: nth_ip_proto wire_simps)
  moreover have "p_nh p = Some (p_data p)" using p by (simp add: arrives_def)
  ultimately show ?thesis
    using assms(2) by (simp add: getPacketType_def looks_like_ether_def Let_def
      ip_datagram_src [simplified])
qed

lemma nth_udp_payload:
  assumes "i < length payload"
  shows "ip_datagram proto tos s d ttl (udp_segment s' sp d' dp payload) ! (sizeof_ip + sizeof_udp + i)
    = payload ! i"
  using nth_ip_payload [of proto tos s d ttl "udp_segment s' sp d' dp payload" "sizeof_udp + i"]
  by (simp add: udp_segment_def Let_def nth_append length_encs add.assoc)

lemma chunk_udp_payload:
  "chunk (sizeof_ip + sizeof_udp) n (ip_datagram proto tos s d ttl (udp_segment s' sp d' dp payload))
    = take n payload"
  using chunk_ip_payload [of sizeof_udp n]
  by (simp add: udp_segment_def Let_def chunk_def length_encs)

text \<open>Registration requests.\<close>

definition request_bytes :: "clock \<Rightarrow> u32 \<Rightarrow> ipaddr \<Rightarrow> ipaddr \<Rightarrow> ipaddr \<Rightarrow> u32 \<Rightarrow> byte list" where
  "request_bytes clk lifetime home homeAgent careOf identification =
     enc_regreq
       \<lparr>rrp_type = 1, rrp_x = False, rrp_T = False, rrp_r = False, rrp_G = False,
        rrp_M = False, rrp_D = False, rrp_B = False, rrp_S = False,
        rrp_lifetime = htons (ucast lifetime), rrp_homeAddress = home,
        rrp_homeAgent = homeAgent, rrp_careOfAddress = careOf,
        rrp_identification1 = htonl (now_subsec clk),
        rrp_identification2 = (if identification = 0 then htonl (now_steady_subsec clk)
                               else htonl identification)\<rparr>"

definition reply_bytes :: "clock \<Rightarrow> u32 \<Rightarrow> byte \<Rightarrow> ipaddr \<Rightarrow> ipaddr \<Rightarrow> u32 \<Rightarrow> byte list" where
  "reply_bytes clk lifetime code home homeAgent identification =
     enc_regrep
       \<lparr>rpp_type = 3, rpp_code = code, rpp_lifetime = htons (ucast lifetime),
        rpp_homeAddress = home, rpp_homeAgent = homeAgent,
        rpp_identification1 = htonl (now_subsec clk),
        rpp_identification2 = htonl identification\<rparr>"

lemma length_messages [simp]:
  "length (request_bytes clk lt hm ha co idn) = 24"
  "length (reply_bytes clk lt code hm ha idn) = 20"
  by (simp_all add: request_bytes_def reply_bytes_def wire_simps)

text \<open>A message in a fresh packet with the headroom for its lower headers.\<close>

lemma fresh_store:
  assumes "Packet_make mem hroom None (length bs) 0 = Some q"
  shows "wf_pkt (store (p_data q) bs q)" "pkt_bytes (store (p_data q) bs q) = bs"
    "p_data (store (p_data q) bs q) = hroom" "\<not> shared (store (p_data q) bs q)"
    "p_len (store (p_data q) bs q) = length bs"
proof -
  note m = Packet_make_SomeD [OF assms] and w = wf_pkt_make [OF assms]
  show "wf_pkt (store (p_data q) bs q)" "p_data (store (p_data q) bs q) = hroom"
    "\<not> shared (store (p_data q) bs q)" "p_len (store (p_data q) bs q) = length bs"
    using m w by (simp_all add: store_def shared_def wf_pkt_def)
  show "pkt_bytes (store (p_data q) bs q) = bs"
    using m w pkt_bytes_store [of q 0 bs] by (simp add: patch_def length_pkt_bytes)
qed

lemma udp_message_sent:
  assumes m: "Packet_make mem 46 None (length bs) 0 = Some m" and small: "length bs < 65508"
  obtains q where "UDPIPfy mem (store (p_data m) bs m) source sport destination dport ttl = Inr q"
    "arrives q (ip_datagram IP_PROTO_UDP 0 source destination ttl
       (udp_segment source sport destination dport bs))" "p_dst_ip_anno q = destination"
proof -
  note f = fresh_store [OF m]
  have d: "28 \<le> p_data (store (p_data m) bs m)" and l: "p_len (store (p_data m) bs m) < 65508"
    using f small by simp_all
  show thesis
    by (rule UDPIPfy_bytes [OF f(1) d f(4) l])
       (rule that, simp_all add: arrives_def sizeof_ip_def f(2))
qed

lemma icmp_message_sent:
  assumes m: "Packet_make mem 38 None (length bs) 0 = Some m"
  obtains q where "ICMPIPfy mem (store (p_data m) bs m) source destination ttl = Inr q"
    "arrives q (ip_datagram IP_PROTO_ICMP 0 source destination ttl bs)" "p_dst_ip_anno q = destination"
proof -
  note f = fresh_store [OF m]
  have d: "20 \<le> p_data (store (p_data m) bs m)"
    using f by simp
  show thesis
    by (rule ICMPIPfy_bytes [OF f(1) d f(4)])
       (rule that, simp_all add: arrives_def sizeof_ip_def f(2))
qed

lemma build_request_eq:
  "buildRegistrationRequestPacket mem clk lifetime home homeAgent careOf identification
     = map_option (\<lambda>m. store (p_data m)
         (request_bytes clk lifetime home homeAgent careOf identification) m)
         (Packet_make mem 46 None
            (length (request_bytes clk lifetime home homeAgent careOf identification)) 0)"
  by (simp add: buildRegistrationRequestPacket_def request_bytes_def wire_simps)

lemma build_reply_eq:
  "buildRegistrationReplyPacket mem clk lifetime code home homeAgent identification
     = map_option (\<lambda>m. store (p_data m)
         (reply_bytes clk lifetime code home homeAgent identification) m)
         (Packet_make mem 46 None
            (length (reply_bytes clk lifetime code home homeAgent identification)) 0)"
  by (simp add: buildRegistrationReplyPacket_def reply_bytes_def wire_simps)

section \<open>Received messages\<close>

abbreviation udp_datagram :: "byte \<Rightarrow> ipaddr \<Rightarrow> u32 \<Rightarrow> ipaddr \<Rightarrow> u32 \<Rightarrow> byte list \<Rightarrow> byte list" where
  "udp_datagram ttl s sport d dport payload \<equiv>
     ip_datagram IP_PROTO_UDP 0 s d ttl (udp_segment s sport d dport payload)"

lemma rd_udp_payload:
  assumes "arrives p (udp_datagram ttl s sport d dport payload)"
  shows "rd p (p_data p + (sizeof_ip + sizeof_udp)) (length payload) = Inr payload"
  using arrives_rd [OF assms, of "sizeof_ip + sizeof_udp" "length payload"]
  by (simp add: chunk_udp_payload)

lemma getPacketType_udp:
  assumes "arrives p (udp_datagram ttl s sport d dport (b # payload))" and "\<not> looks_like_ether s"
  shows "getPacketType p = Inr (if b = 1 then REGISTRATION else if b = 3 then REPLY else UNKOWN)"
proof -
  have "rd8 p (p_data p + (sizeof_ip + sizeof_udp)) = Inr b"
    using arrives_rd8 [OF assms(1), of "sizeof_ip + sizeof_udp"]
      nth_udp_payload [of 0 "b # payload"] by simp
  with getPacketType_datagram [OF assms] show ?thesis
    by (simp add: IP_PROTO_ICMP_def IP_PROTO_UDP_def IP_PROTO_IPIP_def)
qed

theorem request_received:
  assumes p: "arrives p (udp_datagram ttl s sport d dport (request_bytes clk lt hm ha co idn))"
    and "header_sum IP_PROTO_UDP 0 s d ttl 52 \<noteq> 0"
  shows "processRegistrationRequestPacket undef p =
    Inr \<lparr>rr_S = False, rr_B = False, rr_D = False, rr_M = False, rr_G = False, rr_r = False,
         rr_T = False, rr_x = False, rr_lifetime = ucast (ucast lt :: u16), rr_home = hm,
         rr_homeAgent = ha, rr_careOf = co,
         rr_UDP = \<lparr>sourcePort = ucast (ucast sport :: u16), destinationPort = ucast (ucast dport :: u16)\<rparr>,
         rr_IP = \<lparr>ipsource = s, ipdestination = d\<rparr>,
         rr_identification = (if idn = 0 then now_steady_subsec clk else idn)\<rparr>"
  using rd_udp_payload [OF p] processUDPHeader_datagram [OF p] processIPHeader_datagram [OF p] assms(2)
  by (simp add: processRegistrationRequestPacket_def request_bytes_def regreq.dec_enc wire_simps Let_def)

theorem reply_received:
  assumes p: "arrives p (udp_datagram ttl s sport d dport (reply_bytes clk lt code hm ha idn))"
    and "header_sum IP_PROTO_UDP 0 s d ttl 48 \<noteq> 0"
  shows "processRegistrationReplyPacket undef p =
    Inr \<lparr>rp_code = ucast code, rp_lifetime = ucast (ucast lt :: u16), rp_home = hm, rp_homeAgent = ha,
         rp_UDP = \<lparr>sourcePort = ucast (ucast sport :: u16), destinationPort = ucast (ucast dport :: u16)\<rparr>,
         rp_IP = \<lparr>ipsource = s, ipdestination = d\<rparr>, rp_identification = idn\<rparr>"
  using rd_udp_payload [OF p] processUDPHeader_datagram [OF p] processIPHeader_datagram [OF p] assms(2)
  by (simp add: processRegistrationReplyPacket_def reply_bytes_def regrep.dec_enc wire_simps Let_def)

lemma request_recognised:
  assumes "arrives p (udp_datagram ttl s sport d dport (request_bytes clk lt hm ha co idn))"
    and "\<not> looks_like_ether s"
  shows "getPacketType p = Inr REGISTRATION"
  using getPacketType_udp [of p, where b = 1] assms
  by (auto simp: request_bytes_def enc_regreq_def)

lemma reply_recognised:
  assumes "arrives p (udp_datagram ttl s sport d dport (reply_bytes clk lt code hm ha idn))"
    and "\<not> looks_like_ether s"
  shows "getPacketType p = Inr REPLY"
  using getPacketType_udp [of p, where b = 3] assms
  by (auto simp: reply_bytes_def enc_regrep_def)


text \<open>Router advertisements and solicitations.\<close>

definition adv_format :: "u32 \<Rightarrow> u32 \<Rightarrow> ipaddr \<Rightarrow> u32 \<Rightarrow> bool \<Rightarrow> bool \<Rightarrow> routerAdvertisementMessage" where
  "adv_format lifetime registrationLifetime careOfAddress sequenceNumber homeAgent foreignAgent =
     \<lparr>ram_type = 9, ram_code = 0, ram_checksum = 0, ram_numAddrs = 1,
      ram_addrEntrySize = 2, ram_lifetime = htons (ucast lifetime),
      ram_address = careOfAddress, ram_preferenceLevel = htonl 1,
      ram_type2 = 16, ram_length = 10,
      ram_sequenceNumber = htons (ucast sequenceNumber),
      ram_registrationLifetime = htons (ucast registrationLifetime),
      ram_T = False, ram_r = False, ram_G = False, ram_M = False,
      ram_F = foreignAgent, ram_H = homeAgent, ram_B = False, ram_R = True,
      ram_reserved = 0, ram_I = False, ram_X = False, ram_U = False,
      ram_careOfAddress = careOfAddress\<rparr>"

definition adv_bytes :: "u32 \<Rightarrow> u32 \<Rightarrow> ipaddr \<Rightarrow> u32 \<Rightarrow> bool \<Rightarrow> bool \<Rightarrow> byte list" where
  "adv_bytes lt rlt co sq ha fa =
     enc_adv ((adv_format lt rlt co sq ha fa)
       \<lparr>ram_checksum := click_in_cksum (enc_adv (adv_format lt rlt co sq ha fa))\<rparr>)"

definition sol_bytes :: "byte list" where
  "sol_bytes =
     (let f = \<lparr>rsm_type = 10, rsm_code = 0, rsm_checksum = 0, rsm_reserved = 0\<rparr>
      in enc_sol (f\<lparr>rsm_checksum := click_in_cksum (enc_sol f)\<rparr>))"

lemma length_router_messages [simp]:
  "length (adv_bytes lt rlt co sq ha fa) = 28" "length sol_bytes = 8"
  by (simp_all add: adv_bytes_def sol_bytes_def Let_def wire_simps)

lemma build_adv_eq:
  "buildRouterAdvertisementMessage mem lt rlt co sq ha fa
     = map_option (\<lambda>m. store (p_data m) (adv_bytes lt rlt co sq ha fa) m)
         (Packet_make mem 38 None (length (adv_bytes lt rlt co sq ha fa)) 0)"
  by (simp add: buildRouterAdvertisementMessage_def adv_bytes_def adv_format_def Let_def wire_simps)

lemma build_sol_eq:
  "buildRouterSolicitationMessage mem
     = map_option (\<lambda>m. store (p_data m) sol_bytes m)
         (Packet_make mem 38 None (length sol_bytes) 0)"
  by (simp add: buildRouterSolicitationMessage_def sol_bytes_def Let_def wire_simps)

lemma rd_ip_payload:
  assumes "arrives p (ip_datagram proto tos s d ttl payload)"
  shows "rd p (p_data p + sizeof_ip) (length payload) = Inr payload"
  using arrives_rd [OF assms, of sizeof_ip "length payload"] chunk_ip_payload [of 0]
  by simp

theorem advertisement_received:
  assumes p: "arrives p (ip_datagram IP_PROTO_ICMP 0 s d ttl (adv_bytes lt rlt co sq ha fa))"
    and "header_sum IP_PROTO_ICMP 0 s d ttl 48 \<noteq> 0"
  shows "processRouterAdvertisementMessage p =
    Inr \<lparr>ra_lifetime = ucast (ucast lt :: u16), ra_code = 0,
         ra_sequenceNumber = ucast (ucast sq :: u16),
         ra_registrationLifetime = ucast (ucast rlt :: u16),
         ra_homeAgent = ha, ra_foreignAgent = ha, ra_careOfAddress = co,
         ra_IP = \<lparr>ipsource = s, ipdestination = d\<rparr>\<rparr>"
  using rd_ip_payload [OF p] processIPHeader_datagram [OF p] assms(2)
  by (simp add: processRouterAdvertisementMessage_def adv_bytes_def adv_format_def adv.dec_enc
        wire_simps Let_def)

theorem solicitation_received:
  assumes p: "arrives p (ip_datagram IP_PROTO_ICMP 0 s d ttl sol_bytes)"
    and "header_sum IP_PROTO_ICMP 0 s d ttl 28 \<noteq> 0"
  shows "processRouterSolicitationMessage p = Inr \<lparr>rs_IP = \<lparr>ipsource = s, ipdestination = d\<rparr>\<rparr>"
  using rd_ip_payload [OF p] processIPHeader_datagram [OF p] assms(2)
  by (simp add: processRouterSolicitationMessage_def sol_bytes_def sol.dec_enc wire_simps Let_def)

lemma advertisement_recognised:
  assumes p: "arrives p (ip_datagram IP_PROTO_ICMP 0 s d ttl (adv_bytes lt rlt co sq ha fa))"
    and "\<not> looks_like_ether s"
  shows "getPacketType p = Inr ADVERTISEMENT"
proof -
  obtain bs where "adv_bytes lt rlt co sq ha fa = 9 # 0 # bs"
    by (simp add: adv_bytes_def adv_format_def enc_adv_def)
  then have "rd8 p (p_data p + sizeof_ip) = Inr 9" "rd8 p (p_data p + sizeof_ip + 1) = Inr 0"
    using arrives_rd8 [OF p, of sizeof_ip] arrives_rd8 [OF p, of "sizeof_ip + 1"]
      nth_ip_payload [where i = 0] nth_ip_payload [where i = 1] by (simp_all add: add.assoc)
  then show ?thesis using getPacketType_datagram [OF assms] by simp
qed

lemma solicitation_recognised:
  assumes p: "arrives p (ip_datagram IP_PROTO_ICMP 0 s d ttl sol_bytes)"
    and "\<not> looks_like_ether s"
  shows "getPacketType p = Inr SOLICITATION"
proof -
  have "sol_bytes ! 0 = 10"
    by (simp add: sol_bytes_def enc_sol_def Let_def)
  then have "rd8 p (p_data p + sizeof_ip) = Inr 10"
    using arrives_rd8 [OF p, of sizeof_ip] nth_ip_payload [where i = 0] by simp
  then show ?thesis using getPacketType_datagram [OF assms] by simp
qed

end
