(* ===== verification/Soft_State.thy ===== *)
theory Soft_State
  imports Prelude
begin

text \<open>
  Tables whose entries age. The three lists of \<^verbatim>\<open>elements/lists\<close> all walk a vector with an
  iterator, rewrite an entry in place or erase it, once per second. The locale states that
  pattern (one \<open>step\<close> per entry, \<open>None\<close> for erased) and proves once what the clients need:
  a sweep keeps the order, treats the entries independently, never invents one, and the
  state of an entry after \<open>n\<close> seconds is \<open>n\<close> steps of that entry.

  Also here: the decimal and dotted-quad output that the lists' \<open>print\<close> functions use.
\<close>

fun steps :: "('a \<Rightarrow> 'a option) \<Rightarrow> nat \<Rightarrow> 'a \<Rightarrow> 'a option" where
  "steps f 0 x = Some x"
| "steps f (Suc n) x = Option.bind (f x) (steps f n)"

lemma steps_0 [simp]: "steps f 0 = Some"
  by (rule ext) simp

locale soft_state =
  fixes step :: "'a \<Rightarrow> 'a option"
    and sweep :: "'a list \<Rightarrow> 'a list"
  assumes sweep_Nil: "sweep [] = []"
    and sweep_Cons: "sweep (x # xs) = (case step x of None \<Rightarrow> sweep xs | Some y \<Rightarrow> y # sweep xs)"
begin

lemma sweep_append: "sweep (xs @ ys) = sweep xs @ sweep ys"
  by (induction xs) (auto simp: sweep_Nil sweep_Cons split: option.splits)

lemma set_sweep: "set (sweep xs) = {y. \<exists>x \<in> set xs. step x = Some y}"
  by (induction xs) (auto simp: sweep_Nil sweep_Cons split: option.splits)

lemma length_sweep: "length (sweep xs) \<le> length xs"
  by (induction xs) (auto simp: sweep_Nil sweep_Cons split: option.splits)

lemma sweep_filter_commute:
  assumes "\<And>x y. step x = Some y \<Longrightarrow> P y = P x"
  shows "sweep (filter P xs) = filter P (sweep xs)"
  using assms by (induction xs) (auto simp: sweep_Nil sweep_Cons split: option.splits)

lemma distinct_map_sweep:
  assumes "\<And>x y. step x = Some y \<Longrightarrow> k y = k x" and "distinct (map k xs)"
  shows "distinct (map k (sweep xs))"
  using assms(2)
  by (induction xs) (force simp: sweep_Nil sweep_Cons set_sweep assms(1) split: option.splits)+

lemma sweep_pow_Cons:
  "(sweep ^^ n) (x # xs) = (case steps step n x of None \<Rightarrow> [] | Some y \<Rightarrow> [y]) @ (sweep ^^ n) xs"
proof (induction n arbitrary: x xs)
  case (Suc n)
  have "(sweep ^^ Suc n) zs = (sweep ^^ n) (sweep zs)" for zs
    by (simp only: funpow_Suc_right o_apply)
  then show ?case by (auto simp: sweep_Cons Suc.IH split: option.splits simp del: funpow.simps)
qed simp

lemma set_sweep_pow: "set ((sweep ^^ n) xs) = {y. \<exists>x \<in> set xs. steps step n x = Some y}"
proof (induction xs)
  case Nil
  have "(sweep ^^ n) [] = []" by (induction n) (simp_all add: sweep_Nil)
  then show ?case by simp
next
  case (Cons x xs)
  then show ?case by (auto simp: sweep_pow_Cons split: option.splits)
qed

end

section \<open>A counter with the value 65535 reserved for infinity\<close>

text \<open>
  The ageing of a 32-bit lifetime that is decremented once per second and whose entry goes
  when it reaches zero: a positive finite lifetime lasts exactly that many seconds. Started
  at zero it wraps around instead.
\<close>

definition age :: "u32 \<Rightarrow> u32 option" where
  "age l = (if l - 1 = 0 then None else Some (l - 1))"

lemma unat_minus_1: "l \<noteq> 0 \<Longrightarrow> unat (l - 1 :: u32) = unat l - 1"
  by (simp add: unat_minus_one)

lemma steps_age:
  "0 < l \<Longrightarrow> steps age n l = (if n < unat l then Some (l - of_nat n) else None)"
proof (induction n arbitrary: l)
  case 0
  then show ?case by (simp add: word_gt_0 unat_gt_0)
next
  case (Suc n)
  then have l: "l \<noteq> 0" "0 < unat l" by (simp_all add: word_gt_0 unat_gt_0)
  show ?case
  proof (cases "l - 1 = 0")
    case True
    then have "unat l = 1" using l unat_minus_1 [OF l(1)] by simp
    with True show ?thesis by (simp add: age_def)
  next
    case False
    then have "0 < l - 1" by (simp add: word_gt_0)
    from Suc.IH [OF this] False show ?thesis
      using unat_minus_1 [OF l(1)] l by (auto simp: age_def algebra_simps)
  qed
qed

lemma age_zero_wraps: "age 0 = Some 0xffffffff"
  by (simp add: age_def)

section \<open>Text\<close>

function dec_string :: "nat \<Rightarrow> string" where
  "dec_string n = (if n < 10 then [char_of (n + 48)] else dec_string (n div 10) @ [char_of (n mod 10 + 48)])"
  by pat_completeness auto
termination
  by (relation "measure id") auto

declare dec_string.simps [simp del]

definition IPAddress_s :: "ipaddr \<Rightarrow> string" where
  "IPAddress_s a =
     dec_string (unat (ucast a :: byte)) @ ''.'' @
     dec_string (unat (ucast (drop_bit 8 a) :: byte)) @ ''.'' @
     dec_string (unat (ucast (drop_bit 16 a) :: byte)) @ ''.'' @
     dec_string (unat (ucast (drop_bit 24 a) :: byte))"

end
