(* ===== verification/Element_Model.thy ===== *)
theory Element_Model
  imports Wire_Roundtrip Soft_State
begin

text \<open>
  What all elements share: the configuration arguments (\<^verbatim>\<open>click/lib/args.cc\<close>), the data
  handlers (\<^verbatim>\<open>click/lib/element.cc\<close>), the part of the outside world a handler call sees
  (memory, clocks, the value of an uninitialised structure), and runs of an element over a
  sequence of events with the locales \<open>guarded_invariant\<close> and \<open>element_invariant\<close>, the contract
  every stateful element of the program is shown to satisfy.
\<close>

section \<open>Configuration arguments\<close>

text \<open>
  One keyword argument of a configuration string after lookup and parsing: not given (or
  empty), given but not parsable, or given with a value. \<open>execute\<close> stores the slots only
  when every read succeeded and otherwise returns \<open>-EINVAL\<close>; \<open>complete\<close> in addition fails
  when arguments are left over.
\<close>

datatype 'a arg = Absent | Malformed | Given 'a

definition Args_read :: "'a arg \<Rightarrow> 'a \<Rightarrow> 'a option" where
  "Args_read a x = (case a of Absent \<Rightarrow> Some x | Malformed \<Rightarrow> None | Given y \<Rightarrow> Some y)"

definition Args_read_m :: "'a arg \<Rightarrow> 'a option" where
  "Args_read_m a = (case a of Given y \<Rightarrow> Some y | _ \<Rightarrow> None)"

definition Args_read_or_set :: "'a arg \<Rightarrow> 'a \<Rightarrow> 'a option" where
  "Args_read_or_set a default_value =
     (case a of Absent \<Rightarrow> Some default_value | Malformed \<Rightarrow> None | Given y \<Rightarrow> Some y)"

lemma Args_read_m_eq_Some [simp]: "Args_read_m a = Some y \<longleftrightarrow> a = Given y"
  by (cases a) (auto simp: Args_read_m_def)

text \<open>
  \<open>integer_data_handler<unsigned>\<close>, write direction: the variable changes only when the
  string parses as an integer; \<open>errh->error\<close> is \<open>-EINVAL\<close>.
\<close>

definition EINVAL :: int where "EINVAL = 22"

definition integer_data_write :: "u32 arg \<Rightarrow> u32 \<Rightarrow> int \<times> u32" where
  "integer_data_write str x = (case str of Given y \<Rightarrow> (0, y) | _ \<Rightarrow> (- EINVAL, x))"

definition integer_data_read :: "u32 \<Rightarrow> string" where
  "integer_data_read x = dec_string (unat x)"

section \<open>The environment of a handler call\<close>

record env =
  e_mem :: allocator
  e_clk :: clock
  e_steady :: u32
  e_undef :: UDPHeader
  e_undef_int :: u32
  e_undef_rr :: registrationRequest
  e_undef_adv :: routerAdvertisement

text \<open>
  \<open>e_clk\<close> holds the clock readings a message builder takes, \<open>e_steady\<close> the earlier reading of
  \<open>Timestamp::now_steady().subsec()\<close> by its caller.
  \<open>e_undef\<close>, \<open>e_undef_int\<close>, \<open>e_undef_rr\<close> and \<open>e_undef_adv\<close> are what uninitialised local variables of these types
  happen to hold.
\<close>

text \<open>Memory does not run out: every allocation succeeds, with contents of its choice.\<close>

definition mem_ok :: "env \<Rightarrow> bool" where
  "mem_ok e \<longleftrightarrow> (\<forall>n. e_mem e n \<noteq> None)"

lemma mem_okE:
  assumes "mem_ok e"
  obtains q where "Packet_make (e_mem e) hroom None len troom = Some q"
proof -
  have "e_mem e (max (len + hroom + troom) 64) \<noteq> None" using assms by (simp add: mem_ok_def)
  with that show ?thesis
    by (auto simp: Packet_make_def alloc_data_def min_buffer_length_def Let_def)
qed

text \<open>A concrete environment, for the examples.\<close>

definition sample_env :: env where
  "sample_env =
     \<lparr>e_mem = (\<lambda>n. Some (\<lambda>i. 0)), e_clk = \<lparr>now_subsec = 5, now_steady_subsec = 6\<rparr>, e_steady = 77,
      e_undef = \<lparr>sourcePort = 0, destinationPort = 0\<rparr>, e_undef_int = 9,
      e_undef_rr = \<lparr>rr_S = False, rr_B = False, rr_D = False, rr_M = False, rr_G = False,
        rr_r = False, rr_T = False, rr_x = False, rr_lifetime = 0, rr_home = 0, rr_homeAgent = 0,
        rr_careOf = 0, rr_UDP = \<lparr>sourcePort = 0, destinationPort = 0\<rparr>, rr_IP = init_IPHeader,
        rr_identification = 0\<rparr>,
      e_undef_adv = \<lparr>ra_lifetime = 3, ra_code = 0, ra_sequenceNumber = 0,
        ra_registrationLifetime = 60, ra_homeAgent = False, ra_foreignAgent = False,
        ra_careOfAddress = 0, ra_IP = init_IPHeader\<rparr>\<rparr>"

lemma mem_ok_sample [simp]: "mem_ok sample_env"
  by (simp add: mem_ok_def sample_env_def)

text \<open>The two messages with UDP and IP headers, as the agents and the node send them.\<close>

lemma reply_built:
  assumes "mem_ok e"
  obtains m q where
    "buildRegistrationReplyPacket (e_mem e) (e_clk e) lt code hm ha idn = Some m"
    "UDPIPfy (e_mem e) m source sport destination dport ttl = Inr q"
    "arrives q (udp_datagram ttl source sport destination dport
                  (reply_bytes (e_clk e) lt code hm ha idn))"
    "p_dst_ip_anno q = destination"
proof -
  let ?bs = "reply_bytes (e_clk e) lt code hm ha idn"
  obtain m where m: "Packet_make (e_mem e) 46 None (length ?bs) 0 = Some m"
    using assms by (rule mem_okE)
  have "length ?bs < 65508" by simp
  from udp_message_sent [OF m this, of source sport destination dport ttl] obtain q where
    "UDPIPfy (e_mem e) (store (p_data m) ?bs m) source sport destination dport ttl = Inr q"
    "arrives q (udp_datagram ttl source sport destination dport ?bs)"
    "p_dst_ip_anno q = destination" .
  with m that show ?thesis by (simp add: build_reply_eq)
qed

lemma request_built:
  assumes "mem_ok e"
  obtains m q where
    "buildRegistrationRequestPacket (e_mem e) (e_clk e) lt hm ha co idn = Some m"
    "UDPIPfy (e_mem e) m source sport destination dport ttl = Inr q"
    "arrives q (udp_datagram ttl source sport destination dport
                  (request_bytes (e_clk e) lt hm ha co idn))"
    "p_dst_ip_anno q = destination"
proof -
  let ?bs = "request_bytes (e_clk e) lt hm ha co idn"
  obtain m where m: "Packet_make (e_mem e) 46 None (length ?bs) 0 = Some m"
    using assms by (rule mem_okE)
  have "length ?bs < 65508" by simp
  from udp_message_sent [OF m this, of source sport destination dport ttl] obtain q where
    "UDPIPfy (e_mem e) (store (p_data m) ?bs m) source sport destination dport ttl = Inr q"
    "arrives q (udp_datagram ttl source sport destination dport ?bs)"
    "p_dst_ip_anno q = destination" .
  with m that show ?thesis by (simp add: build_request_eq)
qed

section \<open>Runs of an element\<close>

fun run :: "('ev \<Rightarrow> 's \<Rightarrow> ('s \<times> 'o list) res) \<Rightarrow> 'ev list \<Rightarrow> 's \<Rightarrow> ('s \<times> 'o list) res" where
  "run step [] s = Inr (s, [])"
| "run step (ev # evs) s =
     res_bind (step ev s) (\<lambda>(s, out).
     res_bind (run step evs s) (\<lambda>(s, outs). Inr (s, out @ outs)))"

lemma run_append:
  "run step (xs @ ys) s =
     res_bind (run step xs s) (\<lambda>(s, out).
     res_bind (run step ys s) (\<lambda>(s, outs). Inr (s, out @ outs)))"
  by (induction xs arbitrary: s) (auto simp: res_bind_def split: sum.splits)

text \<open>
  An invariant that the steps keep for the events with \<open>ok\<close>, and the special case of one that
  every event keeps.
\<close>

locale guarded_invariant =
  fixes step :: "'ev \<Rightarrow> 's \<Rightarrow> ('s \<times> 'o list) res"
    and ok :: "'ev \<Rightarrow> bool"
    and inv :: "'s \<Rightarrow> bool"
  assumes guarded_step: "ok ev \<Longrightarrow> inv s \<Longrightarrow> step ev s = Inr (s', out) \<Longrightarrow> inv s'"
begin

lemma guarded_run:
  "\<forall>ev \<in> set evs. ok ev \<Longrightarrow> inv s \<Longrightarrow> run step evs s = Inr (s', out) \<Longrightarrow> inv s'"
proof (induction evs arbitrary: s out)
  case (Cons ev evs)
  then obtain s1 o1 o2 where "step ev s = Inr (s1, o1)" "run step evs s1 = Inr (s', o2)"
    by (auto simp: res_bind_eq_Inr_iff)
  with Cons guarded_step [of ev s s1 o1] show ?case by simp
qed simp

end

locale element_invariant =
  fixes step :: "'ev \<Rightarrow> 's \<Rightarrow> ('s \<times> 'o list) res"
    and inv :: "'s \<Rightarrow> bool"
  assumes step_inv: "inv s \<Longrightarrow> step ev s = Inr (s', out) \<Longrightarrow> inv s'"

sublocale element_invariant \<subseteq> guarded_invariant step "\<lambda>ev. True" inv
  by unfold_locales (rule step_inv)

context element_invariant
begin

lemma run_inv: "inv s \<Longrightarrow> run step evs s = Inr (s', out) \<Longrightarrow> inv s'"
  using guarded_run [of evs s s' out] by simp

end

section \<open>Properties of the message formats\<close>

text \<open>
  C9: Registration requests survive the wire: the packet the builder and \<open>UDPIPfy\<close> make is
  recognised as a registration request by any receiver that gets its bytes as a datagram, and
  decodes to the fields it was built from, with all checksums accepted. (Excepted are headers
  whose correct checksum is 0 and sources in 8.0.0.0/16, which the receiver gets wrong; an
  identification of 0 stands for the clock.)
\<close>

theorem request_roundtrip:
  assumes "mem_ok e" and "header_sum IP_PROTO_UDP 0 s d ttl 52 \<noteq> 0" and "\<not> looks_like_ether s"
    and "unat lt < 65536" and "unat sport < 65536" and "unat dport < 65536"
  shows "\<exists>m q. buildRegistrationRequestPacket (e_mem e) (e_clk e) lt hm ha co idn = Some m \<and>
    UDPIPfy (e_mem e) m s sport d dport ttl = Inr q \<and>
    (\<forall>p undef. arrives p (pkt_bytes q) \<longrightarrow>
       getPacketType p = Inr REGISTRATION \<and>
       processRegistrationRequestPacket undef p =
         Inr \<lparr>rr_S = False, rr_B = False, rr_D = False, rr_M = False, rr_G = False, rr_r = False,
              rr_T = False, rr_x = False, rr_lifetime = lt, rr_home = hm, rr_homeAgent = ha, rr_careOf = co,
              rr_UDP = \<lparr>sourcePort = sport, destinationPort = dport\<rparr>,
              rr_IP = \<lparr>ipsource = s, ipdestination = d\<rparr>,
              rr_identification = (if idn = 0 then now_steady_subsec (e_clk e) else idn)\<rparr>)"
proof -
  obtain m q where
    mq: "buildRegistrationRequestPacket (e_mem e) (e_clk e) lt hm ha co idn = Some m"
    "UDPIPfy (e_mem e) m s sport d dport ttl = Inr q"
    and q: "arrives q (udp_datagram ttl s sport d dport (request_bytes (e_clk e) lt hm ha co idn))"
    using assms(1) by (rule request_built)
  from q have "pkt_bytes q = udp_datagram ttl s sport d dport (request_bytes (e_clk e) lt hm ha co idn)"
    by (simp add: arrives_def)
  with mq request_recognised [OF _ assms(3)] request_received [OF _ assms(2)] assms(4-6)
  show ?thesis by (simp add: ucast_ucast_16)
qed

theorem request_roundtrip_witness:
  "\<exists>m q. buildRegistrationRequestPacket (e_mem sample_env) (e_clk sample_env) 100 0x0200A8C0 0x0101A8C0
       0x0201A8C0 77 = Some m \<and>
     UDPIPfy (e_mem sample_env) m 0x0200A8C0 5241 0x0102A8C0 434 1 = Inr q \<and>
     (\<forall>p. arrives p (pkt_bytes q) \<longrightarrow> getPacketType p = Inr REGISTRATION)"
proof -
  have "header_sum IP_PROTO_UDP 0 0x0200A8C0 0x0102A8C0 1 52 \<noteq> 0" "\<not> looks_like_ether 0x0200A8C0"
    by code_simp+
  from request_roundtrip [OF mem_ok_sample this, of 100 5241 434 "0x0200A8C0" "0x0101A8C0" "0x0201A8C0" 77]
  show ?thesis by (simp add: init_IPHeader_def) blast
qed

text \<open>
  Registration replies survive the wire in the same sense: recognised, accepted and decoded
  to code, lifetime, addresses, ports and identification they were built from.
\<close>

theorem reply_roundtrip:
  assumes "mem_ok e" and "header_sum IP_PROTO_UDP 0 s d ttl 48 \<noteq> 0" and "\<not> looks_like_ether s"
    and "unat lt < 65536" and "unat sport < 65536" and "unat dport < 65536"
  shows "\<exists>m q. buildRegistrationReplyPacket (e_mem e) (e_clk e) lt code hm ha idn = Some m \<and>
    UDPIPfy (e_mem e) m s sport d dport ttl = Inr q \<and>
    (\<forall>p undef. arrives p (pkt_bytes q) \<longrightarrow>
       getPacketType p = Inr REPLY \<and>
       processRegistrationReplyPacket undef p =
         Inr \<lparr>rp_code = ucast code, rp_lifetime = lt, rp_home = hm, rp_homeAgent = ha,
              rp_UDP = \<lparr>sourcePort = sport, destinationPort = dport\<rparr>,
              rp_IP = \<lparr>ipsource = s, ipdestination = d\<rparr>, rp_identification = idn\<rparr>)"
proof -
  obtain m q where
    mq: "buildRegistrationReplyPacket (e_mem e) (e_clk e) lt code hm ha idn = Some m"
    "UDPIPfy (e_mem e) m s sport d dport ttl = Inr q"
    and q: "arrives q (udp_datagram ttl s sport d dport (reply_bytes (e_clk e) lt code hm ha idn))"
    using assms(1) by (rule reply_built)
  from q have "pkt_bytes q = udp_datagram ttl s sport d dport (reply_bytes (e_clk e) lt code hm ha idn)"
    by (simp add: arrives_def)
  with mq reply_recognised [OF _ assms(3)] reply_received [OF _ assms(2)] assms(4-6)
  show ?thesis by (simp add: ucast_ucast_16)
qed

theorem reply_roundtrip_witness:
  "\<exists>m q. buildRegistrationReplyPacket (e_mem sample_env) (e_clk sample_env) 90 69 0x0200A8C0 0x0101A8C0 77 = Some m \<and>
     UDPIPfy (e_mem sample_env) m 0x0102A8C0 434 0x0200A8C0 5241 1 = Inr q \<and>
     (\<forall>p. arrives p (pkt_bytes q) \<longrightarrow> getPacketType p = Inr REPLY)"
proof -
  have "header_sum IP_PROTO_UDP 0 0x0102A8C0 0x0200A8C0 1 48 \<noteq> 0" "\<not> looks_like_ether 0x0102A8C0"
    by code_simp+
  from reply_roundtrip [OF mem_ok_sample this, of 90 434 5241 69 "0x0200A8C0" "0x0101A8C0" 77]
  show ?thesis by simp blast
qed

text \<open>
  C37: Agent advertisements survive the wire except for one flag: the receiver reports the home
  agent bit in both \<open>homeAgent\<close> and \<open>foreignAgent\<close>, so the foreign agent bit the advertiser sent
  is lost.
\<close>

theorem advertisement_roundtrip:
  assumes "mem_ok e" and "header_sum IP_PROTO_ICMP 0 s d ttl 48 \<noteq> 0" and "\<not> looks_like_ether s"
    and "unat lt < 65536" and "unat rlt < 65536" and "unat sq < 65536"
  shows "\<exists>m q. buildRouterAdvertisementMessage (e_mem e) lt rlt co sq isHA isFA = Some m \<and>
    ICMPIPfy (e_mem e) m s d ttl = Inr q \<and>
    (\<forall>p. arrives p (pkt_bytes q) \<longrightarrow>
       getPacketType p = Inr ADVERTISEMENT \<and>
       processRouterAdvertisementMessage p =
         Inr \<lparr>ra_lifetime = lt, ra_code = 0, ra_sequenceNumber = sq, ra_registrationLifetime = rlt,
              ra_homeAgent = isHA, ra_foreignAgent = isHA, ra_careOfAddress = co,
              ra_IP = \<lparr>ipsource = s, ipdestination = d\<rparr>\<rparr>)"
proof -
  let ?bs = "adv_bytes lt rlt co sq isHA isFA"
  obtain m where m: "Packet_make (e_mem e) 38 None (length ?bs) 0 = Some m"
    using assms(1) by (rule mem_okE)
  obtain q where q: "ICMPIPfy (e_mem e) (store (p_data m) ?bs m) s d ttl = Inr q"
    "arrives q (ip_datagram IP_PROTO_ICMP 0 s d ttl ?bs)"
    using m by (rule icmp_message_sent)
  from q(2) have "pkt_bytes q = ip_datagram IP_PROTO_ICMP 0 s d ttl ?bs" by (simp add: arrives_def)
  with q(1) m advertisement_recognised [OF _ assms(3)] advertisement_received [OF _ assms(2)] assms(4-6)
  show ?thesis by (simp add: build_adv_eq ucast_ucast_16)
qed

theorem advertisement_roundtrip_witness:
  "\<exists>m q. buildRouterAdvertisementMessage (e_mem sample_env) 45 60 0x0201A8C0 3 False True = Some m \<and>
     ICMPIPfy (e_mem sample_env) m 0x0102A8C0 0xffffffff 1 = Inr q \<and>
     (\<forall>p. arrives p (pkt_bytes q) \<longrightarrow>
        (\<exists>a. processRouterAdvertisementMessage p = Inr a \<and> \<not> ra_foreignAgent a))"
proof -
  have "header_sum IP_PROTO_ICMP 0 0x0102A8C0 0xffffffff 1 48 \<noteq> 0" "\<not> looks_like_ether 0x0102A8C0"
    by code_simp+
  from advertisement_roundtrip [OF mem_ok_sample this, of 45 60 3 "0x0201A8C0" False True]
  show ?thesis by fastforce
qed

end
