(* ===== verification/Click_IP.thy ===== *)
theory Click_IP
  imports Element_Model
begin

text \<open>
  The Click elements on the path of every IP packet in the router configurations
  \<^verbatim>\<open>click/scripts/library/{ha,fa,mn}.click\<close>: \<^verbatim>\<open>FromHost\<close>, \<^verbatim>\<open>Strip\<close>, \<^verbatim>\<open>CheckIPHeader\<close>, \<^verbatim>\<open>DecIPTTL\<close>
  and \<^verbatim>\<open>FixIPSrc\<close>. They produce the situation (\<open>arrives\<close>) that the Mobile IP elements rely
  on. A \<open>simple_action\<close> returns the packet it passes on, if any, and its other effects.
\<close>

section \<open>FromHost and Strip\<close>

text \<open>
  \<open>FromHost::selected\<close> for a successful \<open>read\<close> of the bytes \<open>frame\<close> (at most \<open>mtu_in\<close>) from the
  tap device: two bytes of padding and the type come before the Ethernet frame.
\<close>

definition FromHost_selected :: "allocator \<Rightarrow> nat \<Rightarrow> nat \<Rightarrow> byte list \<Rightarrow> effect list res" where
  "FromHost_selected mem hroom mtu_in frame =
     (case Packet_make mem hroom None mtu_in 0 of
        None \<Rightarrow> Inr []
      | Some p \<Rightarrow>
          let cc = length frame in
          if 0 < cc then
            res_bind (wr p (p_data p) frame) (\<lambda>p.
            let p = pkt_pull 4 (pkt_take (mtu_in - cc) p);
                p = p\<lparr>p_mac := Some (p_data p)\<rparr>;
                ip = p_data p + sizeof_ether in
            res_bind (rd p ip sizeof_ip) (\<lambda>bs.
            let p = set_dst_ip_anno (ip_dst (dec_ip bs)) p in
            res_bind (set_ip_header ip (4 * unat (ip_hl (dec_ip bs))) p) (\<lambda>p.
            Inr [Push 0 p])))
          else Inr [Kill p])"

definition Strip_simple_action :: "nat \<Rightarrow> packet \<Rightarrow> packet" where
  "Strip_simple_action nbytes p = pkt_pull nbytes p"

section \<open>CheckIPHeader\<close>

datatype Reason =
  MINISCULE_PACKET | BAD_VERSION | BAD_HLEN | BAD_IP_LEN | BAD_CHECKSUM | BAD_SADDR

record CheckIPHeader =
  ck_offset :: u32
  ck_bad_src :: "ipaddr list"
  ck_good_dst :: "ipaddr list"
  ck_checksum :: bool
  ck_noutputs :: nat
  ck_drops :: u32
  ck_reason_drops :: "(Reason \<Rightarrow> u32) option"

definition CK_drop :: "Reason \<Rightarrow> packet \<Rightarrow> CheckIPHeader \<Rightarrow> CheckIPHeader \<times> effect list \<times> packet option" where
  "CK_drop reason p st =
     (let st = st\<lparr>ck_drops := ck_drops st + 1,
                  ck_reason_drops := map_option (\<lambda>f. f(reason := f reason + 1)) (ck_reason_drops st)\<rparr>
      in (st, [if ck_noutputs st = 2 then Push 1 p else Kill p], None))"

definition CK_simple_action ::
  "packet \<Rightarrow> CheckIPHeader \<Rightarrow> (CheckIPHeader \<times> effect list \<times> packet option) res" where
  "CK_simple_action p st =
     (let off = p_data p + unat (ck_offset st);
          plen = of_nat (p_len p) - ck_offset st in
      if sint plen < int sizeof_ip then Inr (CK_drop MINISCULE_PACKET p st)
      else
      res_bind (rd p off sizeof_ip) (\<lambda>bs.
      let ip = dec_ip bs in
      if ip_v ip \<noteq> 4 then Inr (CK_drop BAD_VERSION p st)
      else
      let hlen = 4 * unat (ip_hl ip) in
      if hlen < sizeof_ip then Inr (CK_drop BAD_HLEN p st)
      else
      let len = unat (ntohs (ip_len ip)) in
      if len > unat plen \<or> len < hlen then Inr (CK_drop BAD_IP_LEN p st)
      else
      res_bind (rd p off hlen) (\<lambda>hdr.
      if ck_checksum st \<and> click_in_cksum hdr \<noteq> 0 then Inr (CK_drop BAD_CHECKSUM p st)
      else if ip_src ip \<in> set (ck_bad_src st) \<and> ip_dst ip \<notin> set (ck_good_dst st)
      then Inr (CK_drop BAD_SADDR p st)
      else
      res_bind (set_ip_header off hlen p) (\<lambda>p.
      let p = (if unat plen > len then pkt_take (unat plen - len) p else p) in
      Inr (st, [], Some (set_dst_ip_anno (ip_dst ip) p))))))"

section \<open>DecIPTTL and FixIPSrc\<close>

record DecIPTTL =
  dt_active :: bool
  dt_multicast :: bool
  dt_drops :: u32
  dt_noutputs :: nat

definition DT_configure :: "bool arg \<Rightarrow> bool arg \<Rightarrow> bool \<Rightarrow> DecIPTTL \<Rightarrow> int \<times> DecIPTTL" where
  "DT_configure ACTIVE MULTICAST unread st =
     (case (Args_read ACTIVE (dt_active st), Args_read MULTICAST (dt_multicast st)) of
        (Some a, Some m) \<Rightarrow>
          if unread then (- EINVAL, st) else (0, st\<lparr>dt_active := a, dt_multicast := m\<rparr>)
      | _ \<Rightarrow> (- EINVAL, st))"

text \<open>\<open>checked_output_push\<close>: kill what has no output to go to.\<close>

definition checked_output_push :: "nat \<Rightarrow> nat \<Rightarrow> packet \<Rightarrow> effect" where
  "checked_output_push noutputs port p = (if port < noutputs then Push port p else Kill p)"

definition is_multicast :: "ipaddr \<Rightarrow> bool" where
  "is_multicast a \<longleftrightarrow> a AND 0xf0 = 0xe0"

text \<open>The incremental update of the header checksum for a TTL one less (RFC 1624).\<close>

definition dec_ttl_sum :: "u16 \<Rightarrow> u16" where
  "dec_ttl_sum s =
     (let sum = (NOT (ucast (ntohs s)) AND 0xFFFF) + 0xFEFF :: u32
      in NOT (htons (ucast (sum + drop_bit 16 sum))))"

definition DT_simple_action ::
  "allocator \<Rightarrow> packet \<Rightarrow> DecIPTTL \<Rightarrow> (DecIPTTL \<times> effect list \<times> packet option) res" where
  "DT_simple_action mem p st =
     (if \<not> has_network_header p then Inl AssertionFailure
      else if \<not> dt_active st then Inr (st, [], Some p)
      else
      res_bind (deref (p_nh p)) (\<lambda>nh.
      res_bind (rd p nh sizeof_ip) (\<lambda>bs.
      let ip_in = dec_ip bs in
      if \<not> dt_multicast st \<and> is_multicast (ip_dst ip_in) then Inr (st, [], Some p)
      else if ip_ttl ip_in \<le> 1 then
        Inr (st\<lparr>dt_drops := dt_drops st + 1\<rparr>, [checked_output_push (dt_noutputs st) 1 p], None)
      else
        (case uniqueify mem p of
           None \<Rightarrow> Inr (st, [], None)
         | Some q \<Rightarrow>
             res_bind (deref (p_nh q)) (\<lambda>nh.
             res_bind (rd q nh sizeof_ip) (\<lambda>bs.
             let ip = dec_ip bs;
                 ip = ip\<lparr>ip_ttl := ip_ttl ip - 1\<rparr>;
                 ip = ip\<lparr>ip_sum := dec_ttl_sum (ip_sum ip)\<rparr> in
             res_bind (wr q nh (enc_ip ip)) (\<lambda>q. Inr (st, [], Some q))))))))"

text \<open>
  \<open>FixIPSrc::fix_it\<close>; \<open>anno\<close> is the annotation byte that asks for it, returned cleared.
\<close>

definition FixIPSrc_fix_it :: "allocator \<Rightarrow> ipaddr \<Rightarrow> packet \<Rightarrow> packet res" where
  "FixIPSrc_fix_it mem my_ip p_in =
     res_bind (deref (uniqueify mem p_in)) (\<lambda>p.
     res_bind (deref (p_nh p)) (\<lambda>nh.
     res_bind (rd p nh sizeof_ip) (\<lambda>bs.
     let ip = (dec_ip bs)\<lparr>ip_src := my_ip, ip_sum := 0\<rparr>; hlen = 4 * unat (ip_hl ip) in
     res_bind (wr p nh (enc_ip ip)) (\<lambda>p.
     res_bind (rd p nh hlen) (\<lambda>hdr.
     wr p nh (enc_ip (ip\<lparr>ip_sum := click_in_cksum hdr\<rparr>)))))))"

definition FixIPSrc_simple_action ::
  "allocator \<Rightarrow> ipaddr \<Rightarrow> bool \<Rightarrow> packet \<Rightarrow> (bool \<times> packet) res" where
  "FixIPSrc_simple_action mem my_ip anno p =
     (if anno \<and> has_network_header p
      then res_bind (FixIPSrc_fix_it mem my_ip p) (\<lambda>p. Inr (False, p))
      else Inr (anno, p))"

section \<open>The incremental checksum\<close>

lemma unat_dec_ttl_sum:
  "unat (dec_ttl_sum s) = (if unat s < 65534 then unat s + 1 else unat s - 65534)"
proof -
  define h l where "h = unat s div 256" and "l = unat s mod 256"
  have S: "unat s = 256 * h + l" "h < 256" "l < 256"
    using unat_lt_65536 [of s] by (simp_all add: h_def l_def less_mult_imp_div_less del: unat_lt_65536)
  define n where "n = h + 256 * l"
  have n: "unat (ntohs s) = n" "n < 65536"
    using S by (simp_all add: n_def unat_htons h_def l_def)
  define a :: u32 where "a = NOT (ucast (ntohs s)) AND 0xFFFF"
  have a: "unat a = 65535 - n"
  proof -
    have m: "(0xFFFF :: u32) = mask 16" by (simp add: mask_eq_exp_minus_1)
    have "a = ucast (NOT (ntohs s))"
      unfolding a_def m by (rule bit_word_eqI) (auto simp: bit_simps dest: bit_imp_le_length)
    then show ?thesis using n by (simp add: unat_not_16)
  qed
  define v :: u16 where "v = ucast (a + 0xFEFF + drop_bit 16 (a + 0xFEFF))"
  have sum: "unat (a + 0xFEFF) = 130814 - n" using a n(2) by (simp add: unat_word_ariths)
  have v: "unat v = (130814 - n + (130814 - n) div 65536) mod 65536"
    using sum n(2)
    by (simp add: v_def unat_ucast_32_16 unat_word_ariths unat_shr16)
  have r: "unat (dec_ttl_sum s) = 65535 - (unat v div 256 + 256 * (unat v mod 256))"
    by (simp add: dec_ttl_sum_def a_def [symmetric] v_def [symmetric] Let_def unat_not_16 unat_htons)
  have dm: "(256 * x + y) div 256 = x" "(256 * x + y) mod 256 = y" if "y < 256" for x y :: nat
    using that by simp_all
  have v1: "unat v = 65279 - n" if "n < 65279"
  proof -
    define t where "t = 65278 - n"
    have t: "130814 - n = t + 65536" "t < 65535" using that by (simp_all add: t_def)
    have "(t + 65536) div 65536 = t div 65536 + 1" using div_add_self2 [of 65536 t] by simp
    with t(2) have "(t + 65536 + (t + 65536) div 65536) mod 65536 = t + 1"
      using mod_add_self2 [of "t + 1" 65536] by (simp add: add.assoc add.commute)
    then show ?thesis unfolding v t(1) using that by (simp add: t_def)
  qed
  have v2: "unat v = 130814 - n" if "65279 \<le> n"
    using that v by simp
  consider "n < 65279" | "n = 65279" | "65279 < n" "h < 255" | "65279 < n" "h = 255" using S(2) by linarith
  then show ?thesis
  proof cases
    case 1
    then have "l \<le> 254" using S by (simp add: n_def)
    with 1 S have "unat v = 256 * (254 - l) + (255 - h)" using v1 by (simp add: n_def)
    with \<open>l \<le> 254\<close> S dm [of "255 - h" "254 - l"] 1 show ?thesis by (simp add: r n_def)
  next
    case 2
    then have "h + 256 * l = 65279" by (simp add: n_def)
    with S(2,3) have "l = 254 \<and> h = 255" by presburger
    then have "l = 254" "h = 255" by simp_all
    with S 2 v2 show ?thesis by (simp add: r)
  next
    case 3
    then have "l = 255" using S by (simp add: n_def)
    with 3 S have "unat v = 256 * 255 + (254 - h)" using v2 by (simp add: n_def)
    with \<open>l = 255\<close> 3 S dm [of "254 - h" 255] show ?thesis by (simp add: r)
  next
    case 4
    then have "l = 255" using S by (simp add: n_def)
    with S 4 v2 show ?thesis by (simp add: r n_def)
  qed
qed

lemma word_sum_enc_ip_sum:
  "word_sum (enc_ip (h\<lparr>ip_sum := r\<rparr>) @ xs) = word_sum (enc_ip (h\<lparr>ip_sum := 0\<rparr>) @ xs) + unat r"
  by (simp add: enc_ip_def u16_bytes_def u32_bytes_def) (simp add: le16_def)

lemma word_sum_enc_ip_ttl:
  "word_sum (enc_ip (h\<lparr>ip_ttl := t\<rparr>) @ xs) + unat (ip_ttl h) = word_sum (enc_ip h @ xs) + unat t"
  by (simp add: enc_ip_def u16_bytes_def u32_bytes_def unat_le16)

lemma word_sum_enc_ip_pos: "ip_ttl h \<noteq> 0 \<Longrightarrow> 0 < word_sum (enc_ip h @ xs)"
  by (simp add: enc_ip_def u16_bytes_def u32_bytes_def unat_le16 unat_gt_0)

lemma with_sum_verifies: "click_in_cksum (enc_ip (with_sum h)) = 0"
proof -
  define S where "S = word_sum (enc_ip (h\<lparr>ip_sum := 0\<rparr>))"
  define c where "c = click_in_cksum (enc_ip (h\<lparr>ip_sum := 0\<rparr>))"
  have len: "length (enc_ip x) \<le> 65535" for x by (simp add: length_enc_ip)
  have "S < 4294967296" unfolding S_def by (rule word_sum_lt) (rule len)
  moreover have "unat c = 65535 - ones_fold S"
    unfolding S_def c_def by (rule unat_click_in_cksum) (rule len)
  moreover have "word_sum (enc_ip (with_sum h)) = S + unat c"
    using word_sum_enc_ip_sum [where h = h and r = c and xs = "[]"]
    by (simp only: with_sum_def c_def S_def append_Nil2)
  ultimately have "0 < word_sum (enc_ip (with_sum h)) \<and> 65535 dvd word_sum (enc_ip (with_sum h))"
    using ones_fold_complement [of S] by simp
  then show ?thesis by (simp only: click_in_cksum_zero_iff [OF len])
qed

text \<open>The header \<open>DecIPTTL\<close> leaves.\<close>

definition ttl_decremented :: "click_ip \<Rightarrow> click_ip" where
  "ttl_decremented h = h\<lparr>ip_ttl := ip_ttl h - 1, ip_sum := dec_ttl_sum (ip_sum h)\<rparr>"

lemma ttl_decremented_verifies:
  assumes "click_in_cksum (enc_ip h @ opts) = 0" and "1 < ip_ttl h" and "length opts \<le> 40"
  shows "click_in_cksum (enc_ip (ttl_decremented h) @ opts) = 0"
proof -
  define w where "w h = word_sum (enc_ip h @ opts)" for h
  have len: "length (enc_ip h @ opts) \<le> 65535" for h using assms(3) by (simp add: length_enc_ip)
  have dvd: "65535 dvd w h" using assms(1) by (simp add: click_in_cksum_zero_iff [OF len] w_def)
  let ?h1 = "h\<lparr>ip_ttl := ip_ttl h - 1\<rparr>"
  have "ip_ttl h \<noteq> 0" using assms(2) by auto
  then have "unat (ip_ttl h - 1) = unat (ip_ttl h) - 1" "0 < unat (ip_ttl h)"
    by (simp_all add: unat_minus_one unat_gt_0)
  then have ttl: "w ?h1 + 1 = w h"
    using word_sum_enc_ip_ttl [where h = h and t = "ip_ttl h - 1" and xs = opts] by (simp add: w_def)
  have sums: "w ?h1 = w (?h1\<lparr>ip_sum := 0\<rparr>) + unat (ip_sum h)"
    "w (ttl_decremented h) = w (?h1\<lparr>ip_sum := 0\<rparr>) + unat (dec_ttl_sum (ip_sum h))"
    using word_sum_enc_ip_sum [where h = ?h1 and r = "ip_sum h" and xs = opts]
      word_sum_enc_ip_sum [where h = ?h1 and r = "dec_ttl_sum (ip_sum h)" and xs = opts]
    by (simp_all add: w_def ttl_decremented_def)
  have "w (ttl_decremented h) = w h \<or> w (ttl_decremented h) + 65535 = w h"
    using sums ttl by (auto simp: unat_dec_ttl_sum)
  with dvd have "65535 dvd w (ttl_decremented h)"
    using dvd_add_left_iff [of 65535 65535 "w (ttl_decremented h)"] by (metis dvd_refl)
  moreover have "0 < w (ttl_decremented h)"
  proof -
    have "ip_ttl h - 1 \<noteq> 0" using assms(2) by auto
    then show ?thesis unfolding w_def by (intro word_sum_enc_ip_pos) (simp add: ttl_decremented_def)
  qed
  ultimately show ?thesis by (simp add: click_in_cksum_zero_iff [OF len] w_def)
qed

section \<open>What the elements hand on\<close>

lemma rd_prefix:
  assumes "rd p off (length xs + n) = Inr (xs @ ys)"
  shows "rd p off (length xs) = Inr xs"
proof -
  have "chunk off (length xs) (p_buf p) = take (length xs) (chunk off (length xs + n) (p_buf p))"
    by (simp add: chunk_def)
  then show ?thesis using assms by (simp add: rd_def split: if_splits)
qed

lemma DT_drops:
  assumes "p_nh p = Some nh" and "rd p nh (20 + length opts) = Inr (enc_ip h @ opts)"
    and "\<not> shared p" and "dt_active st" and "dt_multicast st" and "ip_ttl h \<le> 1"
  shows "DT_simple_action mem p st =
    Inr (st\<lparr>dt_drops := dt_drops st + 1\<rparr>, [checked_output_push (dt_noutputs st) 1 p], None)"
  using assms rd_prefix [of p nh "enc_ip h" "length opts" opts]
  by (simp add: DT_simple_action_def has_network_header_def sizeof_ip_def length_enc_ip
        ip.dec_enc [simplified])

lemma DT_forwards:
  assumes "p_nh p = Some nh" and "rd p nh (20 + length opts) = Inr (enc_ip h @ opts)"
    and "\<not> shared p" and "dt_active st" and "dt_multicast st" and "1 < ip_ttl h"
  obtains q where "DT_simple_action mem p st = Inr (st, [], Some q)"
    "rd q nh (20 + length opts) = Inr (enc_ip (ttl_decremented h) @ opts)"
    "q = p\<lparr>p_buf := patch nh (enc_ip (ttl_decremented h)) (p_buf p)\<rparr>"
proof -
  have len: "nh + (20 + length opts) \<le> length (p_buf p)"
    and ch: "chunk nh (20 + length opts) (p_buf p) = enc_ip h @ opts"
    using assms(2) by (auto simp: rd_def split: if_splits)
  have r20: "rd p nh 20 = Inr (enc_ip h)"
    using rd_prefix [of p nh "enc_ip h" "length opts" opts] assms(2) by (simp add: length_enc_ip)
  let ?q = "p\<lparr>p_buf := patch nh (enc_ip (ttl_decremented h)) (p_buf p)\<rparr>"
  have w: "wr p nh (enc_ip (ttl_decremented h)) = Inr ?q" using len by (simp add: wr_def length_enc_ip)
  have "chunk nh (20 + length opts) (p_buf ?q) = enc_ip (ttl_decremented h) @ opts"
  proof -
    have "chunk (nh + 20) (length opts) (p_buf p) = drop 20 (chunk nh (20 + length opts) (p_buf p))"
      by (simp add: chunk_def drop_take add.commute)
    then have "chunk (nh + 20) (length opts) (p_buf p) = opts" using ch by (simp add: length_enc_ip)
    moreover have "chunk nh 20 (patch nh (enc_ip (ttl_decremented h)) (p_buf p)) = enc_ip (ttl_decremented h)"
      using chunk_patch_same [of nh "enc_ip (ttl_decremented h)" "p_buf p"] len by (simp add: length_enc_ip)
    ultimately show ?thesis
      using len by (simp add: chunk_split chunk_patch_after length_enc_ip)
  qed
  then have rq: "rd ?q nh (20 + length opts) = Inr (enc_ip (ttl_decremented h) @ opts)"
    using len by (simp add: rd_def length_enc_ip)
  have "DT_simple_action mem p st = Inr (st, [], Some ?q)"
    using assms r20 w
    by (simp add: DT_simple_action_def has_network_header_def uniqueify_def sizeof_ip_def not_le
          ip.dec_enc [simplified] Let_def ttl_decremented_def)
  with rq that show thesis by simp
qed

section \<open>What CheckIPHeader lets through\<close>

definition ck_valid :: "CheckIPHeader \<Rightarrow> byte list \<Rightarrow> bool" where
  "ck_valid st bs \<longleftrightarrow>
     (let h = dec_ip (take 20 bs); hlen = 4 * unat (ip_hl h); len = unat (ntohs (ip_len h)) in
      20 \<le> length bs \<and> ip_v h = 4 \<and> 20 \<le> hlen \<and> hlen \<le> len \<and> len \<le> length bs \<and>
      (ck_checksum st \<longrightarrow> click_in_cksum (take hlen bs) = 0) \<and>
      (ip_src h \<in> set (ck_bad_src st) \<longrightarrow> ip_dst h \<in> set (ck_good_dst st)))"

definition ck_passed :: "packet \<Rightarrow> packet" where
  "ck_passed p =
     (let h = dec_ip (take 20 (pkt_bytes p)) in
      p\<lparr>p_len := unat (ntohs (ip_len h)), p_nh := Some (p_data p),
        p_h := Some (p_data p + 4 * unat (ip_hl h)), p_dst_ip_anno := ip_dst h\<rparr>)"

lemma plen_word:
  assumes "n < 2147483648"
  shows "sint (of_nat n :: u32) = int n" "unat (of_nat n :: u32) = n"
  using assms
  by (simp_all add: unat_of_nat signed_of_nat take_bit_nat_eq_self
        signed_take_bit_int_eq_self)

lemma CK_decides:
  assumes wf: "wf_pkt p" and small: "p_len p < 2147483648" and off: "ck_offset st = 0"
  shows "if ck_valid st (pkt_bytes p) then CK_simple_action p st = Inr (st, [], Some (ck_passed p))
         else \<exists>reason. CK_simple_action p st = Inr (CK_drop reason p st)"
proof (cases "p_len p < 20")
  case True
  then show ?thesis
    using plen_word [OF small] length_pkt_bytes [OF wf] off
    by (auto simp: CK_simple_action_def ck_valid_def sizeof_ip_def)
next
  case False
  define bs where "bs = pkt_bytes p"
  define h where "h = dec_ip (take 20 bs)"
  define hlen len where "hlen = 4 * unat (ip_hl h)" and "len = unat (ntohs (ip_len h))"
  have l: "length bs = p_len p" unfolding bs_def by (rule length_pkt_bytes [OF wf])
  have r: "n \<le> p_len p \<Longrightarrow> rd p (p_data p) n = Inr (take n bs)" for n
    using rd_data [OF wf, of 0 n] by (simp add: chunk_def bs_def)
  have r20: "rd p (p_data p) 20 = Inr (take 20 bs)" using False r by simp
  have v: "ck_valid st bs \<longleftrightarrow> ip_v h = 4 \<and> 20 \<le> hlen \<and> hlen \<le> len \<and> len \<le> p_len p \<and>
      (ck_checksum st \<longrightarrow> click_in_cksum (take hlen bs) = 0) \<and>
      (ip_src h \<in> set (ck_bad_src st) \<longrightarrow> ip_dst h \<in> set (ck_good_dst st))"
    using False l by (simp add: ck_valid_def Let_def h_def hlen_def len_def)
  have front: "CK_simple_action p st =
      (if ip_v h \<noteq> 4 then Inr (CK_drop BAD_VERSION p st)
       else if hlen < 20 then Inr (CK_drop BAD_HLEN p st)
       else if len > p_len p \<or> len < hlen then Inr (CK_drop BAD_IP_LEN p st)
       else CK_simple_action p st)"
    using False plen_word [OF small] off
    by (simp add: CK_simple_action_def Let_def r20 sizeof_ip_def h_def hlen_def len_def)
  have rest: "CK_simple_action p st =
      (if ck_checksum st \<and> click_in_cksum (take hlen bs) \<noteq> 0 then Inr (CK_drop BAD_CHECKSUM p st)
       else if ip_src h \<in> set (ck_bad_src st) \<and> ip_dst h \<notin> set (ck_good_dst st)
       then Inr (CK_drop BAD_SADDR p st) else Inr (st, [], Some (ck_passed p)))"
    if ok: "ip_v h = 4" "20 \<le> hlen" "hlen \<le> len" "len \<le> p_len p"
  proof -
    have rh: "rd p (p_data p) hlen = Inr (take hlen bs)" using r [of hlen] ok by simp
    have "p_data p + hlen \<le> length (p_buf p)" using ok wf by (simp add: wf_pkt_def)
    then show ?thesis
      using False plen_word [OF small] off ok
      by (simp add: CK_simple_action_def Let_def r20 rh sizeof_ip_def h_def [symmetric]
            hlen_def [symmetric] len_def [symmetric] set_ip_header_def set_network_header_def
            pkt_take_def set_dst_ip_anno_def ck_passed_def bs_def [symmetric] del: One_nat_def)
  qed
  show ?thesis
  proof (cases "ip_v h = 4 \<and> 20 \<le> hlen \<and> hlen \<le> len \<and> len \<le> p_len p")
    case True
    then show ?thesis using rest v by (auto simp: bs_def)
  next
    case False
    then have "\<exists>reason. CK_simple_action p st = Inr (CK_drop reason p st)"
      using front by (auto split: if_splits)
    moreover have "\<not> ck_valid st bs" using v False by auto
    ultimately show ?thesis by (simp add: bs_def)
  qed
qed

lemma ck_passed_bytes:
  assumes "wf_pkt p" and "ck_valid st (pkt_bytes p)"
  shows "wf_pkt (ck_passed p)"
    "pkt_bytes (ck_passed p) = take (unat (ntohs (ip_len (dec_ip (take 20 (pkt_bytes p)))))) (pkt_bytes p)"
proof -
  define len where "len = unat (ntohs (ip_len (dec_ip (take 20 (pkt_bytes p)))))"
  have "len \<le> p_len p" "ck_passed p = (ck_passed p)\<lparr>p_len := len\<rparr>"
    "p_data (ck_passed p) = p_data p" "p_buf (ck_passed p) = p_buf p" "p_len (ck_passed p) = len"
    using assms(2) length_pkt_bytes [OF assms(1)]
    by (simp_all add: ck_valid_def ck_passed_def Let_def len_def)
  then show "wf_pkt (ck_passed p)"
    "pkt_bytes (ck_passed p) = take (unat (ntohs (ip_len (dec_ip (take 20 (pkt_bytes p)))))) (pkt_bytes p)"
    using assms(1) by (simp_all add: wf_pkt_def pkt_bytes_def chunk_def min_def len_def)
qed

lemma unat_ip_hl_base: "unat (ip_hl (base_ip n proto tos s d ttl)) = 5"
  by (simp add: base_ip_def sizeof_ip_def)

lemma with_sum_fields [simp]:
  "ip_v (with_sum h) = ip_v h" "ip_hl (with_sum h) = ip_hl h" "ip_len (with_sum h) = ip_len h"
  "ip_src (with_sum h) = ip_src h" "ip_dst (with_sum h) = ip_dst h" "ip_ttl (with_sum h) = ip_ttl h"
  by (simp_all add: with_sum_def)

lemma take_datagram:
  "take 20 (ip_datagram proto tos s d ttl payload)
     = enc_ip (with_sum (base_ip (20 + length payload) proto tos s d ttl))"
  by (simp add: ip_datagram_def length_enc_ip sizeof_ip_def)

lemma ck_valid_datagram:
  assumes "length payload < 65516" and "s \<in> set (ck_bad_src st) \<Longrightarrow> d \<in> set (ck_good_dst st)"
  shows "ck_valid st (ip_datagram proto tos s d ttl payload @ pad)"
proof -
  let ?h = "base_ip (20 + length payload) proto tos s d ttl"
  have "unat (ntohs (ip_len ?h)) = 20 + length payload"
    using assms(1) by (simp add: base_ip_def unat_of_nat_16 del: of_nat_add)
  moreover have "4 * unat (ip_hl ?h) = 20" by (simp add: unat_ip_hl_base)
  moreover have "ip_v ?h = 4" "ip_src ?h = s" "ip_dst ?h = d" by (simp_all add: base_ip_def)
  ultimately show ?thesis
    using assms(2) with_sum_verifies [of ?h]
    by (simp add: ck_valid_def Let_def take_datagram ip.dec_enc [simplified] sizeof_ip_def)
qed

lemma ck_passed_datagram:
  assumes "wf_pkt p" and "pkt_bytes p = ip_datagram proto tos s d ttl payload @ pad"
    and "length payload < 65516" and "ck_valid st (pkt_bytes p)"
  shows "arrives (ck_passed p) (ip_datagram proto tos s d ttl payload)"
proof -
  let ?h = "base_ip (20 + length payload) proto tos s d ttl"
  have len: "unat (ntohs (ip_len ?h)) = 20 + length payload"
    using assms(3) by (simp add: base_ip_def unat_of_nat_16 del: of_nat_add)
  have h: "dec_ip (take 20 (pkt_bytes p)) = with_sum ?h"
    by (simp add: assms(2) take_datagram ip.dec_enc [simplified] sizeof_ip_def)
  have "p_data (ck_passed p) = p_data p" "p_nh (ck_passed p) = Some (p_data p)"
    "p_h (ck_passed p) = Some (p_data p + 20)"
    by (simp_all add: ck_passed_def h Let_def unat_ip_hl_base)
  moreover have "pkt_bytes (ck_passed p) = ip_datagram proto tos s d ttl payload"
    unfolding ck_passed_bytes(2) [OF assms(1,4)] h using len by (simp add: assms(2) sizeof_ip_def)
  ultimately show ?thesis
    using ck_passed_bytes(1) [OF assms(1,4)] by (simp add: arrives_def sizeof_ip_def)
qed

section \<open>What FromHost hands on\<close>

lemma FromHost_frame:
  assumes mem: "mem (max (mtu_in + hroom) 64) = Some g" and frame: "frame = pre @ eth @ bs"
    and len: "length pre = 4" "length eth = 14" "20 \<le> length bs" "length frame \<le> mtu_in"
    and hl: "4 * unat (ip_hl (dec_ip (take 20 bs))) \<le> length bs"
  obtains p where "FromHost_selected mem hroom mtu_in frame = Inr [Push 0 p]"
    "wf_pkt p" "pkt_bytes p = eth @ bs" "p_mac p = Some (p_data p)" "p_nh p = Some (p_data p + 14)"
    "p_h p = Some (p_data p + 14 + 4 * unat (ip_hl (dec_ip (take 20 bs))))"
    "p_dst_ip_anno p = ip_dst (dec_ip (take 20 bs))"
proof -
  define h where "h = dec_ip (take 20 bs)"
  obtain p0 where p0: "Packet_make mem hroom None mtu_in 0 = Some p0"
    using mem by (auto simp: Packet_make_def alloc_data_def Let_def min_buffer_length_def)
  have m: "p_data p0 = hroom" "p_len p0 = mtu_in" "length (p_buf p0) = max (mtu_in + hroom) 64"
    using Packet_make_SomeD [OF p0] by simp_all
  define b where "b = patch hroom frame (p_buf p0)"
  have lf: "length frame = 18 + length bs" using frame len by simp
  have bl: "length b = max (mtu_in + hroom) 64" using m len(4) by (simp add: b_def)
  have ch: "chunk hroom (length frame) b = frame"
    unfolding b_def using m len(4) by (intro chunk_patch_same) simp
  define p1 where "p1 = p0\<lparr>p_buf := b, p_data := hroom + 4, p_len := 14 + length bs,
      p_mac := Some (hroom + 4)\<rparr>"
  define p where "p = p1\<lparr>p_dst_ip_anno := ip_dst h, p_nh := Some (hroom + 18),
      p_h := Some (hroom + 18 + 4 * unat (ip_hl h))\<rparr>"
  have sub: "chunk (hroom + i) n b = chunk i n frame" if "i + n \<le> length frame" for i n
    using that chunk_chunk [of i n "length frame" hroom b] by (simp add: ch)
  have w: "wr p0 hroom frame = Inr (p0\<lparr>p_buf := b\<rparr>)" using m len(4) by (simp add: wr_def b_def)
  have move: "pkt_pull 4 (pkt_take (mtu_in - length frame) (p0\<lparr>p_buf := b\<rparr>))
      = p0\<lparr>p_buf := b, p_data := hroom + 4, p_len := 14 + length bs\<rparr>"
    using m len lf by (simp add: pkt_pull_def pkt_take_def)
  have r: "rd p1 (18 + hroom) 20 = Inr (take 20 bs)"
    using sub [of 18 20] bl lf len by (simp add: rd_def p1_def frame chunk_def add.commute)
  have "FromHost_selected mem hroom mtu_in frame = Inr [Push 0 p]"
    using lf len w move r bl hl
    by (simp add: FromHost_selected_def p0 m Let_def sizeof_ether_def sizeof_ip_def p1_def [symmetric]
          set_dst_ip_anno_def set_ip_header_def set_network_header_def h_def p_def)
       (simp add: p1_def add.commute)
  moreover have "pkt_bytes p = eth @ bs"
    using sub [of 4 "14 + length bs"] lf len by (simp add: pkt_bytes_def p_def p1_def frame chunk_def)
  moreover have "wf_pkt p" using bl lf len by (simp add: wf_pkt_def p_def p1_def)
  ultimately show thesis using that by (simp add: p_def p1_def h_def)
qed

section \<open>Properties\<close>

text \<open>
  C20: \<open>CheckIPHeader\<close> (at offset 0, on packets below 2 GB) never reads outside the packet. It passes
  exactly the packets that start with a version 4 header of at least 20 bytes whose total length
  covers the header and fits the packet, whose checksum verifies and whose source is not banned;
  what it passes is cut to the datagram's own length and has its header pointers set. Every other
  packet is counted and goes to the drop output.
\<close>

theorem CK_passes_valid_headers:
  assumes "wf_pkt p" and "p_len p < 2147483648" and "ck_offset st = 0"
  shows "(ck_valid st (pkt_bytes p) \<longrightarrow>
            CK_simple_action p st = Inr (st, [], Some (ck_passed p)) \<and> wf_pkt (ck_passed p) \<and>
            pkt_bytes (ck_passed p)
              = take (unat (ntohs (ip_len (dec_ip (take 20 (pkt_bytes p)))))) (pkt_bytes p)) \<and>
         (\<not> ck_valid st (pkt_bytes p) \<longrightarrow>
            (\<exists>reason. CK_simple_action p st = Inr (CK_drop reason p st)))"
  using CK_decides [OF assms] ck_passed_bytes [OF assms(1)] by auto

definition sample_CK :: CheckIPHeader where
  "sample_CK = \<lparr>ck_offset = 0, ck_bad_src = [0xffffffff], ck_good_dst = [], ck_checksum = True,
     ck_noutputs = 1, ck_drops = 0, ck_reason_drops = None\<rparr>"

definition sample_padded :: packet where
  "sample_padded = deliver (ip_datagram 1 0 0x0102000a 0x0202000a 64 [8, 0, 0xf7, 0xff] @ [0, 0])"

lemma sample_padded_bytes:
  "pkt_bytes sample_padded = ip_datagram 1 0 0x0102000a 0x0202000a 64 [8, 0, 0xf7, 0xff] @ [0, 0]"
  "wf_pkt sample_padded" "p_len sample_padded = 26"
  using arrives_deliver [of "ip_datagram 1 0 0x0102000a 0x0202000a 64 [8, 0, 0xf7, 0xff] @ [0, 0]"]
  by (simp_all add: sample_padded_def arrives_def deliver_def sizeof_ip_def)

theorem CK_passes_valid_headers_witness:
  "CK_simple_action sample_padded sample_CK = Inr (sample_CK, [], Some (ck_passed sample_padded))"
  using CK_passes_valid_headers [of sample_padded sample_CK]
    ck_valid_datagram [of "[8, 0, 0xf7, 0xff]" "0x0102000a" sample_CK "0x0202000a" 1 0 64 "[0, 0]"]
  by (simp add: sample_padded_bytes sample_CK_def)

text \<open>
  a datagram with the header the packet builders write, also when the link layer padded it,
  leaves \<open>CheckIPHeader\<close> as the Mobile IP elements expect it: the packet holds exactly the
  datagram and its header pointers designate the IP header and what follows it.
\<close>

theorem CK_delivers_datagram:
  assumes "wf_pkt p" and "pkt_bytes p = ip_datagram proto tos s d ttl payload @ pad"
    and "p_len p < 2147483648" and "length payload < 65516" and "ck_offset st = 0"
    and "s \<notin> set (ck_bad_src st)"
  shows "\<exists>q. CK_simple_action p st = Inr (st, [], Some q) \<and>
           arrives q (ip_datagram proto tos s d ttl payload)"
proof -
  have v: "ck_valid st (pkt_bytes p)"
    unfolding assms(2) using assms(4,6) by (intro ck_valid_datagram) simp_all
  then have "CK_simple_action p st = Inr (st, [], Some (ck_passed p))"
    using CK_decides [OF assms(1,3,5)] by simp
  with ck_passed_datagram [OF assms(1,2,4) v] show ?thesis by blast
qed

theorem CK_delivers_datagram_witness:
  "\<exists>q. CK_simple_action sample_padded sample_CK = Inr (sample_CK, [], Some q) \<and>
     arrives q (ip_datagram 1 0 0x0102000a 0x0202000a 64 [8, 0, 0xf7, 0xff])"
  by (rule CK_delivers_datagram [where pad = "[0, 0]"]) (simp_all add: sample_padded_bytes sample_CK_def)

text \<open>
  a frame that \<open>FromHost\<close> reads and \<open>Strip(14)\<close> cuts arrives as the datagram inside the frame, with
  the header pointers the Mobile IP elements use and the destination annotation set.
\<close>

theorem FromHost_Strip_delivers_datagram:
  assumes "mem (max (mtu_in + hroom) 64) = Some g"
    and "length pre = 4" and "length eth = 14" and "38 + length payload \<le> mtu_in"
  shows "\<exists>p. FromHost_selected mem hroom mtu_in
               (pre @ eth @ ip_datagram proto tos s d ttl payload) = Inr [Push 0 p] \<and>
           arrives (Strip_simple_action 14 p) (ip_datagram proto tos s d ttl payload) \<and>
           p_dst_ip_anno p = d"
proof -
  let ?dg = "ip_datagram proto tos s d ttl payload"
  let ?h = "base_ip (20 + length payload) proto tos s d ttl"
  have h: "dec_ip (take 20 ?dg) = with_sum ?h" by (simp add: take_datagram ip.dec_enc [simplified])
  have l: "length ?dg = 20 + length payload" by (simp add: sizeof_ip_def)
  obtain p where p: "FromHost_selected mem hroom mtu_in (pre @ eth @ ?dg) = Inr [Push 0 p]"
    "wf_pkt p" "pkt_bytes p = eth @ ?dg" "p_nh p = Some (p_data p + 14)"
    "p_h p = Some (p_data p + 14 + 4 * unat (ip_hl (dec_ip (take 20 ?dg))))"
    "p_dst_ip_anno p = ip_dst (dec_ip (take 20 ?dg))"
    using FromHost_frame [of mem mtu_in hroom g "pre @ eth @ ?dg" pre eth ?dg] assms l
    by (auto simp: h unat_ip_hl_base)
  have "p_len p = 14 + length ?dg" using length_pkt_bytes [OF p(2)] p(3) assms(3) by simp
  then have "p_data (pkt_pull 14 p) = p_data p + 14" by (simp add: pkt_pull_def)
  moreover have "p_nh (pkt_pull 14 p) = p_nh p" "p_h (pkt_pull 14 p) = p_h p"
    by (simp_all add: pkt_pull_def Let_def)
  ultimately have "arrives (Strip_simple_action 14 p) ?dg"
    using p assms(3)
    by (simp add: arrives_def Strip_simple_action_def wf_pkt_pull pkt_bytes_pull h unat_ip_hl_base
          sizeof_ip_def)
  moreover have "p_dst_ip_anno p = d" using p(6) by (simp add: h base_ip_def)
  ultimately show ?thesis using p(1) by blast
qed

theorem FromHost_Strip_delivers_datagram_witness:
  "\<exists>p. FromHost_selected (e_mem sample_env) 28 2048
         (replicate 4 0 @ replicate 14 0 @ ip_datagram 1 0 0x0102000a 0x0202000a 64 [8]) = Inr [Push 0 p] \<and>
     arrives (Strip_simple_action 14 p) (ip_datagram 1 0 0x0102000a 0x0202000a 64 [8]) \<and>
     p_dst_ip_anno p = 0x0202000a"
  by (rule FromHost_Strip_delivers_datagram [where g = "\<lambda>_. 0"]) (simp_all add: sample_env_def)

text \<open>
  \<open>DecIPTTL\<close> sends a packet whose TTL is used up to its error output, and on any other packet with
  a valid header, options included, takes one off the TTL; the incremental checksum update leaves
  a header that still verifies, for every checksum value.
\<close>

theorem DT_keeps_header_valid:
  assumes "p_nh p = Some nh" and "rd p nh (20 + length opts) = Inr (enc_ip h @ opts)"
    and "\<not> shared p" and "dt_active st" and "dt_multicast st" and "length opts \<le> 40"
    and "click_in_cksum (enc_ip h @ opts) = 0"
  shows "if ip_ttl h \<le> 1
         then DT_simple_action mem p st =
           Inr (st\<lparr>dt_drops := dt_drops st + 1\<rparr>, [checked_output_push (dt_noutputs st) 1 p], None)
         else \<exists>q. DT_simple_action mem p st = Inr (st, [], Some q) \<and>
           rd q nh (20 + length opts) = Inr (enc_ip (ttl_decremented h) @ opts) \<and>
           click_in_cksum (enc_ip (ttl_decremented h) @ opts) = 0"
proof (cases "ip_ttl h \<le> 1")
  case True
  then show ?thesis using DT_drops [OF assms(1-5)] by simp
next
  case False
  then show ?thesis
    using DT_forwards [OF assms(1-5)] ttl_decremented_verifies [OF assms(7) _ assms(6)]
    by (metis not_le)
qed

theorem DT_keeps_header_valid_witness:
  "let h = with_sum (base_ip 24 1 0 0x0102000a 0x0202000a 64);
       st = \<lparr>dt_active = True, dt_multicast = True, dt_drops = 0, dt_noutputs = 2\<rparr> in
   \<exists>q. DT_simple_action (e_mem sample_env) sample_padded st = Inr (st, [], Some q) \<and>
     rd q 0 20 = Inr (enc_ip (ttl_decremented h)) \<and>
     click_in_cksum (enc_ip (ttl_decremented h)) = 0"
proof -
  let ?h = "with_sum (base_ip 24 1 0 0x0102000a 0x0202000a 64)"
  have "rd sample_padded 0 20 = Inr (enc_ip ?h)"
    using take_datagram [where payload = "[8, 0, 0xf7, 0xff]"]
    by (simp add: sample_padded_def deliver_def rd_def chunk_def sizeof_ip_def)
  moreover have "p_nh sample_padded = Some 0" "\<not> shared sample_padded"
    by (simp_all add: sample_padded_def deliver_def shared_def)
  moreover have "ip_ttl (base_ip 24 1 0 0x0102000a 0x0202000a 64) = 64" by (simp add: base_ip_def)
  ultimately show ?thesis
    using DT_keeps_header_valid [where p = sample_padded and nh = 0 and opts = "[]" and h = ?h
        and st = "\<lparr>dt_active = True, dt_multicast = True, dt_drops = 0, dt_noutputs = 2\<rparr>"
        and mem = "e_mem sample_env"]
      with_sum_verifies [where h = "base_ip 24 1 0 0x0102000a 0x0202000a 64"]
    by (simp add: Let_def word_le_def)
qed

end
