(* ===== verification/Binding_List.thy ===== *)
theory Binding_List
  imports Soft_State
begin

text \<open>
  \<^verbatim>\<open>elements/lists/MobilityBindingList.hh\<close>: the home agent's table of registered care-of
  addresses. The vector is a list in the same order; each iterator loop is a recursion. The
  two \<open>remove\<close> overloads are declared \<open>bool\<close> but have no \<open>return\<close>; no caller reads the
  value, so the model returns the list only.

  The abstract view is a finite map from (home address, care-of address) to the remaining
  lifetime. The locale \<open>binding_table\<close> is what the home agent and the tunnel entry rely on,
  and the list implementation is an interpretation of it.
\<close>

record MobilityBindingListItem =
  mb_homeAddress :: ipaddr
  mb_careOfAddress :: ipaddr
  mb_remainingLifetime :: u32

type_synonym MobilityBindingList = "MobilityBindingListItem list"

fun mb_remove :: "ipaddr \<Rightarrow> ipaddr \<Rightarrow> MobilityBindingList \<Rightarrow> MobilityBindingList" where
  "mb_remove homeAddress careOfAddress [] = []"
| "mb_remove homeAddress careOfAddress (it # its) =
     (if mb_homeAddress it = homeAddress \<and> mb_careOfAddress it = careOfAddress
      then mb_remove homeAddress careOfAddress its
      else it # mb_remove homeAddress careOfAddress its)"

fun mb_remove_all :: "ipaddr \<Rightarrow> MobilityBindingList \<Rightarrow> MobilityBindingList" where
  "mb_remove_all homeAddress [] = []"
| "mb_remove_all homeAddress (it # its) =
     (if mb_homeAddress it = homeAddress then mb_remove_all homeAddress its
      else it # mb_remove_all homeAddress its)"

fun mb_add :: "ipaddr \<Rightarrow> ipaddr \<Rightarrow> u32 \<Rightarrow> MobilityBindingList \<Rightarrow> MobilityBindingList" where
  "mb_add homeAddress careOfAddress lifetime [] =
     [\<lparr>mb_homeAddress = homeAddress, mb_careOfAddress = careOfAddress,
       mb_remainingLifetime = lifetime\<rparr>]"
| "mb_add homeAddress careOfAddress lifetime (it # its) =
     (if mb_homeAddress it = homeAddress \<and> mb_careOfAddress it = careOfAddress
      then it\<lparr>mb_remainingLifetime := lifetime\<rparr> # its
      else it # mb_add homeAddress careOfAddress lifetime its)"

fun mb_decreaseLifetime :: "MobilityBindingList \<Rightarrow> MobilityBindingList" where
  "mb_decreaseLifetime [] = []"
| "mb_decreaseLifetime (it # its) =
     (if mb_remainingLifetime it = 65535 then it # mb_decreaseLifetime its
      else let it' = it\<lparr>mb_remainingLifetime := mb_remainingLifetime it - 1\<rparr>
           in if mb_remainingLifetime it' \<noteq> 0 then it' # mb_decreaseLifetime its
              else mb_decreaseLifetime its)"

fun mb_isMobileBinded :: "ipaddr \<Rightarrow> MobilityBindingList \<Rightarrow> bool" where
  "mb_isMobileBinded homeAddress [] = False"
| "mb_isMobileBinded homeAddress (it # its) =
     (if mb_homeAddress it = homeAddress then True else mb_isMobileBinded homeAddress its)"

fun mb_getCareOfAddress :: "ipaddr \<Rightarrow> MobilityBindingList \<Rightarrow> ipaddr" where
  "mb_getCareOfAddress homeAddress [] = 0"
| "mb_getCareOfAddress homeAddress (it # its) =
     (if mb_homeAddress it = homeAddress then mb_careOfAddress it
      else mb_getCareOfAddress homeAddress its)"

definition mb_print :: "MobilityBindingList \<Rightarrow> string" where
  "mb_print mobilityBindings =
     ''--------------------------------'' @ [CHR 0x0A] @
     concat (map (\<lambda>it. IPAddress_s (mb_homeAddress it) @ ''   '' @
                      dec_string (unat (mb_remainingLifetime it)) @ ''    CA: '' @
                      IPAddress_s (mb_careOfAddress it) @ [CHR 0x0A]) mobilityBindings) @
     ''------------------------------------'' @ [CHR 0x0A]"

section \<open>The abstract table\<close>

type_synonym binding = "ipaddr \<times> ipaddr"

definition mb_key :: "MobilityBindingListItem \<Rightarrow> binding" where
  "mb_key it = (mb_homeAddress it, mb_careOfAddress it)"

definition mb_inv :: "MobilityBindingList \<Rightarrow> bool" where
  "mb_inv bs \<longleftrightarrow> distinct (map mb_key bs)"

definition mb_lookup :: "MobilityBindingList \<Rightarrow> binding \<Rightarrow> u32 option" where
  "mb_lookup bs = map_of (map (\<lambda>it. (mb_key it, mb_remainingLifetime it)) bs)"

definition age_binding :: "u32 \<Rightarrow> u32 option" where
  "age_binding l = (if l = 65535 then Some l else age l)"

locale binding_table =
  fixes empty :: 't
    and add :: "ipaddr \<Rightarrow> ipaddr \<Rightarrow> u32 \<Rightarrow> 't \<Rightarrow> 't"
    and remove :: "ipaddr \<Rightarrow> ipaddr \<Rightarrow> 't \<Rightarrow> 't"
    and remove_all :: "ipaddr \<Rightarrow> 't \<Rightarrow> 't"
    and tick :: "'t \<Rightarrow> 't"
    and bound :: "ipaddr \<Rightarrow> 't \<Rightarrow> bool"
    and careOf :: "ipaddr \<Rightarrow> 't \<Rightarrow> ipaddr"
    and lookup :: "'t \<Rightarrow> binding \<Rightarrow> u32 option"
    and inv :: "'t \<Rightarrow> bool"
  assumes inv_empty: "inv empty"
    and inv_add: "inv t \<Longrightarrow> inv (add h c l t)"
    and inv_remove: "inv t \<Longrightarrow> inv (remove h c t)"
    and inv_remove_all: "inv t \<Longrightarrow> inv (remove_all h t)"
    and inv_tick: "inv t \<Longrightarrow> inv (tick t)"
    and lookup_empty: "lookup empty = Map.empty"
    and lookup_add: "inv t \<Longrightarrow> lookup (add h c l t) = (lookup t)((h, c) \<mapsto> l)"
    and lookup_remove: "inv t \<Longrightarrow> lookup (remove h c t) = (lookup t)((h, c) := None)"
    and lookup_remove_all:
      "inv t \<Longrightarrow> lookup (remove_all h t) k = (if fst k = h then None else lookup t k)"
    and lookup_tick: "inv t \<Longrightarrow> lookup (tick t) k = Option.bind (lookup t k) age_binding"
    and bound_iff: "inv t \<Longrightarrow> bound h t \<longleftrightarrow> (\<exists>c. lookup t (h, c) \<noteq> None)"
    and careOf_lookup: "inv t \<Longrightarrow> bound h t \<Longrightarrow> lookup t (h, careOf h t) \<noteq> None"
    and careOf_unbound: "inv t \<Longrightarrow> \<not> bound h t \<Longrightarrow> careOf h t = 0"
begin

lemma inv_ticks: "inv t \<Longrightarrow> inv ((tick ^^ n) t)"
  by (induction n) (simp_all add: inv_tick)

lemma lookup_ticks:
  "inv t \<Longrightarrow> lookup ((tick ^^ n) t) k = Option.bind (lookup t k) (steps age_binding n)"
proof (induction n arbitrary: t)
  case (Suc n)
  have "lookup ((tick ^^ Suc n) t) k = lookup ((tick ^^ n) (tick t)) k"
    by (simp only: funpow_Suc_right o_apply)
  also have "\<dots> = Option.bind (lookup (tick t) k) (steps age_binding n)"
    using Suc.prems by (intro Suc.IH inv_tick)
  finally show ?case
    using Suc.prems by (simp add: lookup_tick)
qed simp

lemma bound_after_add: "inv t \<Longrightarrow> bound h (add h c l t)"
  by (auto simp: bound_iff inv_add lookup_add)

lemma unbound_after_remove_all: "inv t \<Longrightarrow> \<not> bound h (remove_all h t)"
  by (auto simp: bound_iff inv_remove_all lookup_remove_all)

lemma careOf_sole_binding:
  assumes "inv t" and "\<And>c'. lookup t (h, c') \<noteq> None \<longleftrightarrow> c' = c"
  shows "careOf h t = c"
proof -
  have "bound h t" using assms by (auto simp: bound_iff)
  then show ?thesis using careOf_lookup [OF assms(1)] assms(2) by blast
qed

end

lemma steps_age_binding_infinite: "steps age_binding n 65535 = Some 65535"
  by (induction n) (simp_all add: age_binding_def)

lemma steps_age_binding:
  assumes "0 < l" and "unat l < 65535"
  shows "steps age_binding n l = steps age n l"
  using assms
proof (induction n arbitrary: l)
  case (Suc n)
  have "l \<noteq> 65535" using Suc.prems(2) by auto
  then have "age_binding l = age l" by (simp add: age_binding_def)
  moreover have "steps age_binding n l' = steps age n l'" if "age l = Some l'" for l'
  proof (rule Suc.IH)
    from that have "l' = l - 1" "l' \<noteq> 0" by (auto simp: age_def split: if_splits)
    then show "0 < l'" by (simp add: word_gt_0)
    have "l \<noteq> 0" using Suc.prems(1) by auto
    then show "unat l' < 65535"
      using Suc.prems(2) \<open>l' = l - 1\<close> by (simp add: unat_minus_1)
  qed
  ultimately show ?case by (cases "age l") simp_all
qed simp

section \<open>The list implements the table\<close>

lemma mb_remove_filter: "mb_remove h c bs = filter (\<lambda>it. mb_key it \<noteq> (h, c)) bs"
  by (induction bs) (auto simp: mb_key_def)

lemma mb_remove_all_filter: "mb_remove_all h bs = filter (\<lambda>it. mb_homeAddress it \<noteq> h) bs"
  by (induction bs) auto

lemma mb_key_update [simp]: "mb_key (it\<lparr>mb_remainingLifetime := l\<rparr>) = mb_key it"
  by (simp add: mb_key_def)

lemma mb_keys_add:
  "map mb_key (mb_add h c l bs)
     = (if (h, c) \<in> mb_key ` set bs then map mb_key bs else map mb_key bs @ [(h, c)])"
  by (induction bs) (auto simp: mb_key_def)

definition mb_step :: "MobilityBindingListItem \<Rightarrow> MobilityBindingListItem option" where
  "mb_step it = map_option (\<lambda>l. it\<lparr>mb_remainingLifetime := l\<rparr>) (age_binding (mb_remainingLifetime it))"

interpretation mbs: soft_state mb_step mb_decreaseLifetime
  by unfold_locales (auto simp: mb_step_def age_binding_def age_def Let_def split: option.splits)

lemma mb_step_key: "mb_step it = Some it' \<Longrightarrow> mb_key it' = mb_key it"
  by (auto simp: mb_step_def)

lemma mb_inv_remove: "mb_inv bs \<Longrightarrow> mb_inv (mb_remove h c bs)"
  unfolding mb_inv_def mb_remove_filter by (rule distinct_map_filter)

lemma mb_inv_remove_all: "mb_inv bs \<Longrightarrow> mb_inv (mb_remove_all h bs)"
  unfolding mb_inv_def mb_remove_all_filter by (rule distinct_map_filter)

lemma mb_inv_add: "mb_inv bs \<Longrightarrow> mb_inv (mb_add h c l bs)"
  by (auto simp: mb_inv_def mb_keys_add)

lemma mb_inv_tick: "mb_inv bs \<Longrightarrow> mb_inv (mb_decreaseLifetime bs)"
  unfolding mb_inv_def by (rule mbs.distinct_map_sweep [OF mb_step_key])

lemma mb_lookup_Cons:
  "mb_lookup (it # bs) k = (if mb_key it = k then Some (mb_remainingLifetime it) else mb_lookup bs k)"
  by (auto simp: mb_lookup_def)

lemma mb_lookup_None_iff: "mb_lookup bs k = None \<longleftrightarrow> k \<notin> mb_key ` set bs"
  by (induction bs) (auto simp: mb_lookup_Cons mb_lookup_def [of "[]"])

lemma mb_lookup_Nil [simp]: "mb_lookup [] k = None"
  by (simp add: mb_lookup_def)

lemma mb_lookup_add: "mb_lookup (mb_add h c l bs) = (mb_lookup bs)((h, c) \<mapsto> l)"
  by (rule ext, induction bs) (auto simp: mb_lookup_Cons mb_key_def)

lemma mb_lookup_remove: "mb_lookup (mb_remove h c bs) = (mb_lookup bs)((h, c) := None)"
  by (rule ext, induction bs) (auto simp: mb_lookup_Cons mb_key_def)

lemma mb_lookup_remove_all:
  "mb_lookup (mb_remove_all h bs) k = (if fst k = h then None else mb_lookup bs k)"
  by (induction bs) (auto simp: mb_lookup_Cons mb_key_def)

lemma mb_lookup_tick:
  "mb_inv bs \<Longrightarrow> mb_lookup (mb_decreaseLifetime bs) k = Option.bind (mb_lookup bs k) age_binding"
proof (induction bs)
  case (Cons it bs)
  then have IH: "mb_lookup (mb_decreaseLifetime bs) k = Option.bind (mb_lookup bs k) age_binding"
    by (simp add: mb_inv_def)
  have "mb_lookup bs (mb_key it) = None"
    using Cons.prems by (auto simp: mb_inv_def mb_lookup_None_iff)
  with IH show ?case
    by (cases "mb_step it")
       (auto simp: mbs.sweep_Cons mb_lookup_Cons mb_step_def simp del: mb_decreaseLifetime.simps)
qed simp

lemma mb_bound_iff: "mb_isMobileBinded h bs \<longleftrightarrow> (\<exists>c. mb_lookup bs (h, c) \<noteq> None)"
  by (induction bs) (auto simp: mb_lookup_Cons mb_key_def)

lemma mb_careOf_lookup: "mb_isMobileBinded h bs \<Longrightarrow> mb_lookup bs (h, mb_getCareOfAddress h bs) \<noteq> None"
  by (induction bs) (auto simp: mb_lookup_Cons mb_key_def split: if_splits)

lemma mb_careOf_unbound: "\<not> mb_isMobileBinded h bs \<Longrightarrow> mb_getCareOfAddress h bs = 0"
  by (induction bs) (auto split: if_splits)

interpretation mb: binding_table "[]" mb_add mb_remove mb_remove_all mb_decreaseLifetime
  mb_isMobileBinded mb_getCareOfAddress mb_lookup mb_inv
proof
  show "mb_inv []" by (simp add: mb_inv_def)
  show "mb_lookup [] = Map.empty" by (rule ext) simp
qed (simp_all add: mb_inv_add mb_inv_remove mb_inv_remove_all mb_inv_tick mb_lookup_add
       mb_lookup_remove mb_lookup_remove_all mb_lookup_tick mb_bound_iff
       mb_careOf_lookup [simplified mb_bound_iff] mb_careOf_unbound [unfolded mb_bound_iff])

section \<open>Properties\<close>

text \<open>
  C11: A binding entered with a finite positive lifetime is in the table for exactly that many
  seconds: after \<open>n\<close> ticks the pair of home and care-of address has the lifetime that is left,
  and from the last second on it has no entry, whatever else the table holds.
\<close>

theorem binding_lifetime_exact:
  assumes "mb_inv bs" and "0 < l" and "unat l < 65535"
  shows "mb_lookup ((mb_decreaseLifetime ^^ n) (mb_add h c l bs)) (h, c)
           = (if n < unat l then Some (l - of_nat n) else None)"
  using mb.lookup_ticks [OF mb.inv_add [OF assms(1)], of n h c l "(h, c)"] assms
  by (simp add: mb.lookup_add steps_age_binding steps_age)

theorem binding_lifetime_exact_witness:
  "mb_lookup ((mb_decreaseLifetime ^^ 2) (mb_add 1 7 3 (mb_add 1 9 5 []))) (1, 7) = Some 1"
proof -
  have "mb_inv (mb_add 1 9 5 [])" by (simp add: mb_inv_def)
  from binding_lifetime_exact [OF this, of 3 2 1 7] show ?thesis by simp
qed

text \<open>
  A binding with the reserved lifetime 65535 never expires, and every other entry ages on
  its own: ticking the table is ageing each entry of the map.
\<close>

theorem binding_table_ages_pointwise:
  assumes "mb_inv bs"
  shows "mb_lookup ((mb_decreaseLifetime ^^ n) bs) k = Option.bind (mb_lookup bs k) (steps age_binding n)
    \<and> mb_lookup ((mb_decreaseLifetime ^^ n) (mb_add h c 65535 bs)) (h, c) = Some 65535"
  using mb.lookup_ticks [OF assms, of n k]
    mb.lookup_ticks [OF mb.inv_add [OF assms], of n h c 65535 "(h, c)"] assms
  by (simp add: mb.lookup_add steps_age_binding_infinite)

theorem binding_table_ages_pointwise_witness:
  "mb_lookup ((mb_decreaseLifetime ^^ 100000) (mb_add 1 7 65535 [])) (1, 7) = Some 65535"
  using binding_table_ages_pointwise [of "[]" 100000 "(1, 7)" 1 7] by (simp add: mb_inv_def)

end
