(* ===== verification/Home_Agent.thy ===== *)
theory Home_Agent
  imports Element_Model Binding_List
begin

text \<open>
  \<^verbatim>\<open>elements/MobileIPHomeAgent.{hh,cc}\<close>: the home agent. It answers registration requests
  and keeps the mobility bindings. Every handler returns the new state and the list of
  port effects, or the exception or fault it ends in.

  Two statements of the source compare where an assignment was meant (\<open>source ==
  publicAddress\<close>, \<open>goToAddress == publicAddress\<close>); they have no effect and so have none
  here. The packet returned by \<open>UDPIPfy\<close> is the object the builder made: its headroom is
  large enough for the push to happen in place, which is why the code may go on using its
  own pointer.
\<close>

record MobileIPHomeAgent =
  ha_publicAddress :: ipaddr
  ha_privateAddress :: ipaddr
  ha_FAAddress :: ipaddr
  ha_maxAcceptedLifetime :: u32
  ha_sourcePort :: u32
  ha_mobilityBindingListTimer :: timer
  ha_mobilityBindings :: MobilityBindingList

definition new_MobileIPHomeAgent :: MobileIPHomeAgent where
  "new_MobileIPHomeAgent =
     \<lparr>ha_publicAddress = 0, ha_privateAddress = 0, ha_FAAddress = 0,
      ha_maxAcceptedLifetime = 1800, ha_sourcePort = 5241,
      ha_mobilityBindingListTimer = Unscheduled, ha_mobilityBindings = []\<rparr>"

definition HA_configure ::
  "ipaddr arg \<Rightarrow> ipaddr arg \<Rightarrow> ipaddr arg \<Rightarrow> MobileIPHomeAgent \<Rightarrow> int \<times> MobileIPHomeAgent" where
  "HA_configure PRIVATE_ADDRESS PUBLIC_ADDRESS FA_ADDRESS st =
     (case (Args_read_m PRIVATE_ADDRESS, Args_read_m PUBLIC_ADDRESS, Args_read_m FA_ADDRESS) of
        (Some priv, Some pub, Some fa) \<Rightarrow>
          (0, st\<lparr>ha_privateAddress := priv, ha_publicAddress := pub, ha_FAAddress := fa\<rparr>)
      | _ \<Rightarrow> (-1, st))"

definition HA_initialize :: "MobileIPHomeAgent \<Rightarrow> int \<times> MobileIPHomeAgent" where
  "HA_initialize st = (0, st\<lparr>ha_mobilityBindingListTimer := After_msec 0\<rparr>)"

definition HA_run_timer :: "MobileIPHomeAgent \<Rightarrow> MobileIPHomeAgent" where
  "HA_run_timer st =
     st\<lparr>ha_mobilityBindings := mb_decreaseLifetime (ha_mobilityBindings st),
        ha_mobilityBindingListTimer := After_msec 1000\<rparr>"

definition HA_getMobilityBindingsHandler :: "MobileIPHomeAgent \<Rightarrow> string" where
  "HA_getMobilityBindingsHandler st = mb_print (ha_mobilityBindings st)"

text \<open>The handlers \<open>add_handlers\<close> registers, by name.\<close>

definition HA_read_handler :: "string \<Rightarrow> MobileIPHomeAgent \<Rightarrow> string option" where
  "HA_read_handler name st =
     (if name = ''mobility_bindings'' then Some (HA_getMobilityBindingsHandler st)
      else if name = ''max_lifetime'' then Some (integer_data_read (ha_maxAcceptedLifetime st))
      else None)"

definition HA_write_handler ::
  "string \<Rightarrow> u32 arg \<Rightarrow> MobileIPHomeAgent \<Rightarrow> (int \<times> MobileIPHomeAgent) option" where
  "HA_write_handler name str st =
     (if name = ''max_lifetime''
      then Some (let (ret, v) = integer_data_write str (ha_maxAcceptedLifetime st)
                 in (ret, st\<lparr>ha_maxAcceptedLifetime := v\<rparr>))
      else None)"

text \<open>\<open>sendReply\<close> with a lifetime, and the overload that echoes the requested one.\<close>

definition HA_sendReply ::
  "env \<Rightarrow> registrationRequest \<Rightarrow> byte \<Rightarrow> nat \<Rightarrow> u32 \<Rightarrow> MobileIPHomeAgent \<Rightarrow> effect list res" where
  "HA_sendReply e registration code port lifetime st =
     (let source = ipdestination (rr_IP registration);
          destination = ipsource (rr_IP registration);
          source = (if source = IP_BROADCAST
                    then (if port = 0 then ha_privateAddress st else source) else source);
          port = (if lifetime = 0 then 0 else port) in
      res_bind (deref (buildRegistrationReplyPacket (e_mem e) (e_clk e) lifetime code
                  (rr_home registration) (rr_homeAgent registration)
                  (rr_identification registration))) (\<lambda>packet.
      res_bind (UDPIPfy (e_mem e) packet source 434 destination
                  (sourcePort (rr_UDP registration)) 1) (\<lambda>packet.
      Inr [Push port packet])))"

definition HA_sendReply3 ::
  "env \<Rightarrow> registrationRequest \<Rightarrow> byte \<Rightarrow> nat \<Rightarrow> MobileIPHomeAgent \<Rightarrow> effect list res" where
  "HA_sendReply3 e registration code port st =
     HA_sendReply e registration code port (rr_lifetime registration) st"

text \<open>The two checks return whether to go on and what they sent.\<close>

definition HA_checkRegistrationValidity ::
  "env \<Rightarrow> registrationRequest \<Rightarrow> nat \<Rightarrow> MobileIPHomeAgent \<Rightarrow> (bool \<times> effect list) res" where
  "HA_checkRegistrationValidity e registration port st =
     (if destinationPort (rr_UDP registration) \<noteq> 434 then Inr (False, [])
      else if rr_r registration \<noteq> False \<or> rr_x registration \<noteq> False then
        res_bind (HA_sendReply3 e registration 134 port st) (\<lambda>out. Inr (False, out))
      else if rr_D registration = True \<or> rr_M registration = True \<or>
              rr_G registration = True \<or> rr_T registration = True then
        res_bind (HA_sendReply3 e registration 128 port st) (\<lambda>out. Inr (False, out))
      else Inr (True, []))"

definition HA_checkForUnkwownHomeAgent ::
  "env \<Rightarrow> registrationRequest \<Rightarrow> nat \<Rightarrow> MobileIPHomeAgent \<Rightarrow> (bool \<times> effect list) res" where
  "HA_checkForUnkwownHomeAgent e registration port st =
     (let goToAddress = (if port = 0 then ha_privateAddress st else IP_ANY) in
      if rr_homeAgent registration = ha_publicAddress st \<and>
         (ipdestination (rr_IP registration) = ha_privateAddress st \<or>
          ipdestination (rr_IP registration) = ha_publicAddress st)
      then Inr (True, [])
      else
      let source = ipdestination (rr_IP registration);
          destination = ipsource (rr_IP registration);
          source = (if destination = IP_BROADCAST then goToAddress else source) in
      res_bind (deref (buildRegistrationReplyPacket (e_mem e) (e_clk e)
                  (ha_maxAcceptedLifetime st) 136 (rr_home registration)
                  (ha_publicAddress st) (rr_identification registration))) (\<lambda>packet.
      res_bind (UDPIPfy (e_mem e) packet source 434 destination
                  (sourcePort (rr_UDP registration)) 1) (\<lambda>packet.
      Inr (False, [Push port packet]))))"

text \<open>\<open>push\<close> after a request was decoded.\<close>

definition HA_handle ::
  "env \<Rightarrow> registrationRequest \<Rightarrow> nat \<Rightarrow> MobileIPHomeAgent \<Rightarrow> (MobileIPHomeAgent \<times> effect list) res" where
  "HA_handle e registration port st =
     res_bind (HA_checkRegistrationValidity e registration port st) (\<lambda>(ok, out).
     if ok = False then Inr (st, out) else
     res_bind (HA_checkForUnkwownHomeAgent e registration port st) (\<lambda>(ok, out).
     if ok = False then Inr (st, out) else
     if rr_lifetime registration = 0 then
       (let bs = (if rr_careOf registration = rr_home registration
                  then mb_remove_all (rr_home registration) (ha_mobilityBindings st)
                  else mb_remove (rr_home registration) (rr_careOf registration)
                         (ha_mobilityBindings st));
            st = st\<lparr>ha_mobilityBindings := bs\<rparr> in
        res_bind (HA_sendReply e registration 0 port 0 st) (\<lambda>out. Inr (st, out)))
     else
       (let lifetime = (if rr_lifetime registration > ha_maxAcceptedLifetime st
                        then ha_maxAcceptedLifetime st else rr_lifetime registration);
            st = st\<lparr>ha_mobilityBindings := mb_add (rr_home registration)
                      (rr_careOf registration) lifetime (ha_mobilityBindings st)\<rparr> in
        res_bind (HA_sendReply e registration 0 port lifetime st) (\<lambda>out. Inr (st, out)))))"

definition HA_push ::
  "env \<Rightarrow> nat \<Rightarrow> packet \<Rightarrow> MobileIPHomeAgent \<Rightarrow> (MobileIPHomeAgent \<times> effect list) res" where
  "HA_push e port p st =
     res_bind (getPacketType p) (\<lambda>type.
     if type = REGISTRATION then
       (case processRegistrationRequestPacket (e_undef e) p of
          Inl (ZeroChecksumException _) \<Rightarrow> Inr (st, [])
        | Inl (InvalidChecksumException _) \<Rightarrow> Inr (st, [])
        | Inl x \<Rightarrow> Inl x
        | Inr registration \<Rightarrow> HA_handle e registration port st)
     else Inr (st, []))"

section \<open>Specification\<close>

text \<open>
  The answer to a request as a function of the agent's parameters: code, granted lifetime
  and home agent address of the reply, or none. The order of the cases is the order of
  precedence of the denial codes.
\<close>

definition ha_answer :: "MobileIPHomeAgent \<Rightarrow> registrationRequest \<Rightarrow> (byte \<times> u32 \<times> ipaddr) option" where
  "ha_answer st r =
     (if destinationPort (rr_UDP r) \<noteq> 434 then None
      else if rr_r r \<or> rr_x r then Some (134, rr_lifetime r, rr_homeAgent r)
      else if rr_D r \<or> rr_M r \<or> rr_G r \<or> rr_T r then Some (128, rr_lifetime r, rr_homeAgent r)
      else if rr_homeAgent r \<noteq> ha_publicAddress st \<or>
              ipdestination (rr_IP r) \<notin> {ha_privateAddress st, ha_publicAddress st}
        then Some (136, ha_maxAcceptedLifetime st, ha_publicAddress st)
      else Some (0, min (rr_lifetime r) (ha_maxAcceptedLifetime st), rr_homeAgent r))"

definition ha_accepts :: "MobileIPHomeAgent \<Rightarrow> registrationRequest \<Rightarrow> bool" where
  "ha_accepts st r \<longleftrightarrow>
     destinationPort (rr_UDP r) = 434 \<and>
     \<not> (rr_r r \<or> rr_x r \<or> rr_D r \<or> rr_M r \<or> rr_G r \<or> rr_T r) \<and>
     rr_homeAgent r = ha_publicAddress st \<and>
     ipdestination (rr_IP r) \<in> {ha_privateAddress st, ha_publicAddress st}"

text \<open>What a request does to the table: registration, deregistration of one or of all.\<close>

definition ha_update ::
  "MobileIPHomeAgent \<Rightarrow> registrationRequest \<Rightarrow> (binding \<Rightarrow> u32 option) \<Rightarrow> binding \<Rightarrow> u32 option" where
  "ha_update st r T =
     (if \<not> ha_accepts st r then T
      else if rr_lifetime r \<noteq> 0
        then T((rr_home r, rr_careOf r) \<mapsto> min (rr_lifetime r) (ha_maxAcceptedLifetime st))
      else if rr_careOf r = rr_home r then (\<lambda>k. if fst k = rr_home r then None else T k)
      else T((rr_home r, rr_careOf r) := None))"

text \<open>The port an answer leaves by: the private network when it grants no lifetime.\<close>

definition ha_port :: "nat \<Rightarrow> byte \<times> u32 \<times> ipaddr \<Rightarrow> nat" where
  "ha_port port a = (if fst a \<noteq> 136 \<and> fst (snd a) = 0 then 0 else port)"

text \<open>
  The source address of an answer: normally the address the request was sent to. A denial
  with code 136 consults the wrong field for the broadcast case.
\<close>

definition ha_source :: "MobileIPHomeAgent \<Rightarrow> nat \<Rightarrow> registrationRequest \<Rightarrow> byte \<Rightarrow> ipaddr" where
  "ha_source st port r code =
     (if code = 136 then
        (if ipsource (rr_IP r) = IP_BROADCAST then (if port = 0 then ha_privateAddress st else IP_ANY)
         else ipdestination (rr_IP r))
      else if ipdestination (rr_IP r) = IP_BROADCAST \<and> port = 0 then ha_privateAddress st
      else ipdestination (rr_IP r))"

text \<open>\<open>out\<close> is the one reply packet that carries the answer \<open>a\<close> to \<open>r\<close>.\<close>

definition ha_replies ::
  "env \<Rightarrow> MobileIPHomeAgent \<Rightarrow> nat \<Rightarrow> registrationRequest \<Rightarrow> byte \<times> u32 \<times> ipaddr \<Rightarrow> effect list \<Rightarrow> bool" where
  "ha_replies e st port r a out \<longleftrightarrow>
     (\<exists>q. out = [Push (ha_port port a) q] \<and> p_dst_ip_anno q = ipsource (rr_IP r) \<and>
        arrives q (udp_datagram 1 (ha_source st port r (fst a)) 434
          (ipsource (rr_IP r)) (sourcePort (rr_UDP r))
          (reply_bytes (e_clk e) (fst (snd a)) (fst a) (rr_home r) (snd (snd a))
             (rr_identification r))))"

lemma code_0_not_136: "(0 :: byte) \<noteq> 136"
  by (rule notI, drule arg_cong [of _ _ unat]) simp

lemma HA_sendReply_sent:
  assumes "mem_ok e" and "code \<noteq> 136"
  obtains out where "HA_sendReply e r code port lt st = Inr out"
    "ha_replies e st port r (code, lt, rr_homeAgent r) out"
proof -
  obtain m q where
    "buildRegistrationReplyPacket (e_mem e) (e_clk e) lt code (rr_home r) (rr_homeAgent r)
       (rr_identification r) = Some m"
    "UDPIPfy (e_mem e) m (ha_source st port r code) 434 (ipsource (rr_IP r))
       (sourcePort (rr_UDP r)) 1 = Inr q"
    "arrives q (udp_datagram 1 (ha_source st port r code) 434 (ipsource (rr_IP r))
       (sourcePort (rr_UDP r))
       (reply_bytes (e_clk e) lt code (rr_home r) (rr_homeAgent r) (rr_identification r)))"
    "p_dst_ip_anno q = ipsource (rr_IP r)"
    using assms(1) by (rule reply_built)
  with that [of "[Push (if lt = 0 then 0 else port) q]"] assms(2) show ?thesis
    by (cases "ipdestination (rr_IP r) = IP_BROADCAST"; cases "port = 0")
       (simp_all add: HA_sendReply_def Let_def ha_source_def ha_replies_def ha_port_def)
qed

lemma HA_unknown_sent:
  assumes "mem_ok e"
    and "\<not> (rr_homeAgent r = ha_publicAddress st \<and>
         ipdestination (rr_IP r) \<in> {ha_privateAddress st, ha_publicAddress st})"
  obtains out where "HA_checkForUnkwownHomeAgent e r port st = Inr (False, out)"
    "ha_replies e st port r (136, ha_maxAcceptedLifetime st, ha_publicAddress st) out"
proof -
  obtain m q where
    "buildRegistrationReplyPacket (e_mem e) (e_clk e) (ha_maxAcceptedLifetime st) 136 (rr_home r)
       (ha_publicAddress st) (rr_identification r) = Some m"
    "UDPIPfy (e_mem e) m (ha_source st port r 136) 434 (ipsource (rr_IP r))
       (sourcePort (rr_UDP r)) 1 = Inr q"
    "arrives q (udp_datagram 1 (ha_source st port r 136) 434 (ipsource (rr_IP r))
       (sourcePort (rr_UDP r))
       (reply_bytes (e_clk e) (ha_maxAcceptedLifetime st) 136 (rr_home r) (ha_publicAddress st)
          (rr_identification r)))"
    "p_dst_ip_anno q = ipsource (rr_IP r)"
    using assms(1) by (rule reply_built)
  with that [of "[Push port q]"] assms(2) show ?thesis
    by (auto simp: HA_checkForUnkwownHomeAgent_def Let_def ha_source_def ha_replies_def ha_port_def)
qed

lemma ha_replies_bindings [simp]:
  "ha_replies e (st\<lparr>ha_mobilityBindings := bs\<rparr>) = ha_replies e st"
  by (intro ext) (simp add: ha_replies_def ha_source_def)

lemma ha_accepts_answer:
  "ha_accepts st r \<Longrightarrow>
     ha_answer st r = Some (0, min (rr_lifetime r) (ha_maxAcceptedLifetime st), rr_homeAgent r)"
  by (auto simp: ha_accepts_def ha_answer_def)

text \<open>The three ways a request is turned down leave the agent as it is.\<close>

lemma HA_handle_denied:
  assumes "mem_ok e" and "\<not> ha_accepts st r"
  obtains out where "HA_handle e r port st = Inr (st, out)"
    "case ha_answer st r of None \<Rightarrow> out = [] | Some a \<Rightarrow> ha_replies e st port r a out"
proof -
  consider "destinationPort (rr_UDP r) \<noteq> 434"
    | "destinationPort (rr_UDP r) = 434" "rr_r r \<or> rr_x r"
    | "destinationPort (rr_UDP r) = 434" "\<not> (rr_r r \<or> rr_x r)" "rr_D r \<or> rr_M r \<or> rr_G r \<or> rr_T r"
    | "destinationPort (rr_UDP r) = 434" "\<not> (rr_r r \<or> rr_x r)"
      "\<not> (rr_D r \<or> rr_M r \<or> rr_G r \<or> rr_T r)"
      "\<not> (rr_homeAgent r = ha_publicAddress st \<and>
         ipdestination (rr_IP r) \<in> {ha_privateAddress st, ha_publicAddress st})"
    using assms(2) by (auto simp: ha_accepts_def)
  then show thesis
  proof cases
    case 1
    with that [of "[]"] show thesis
      by (simp add: HA_handle_def HA_checkRegistrationValidity_def ha_answer_def)
  next
    case 2
    obtain out where "HA_sendReply e r 134 port (rr_lifetime r) st = Inr out"
      "ha_replies e st port r (134, rr_lifetime r, rr_homeAgent r) out"
      by (rule HA_sendReply_sent [OF assms(1), of 134 r port "rr_lifetime r" st]) simp_all
    with 2 that [of out] show thesis
      by (auto simp: HA_handle_def HA_checkRegistrationValidity_def HA_sendReply3_def ha_answer_def)
  next
    case 3
    obtain out where "HA_sendReply e r 128 port (rr_lifetime r) st = Inr out"
      "ha_replies e st port r (128, rr_lifetime r, rr_homeAgent r) out"
      by (rule HA_sendReply_sent [OF assms(1), of 128 r port "rr_lifetime r" st]) simp_all
    with 3 that [of out] show thesis
      by (auto simp: HA_handle_def HA_checkRegistrationValidity_def HA_sendReply3_def ha_answer_def)
  next
    case 4
    obtain out where "HA_checkForUnkwownHomeAgent e r port st = Inr (False, out)"
      "ha_replies e st port r (136, ha_maxAcceptedLifetime st, ha_publicAddress st) out"
      using assms(1) 4(4) by (rule HA_unknown_sent)
    with 4 that [of out] show thesis
      by (auto simp: HA_handle_def HA_checkRegistrationValidity_def ha_answer_def)
  qed
qed

text \<open>The table after a request that is accepted, as a list.\<close>

definition HA_bindings :: "MobileIPHomeAgent \<Rightarrow> registrationRequest \<Rightarrow> MobilityBindingList" where
  "HA_bindings st r =
     (if rr_lifetime r = 0
      then if rr_careOf r = rr_home r then mb_remove_all (rr_home r) (ha_mobilityBindings st)
           else mb_remove (rr_home r) (rr_careOf r) (ha_mobilityBindings st)
      else mb_add (rr_home r) (rr_careOf r) (min (rr_lifetime r) (ha_maxAcceptedLifetime st))
             (ha_mobilityBindings st))"

lemma HA_handle_accepted:
  assumes "mem_ok e" and "ha_accepts st r"
  obtains out where
    "HA_handle e r port st = Inr (st\<lparr>ha_mobilityBindings := HA_bindings st r\<rparr>, out)"
    "ha_replies e st port r
       (0, min (rr_lifetime r) (ha_maxAcceptedLifetime st), rr_homeAgent r) out"
proof -
  let ?st = "st\<lparr>ha_mobilityBindings := HA_bindings st r\<rparr>"
  let ?l = "min (rr_lifetime r) (ha_maxAcceptedLifetime st)"
  obtain out where out: "HA_sendReply e r 0 port ?l ?st = Inr out"
    "ha_replies e ?st port r (0, ?l, rr_homeAgent r) out"
    using HA_sendReply_sent [OF assms(1) code_0_not_136] .
  have "(if rr_lifetime r > ha_maxAcceptedLifetime st then ha_maxAcceptedLifetime st
         else rr_lifetime r) = ?l" by (auto simp: min_def)
  with out(1) assms(2) have "HA_handle e r port st = Inr (?st, out)"
    by (simp add: HA_handle_def HA_checkRegistrationValidity_def HA_checkForUnkwownHomeAgent_def
          ha_accepts_def HA_bindings_def Let_def) auto
  with out(2) that show thesis by simp
qed

lemma HA_bindings_refines:
  assumes "mb_inv (ha_mobilityBindings st)" and "ha_accepts st r"
  shows "mb_inv (HA_bindings st r)"
    and "mb_lookup (HA_bindings st r) = ha_update st r (mb_lookup (ha_mobilityBindings st))"
  using assms
  by (auto simp: HA_bindings_def ha_update_def mb.inv_add mb.inv_remove mb.inv_remove_all
        mb.lookup_add mb.lookup_remove mb.lookup_remove_all fun_eq_iff)

lemma HA_handle_refines:
  assumes "mem_ok e" and "mb_inv (ha_mobilityBindings st)"
  obtains bs out where "HA_handle e r port st = Inr (st\<lparr>ha_mobilityBindings := bs\<rparr>, out)"
    "mb_inv bs" "mb_lookup bs = ha_update st r (mb_lookup (ha_mobilityBindings st))"
    "case ha_answer st r of None \<Rightarrow> out = [] | Some a \<Rightarrow> ha_replies e st port r a out"
proof (cases "ha_accepts st r")
  case True
  obtain out where
    "HA_handle e r port st = Inr (st\<lparr>ha_mobilityBindings := HA_bindings st r\<rparr>, out)"
    "ha_replies e st port r
       (0, min (rr_lifetime r) (ha_maxAcceptedLifetime st), rr_homeAgent r) out"
    using assms(1) True by (rule HA_handle_accepted)
  with that HA_bindings_refines [OF assms(2) True] ha_accepts_answer [OF True] show thesis by simp
next
  case False
  obtain out where "HA_handle e r port st = Inr (st, out)"
    "case ha_answer st r of None \<Rightarrow> out = [] | Some a \<Rightarrow> ha_replies e st port r a out"
    using assms(1) False by (rule HA_handle_denied)
  with that [of "ha_mobilityBindings st" out] assms(2) False show thesis
    by (simp add: ha_update_def)
qed

lemma HA_push_request:
  assumes "getPacketType p = Inr REGISTRATION"
    and "processRegistrationRequestPacket (e_undef e) p = Inr r"
  shows "HA_push e port p st = HA_handle e r port st"
  using assms by (simp add: HA_push_def)

lemma HA_push_other:
  "getPacketType p = Inr t \<Longrightarrow> t \<noteq> REGISTRATION \<Longrightarrow> HA_push e port p st = Inr (st, [])"
  by (simp add: HA_push_def)

lemma HA_push_bad_checksum:
  assumes "getPacketType p = Inr REGISTRATION"
    and "processRegistrationRequestPacket (e_undef e) p
           \<in> {Inl (ZeroChecksumException m), Inl (InvalidChecksumException m)}"
  shows "HA_push e port p st = Inr (st, [])"
  using assms by (auto simp: HA_push_def)

section \<open>Events of the home agent\<close>

datatype ha_event =
    HA_Packet env nat packet
  | HA_Tick
  | HA_Write string "u32 arg"

definition HA_step :: "ha_event \<Rightarrow> MobileIPHomeAgent \<Rightarrow> (MobileIPHomeAgent \<times> effect list) res" where
  "HA_step ev st =
     (case ev of
        HA_Packet e port p \<Rightarrow> HA_push e port p st
      | HA_Tick \<Rightarrow> Inr (HA_run_timer st, [])
      | HA_Write name str \<Rightarrow>
          (case HA_write_handler name str st of None \<Rightarrow> Inr (st, []) | Some (_, st') \<Rightarrow> Inr (st', [])))"

lemma HA_handle_inv:
  assumes "mb_inv (ha_mobilityBindings st)" and "HA_handle e r port st = Inr (st', out)"
  shows "mb_inv (ha_mobilityBindings st')"
  using assms
  by (auto simp: HA_handle_def res_bind_eq_Inr_iff Let_def mb.inv_add mb.inv_remove
        mb.inv_remove_all split: if_splits)

lemma HA_push_inv:
  assumes "mb_inv (ha_mobilityBindings st)" and "HA_push e port p st = Inr (st', out)"
  shows "mb_inv (ha_mobilityBindings st')"
  using assms HA_handle_inv
  by (auto simp: HA_push_def res_bind_eq_Inr_iff split: if_splits sum.splits exn.splits)

lemma HA_write_bindings:
  "HA_write_handler name str st = Some (ret, st') \<Longrightarrow> ha_mobilityBindings st' = ha_mobilityBindings st"
  by (auto simp: HA_write_handler_def Let_def split: if_splits prod.splits)

lemma HA_handle_addresses:
  "HA_handle e r port st = Inr (st', out) \<Longrightarrow>
     ha_privateAddress st' = ha_privateAddress st \<and> ha_publicAddress st' = ha_publicAddress st"
  by (auto simp: HA_handle_def res_bind_eq_Inr_iff Let_def split: if_splits)

lemma HA_step_addresses:
  "HA_step ev st = Inr (st', out) \<Longrightarrow>
     ha_privateAddress st' = ha_privateAddress st \<and> ha_publicAddress st' = ha_publicAddress st"
  by (auto simp: HA_step_def HA_push_def HA_run_timer_def HA_write_handler_def HA_handle_addresses Let_def
        res_bind_eq_Inr_iff split: ha_event.splits option.splits if_splits sum.splits exn.splits prod.splits
        dest: HA_handle_addresses)

definition ha_inv :: "ipaddr \<Rightarrow> ipaddr \<Rightarrow> MobileIPHomeAgent \<Rightarrow> bool" where
  "ha_inv priv pub st \<longleftrightarrow> mb_inv (ha_mobilityBindings st) \<and>
     ha_privateAddress st = priv \<and> ha_publicAddress st = pub"

interpretation ha: element_invariant HA_step "ha_inv priv pub" for priv pub
proof
  fix st st' :: MobileIPHomeAgent and ev out
  assume st: "ha_inv priv pub st" "HA_step ev st = Inr (st', out)"
  then have "mb_inv (ha_mobilityBindings st')"
    by (cases ev) (auto simp: ha_inv_def HA_step_def HA_run_timer_def mb.inv_tick HA_push_inv HA_write_bindings
        split: option.splits)
  with st HA_step_addresses [OF st(2)] show "ha_inv priv pub st'" by (simp add: ha_inv_def)
qed

text \<open>Time passing without messages.\<close>

lemma HA_ticks:
  "ha_mobilityBindings ((HA_run_timer ^^ n) st) = (mb_decreaseLifetime ^^ n) (ha_mobilityBindings st)"
  by (induction n) (simp_all add: HA_run_timer_def)

section \<open>Properties\<close>

text \<open>A configured home agent, for the examples: 192.168.0.1 at home, 192.168.1.1 outside.\<close>

definition sample_HA :: MobileIPHomeAgent where
  "sample_HA = new_MobileIPHomeAgent\<lparr>ha_privateAddress := 0x0100A8C0, ha_publicAddress := 0x0101A8C0\<rparr>"

definition sample_to_HA :: registrationRequest where
  "sample_to_HA =
     \<lparr>rr_S = False, rr_B = False, rr_D = False, rr_M = False, rr_G = False, rr_r = False,
      rr_T = False, rr_x = False, rr_lifetime = 2000, rr_home = 0x0200A8C0,
      rr_homeAgent = 0x0101A8C0, rr_careOf = 0x0201A8C0,
      rr_UDP = \<lparr>sourcePort = 3581, destinationPort = 434\<rparr>,
      rr_IP = \<lparr>ipsource = 0x0201A8C0, ipdestination = 0x0101A8C0\<rparr>, rr_identification = 77\<rparr>"

text \<open>
  C3: The home agent implements its specification on every decoded request: it answers with
  the code, lifetime and home agent address of \<open>ha_answer\<close> (or not at all), in one reply packet
  whose checksums are right, on the port and with the addresses \<open>ha_replies\<close> states, and its
  list of bindings, seen as a map, changes by \<open>ha_update\<close>: registration with the smaller of the
  requested and the accepted lifetime, deregistration of one or of all care-of addresses, or
  no change on a denial.
\<close>

theorem HA_request_handled:
  assumes "mem_ok e" and "mb_inv (ha_mobilityBindings st)"
  shows "\<exists>bs out. HA_handle e r port st = Inr (st\<lparr>ha_mobilityBindings := bs\<rparr>, out) \<and>
    mb_inv bs \<and> mb_lookup bs = ha_update st r (mb_lookup (ha_mobilityBindings st)) \<and>
    (case ha_answer st r of None \<Rightarrow> out = [] | Some a \<Rightarrow> ha_replies e st port r a out)"
  using assms by (rule HA_handle_refines) blast

theorem HA_request_handled_witness:
  "\<exists>bs out. HA_handle sample_env sample_to_HA 1 sample_HA
       = Inr (sample_HA\<lparr>ha_mobilityBindings := bs\<rparr>, out) \<and>
     mb_lookup bs (0x0200A8C0, 0x0201A8C0) = Some 1800 \<and>
     ha_replies sample_env sample_HA 1 sample_to_HA (0, 1800, 0x0101A8C0) out"
  using HA_request_handled [of sample_env sample_HA sample_to_HA 1]
  by (auto simp: sample_HA_def new_MobileIPHomeAgent_def sample_to_HA_def mb_inv_def ha_update_def
        ha_accepts_def ha_answer_def min_def)

text \<open>
  C8: No sequence of packets, ticks and handler writes makes a configured and initialised home agent
  hold two bindings for one pair of home and care-of address, or forget its configured addresses.
\<close>

theorem HA_bindings_unique:
  assumes "HA_configure priv pub fa new_MobileIPHomeAgent = (0, st0)"
    and "run HA_step evs (snd (HA_initialize st0)) = Inr (st, out)"
  shows "distinct (map (\<lambda>b. (mb_homeAddress b, mb_careOfAddress b)) (ha_mobilityBindings st)) \<and>
    priv = Given (ha_privateAddress st) \<and> pub = Given (ha_publicAddress st)"
proof -
  have "ha_inv (ha_privateAddress st0) (ha_publicAddress st0) (snd (HA_initialize st0))"
    and "priv = Given (ha_privateAddress st0)" "pub = Given (ha_publicAddress st0)"
    using assms(1) by (auto simp: HA_configure_def HA_initialize_def new_MobileIPHomeAgent_def ha_inv_def mb_inv_def
        split: option.splits)
  moreover from this(1) assms(2) have "ha_inv (ha_privateAddress st0) (ha_publicAddress st0) st" by (rule ha.run_inv)
  ultimately show ?thesis by (simp add: ha_inv_def mb_inv_def mb_key_def [abs_def])
qed

text \<open>The node at 192.168.0.2 registers its care-of address, and renews the registration after a second.\<close>

definition sample_packet_to_HA :: packet where
  "sample_packet_to_HA = deliver (udp_datagram 16 0x0201A8C0 3581 0x0101A8C0 434
     (request_bytes (e_clk sample_env) 2000 0x0200A8C0 0x0101A8C0 0x0201A8C0 77))"

lemma sample_packet_to_HA_push:
  "HA_push sample_env port sample_packet_to_HA st = HA_handle sample_env sample_to_HA port st"
proof -
  have "getPacketType sample_packet_to_HA = Inr REGISTRATION"
    "processRegistrationRequestPacket (e_undef sample_env) sample_packet_to_HA = Inr sample_to_HA"
    by code_simp+
  then show ?thesis by (rule HA_push_request)
qed

lemma sample_HA_registers:
  assumes "ha_accepts st sample_to_HA" and "ha_maxAcceptedLifetime st = 1800" and "ha_mobilityBindings st = bs"
  shows "\<exists>out. HA_step (HA_Packet sample_env 1 sample_packet_to_HA) st =
    Inr (st\<lparr>ha_mobilityBindings := mb_add 0x0200A8C0 0x0201A8C0 1800 bs\<rparr>, out)"
proof -
  obtain out where "HA_handle sample_env sample_to_HA 1 st = Inr (st\<lparr>ha_mobilityBindings := HA_bindings st sample_to_HA\<rparr>, out)"
    using mem_ok_sample assms(1) by (rule HA_handle_accepted)
  moreover have "HA_bindings st sample_to_HA = mb_add 0x0200A8C0 0x0201A8C0 1800 bs"
    using assms(2,3) by (simp add: HA_bindings_def sample_to_HA_def min_def)
  ultimately show ?thesis by (simp add: HA_step_def sample_packet_to_HA_push)
qed

theorem HA_bindings_unique_witness:
  "\<exists>st0 st out. HA_configure (Given 0x0100A8C0) (Given 0x0101A8C0) (Given 0x0201A8C0) new_MobileIPHomeAgent = (0, st0) \<and>
     run HA_step [HA_Packet sample_env 1 sample_packet_to_HA, HA_Tick, HA_Packet sample_env 1 sample_packet_to_HA]
       (snd (HA_initialize st0)) = Inr (st, out) \<and>
     map mb_remainingLifetime (ha_mobilityBindings st) = [1800] \<and> ha_publicAddress st = 0x0101A8C0 \<and>
     distinct (map (\<lambda>b. (mb_homeAddress b, mb_careOfAddress b)) (ha_mobilityBindings st))"
proof -
  let ?evs = "[HA_Packet sample_env 1 sample_packet_to_HA, HA_Tick, HA_Packet sample_env 1 sample_packet_to_HA]"
  obtain st0 where c: "HA_configure (Given 0x0100A8C0) (Given 0x0101A8C0) (Given 0x0201A8C0) new_MobileIPHomeAgent = (0, st0)"
    by (simp add: HA_configure_def Args_read_m_def)
  let ?s = "snd (HA_initialize st0)"
  let ?s1 = "?s\<lparr>ha_mobilityBindings := mb_add 0x0200A8C0 0x0201A8C0 1800 []\<rparr>"
  let ?s2 = "HA_run_timer ?s1"
  have f: "ha_accepts st sample_to_HA" "ha_maxAcceptedLifetime st = 1800" if "st \<in> {?s, ?s2}" for st
    using that c by (auto simp: HA_configure_def Args_read_m_def HA_initialize_def HA_run_timer_def new_MobileIPHomeAgent_def
        ha_accepts_def sample_to_HA_def)
  have "ha_mobilityBindings ?s = []"
    using c by (auto simp: HA_configure_def Args_read_m_def HA_initialize_def new_MobileIPHomeAgent_def)
  from sample_HA_registers [OF f(1) f(2) this]
  obtain o1 where o1: "HA_step (HA_Packet sample_env 1 sample_packet_to_HA) ?s = Inr (?s1, o1)" by blast
  obtain o2 where o2: "HA_step (HA_Packet sample_env 1 sample_packet_to_HA) ?s2 =
      Inr (?s2\<lparr>ha_mobilityBindings := mb_add 0x0200A8C0 0x0201A8C0 1800 (ha_mobilityBindings ?s2)\<rparr>, o2)"
    using sample_HA_registers [OF f(1) f(2) refl, of ?s2] by blast
  have "HA_step HA_Tick ?s1 = Inr (?s2, [])" by (simp add: HA_step_def)
  with o1 o2 have r: "run HA_step ?evs ?s =
      Inr (?s2\<lparr>ha_mobilityBindings := mb_add 0x0200A8C0 0x0201A8C0 1800 (ha_mobilityBindings ?s2)\<rparr>, o1 @ o2)" by simp
  have "map mb_remainingLifetime (mb_add 0x0200A8C0 0x0201A8C0 1800 (ha_mobilityBindings ?s2)) = [1800]"
    by (simp add: HA_run_timer_def)
  with HA_bindings_unique [OF c r] c r show ?thesis by (intro exI conjI) auto
qed

text \<open>
  C39: With the accepted lifetime set to 0 through its handler, the agent accepts a registration
  with lifetime 0 and still enters a binding; the next tick wraps its counter to the largest
  32-bit number, so a mobile node that was told its registration has ended stays bound.
\<close>

theorem HA_zero_lifetime_binding_persists:
  assumes "mem_ok e" and "mb_inv (ha_mobilityBindings st)" and "ha_accepts st r"
    and "rr_lifetime r \<noteq> 0" and "ha_maxAcceptedLifetime st = 0"
  shows "\<exists>st' out. HA_handle e r port st = Inr (st', out) \<and>
    ha_replies e st port r (0, 0, rr_homeAgent r) out \<and>
    mb_lookup (ha_mobilityBindings (HA_run_timer st')) (rr_home r, rr_careOf r) = Some 0xffffffff"
proof -
  have 0: "min (rr_lifetime r) (ha_maxAcceptedLifetime st) = 0" using assms(5) by (simp add: min_def)
  obtain out where "HA_handle e r port st = Inr (st\<lparr>ha_mobilityBindings := HA_bindings st r\<rparr>, out)"
    "ha_replies e st port r (0, 0, rr_homeAgent r) out"
    using HA_handle_accepted [OF assms(1,3), of port] 0 by auto
  moreover have "mb_lookup (mb_decreaseLifetime (HA_bindings st r)) (rr_home r, rr_careOf r) = Some 0xffffffff"
    using HA_bindings_refines [OF assms(2,3)] assms(3-5)
    by (simp add: mb.lookup_tick ha_update_def age_binding_def age_zero_wraps)
  ultimately show ?thesis by (auto simp: HA_run_timer_def)
qed

theorem HA_zero_lifetime_binding_persists_witness:
  "\<exists>st' out. HA_handle sample_env sample_to_HA 1 (sample_HA\<lparr>ha_maxAcceptedLifetime := 0\<rparr>) = Inr (st', out) \<and>
     mb_lookup (ha_mobilityBindings (HA_run_timer st')) (0x0200A8C0, 0x0201A8C0) = Some 0xffffffff"
  using HA_zero_lifetime_binding_persists [of sample_env "sample_HA\<lparr>ha_maxAcceptedLifetime := 0\<rparr>" sample_to_HA 1]
  by (auto simp: sample_HA_def new_MobileIPHomeAgent_def sample_to_HA_def mb_inv_def ha_accepts_def)

end
