(* ===== verification/Visitor_List.thy ===== *)
theory Visitor_List
  imports Soft_State
begin

text \<open>
  \<^verbatim>\<open>elements/lists/VisitorList.hh\<close>: the foreign agent's table of the mobile nodes it serves.
  \<open>add\<close> always appends, so uniqueness is the caller's business (the foreign agent adds only
  when \<open>has\<close> is false). The \<open>bool\<close> functions without a \<open>return\<close> are modelled by their effect on
  the list, the only thing their callers use. \<open>find\<close> is declared and never defined.

  The locale \<open>visitor_table\<close> is the interface the foreign agent and the tunnel exit use.
\<close>

record VisitorListItem =
  vi_MNhome :: ipaddr
  vi_UDPSourcePort :: u32
  vi_MNhomeAgent :: ipaddr
  vi_requestedLifetime :: u32
  vi_remainingLifetime :: u32

type_synonym VisitorList = "VisitorListItem list"

fun vl_remove :: "ipaddr \<Rightarrow> ipaddr \<Rightarrow> VisitorList \<Rightarrow> VisitorList" where
  "vl_remove homeAddress homeAgentAddress [] = []"
| "vl_remove homeAddress homeAgentAddress (it # its) =
     (if vi_MNhome it = homeAddress \<and> vi_MNhomeAgent it = homeAgentAddress
      then vl_remove homeAddress homeAgentAddress its
      else it # vl_remove homeAddress homeAgentAddress its)"

definition vl_add :: "VisitorListItem \<Rightarrow> VisitorList \<Rightarrow> VisitorList" where
  "vl_add item visitors = visitors @ [item]"

fun vl_resetVisitorRemainingLifetime :: "ipaddr \<Rightarrow> ipaddr \<Rightarrow> VisitorList \<Rightarrow> VisitorList" where
  "vl_resetVisitorRemainingLifetime homeAddress homeAgentAddress [] = []"
| "vl_resetVisitorRemainingLifetime homeAddress homeAgentAddress (it # its) =
     (if vi_MNhome it = homeAddress \<and> vi_MNhomeAgent it = homeAgentAddress
      then it\<lparr>vi_remainingLifetime := vi_requestedLifetime it\<rparr> else it)
     # vl_resetVisitorRemainingLifetime homeAddress homeAgentAddress its"

fun vl_setVisitorRequestedLifetime ::
  "ipaddr \<Rightarrow> ipaddr \<Rightarrow> u32 \<Rightarrow> VisitorList \<Rightarrow> VisitorList" where
  "vl_setVisitorRequestedLifetime homeAddress homeAgentAddress lifetime [] = []"
| "vl_setVisitorRequestedLifetime homeAddress homeAgentAddress lifetime (it # its) =
     (if vi_MNhome it = homeAddress \<and> vi_MNhomeAgent it = homeAgentAddress
      then it\<lparr>vi_requestedLifetime := lifetime\<rparr> else it)
     # vl_setVisitorRequestedLifetime homeAddress homeAgentAddress lifetime its"

fun vl_decreaseLifetime :: "VisitorList \<Rightarrow> VisitorList" where
  "vl_decreaseLifetime [] = []"
| "vl_decreaseLifetime (it # its) =
     (if vi_requestedLifetime it = 65535 then it # vl_decreaseLifetime its
      else let it' = it\<lparr>vi_remainingLifetime := vi_remainingLifetime it - 1\<rparr>
           in if vi_remainingLifetime it' \<noteq> 0 then it' # vl_decreaseLifetime its
              else vl_decreaseLifetime its)"

fun vl_has :: "ipaddr \<Rightarrow> ipaddr \<Rightarrow> VisitorList \<Rightarrow> bool" where
  "vl_has homeAddress homeAgentAddress [] = False"
| "vl_has homeAddress homeAgentAddress (it # its) =
     (if vi_MNhome it = homeAddress \<and> vi_MNhomeAgent it = homeAgentAddress then True
      else vl_has homeAddress homeAgentAddress its)"

fun vl_isVisitor :: "ipaddr \<Rightarrow> VisitorList \<Rightarrow> bool" where
  "vl_isVisitor homeAddress [] = False"
| "vl_isVisitor homeAddress (it # its) =
     (if vi_MNhome it = homeAddress then True else vl_isVisitor homeAddress its)"

definition vl_print :: "VisitorList \<Rightarrow> string" where
  "vl_print visitors =
     ''--------------------------------'' @ [CHR 0x0A] @
     concat (map (\<lambda>it. ''MN: '' @ IPAddress_s (vi_MNhome it) @ ''   '' @
                      ''HA: '' @ IPAddress_s (vi_MNhomeAgent it) @ ''   '' @
                      dec_string (unat (vi_remainingLifetime it)) @ [CHR 0x0A]) visitors) @
     ''--------------------------------'' @ [CHR 0x0A]"

section \<open>The abstract table\<close>

type_synonym visitor = "ipaddr \<times> ipaddr"

definition vi_key :: "VisitorListItem \<Rightarrow> visitor" where
  "vi_key it = (vi_MNhome it, vi_MNhomeAgent it)"

definition vl_inv :: "VisitorList \<Rightarrow> bool" where
  "vl_inv vs \<longleftrightarrow> distinct (map vi_key vs)"

text \<open>Requested and remaining lifetime of a visitor.\<close>

definition vl_lookup :: "VisitorList \<Rightarrow> visitor \<Rightarrow> (u32 \<times> u32) option" where
  "vl_lookup vs = map_of (map (\<lambda>it. (vi_key it, (vi_requestedLifetime it, vi_remainingLifetime it))) vs)"

definition age_visitor :: "u32 \<times> u32 \<Rightarrow> (u32 \<times> u32) option" where
  "age_visitor l = (if fst l = 65535 then Some l else map_option (\<lambda>r. (fst l, r)) (age (snd l)))"

locale visitor_table =
  fixes empty :: 't
    and add :: "VisitorListItem \<Rightarrow> 't \<Rightarrow> 't"
    and remove :: "ipaddr \<Rightarrow> ipaddr \<Rightarrow> 't \<Rightarrow> 't"
    and reset :: "ipaddr \<Rightarrow> ipaddr \<Rightarrow> 't \<Rightarrow> 't"
    and set_requested :: "ipaddr \<Rightarrow> ipaddr \<Rightarrow> u32 \<Rightarrow> 't \<Rightarrow> 't"
    and tick :: "'t \<Rightarrow> 't"
    and has :: "ipaddr \<Rightarrow> ipaddr \<Rightarrow> 't \<Rightarrow> bool"
    and lookup :: "'t \<Rightarrow> visitor \<Rightarrow> (u32 \<times> u32) option"
    and inv :: "'t \<Rightarrow> bool"
  assumes inv_empty: "inv empty"
    and inv_add: "inv t \<Longrightarrow> \<not> has (vi_MNhome it) (vi_MNhomeAgent it) t \<Longrightarrow> inv (add it t)"
    and inv_remove: "inv t \<Longrightarrow> inv (remove h a t)"
    and inv_reset: "inv t \<Longrightarrow> inv (reset h a t)"
    and inv_set_requested: "inv t \<Longrightarrow> inv (set_requested h a l t)"
    and inv_tick: "inv t \<Longrightarrow> inv (tick t)"
    and lookup_empty: "lookup empty = Map.empty"
    and lookup_add: "inv t \<Longrightarrow> \<not> has (vi_MNhome it) (vi_MNhomeAgent it) t \<Longrightarrow>
      lookup (add it t) = (lookup t)(vi_key it \<mapsto> (vi_requestedLifetime it, vi_remainingLifetime it))"
    and lookup_remove: "inv t \<Longrightarrow> lookup (remove h a t) = (lookup t)((h, a) := None)"
    and lookup_reset: "inv t \<Longrightarrow> lookup (reset h a t) =
      (lookup t)((h, a) := map_option (\<lambda>l. (fst l, fst l)) (lookup t (h, a)))"
    and lookup_set_requested: "inv t \<Longrightarrow> lookup (set_requested h a l t) =
      (lookup t)((h, a) := map_option (\<lambda>r. (l, snd r)) (lookup t (h, a)))"
    and lookup_tick: "inv t \<Longrightarrow> lookup (tick t) k = Option.bind (lookup t k) age_visitor"
    and has_iff: "inv t \<Longrightarrow> has h a t \<longleftrightarrow> lookup t (h, a) \<noteq> None"
begin

text \<open>The registration of an accepted reply: enter or refresh, with both lifetimes set.\<close>

lemma lookup_refresh:
  assumes "inv t" and "has h a t"
  shows "lookup (reset h a (set_requested h a l t)) = (lookup t)((h, a) \<mapsto> (l, l))"
  using assms by (auto simp: lookup_reset inv_set_requested lookup_set_requested has_iff)

lemma inv_ticks: "inv t \<Longrightarrow> inv ((tick ^^ n) t)"
  by (induction n) (simp_all add: inv_tick)

lemma lookup_ticks:
  "inv t \<Longrightarrow> lookup ((tick ^^ n) t) k = Option.bind (lookup t k) (steps age_visitor n)"
proof (induction n arbitrary: t)
  case (Suc n)
  have "lookup ((tick ^^ Suc n) t) k = lookup ((tick ^^ n) (tick t)) k"
    by (simp only: funpow_Suc_right o_apply)
  also have "\<dots> = Option.bind (lookup (tick t) k) (steps age_visitor n)"
    using Suc.prems by (intro Suc.IH inv_tick)
  finally show ?case using Suc.prems by (simp add: lookup_tick)
qed simp

end

lemma steps_age_visitor_infinite: "steps age_visitor n (65535, r) = Some (65535, r)"
  by (induction n) (simp_all add: age_visitor_def)

lemma steps_age_visitor:
  "q \<noteq> 65535 \<Longrightarrow> steps age_visitor n (q, r) = map_option (\<lambda>r. (q, r)) (steps age n r)"
proof (induction n arbitrary: r)
  case (Suc n)
  then show ?case by (cases "age r") (simp_all add: age_visitor_def)
qed simp

section \<open>The list implements the table\<close>

lemma vl_remove_filter: "vl_remove h a vs = filter (\<lambda>it. vi_key it \<noteq> (h, a)) vs"
  by (induction vs) (auto simp: vi_key_def)

lemma vi_key_update [simp]:
  "vi_key (it\<lparr>vi_remainingLifetime := l\<rparr>) = vi_key it"
  "vi_key (it\<lparr>vi_requestedLifetime := l\<rparr>) = vi_key it"
  by (simp_all add: vi_key_def)

lemma vl_keys_reset: "map vi_key (vl_resetVisitorRemainingLifetime h a vs) = map vi_key vs"
  by (induction vs) auto

lemma vl_keys_set: "map vi_key (vl_setVisitorRequestedLifetime h a l vs) = map vi_key vs"
  by (induction vs) auto

definition vi_step :: "VisitorListItem \<Rightarrow> VisitorListItem option" where
  "vi_step it = map_option (\<lambda>l. it\<lparr>vi_remainingLifetime := snd l\<rparr>)
     (age_visitor (vi_requestedLifetime it, vi_remainingLifetime it))"

interpretation vls: soft_state vi_step vl_decreaseLifetime
  by unfold_locales (auto simp: vi_step_def age_visitor_def age_def Let_def split: option.splits)

lemma vi_step_key: "vi_step it = Some it' \<Longrightarrow> vi_key it' = vi_key it"
  by (auto simp: vi_step_def)

lemma vl_lookup_simps [simp]:
  "vl_lookup [] k = None"
  "vl_lookup (it # vs) k =
     (if vi_key it = k then Some (vi_requestedLifetime it, vi_remainingLifetime it) else vl_lookup vs k)"
  by (auto simp: vl_lookup_def)

lemma vl_lookup_None_iff: "vl_lookup vs k = None \<longleftrightarrow> k \<notin> vi_key ` set vs"
  by (induction vs) auto

lemma vl_has_iff: "vl_has h a vs \<longleftrightarrow> vl_lookup vs (h, a) \<noteq> None"
  by (induction vs) (auto simp: vi_key_def)

lemma vl_lookup_append: "vl_lookup (vs @ ws) k = (case vl_lookup vs k of None \<Rightarrow> vl_lookup ws k | Some l \<Rightarrow> Some l)"
  by (induction vs) auto

lemma vl_lookup_remove: "vl_lookup (vl_remove h a vs) = (vl_lookup vs)((h, a) := None)"
  by (rule ext, induction vs) (auto simp: vi_key_def)

lemma vl_lookup_reset:
  "vl_lookup (vl_resetVisitorRemainingLifetime h a vs)
     = (vl_lookup vs)((h, a) := map_option (\<lambda>l. (fst l, fst l)) (vl_lookup vs (h, a)))"
  by (rule ext, induction vs) (auto simp: vi_key_def)

lemma vl_lookup_set:
  "vl_lookup (vl_setVisitorRequestedLifetime h a l vs)
     = (vl_lookup vs)((h, a) := map_option (\<lambda>r. (l, snd r)) (vl_lookup vs (h, a)))"
  by (rule ext, induction vs) (auto simp: vi_key_def)

lemma age_visitor_fst: "age_visitor l = Some l' \<Longrightarrow> l' = (fst l, snd l')"
  by (cases l; cases l') (auto simp: age_visitor_def split: if_splits)

lemma vl_lookup_tick:
  "vl_inv vs \<Longrightarrow> vl_lookup (vl_decreaseLifetime vs) k = Option.bind (vl_lookup vs k) age_visitor"
proof (induction vs)
  case (Cons it vs)
  then have IH: "vl_lookup (vl_decreaseLifetime vs) k = Option.bind (vl_lookup vs k) age_visitor"
    by (simp add: vl_inv_def)
  have "vl_lookup vs (vi_key it) = None"
    using Cons.prems by (auto simp: vl_inv_def vl_lookup_None_iff)
  with IH show ?case
    by (cases "age_visitor (vi_requestedLifetime it, vi_remainingLifetime it)")
       (auto simp: vls.sweep_Cons vi_step_def simp del: vl_decreaseLifetime.simps
          dest: age_visitor_fst)
qed simp

interpretation vl: visitor_table "[]" vl_add vl_remove vl_resetVisitorRemainingLifetime
  vl_setVisitorRequestedLifetime vl_decreaseLifetime vl_has vl_lookup vl_inv
proof
  show "vl_inv []" by (simp add: vl_inv_def)
  show "vl_lookup [] = Map.empty" by (rule ext) simp
  fix vs :: VisitorList and it :: VisitorListItem
  assume "vl_inv vs" and "\<not> vl_has (vi_MNhome it) (vi_MNhomeAgent it) vs"
  then have n: "vi_key it \<notin> vi_key ` set vs"
    by (simp add: vl_has_iff vl_lookup_None_iff vi_key_def)
  with \<open>vl_inv vs\<close> show "vl_inv (vl_add it vs)" by (simp add: vl_inv_def vl_add_def)
  from n have "vl_lookup vs (vi_key it) = None" by (simp add: vl_lookup_None_iff)
  then show "vl_lookup (vl_add it vs) =
      (vl_lookup vs)(vi_key it \<mapsto> (vi_requestedLifetime it, vi_remainingLifetime it))"
    by (auto simp: vl_add_def vl_lookup_append fun_eq_iff split: option.splits)
qed (simp_all add: vl_lookup_remove vl_lookup_reset vl_lookup_set vl_lookup_tick vl_has_iff,
     auto simp: vl_inv_def vl_keys_reset vl_keys_set vl_remove_filter
       intro: distinct_map_filter vls.distinct_map_sweep vi_step_key)

section \<open>Properties\<close>

text \<open>
  A visitor whose lifetimes are set to a finite positive value by the two updates the
  foreign agent makes stays in the list for exactly that many seconds.
\<close>

theorem visitor_lifetime_exact:
  assumes "vl_inv vs" and "vl_has h a vs" and "0 < l" and "l \<noteq> 65535"
  shows "vl_has h a ((vl_decreaseLifetime ^^ n)
           (vl_resetVisitorRemainingLifetime h a (vl_setVisitorRequestedLifetime h a l vs)))
         \<longleftrightarrow> n < unat l"
proof -
  let ?vs = "vl_resetVisitorRemainingLifetime h a (vl_setVisitorRequestedLifetime h a l vs)"
  have inv: "vl_inv ?vs" using assms(1) by (intro vl.inv_reset vl.inv_set_requested)
  have "vl_lookup ?vs (h, a) = Some (l, l)"
    using vl.lookup_refresh [OF assms(1,2), of l] by simp
  then have "vl_lookup ((vl_decreaseLifetime ^^ n) ?vs) (h, a) = steps age_visitor n (l, l)"
    using vl.lookup_ticks [OF inv, of n "(h, a)"] by simp
  then show ?thesis
    using assms(3,4) by (simp add: vl_has_iff steps_age_visitor steps_age)
qed

theorem visitor_lifetime_exact_witness:
  "\<not> vl_has 1 2 ((vl_decreaseLifetime ^^ 3) (vl_resetVisitorRemainingLifetime 1 2
     (vl_setVisitorRequestedLifetime 1 2 3 [\<lparr>vi_MNhome = 1, vi_UDPSourcePort = 5241,
        vi_MNhomeAgent = 2, vi_requestedLifetime = 9, vi_remainingLifetime = 9\<rparr>])))"
  using visitor_lifetime_exact [of "[\<lparr>vi_MNhome = 1, vi_UDPSourcePort = 5241,
        vi_MNhomeAgent = 2, vi_requestedLifetime = 9, vi_remainingLifetime = 9\<rparr>]" 1 2 3 3]
  by (simp add: vl_inv_def)

end
