(* ===== verification/Request_List.thy ===== *)
theory Request_List
  imports Soft_State Wire_Formats
begin

text \<open>
  \<^verbatim>\<open>elements/lists/RequestList.hh\<close>: the pending registration requests of a mobile node or a
  foreign agent. \<open>remove\<close> takes out the first request with a given identification and throws
  when there is none; \<open>removeTimedOutRequests\<close> counts the seconds a request has waited and
  returns those over the limit; \<open>getLastRequest\<close> is \<open>vector::back\<close>, undefined on an empty
  list. A mobile node's item has no \<open>rr\<close> and a foreign agent's no \<open>ttl\<close>: those fields (and
  \<open>remainingLifetime\<close> in the mobile node) stay uninitialised and are whatever the creator of
  the item passes here.
\<close>

record RequestListItem =
  rq_destination :: ipaddr
  rq_careOfAddress :: ipaddr
  rq_identification :: u32
  rq_rr :: registrationRequest
  rq_ttl :: u32
  rq_requestedLifetime :: u32
  rq_remainingLifetime :: u32
  rq_waitingTime :: u32

type_synonym RequestList = "RequestListItem list"

fun rl_remove :: "u32 \<Rightarrow> RequestList \<Rightarrow> (RequestListItem \<times> RequestList) res" where
  "rl_remove identification [] = Inl (RequestNotFoundException ''identification'')"
| "rl_remove identification (it # its) =
     (if rq_identification it = identification then Inr (it, its)
      else res_bind (rl_remove identification its) (\<lambda>(out, its'). Inr (out, it # its')))"

fun rl_decreaseLifetime :: "RequestList \<Rightarrow> RequestList" where
  "rl_decreaseLifetime [] = []"
| "rl_decreaseLifetime (it # its) =
     (if rq_requestedLifetime it = 65535 then it # rl_decreaseLifetime its
      else if rq_requestedLifetime it \<noteq> 0 then
        (if rq_remainingLifetime it \<noteq> 0
         then it\<lparr>rq_remainingLifetime := rq_remainingLifetime it - 1\<rparr> # rl_decreaseLifetime its
         else rl_decreaseLifetime its)
      else it # rl_decreaseLifetime its)"

fun rl_removeTimedOutRequests :: "u32 \<Rightarrow> RequestList \<Rightarrow> RequestList \<times> RequestList" where
  "rl_removeTimedOutRequests seconds [] = ([], [])"
| "rl_removeTimedOutRequests seconds (it # its) =
     (let it' = it\<lparr>rq_waitingTime := rq_waitingTime it + 1\<rparr>;
          (timedOut, rest) = rl_removeTimedOutRequests seconds its
      in if rq_waitingTime it' \<le> seconds then (timedOut, it' # rest)
         else (it' # timedOut, rest))"

definition rl_size :: "RequestList \<Rightarrow> nat" where
  "rl_size requests = length requests"

definition rl_add :: "RequestListItem \<Rightarrow> RequestList \<Rightarrow> RequestList" where
  "rl_add item requests = requests @ [item]"

fun rl_has :: "ipaddr \<Rightarrow> ipaddr \<Rightarrow> RequestList \<Rightarrow> bool" where
  "rl_has destination careOfAddress [] = False"
| "rl_has destination careOfAddress (it # its) =
     (if rq_destination it = destination \<and> rq_careOfAddress it = careOfAddress then True
      else rl_has destination careOfAddress its)"

definition rl_getLastRequest :: "RequestList \<Rightarrow> RequestListItem res" where
  "rl_getLastRequest requests = (if requests = [] then Inl EmptyVector else Inr (last requests))"

section \<open>What the operations do\<close>

lemma rl_remove_Inl_iff:
  "rl_remove i rs = Inl e \<longleftrightarrow>
     e = RequestNotFoundException ''identification'' \<and> (\<forall>r \<in> set rs. rq_identification r \<noteq> i)"
  by (induction rs) (auto simp: res_bind_eq_Inl_iff)

lemma rl_remove_append:
  "\<forall>u \<in> set us. rq_identification u \<noteq> rq_identification r \<Longrightarrow>
     rl_remove (rq_identification r) (us @ r # vs) = Inr (r, us @ vs)"
  by (induction us) auto

lemma rl_remove_InrD:
  "rl_remove i rs = Inr (r, rs') \<Longrightarrow>
     rq_identification r = i \<and>
     (\<exists>us vs. rs = us @ r # vs \<and> rs' = us @ vs \<and> (\<forall>u \<in> set us. rq_identification u \<noteq> i))"
proof (induction rs arbitrary: rs')
  case (Cons it its)
  show ?case
  proof (cases "rq_identification it = i")
    case True
    with Cons.prems have "it # its = [] @ r # its \<and> rs' = [] @ its \<and> rq_identification r = i" by simp
    then show ?thesis by fastforce
  next
    case False
    then obtain rs1 where rs1: "rl_remove i its = Inr (r, rs1)" "rs' = it # rs1"
      using Cons.prems by (auto simp: res_bind_eq_Inr_iff)
    obtain us vs where "its = us @ r # vs" "rs1 = us @ vs" "\<forall>u \<in> set us. rq_identification u \<noteq> i"
      and "rq_identification r = i"
      using Cons.IH [OF rs1(1)] by blast
    with False rs1(2) have "it # its = (it # us) @ r # vs" "rs' = (it # us) @ vs"
      "\<forall>u \<in> set (it # us). rq_identification u \<noteq> i" "rq_identification r = i"
      by auto
    then show ?thesis by blast
  qed
qed simp

lemma rl_remove_Inr_iff:
  "rl_remove i rs = Inr (r, rs') \<longleftrightarrow>
     (\<exists>us vs. rs = us @ r # vs \<and> rs' = us @ vs \<and> rq_identification r = i \<and>
        (\<forall>u \<in> set us. rq_identification u \<noteq> i))" (is "?L \<longleftrightarrow> ?R")
proof
  show "?L \<Longrightarrow> ?R" by (drule rl_remove_InrD) blast
  show "?R \<Longrightarrow> ?L" using rl_remove_append [of _ r] by auto
qed

lemma rl_remove_snoc:
  assumes "\<forall>u \<in> set rs. rq_identification u \<noteq> rq_identification r"
  shows "rl_remove (rq_identification r) (rs @ [r]) = Inr (r, rs)"
  using rl_remove_append [OF assms, of "[]"] by simp

definition rq_step :: "RequestListItem \<Rightarrow> RequestListItem option" where
  "rq_step it =
     (if rq_requestedLifetime it \<in> {0, 65535} then Some it
      else if rq_remainingLifetime it = 0 then None
      else Some (it\<lparr>rq_remainingLifetime := rq_remainingLifetime it - 1\<rparr>))"

interpretation rls: soft_state rq_step rl_decreaseLifetime
  by unfold_locales (auto simp: rq_step_def)

text \<open>The waiting requests that survive a second, and those that time out in it.\<close>

definition rq_wait :: "u32 \<Rightarrow> RequestListItem \<Rightarrow> RequestListItem option" where
  "rq_wait seconds it =
     (if rq_waitingTime it + 1 \<le> seconds then Some (it\<lparr>rq_waitingTime := rq_waitingTime it + 1\<rparr>)
      else None)"

interpretation rlw: soft_state "rq_wait seconds" "\<lambda>rs. snd (rl_removeTimedOutRequests seconds rs)"
  for seconds
  by unfold_locales (auto simp: rq_wait_def Let_def split: prod.splits)

theorem rl_removeTimedOutRequests_fst:
  "fst (rl_removeTimedOutRequests seconds rs)
     = map (\<lambda>it. it\<lparr>rq_waitingTime := rq_waitingTime it + 1\<rparr>)
         (filter (\<lambda>it. seconds < rq_waitingTime it + 1) rs)"
  by (induction rs) (auto simp: Let_def not_le split: prod.splits)

lemma rl_timeout_partition:
  "length (fst (rl_removeTimedOutRequests seconds rs)) +
   length (snd (rl_removeTimedOutRequests seconds rs)) = length rs"
  by (induction rs) (auto simp: Let_def split: prod.splits)

lemma rl_has_iff:
  "rl_has d c rs \<longleftrightarrow> (\<exists>r \<in> set rs. rq_destination r = d \<and> rq_careOfAddress r = c)"
  by (induction rs) auto

text \<open>A request that is added with waiting time 0 times out after \<open>seconds + 1\<close> seconds.\<close>

lemma steps_rq_wait:
  assumes "unat w + n \<le> unat seconds" and "rq_waitingTime it = w"
  shows "steps (rq_wait seconds) n it = Some (it\<lparr>rq_waitingTime := w + of_nat n\<rparr>)"
  using assms
proof (induction n arbitrary: it w)
  case (Suc n)
  have w: "unat (w + 1) = unat w + 1"
    using Suc.prems(1) unat_lt_2_32 [of seconds] by (simp add: unat_word_ariths del: unat_lt_2_32)
  then have "w + 1 \<le> seconds" using Suc.prems(1) by (simp add: word_le_nat_alt)
  then have "rq_wait seconds it = Some (it\<lparr>rq_waitingTime := w + 1\<rparr>)"
    using Suc.prems(2) by (simp add: rq_wait_def)
  moreover have "steps (rq_wait seconds) n (it\<lparr>rq_waitingTime := w + 1\<rparr>)
      = Some (it\<lparr>rq_waitingTime := w + 1, rq_waitingTime := w + 1 + of_nat n\<rparr>)"
    using Suc.prems w by (intro Suc.IH) auto
  ultimately show ?case by (simp add: algebra_simps)
qed auto

text \<open>
  A concrete request, for the examples: the node 192.168.0.2, home agent 192.168.1.1, care-of
  address 192.168.1.2, sent to the agent 192.168.2.1.
\<close>

definition sample_registration :: registrationRequest where
  "sample_registration =
     \<lparr>rr_S = False, rr_B = False, rr_D = False, rr_M = False, rr_G = False, rr_r = False,
      rr_T = False, rr_x = False, rr_lifetime = 100, rr_home = 0x0200A8C0,
      rr_homeAgent = 0x0101A8C0, rr_careOf = 0x0201A8C0,
      rr_UDP = \<lparr>sourcePort = 5241, destinationPort = 434\<rparr>,
      rr_IP = \<lparr>ipsource = 0x0200A8C0, ipdestination = 0x0102A8C0\<rparr>,
      rr_identification = 77\<rparr>"

definition sample_request :: RequestListItem where
  "sample_request =
     \<lparr>rq_destination = 0x0102A8C0, rq_careOfAddress = 0x0201A8C0, rq_identification = 77,
      rq_rr = sample_registration, rq_ttl = 1, rq_requestedLifetime = 100,
      rq_remainingLifetime = 100, rq_waitingTime = 0\<rparr>"

text \<open>The list after \<open>n\<close> sweeps.\<close>

definition rl_after :: "u32 \<Rightarrow> nat \<Rightarrow> RequestList \<Rightarrow> RequestList" where
  "rl_after seconds n rs = ((\<lambda>rs. snd (rl_removeTimedOutRequests seconds rs)) ^^ n) rs"

section \<open>Properties\<close>

text \<open>
  \<open>remove\<close> either throws, exactly when no pending request has the identification, or
  returns the oldest one that has it and leaves all others in their order.
\<close>

theorem rl_remove_first_match:
  "(rl_remove i rs = Inl (RequestNotFoundException ''identification'') \<longleftrightarrow>
      i \<notin> rq_identification ` set rs) \<and>
   (rl_remove i rs = Inr (r, rs') \<longleftrightarrow>
      (\<exists>us vs. rs = us @ r # vs \<and> rs' = us @ vs \<and> rq_identification r = i \<and>
         i \<notin> rq_identification ` set us))"
proof -
  have "(\<forall>u \<in> set us. rq_identification u \<noteq> i) \<longleftrightarrow> i \<notin> rq_identification ` set us" for us
    by auto
  note n = this
  show ?thesis unfolding rl_remove_Inl_iff rl_remove_Inr_iff n by simp
qed

text \<open>
  A request added with waiting time 0 survives \<open>seconds\<close> sweeps of
  \<open>removeTimedOutRequests(seconds)\<close> and is handed out as timed out by the next one, having
  waited one second more than the limit.
\<close>

theorem request_times_out:
  assumes "rq_waitingTime r = 0" and "seconds \<noteq> 0xffffffff"
  shows "r\<lparr>rq_waitingTime := seconds\<rparr> \<in> set (rl_after seconds (unat seconds) (rl_add r rs)) \<and>
    r\<lparr>rq_waitingTime := seconds + 1\<rparr> \<in>
      set (fst (rl_removeTimedOutRequests seconds (rl_after seconds (unat seconds) (rl_add r rs))))"
proof -
  have "steps (rq_wait seconds) (unat seconds) r = Some (r\<lparr>rq_waitingTime := seconds\<rparr>)"
    using steps_rq_wait [of 0 "unat seconds" seconds r] assms(1) by simp
  then have waits: "r\<lparr>rq_waitingTime := seconds\<rparr> \<in> set (rl_after seconds (unat seconds) (rl_add r rs))"
    by (simp add: rl_after_def rlw.set_sweep_pow rl_add_def)
  have "unat seconds + 1 < 4294967296"
    using assms(2) unat_lt_2_32 [of seconds] word_unat_eq_iff [of seconds "0xffffffff"]
    by (simp del: unat_lt_2_32)
  then have "seconds < seconds + 1" by (simp add: word_less_nat_alt unat_word_ariths)
  with waits show ?thesis by (force simp: rl_removeTimedOutRequests_fst)
qed

theorem request_times_out_witness:
  "rq_waitingTime sample_request = 0 \<and>
   (\<exists>r \<in> set (fst (rl_removeTimedOutRequests 7 (rl_after 7 7 (rl_add sample_request [])))). rq_waitingTime r = 8)"
  using request_times_out [of sample_request 7 "[]"] by (force simp: sample_request_def)

end
