(* ===== verification/Foreign_Agent.thy ===== *)
theory Foreign_Agent
  imports Element_Model Visitor_List Request_List
begin

text \<open>
  \<^verbatim>\<open>elements/MobileIPForeignAgent.{hh,cc}\<close>: the foreign agent relays registration requests of
  visiting nodes to their home agents and the replies back, keeping the pending requests
  and the visitor list. Handlers return the new state and the port effects.
\<close>

record MobileIPForeignAgent =
  fa_publicAddress :: ipaddr
  fa_privateAddress :: ipaddr
  fa_careOfAddress :: ipaddr
  fa_HAAddress :: ipaddr
  fa_maxPendingRegistrations :: u32
  fa_maxAcceptedLifetime :: u32
  fa_sourcePort :: u32
  fa_requestTimeout :: u32
  fa_requestsTimer :: timer
  fa_requests :: RequestList
  fa_visitors :: VisitorList

definition new_MobileIPForeignAgent :: MobileIPForeignAgent where
  "new_MobileIPForeignAgent =
     \<lparr>fa_publicAddress = 0, fa_privateAddress = 0, fa_careOfAddress = 0, fa_HAAddress = 0,
      fa_maxPendingRegistrations = 5, fa_maxAcceptedLifetime = 1800, fa_sourcePort = 3581,
      fa_requestTimeout = 7, fa_requestsTimer = Unscheduled, fa_requests = [], fa_visitors = []\<rparr>"

definition FA_configure ::
  "ipaddr arg \<Rightarrow> ipaddr arg \<Rightarrow> ipaddr arg \<Rightarrow> MobileIPForeignAgent \<Rightarrow> int \<times> MobileIPForeignAgent" where
  "FA_configure PRIVATE_ADDRESS PUBLIC_ADDRESS HA_ADDRESS st =
     (case (Args_read_m PRIVATE_ADDRESS, Args_read_m PUBLIC_ADDRESS, Args_read_m HA_ADDRESS) of
        (Some priv, Some pub, Some ha) \<Rightarrow>
          (0, st\<lparr>fa_privateAddress := priv, fa_publicAddress := pub, fa_HAAddress := ha,
                 fa_careOfAddress := pub\<rparr>)
      | _ \<Rightarrow> (-1, st))"

definition FA_initialize :: "MobileIPForeignAgent \<Rightarrow> int \<times> MobileIPForeignAgent" where
  "FA_initialize st = (0, st\<lparr>fa_requestsTimer := After_msec 0\<rparr>)"

definition FA_getVisitorsHandler :: "MobileIPForeignAgent \<Rightarrow> string" where
  "FA_getVisitorsHandler st = vl_print (fa_visitors st)"

definition FA_read_handler :: "string \<Rightarrow> MobileIPForeignAgent \<Rightarrow> string option" where
  "FA_read_handler name st =
     (if name = ''visitors'' then Some (FA_getVisitorsHandler st)
      else if name = ''max_lifetime'' then Some (integer_data_read (fa_maxAcceptedLifetime st))
      else if name = ''request_timeout'' then Some (integer_data_read (fa_requestTimeout st))
      else if name = ''max_pending_registrations''
        then Some (integer_data_read (fa_maxPendingRegistrations st))
      else None)"

definition FA_write_handler ::
  "string \<Rightarrow> u32 arg \<Rightarrow> MobileIPForeignAgent \<Rightarrow> (int \<times> MobileIPForeignAgent) option" where
  "FA_write_handler name str st =
     (if name = ''max_lifetime''
      then Some (let (ret, v) = integer_data_write str (fa_maxAcceptedLifetime st)
                 in (ret, st\<lparr>fa_maxAcceptedLifetime := v\<rparr>))
      else if name = ''request_timeout''
      then Some (let (ret, v) = integer_data_write str (fa_requestTimeout st)
                 in (ret, st\<lparr>fa_requestTimeout := v\<rparr>))
      else if name = ''max_pending_registrations''
      then Some (let (ret, v) = integer_data_write str (fa_maxPendingRegistrations st)
                 in (ret, st\<lparr>fa_maxPendingRegistrations := v\<rparr>))
      else None)"

text \<open>The three \<open>sendReply\<close> overloads: to a request with a lifetime, echoing its lifetime, and relaying.\<close>

definition FA_sendReply ::
  "env \<Rightarrow> registrationRequest \<Rightarrow> byte \<Rightarrow> u32 \<Rightarrow> MobileIPForeignAgent \<Rightarrow> effect list res" where
  "FA_sendReply e registration code lifetime st =
     (let source = ipdestination (rr_IP registration);
          destination = ipsource (rr_IP registration);
          source = (if destination = IP_BROADCAST then fa_privateAddress st else source);
          destination = (if rr_home registration = IP_ANY then IP_BROADCAST else destination) in
      res_bind (deref (buildRegistrationReplyPacket (e_mem e) (e_clk e) lifetime code
                  (rr_home registration) (rr_homeAgent registration)
                  (rr_identification registration))) (\<lambda>packet.
      res_bind (UDPIPfy (e_mem e) packet source 434 destination
                  (sourcePort (rr_UDP registration)) 1) (\<lambda>packet.
      Inr [Push 0 packet])))"

definition FA_sendReply2 ::
  "env \<Rightarrow> registrationRequest \<Rightarrow> byte \<Rightarrow> MobileIPForeignAgent \<Rightarrow> effect list res" where
  "FA_sendReply2 e registration code st =
     FA_sendReply e registration code (rr_lifetime registration) st"

definition FA_sendReplyRelayed ::
  "env \<Rightarrow> registrationReply \<Rightarrow> ipaddr \<Rightarrow> u32 \<Rightarrow> MobileIPForeignAgent \<Rightarrow> effect list res" where
  "FA_sendReplyRelayed e registration destination dport st =
     (let source = fa_privateAddress st;
          source = (if destination = IP_BROADCAST then fa_privateAddress st else source);
          destination = (if rp_home registration = IP_ANY then IP_BROADCAST else destination) in
      res_bind (deref (buildRegistrationReplyPacket (e_mem e) (e_clk e) (rp_lifetime registration)
                  (ucast (rp_code registration)) (rp_home registration) (rp_homeAgent registration)
                  (rp_identification registration))) (\<lambda>packet.
      res_bind (UDPIPfy (e_mem e) packet source 434 destination dport 1) (\<lambda>packet.
      Inr [Push 0 packet])))"

text \<open>One environment per iteration of the loop.\<close>

fun FA_sendRequestTimedOutReply ::
  "(nat \<Rightarrow> env) \<Rightarrow> RequestListItem list \<Rightarrow> MobileIPForeignAgent \<Rightarrow> effect list res" where
  "FA_sendRequestTimedOutReply es [] st = Inr []"
| "FA_sendRequestTimedOutReply es (request # requests) st =
     res_bind (FA_sendReply2 (es 0) (rq_rr request) 78 st) (\<lambda>out.
     res_bind (FA_sendRequestTimedOutReply (\<lambda>i. es (Suc i)) requests st) (\<lambda>outs.
     Inr (out @ outs)))"

definition FA_run_timer ::
  "(nat \<Rightarrow> env) \<Rightarrow> MobileIPForeignAgent \<Rightarrow> (MobileIPForeignAgent \<times> effect list) res" where
  "FA_run_timer es st =
     (let requests = rl_decreaseLifetime (fa_requests st);
          (timedOut, requests) = rl_removeTimedOutRequests (fa_requestTimeout st) requests;
          st = st\<lparr>fa_requests := requests\<rparr> in
      res_bind (FA_sendRequestTimedOutReply es timedOut st) (\<lambda>out.
      Inr (st\<lparr>fa_visitors := vl_decreaseLifetime (fa_visitors st),
             fa_requestsTimer := After_msec 1000\<rparr>, out)))"

definition FA_checkRegistrationValidity ::
  "env \<Rightarrow> registrationRequest \<Rightarrow> MobileIPForeignAgent \<Rightarrow> (bool \<times> effect list) res" where
  "FA_checkRegistrationValidity e registration st =
     (if destinationPort (rr_UDP registration) \<noteq> 434 then Inr (False, [])
      else if rr_r registration \<noteq> False \<or> rr_x registration \<noteq> False then
        res_bind (FA_sendReply2 e registration 70 st) (\<lambda>out. Inr (False, out))
      else if rr_careOf registration \<noteq> fa_careOfAddress st then
        res_bind (FA_sendReply2 e registration 77 st) (\<lambda>out. Inr (False, out))
      else if rr_M registration = True \<or> rr_G registration = True then
        res_bind (FA_sendReply2 e registration 72 st) (\<lambda>out. Inr (False, out))
      else if rl_size (fa_requests st) \<ge> unat (fa_maxPendingRegistrations st) then
        res_bind (FA_sendReply2 e registration 66 st) (\<lambda>out. Inr (False, out))
      else if rr_lifetime registration > fa_maxAcceptedLifetime st then
        res_bind (FA_sendReply e registration 69 (fa_maxAcceptedLifetime st) st)
          (\<lambda>out. Inr (False, out))
      else if rr_D registration = True \<or> rr_T registration = True then
        res_bind (FA_sendReply2 e registration 64 st) (\<lambda>out. Inr (False, out))
      else Inr (True, []))"

definition FA_checkReplyValidity ::
  "registrationReply \<Rightarrow> RequestListItem \<Rightarrow> MobileIPForeignAgent \<Rightarrow> bool" where
  "FA_checkReplyValidity registration request st =
     (if rp_home registration \<noteq> rr_home (rq_rr request) then False
      else if destinationPort (rp_UDP registration) \<noteq> fa_sourcePort st then False
      else True)"

definition FA_relayRequest ::
  "env \<Rightarrow> registrationRequest \<Rightarrow> MobileIPForeignAgent \<Rightarrow> (MobileIPForeignAgent \<times> effect list) res" where
  "FA_relayRequest e registration st =
     res_bind (FA_checkRegistrationValidity e registration st) (\<lambda>(ok, out).
     if ok = False then Inr (st, out) else
     let request = \<lparr>rq_destination = ipdestination (rr_IP registration),
                    rq_careOfAddress = fa_careOfAddress st,
                    rq_identification = rr_identification registration,
                    rq_rr = registration, rq_ttl = e_undef_int e,
                    rq_requestedLifetime = rr_lifetime registration,
                    rq_remainingLifetime = rr_lifetime registration, rq_waitingTime = 0\<rparr>;
         st = st\<lparr>fa_requests := rl_add request (fa_requests st)\<rparr> in
     res_bind (deref (buildRegistrationRequestPacket (e_mem e) (e_clk e) (rr_lifetime registration)
                 (rr_home registration) (rr_homeAgent registration) (fa_careOfAddress st)
                 (rr_identification registration))) (\<lambda>packet.
     res_bind (UDPIPfy (e_mem e) packet (fa_careOfAddress st) (fa_sourcePort st)
                 (rr_homeAgent registration) 434 16) (\<lambda>packet.
     Inr (st, [Push 1 packet]))))"

text \<open>\<open>relayReply\<close>: the visitor list before the reply goes out, and what happens to it after.\<close>

definition FA_enterVisitor ::
  "registrationReply \<Rightarrow> RequestListItem \<Rightarrow> MobileIPForeignAgent \<Rightarrow> VisitorList" where
  "FA_enterVisitor reply request st =
     (if rp_code reply = 0 \<or> rp_code reply = 1 then
        (let remainingLifetime = min (rp_lifetime reply) (fa_maxAcceptedLifetime st) in
         if vl_has (rp_home reply) (rp_homeAgent reply) (fa_visitors st) then
           (if rp_lifetime reply = 0
            then vl_remove (rp_home reply) (rp_homeAgent reply) (fa_visitors st)
            else vl_setVisitorRequestedLifetime (rp_home reply) (rp_homeAgent reply)
                   remainingLifetime (fa_visitors st))
         else
           vl_add \<lparr>vi_MNhome = rp_home reply,
                   vi_UDPSourcePort = sourcePort (rr_UDP (rq_rr request)),
                   vi_MNhomeAgent = rp_homeAgent reply,
                   vi_requestedLifetime = remainingLifetime,
                   vi_remainingLifetime = remainingLifetime\<rparr> (fa_visitors st))
      else fa_visitors st)"

definition FA_settleVisitor :: "registrationReply \<Rightarrow> VisitorList \<Rightarrow> VisitorList" where
  "FA_settleVisitor reply visitors =
     (if rp_lifetime reply \<noteq> 0 then
        (if rp_code reply = 0 \<or> rp_code reply = 1
         then vl_resetVisitorRemainingLifetime (rp_home reply) (rp_homeAgent reply) visitors
         else vl_remove (rp_home reply) (rp_homeAgent reply) visitors)
      else visitors)"

definition FA_relayReply ::
  "env \<Rightarrow> registrationReply \<Rightarrow> MobileIPForeignAgent \<Rightarrow> (MobileIPForeignAgent \<times> effect list) res" where
  "FA_relayReply e reply st =
     (case rl_remove (rp_identification reply) (fa_requests st) of
        Inl (RequestNotFoundException _) \<Rightarrow> Inr (st, [])
      | Inl x \<Rightarrow> Inl x
      | Inr (request, requests) \<Rightarrow>
          (let st = st\<lparr>fa_requests := requests\<rparr> in
           if FA_checkReplyValidity reply request st = False then Inr (st, [])
           else
           let st = st\<lparr>fa_visitors := FA_enterVisitor reply request st\<rparr> in
           res_bind (FA_sendReplyRelayed e reply (rp_home reply)
                       (sourcePort (rr_UDP (rq_rr request))) st) (\<lambda>out.
           Inr (st\<lparr>fa_visitors := FA_settleVisitor reply (fa_visitors st)\<rparr>, out))))"

text \<open>
  \<open>push\<close>: the packet is killed at the end, except on the early returns of the two
  exception handlers.
\<close>

definition FA_push_public ::
  "env \<Rightarrow> nat \<Rightarrow> packet \<Rightarrow> MobileIPForeignAgent \<Rightarrow> (MobileIPForeignAgent \<times> effect list) res" where
  "FA_push_public e port p st =
     (if port = 1 then
        res_bind (getPacketType p) (\<lambda>type.
        if type = REPLY then
          (case processRegistrationReplyPacket (e_undef e) p of
             Inl (ZeroChecksumException _) \<Rightarrow> Inr (st, [])
           | Inl (InvalidChecksumException _) \<Rightarrow> Inr (st, [])
           | Inl x \<Rightarrow> Inl x
           | Inr reply \<Rightarrow>
               res_bind (FA_relayReply e reply st) (\<lambda>(st, out). Inr (st, out @ [Kill p])))
        else Inr (st, [Kill p]))
      else Inr (st, [Kill p]))"

definition FA_push ::
  "env \<Rightarrow> nat \<Rightarrow> packet \<Rightarrow> MobileIPForeignAgent \<Rightarrow> (MobileIPForeignAgent \<times> effect list) res" where
  "FA_push e port p st =
     (if port = 0 then
        res_bind (getPacketType p) (\<lambda>type.
        if type = REGISTRATION then
          (case processRegistrationRequestPacket (e_undef e) p of
             Inl (ZeroChecksumException _) \<Rightarrow> Inr (st, [])
           | Inl (InvalidChecksumException _) \<Rightarrow> Inr (st, [])
           | Inl x \<Rightarrow> Inl x
           | Inr registration \<Rightarrow>
               res_bind (FA_relayRequest e registration st) (\<lambda>(st, out).
               res_bind (FA_push_public e port p st) (\<lambda>(st, outs). Inr (st, out @ outs))))
        else FA_push_public e port p st)
      else FA_push_public e port p st)"

section \<open>Specification\<close>

text \<open>
  What the agent decides about a request, in the order of precedence of the denial codes.
\<close>

datatype fa_verdict = FA_Ignore | FA_Deny byte u32 | FA_Relay

definition fa_verdict :: "MobileIPForeignAgent \<Rightarrow> registrationRequest \<Rightarrow> fa_verdict" where
  "fa_verdict st r =
     (if destinationPort (rr_UDP r) \<noteq> 434 then FA_Ignore
      else if rr_r r \<or> rr_x r then FA_Deny 70 (rr_lifetime r)
      else if rr_careOf r \<noteq> fa_careOfAddress st then FA_Deny 77 (rr_lifetime r)
      else if rr_M r \<or> rr_G r then FA_Deny 72 (rr_lifetime r)
      else if unat (fa_maxPendingRegistrations st) \<le> length (fa_requests st)
        then FA_Deny 66 (rr_lifetime r)
      else if fa_maxAcceptedLifetime st < rr_lifetime r then FA_Deny 69 (fa_maxAcceptedLifetime st)
      else if rr_D r \<or> rr_T r then FA_Deny 64 (rr_lifetime r)
      else FA_Relay)"

text \<open>The pending entry of a relayed request.\<close>

definition fa_pending :: "env \<Rightarrow> MobileIPForeignAgent \<Rightarrow> registrationRequest \<Rightarrow> RequestListItem" where
  "fa_pending e st r =
     \<lparr>rq_destination = ipdestination (rr_IP r), rq_careOfAddress = fa_careOfAddress st,
      rq_identification = rr_identification r, rq_rr = r, rq_ttl = e_undef_int e,
      rq_requestedLifetime = rr_lifetime r, rq_remainingLifetime = rr_lifetime r,
      rq_waitingTime = 0\<rparr>"

text \<open>The reply the agent makes itself, and the one it passes on.\<close>

definition fa_denies ::
  "env \<Rightarrow> MobileIPForeignAgent \<Rightarrow> registrationRequest \<Rightarrow> byte \<Rightarrow> u32 \<Rightarrow> effect list \<Rightarrow> bool" where
  "fa_denies e st r code lt out \<longleftrightarrow>
     (\<exists>q. out = [Push 0 q] \<and>
        arrives q (udp_datagram 1
          (if ipsource (rr_IP r) = IP_BROADCAST then fa_privateAddress st else ipdestination (rr_IP r))
          434 (if rr_home r = IP_ANY then IP_BROADCAST else ipsource (rr_IP r))
          (sourcePort (rr_UDP r))
          (reply_bytes (e_clk e) lt code (rr_home r) (rr_homeAgent r) (rr_identification r))))"

definition fa_relays_request ::
  "env \<Rightarrow> MobileIPForeignAgent \<Rightarrow> registrationRequest \<Rightarrow> effect list \<Rightarrow> bool" where
  "fa_relays_request e st r out \<longleftrightarrow>
     (\<exists>q. out = [Push 1 q] \<and>
        arrives q (udp_datagram 16 (fa_careOfAddress st) (fa_sourcePort st) (rr_homeAgent r) 434
          (request_bytes (e_clk e) (rr_lifetime r) (rr_home r) (rr_homeAgent r)
             (fa_careOfAddress st) (rr_identification r))))"

definition fa_relays_reply ::
  "env \<Rightarrow> MobileIPForeignAgent \<Rightarrow> registrationReply \<Rightarrow> RequestListItem \<Rightarrow> effect list \<Rightarrow> bool" where
  "fa_relays_reply e st reply request out \<longleftrightarrow>
     (\<exists>q. out = [Push 0 q] \<and>
        arrives q (udp_datagram 1 (fa_privateAddress st) 434
          (if rp_home reply = IP_ANY then IP_BROADCAST else rp_home reply)
          (sourcePort (rr_UDP (rq_rr request)))
          (reply_bytes (e_clk e) (rp_lifetime reply) (ucast (rp_code reply)) (rp_home reply)
             (rp_homeAgent reply) (rp_identification reply))))"

lemma FA_sendReply_sent:
  assumes "mem_ok e"
  obtains out where "FA_sendReply e r code lt st = Inr out" "fa_denies e st r code lt out"
proof -
  let ?src = "if ipsource (rr_IP r) = IP_BROADCAST then fa_privateAddress st
              else ipdestination (rr_IP r)"
  let ?dst = "if rr_home r = IP_ANY then IP_BROADCAST else ipsource (rr_IP r)"
  obtain m q where
    "buildRegistrationReplyPacket (e_mem e) (e_clk e) lt code (rr_home r) (rr_homeAgent r)
       (rr_identification r) = Some m"
    "UDPIPfy (e_mem e) m ?src 434 ?dst (sourcePort (rr_UDP r)) 1 = Inr q"
    "arrives q (udp_datagram 1 ?src 434 ?dst (sourcePort (rr_UDP r))
       (reply_bytes (e_clk e) lt code (rr_home r) (rr_homeAgent r) (rr_identification r)))"
    using assms by (rule reply_built)
  with that [of "[Push 0 q]"] show thesis
    by (simp add: FA_sendReply_def fa_denies_def Let_def)
qed

lemma FA_relayed_sent:
  assumes "mem_ok e"
  obtains out where
    "FA_sendReplyRelayed e reply (rp_home reply) (sourcePort (rr_UDP (rq_rr request))) st = Inr out"
    "fa_relays_reply e st reply request out"
proof -
  let ?dst = "if rp_home reply = IP_ANY then IP_BROADCAST else rp_home reply"
  let ?port = "sourcePort (rr_UDP (rq_rr request))"
  obtain m q where
    "buildRegistrationReplyPacket (e_mem e) (e_clk e) (rp_lifetime reply) (ucast (rp_code reply))
       (rp_home reply) (rp_homeAgent reply) (rp_identification reply) = Some m"
    "UDPIPfy (e_mem e) m (fa_privateAddress st) 434 ?dst ?port 1 = Inr q"
    "arrives q (udp_datagram 1 (fa_privateAddress st) 434 ?dst ?port
       (reply_bytes (e_clk e) (rp_lifetime reply) (ucast (rp_code reply)) (rp_home reply)
          (rp_homeAgent reply) (rp_identification reply)))"
    using assms by (rule reply_built)
  with that [of "[Push 0 q]"] show thesis
    by (simp add: FA_sendReplyRelayed_def fa_relays_reply_def Let_def)
qed

lemma FA_check_denied:
  assumes "mem_ok e" and "fa_verdict st r = FA_Deny code lt"
  obtains out where "FA_checkRegistrationValidity e r st = Inr (False, out)"
    "fa_denies e st r code lt out"
proof -
  obtain out where "FA_sendReply e r code lt st = Inr out" "fa_denies e st r code lt out"
    using assms(1) by (rule FA_sendReply_sent)
  moreover from this(1) assms(2) have "FA_checkRegistrationValidity e r st = Inr (False, out)"
    by (auto simp: fa_verdict_def FA_checkRegistrationValidity_def FA_sendReply2_def rl_size_def
          split: if_splits)
  ultimately show thesis using that by blast
qed

lemma FA_check_ignored:
  "fa_verdict st r = FA_Ignore \<Longrightarrow> FA_checkRegistrationValidity e r st = Inr (False, [])"
  by (auto simp: fa_verdict_def FA_checkRegistrationValidity_def split: if_splits)

lemma FA_check_relay:
  "fa_verdict st r = FA_Relay \<Longrightarrow> FA_checkRegistrationValidity e r st = Inr (True, [])"
  by (auto simp: fa_verdict_def FA_checkRegistrationValidity_def rl_size_def split: if_splits)

lemma FA_relayRequest_relays:
  assumes "mem_ok e" and "fa_verdict st r = FA_Relay"
  obtains out where
    "FA_relayRequest e r st = Inr (st\<lparr>fa_requests := fa_requests st @ [fa_pending e st r]\<rparr>, out)"
    "fa_relays_request e st r out"
proof -
  obtain m q where
    "buildRegistrationRequestPacket (e_mem e) (e_clk e) (rr_lifetime r) (rr_home r)
       (rr_homeAgent r) (fa_careOfAddress st) (rr_identification r) = Some m"
    "UDPIPfy (e_mem e) m (fa_careOfAddress st) (fa_sourcePort st) (rr_homeAgent r) 434 16 = Inr q"
    "arrives q (udp_datagram 16 (fa_careOfAddress st) (fa_sourcePort st) (rr_homeAgent r) 434
       (request_bytes (e_clk e) (rr_lifetime r) (rr_home r) (rr_homeAgent r)
          (fa_careOfAddress st) (rr_identification r)))"
    using assms(1) by (rule request_built)
  with that [of "[Push 1 q]"] FA_check_relay [OF assms(2)] show thesis
    by (simp add: FA_relayRequest_def fa_relays_request_def fa_pending_def rl_add_def Let_def)
qed

lemma FA_relayRequest_refines:
  assumes "mem_ok e"
  obtains out where
    "FA_relayRequest e r st =
       Inr (if fa_verdict st r = FA_Relay
            then st\<lparr>fa_requests := fa_requests st @ [fa_pending e st r]\<rparr> else st, out)"
    "case fa_verdict st r of FA_Ignore \<Rightarrow> out = [] | FA_Deny code lt \<Rightarrow> fa_denies e st r code lt out
       | FA_Relay \<Rightarrow> fa_relays_request e st r out"
proof (cases "fa_verdict st r")
  case FA_Ignore
  with that [of "[]"] FA_check_ignored [OF this] show thesis by (simp add: FA_relayRequest_def)
next
  case (FA_Deny code lt)
  obtain out where "FA_checkRegistrationValidity e r st = Inr (False, out)"
    "fa_denies e st r code lt out"
    using assms FA_Deny by (rule FA_check_denied)
  with that [of out] FA_Deny show thesis by (simp add: FA_relayRequest_def)
next
  case FA_Relay
  obtain out where
    "FA_relayRequest e r st = Inr (st\<lparr>fa_requests := fa_requests st @ [fa_pending e st r]\<rparr>, out)"
    "fa_relays_request e st r out"
    using assms FA_Relay by (rule FA_relayRequest_relays)
  with that [of out] FA_Relay show thesis by simp
qed

text \<open>
  What a reply does to the visitor table, as a map from (home address, home agent) to
  requested and remaining lifetime.
\<close>

definition fa_visitors_after ::
  "MobileIPForeignAgent \<Rightarrow> registrationReply \<Rightarrow> (visitor \<Rightarrow> (u32 \<times> u32) option)
     \<Rightarrow> visitor \<Rightarrow> (u32 \<times> u32) option" where
  "fa_visitors_after st reply V =
     (let k = (rp_home reply, rp_homeAgent reply);
          L = min (rp_lifetime reply) (fa_maxAcceptedLifetime st) in
      if rp_code reply \<in> {0, 1}
      then (if rp_lifetime reply = 0 \<and> V k \<noteq> None then V(k := None) else V(k \<mapsto> (L, L)))
      else (if rp_lifetime reply = 0 then V else V(k := None)))"

lemma FA_visitors_refine:
  assumes "vl_inv (fa_visitors st)"
  shows "vl_inv (FA_settleVisitor reply (FA_enterVisitor reply request st))"
    and "vl_lookup (FA_settleVisitor reply (FA_enterVisitor reply request st))
           = fa_visitors_after st reply (vl_lookup (fa_visitors st))"
proof -
  let ?h = "rp_home reply" and ?a = "rp_homeAgent reply"
  let ?V = "fa_visitors st"
  define L where "L = min (rp_lifetime reply) (fa_maxAcceptedLifetime st)"
  define it where "it = \<lparr>vi_MNhome = ?h, vi_UDPSourcePort = sourcePort (rr_UDP (rq_rr request)),
    vi_MNhomeAgent = ?a, vi_requestedLifetime = L, vi_remainingLifetime = L\<rparr>"
  have add: "vl_inv (vl_add it ?V)" "vl_lookup (vl_add it ?V) = (vl_lookup ?V)((?h, ?a) \<mapsto> (L, L))"
    if "\<not> vl_has ?h ?a ?V"
    using that vl.inv_add [OF assms, of it] vl.lookup_add [OF assms, of it]
    by (simp_all add: it_def vi_key_def)
  have enter: "FA_enterVisitor reply request st =
      (if rp_code reply = 0 \<or> rp_code reply = 1 then
         if vl_has ?h ?a ?V then if rp_lifetime reply = 0 then vl_remove ?h ?a ?V
           else vl_setVisitorRequestedLifetime ?h ?a L ?V
         else vl_add it ?V
       else ?V)"
    by (simp add: FA_enterVisitor_def L_def it_def Let_def)
  note simps = FA_settleVisitor_def enter vl.inv_reset vl.inv_remove vl.inv_set_requested assms
  show "vl_inv (FA_settleVisitor reply (FA_enterVisitor reply request st))"
    using add by (auto simp: simps)
  show "vl_lookup (FA_settleVisitor reply (FA_enterVisitor reply request st))
      = fa_visitors_after st reply (vl_lookup ?V)"
    using add L_def by (auto simp: simps fa_visitors_after_def Let_def vl.lookup_reset vl.lookup_remove
        vl.lookup_set_requested vl.has_iff fun_eq_iff)
qed

lemma FA_relayReply_refines:
  assumes "mem_ok e" and "vl_inv (fa_visitors st)"
    and "rl_remove (rp_identification reply) (fa_requests st) = Inr (request, requests)"
    and "rp_home reply = rr_home (rq_rr request)"
    and "destinationPort (rp_UDP reply) = fa_sourcePort st"
  obtains vs out where
    "FA_relayReply e reply st = Inr (st\<lparr>fa_requests := requests, fa_visitors := vs\<rparr>, out)"
    "vl_inv vs" "vl_lookup vs = fa_visitors_after st reply (vl_lookup (fa_visitors st))"
    "fa_relays_reply e st reply request out"
proof -
  let ?st = "st\<lparr>fa_requests := requests\<rparr>"
  let ?st' = "?st\<lparr>fa_visitors := FA_enterVisitor reply request ?st\<rparr>"
  let ?vs = "FA_settleVisitor reply (FA_enterVisitor reply request ?st)"
  obtain out where out:
    "FA_sendReplyRelayed e reply (rp_home reply) (sourcePort (rr_UDP (rq_rr request))) ?st' = Inr out"
    "fa_relays_reply e ?st' reply request out"
    using assms(1) by (rule FA_relayed_sent)
  from out(2) have "fa_relays_reply e st reply request out" by (simp add: fa_relays_reply_def)
  moreover have "FA_relayReply e reply st = Inr (st\<lparr>fa_requests := requests, fa_visitors := ?vs\<rparr>, out)"
    using assms(3-5) out(1) by (simp add: FA_relayReply_def FA_checkReplyValidity_def Let_def)
  moreover have "vl_inv ?vs" using assms(2) by (simp add: FA_visitors_refine(1))
  moreover have "vl_lookup ?vs = fa_visitors_after st reply (vl_lookup (fa_visitors st))"
    using FA_visitors_refine(2) [of ?st reply request] assms(2) by (simp add: fa_visitors_after_def)
  ultimately show thesis using that by blast
qed

lemma FA_relayReply_unknown:
  assumes "\<forall>r \<in> set (fa_requests st). rq_identification r \<noteq> rp_identification reply"
  shows "FA_relayReply e reply st = Inr (st, [])"
proof -
  have "rl_remove (rp_identification reply) (fa_requests st)
      = Inl (RequestNotFoundException ''identification'')"
    using assms by (simp add: rl_remove_Inl_iff)
  then show ?thesis by (simp add: FA_relayReply_def)
qed

section \<open>The handlers on packets\<close>

lemma FA_push_request:
  assumes "getPacketType p = Inr REGISTRATION"
    and "processRegistrationRequestPacket (e_undef e) p = Inr r"
    and "FA_relayRequest e r st = Inr (st', out)"
  shows "FA_push e 0 p st = Inr (st', out @ [Kill p])"
  using assms by (simp add: FA_push_def FA_push_public_def)

lemma FA_push_reply:
  assumes "getPacketType p = Inr REPLY"
    and "processRegistrationReplyPacket (e_undef e) p = Inr reply"
    and "FA_relayReply e reply st = Inr (st', out)"
  shows "FA_push e 1 p st = Inr (st', out @ [Kill p])"
  using assms by (simp add: FA_push_def FA_push_public_def)

section \<open>Timeouts\<close>

lemma FA_timeouts_sent:
  assumes "\<And>i. mem_ok (es i)"
  obtains out where "FA_sendRequestTimedOutReply es rs st = Inr (concat out)" "length out = length rs"
    "\<And>i. i < length rs \<Longrightarrow>
       fa_denies (es i) st (rq_rr (rs ! i)) 78 (rr_lifetime (rq_rr (rs ! i))) (out ! i)"
  using assms
proof (induction rs arbitrary: es thesis)
  case Nil
  from Nil(1) [of "[]"] show ?case by simp
next
  case (Cons r rs)
  obtain o1 where o1: "FA_sendReply (es 0) (rq_rr r) 78 (rr_lifetime (rq_rr r)) st = Inr o1"
    "fa_denies (es 0) st (rq_rr r) 78 (rr_lifetime (rq_rr r)) o1"
    using Cons.prems(2) by (rule FA_sendReply_sent)
  obtain os where os: "FA_sendRequestTimedOutReply (\<lambda>i. es (Suc i)) rs st = Inr (concat os)"
    "length os = length rs"
    "\<And>i. i < length rs \<Longrightarrow> fa_denies (es (Suc i)) st (rq_rr (rs ! i)) 78
        (rr_lifetime (rq_rr (rs ! i))) (os ! i)"
    using Cons.IH [of "\<lambda>i. es (Suc i)"] Cons.prems(2) by blast
  show ?case
  proof (rule Cons.prems(1) [of "o1 # os"])
    fix i assume "i < length (r # rs)"
    then show "fa_denies (es i) st (rq_rr ((r # rs) ! i)) 78
        (rr_lifetime (rq_rr ((r # rs) ! i))) ((o1 # os) ! i)"
      using o1(2) os(3) by (cases i) auto
  qed (use o1(1) os(1,2) in \<open>simp_all add: FA_sendReply2_def\<close>)
qed

section \<open>Events and invariant\<close>

datatype fa_event =
    FA_Packet env nat packet
  | FA_Tick "nat \<Rightarrow> env"
  | FA_Write string "u32 arg"

definition FA_step :: "fa_event \<Rightarrow> MobileIPForeignAgent \<Rightarrow> (MobileIPForeignAgent \<times> effect list) res" where
  "FA_step ev st =
     (case ev of
        FA_Packet e port p \<Rightarrow> FA_push e port p st
      | FA_Tick es \<Rightarrow> FA_run_timer es st
      | FA_Write name str \<Rightarrow>
          (case FA_write_handler name str st of None \<Rightarrow> Inr (st, []) | Some (_, st') \<Rightarrow> Inr (st', [])))"

text \<open>
  The pending requests stay within any bound \<open>B\<close> of the limits in force, and all of them name the
  configured care-of address \<open>co\<close>.
\<close>

definition fa_inv :: "nat \<Rightarrow> ipaddr \<Rightarrow> MobileIPForeignAgent \<Rightarrow> bool" where
  "fa_inv B co st \<longleftrightarrow> vl_inv (fa_visitors st) \<and> fa_careOfAddress st = co \<and>
     (\<forall>r \<in> set (fa_requests st). rr_careOf (rq_rr r) = co) \<and>
     length (fa_requests st) \<le> B \<and> unat (fa_maxPendingRegistrations st) \<le> B"

definition fa_write_within :: "nat \<Rightarrow> fa_event \<Rightarrow> bool" where
  "fa_write_within B ev \<longleftrightarrow> (\<forall>v. ev = FA_Write ''max_pending_registrations'' (Given v) \<longrightarrow> unat v \<le> B)"

lemma FA_relayRequest_inv:
  assumes "fa_inv B co st" and "FA_relayRequest e r st = Inr (st', out)"
  shows "fa_inv B co st'"
proof (cases "fa_verdict st r = FA_Relay")
  case True
  then have "length (fa_requests st) < unat (fa_maxPendingRegistrations st)" "rr_careOf r = fa_careOfAddress st"
    by (auto simp: fa_verdict_def split: if_splits)
  with assms True show ?thesis
    by (auto simp: FA_relayRequest_def FA_check_relay res_bind_eq_Inr_iff fa_inv_def rl_add_def Let_def)
next
  case False
  have "st' = st" if "FA_checkRegistrationValidity e r st = Inr (ok, o')" "ok = False" for ok o'
    using that assms(2) by (simp add: FA_relayRequest_def)
  moreover have "FA_checkRegistrationValidity e r st \<noteq> Inr (True, o')" for o'
    using False by (auto simp: fa_verdict_def FA_checkRegistrationValidity_def rl_size_def
        res_bind_eq_Inr_iff split: if_splits)
  ultimately have "st' = st"
    using assms(2) unfolding FA_relayRequest_def
    by (cases "FA_checkRegistrationValidity e r st") (auto split: if_splits)
  with assms(1) show ?thesis by simp
qed

lemma rl_remove_length: "rl_remove i rs = Inr (r, rs') \<Longrightarrow> length rs = Suc (length rs')"
  by (auto dest: rl_remove_InrD)

lemma FA_relayReply_inv:
  assumes "fa_inv B co st" and "FA_relayReply e reply st = Inr (st', out)"
  shows "fa_inv B co st'"
proof (cases "rl_remove (rp_identification reply) (fa_requests st)")
  case (Inl x)
  with assms show ?thesis by (auto simp: FA_relayReply_def split: exn.splits)
next
  case (Inr rr)
  obtain request requests where rr: "rr = (request, requests)" by (cases rr)
  let ?st = "st\<lparr>fa_requests := requests\<rparr>"
  have "set requests \<subseteq> set (fa_requests st)" using Inr rr by (auto dest: rl_remove_InrD)
  then have "fa_inv B co ?st" using assms(1) rl_remove_length [of _ "fa_requests st"] Inr rr
    by (fastforce simp: fa_inv_def)
  moreover from this have "vl_inv (FA_settleVisitor reply (FA_enterVisitor reply request ?st))"
    using FA_visitors_refine(1) [of ?st] by (simp add: fa_inv_def)
  ultimately show ?thesis
    using assms(2) Inr rr
    by (auto simp: FA_relayReply_def Let_def res_bind_eq_Inr_iff fa_inv_def split: if_splits)
qed

lemma FA_push_public_inv:
  assumes "fa_inv B co st" and "FA_push_public e port p st = Inr (st', out)"
  shows "fa_inv B co st'"
  using assms FA_relayReply_inv
  by (auto simp: FA_push_public_def res_bind_eq_Inr_iff split: if_splits sum.splits exn.splits)

lemma FA_push_inv:
  assumes "fa_inv B co st" and "FA_push e port p st = Inr (st', out)"
  shows "fa_inv B co st'"
  using assms
  by (auto simp: FA_push_def res_bind_eq_Inr_iff split: if_splits sum.splits exn.splits
        dest: FA_relayRequest_inv FA_push_public_inv)

text \<open>
  One second of the pending list in closed form: a request whose lifetime has run out is erased,
  one that has waited longer than the limit leaves as timed out, the others grow older.
\<close>

definition rq_expired :: "RequestListItem \<Rightarrow> bool" where
  "rq_expired r \<longleftrightarrow> rq_requestedLifetime r \<noteq> 0 \<and> rq_requestedLifetime r \<noteq> 65535 \<and> rq_remainingLifetime r = 0"

definition rq_late :: "u32 \<Rightarrow> RequestListItem \<Rightarrow> bool" where
  "rq_late seconds r \<longleftrightarrow> \<not> rq_expired r \<and> seconds < rq_waitingTime r + 1"

definition rq_older :: "RequestListItem \<Rightarrow> RequestListItem" where
  "rq_older r = r\<lparr>rq_remainingLifetime := (if rq_requestedLifetime r = 0 \<or> rq_requestedLifetime r = 65535
       then rq_remainingLifetime r else rq_remainingLifetime r - 1),
     rq_waitingTime := rq_waitingTime r + 1\<rparr>"

lemma rl_second:
  "rl_removeTimedOutRequests n (rl_decreaseLifetime rs) =
     (map rq_older (filter (rq_late n) rs), map rq_older (filter (\<lambda>r. \<not> rq_expired r \<and> \<not> rq_late n r) rs))"
  by (induction rs) (auto simp: rq_expired_def rq_late_def rq_older_def Let_def not_less not_le)

lemma FA_run_timer_sel:
  assumes "FA_run_timer es st = Inr (st', out)"
  shows "fa_requests st' =
      map rq_older (filter (\<lambda>r. \<not> rq_expired r \<and> \<not> rq_late (fa_requestTimeout st) r) (fa_requests st))"
    and "fa_visitors st' = vl_decreaseLifetime (fa_visitors st)"
    and "fa_maxPendingRegistrations st' = fa_maxPendingRegistrations st"
    and "fa_careOfAddress st' = fa_careOfAddress st"
  using assms by (auto simp: FA_run_timer_def rl_second res_bind_eq_Inr_iff Let_def)

lemma FA_run_timer_inv:
  assumes "fa_inv B co st" and "FA_run_timer es st = Inr (st', out)"
  shows "fa_inv B co st'"
  using assms(1) FA_run_timer_sel [OF assms(2)]
  by (auto simp: fa_inv_def vl.inv_tick rq_older_def intro: order_trans [OF length_filter_le])

lemma FA_write_inv:
  assumes "fa_inv B co st" and "fa_write_within B (FA_Write name str)"
    and "FA_write_handler name str st = Some (ret, st')"
  shows "fa_inv B co st'"
  using assms
  by (cases str) (auto simp: fa_inv_def fa_write_within_def FA_write_handler_def integer_data_write_def split: if_splits)

interpretation fa: guarded_invariant FA_step "fa_write_within B" "fa_inv B co" for B co
proof
  fix st st' ev out
  assume st: "fa_inv B co st" "FA_step ev st = Inr (st', out)" and ev: "fa_write_within B ev"
  show "fa_inv B co st'"
  proof (cases ev)
    case (FA_Write name str)
    then show ?thesis using st ev FA_write_inv [of B co st name str]
      by (auto simp: FA_step_def split: option.splits)
  qed (use st in \<open>auto simp: FA_step_def dest: FA_push_inv FA_run_timer_inv\<close>)
qed

lemma fa_denies_requests [simp]: "fa_denies e (st\<lparr>fa_requests := rs\<rparr>) = fa_denies e st"
  by (intro ext) (simp add: fa_denies_def)

section \<open>Properties\<close>

text \<open>A configured foreign agent, for the examples: 192.168.2.1 inside, 192.168.1.2 outside.\<close>

definition sample_FA :: MobileIPForeignAgent where
  "sample_FA = new_MobileIPForeignAgent\<lparr>fa_privateAddress := 0x0102A8C0,
     fa_publicAddress := 0x0201A8C0, fa_careOfAddress := 0x0201A8C0\<rparr>"

definition sample_reply :: registrationReply where
  "sample_reply =
     \<lparr>rp_code = 0, rp_lifetime = 90, rp_home = 0x0200A8C0, rp_homeAgent = 0x0101A8C0,
      rp_UDP = \<lparr>sourcePort = 434, destinationPort = 3581\<rparr>,
      rp_IP = \<lparr>ipsource = 0x0101A8C0, ipdestination = 0x0201A8C0\<rparr>, rp_identification = 77\<rparr>"

text \<open>
  C4: The foreign agent implements its specification on every decoded request: wrong port,
  ignored; otherwise the first applicable denial is sent back to the node, and a request with
  no fault is appended to the pending list and relayed to the home agent from the care-of
  address with all its fields.
\<close>

theorem FA_request_handled:
  assumes "mem_ok e"
  shows "\<exists>out. FA_relayRequest e r st =
      Inr (if fa_verdict st r = FA_Relay
           then st\<lparr>fa_requests := fa_requests st @ [fa_pending e st r]\<rparr> else st, out) \<and>
    (case fa_verdict st r of FA_Ignore \<Rightarrow> out = [] | FA_Deny code lt \<Rightarrow> fa_denies e st r code lt out
       | FA_Relay \<Rightarrow> fa_relays_request e st r out)"
  using assms by (rule FA_relayRequest_refines) blast

theorem FA_request_handled_witness:
  "fa_verdict sample_FA sample_registration = FA_Relay \<and>
   (\<exists>out. FA_relayRequest sample_env sample_registration sample_FA =
      Inr (sample_FA\<lparr>fa_requests := [fa_pending sample_env sample_FA sample_registration]\<rparr>, out) \<and>
      fa_relays_request sample_env sample_FA sample_registration out)"
proof -
  have "fa_verdict sample_FA sample_registration = FA_Relay" "fa_requests sample_FA = []"
    by (simp_all add: fa_verdict_def sample_FA_def new_MobileIPForeignAgent_def sample_registration_def)
  with FA_request_handled [of sample_env sample_registration sample_FA] show ?thesis by simp
qed

text \<open>
  C5: A reply from the home agent to a pending request, with the home address of that request
  and to the agent's port, is relayed to the node unchanged; the request is no longer pending,
  and the visitor list, seen as a map, changes by \<open>fa_visitors_after\<close>: entry or refresh with the
  granted lifetime (at most the agent's own maximum), removal on deregistration and on denial.
\<close>

theorem FA_reply_handled:
  assumes "mem_ok e" and "vl_inv (fa_visitors st)"
    and "rl_remove (rp_identification reply) (fa_requests st) = Inr (request, requests)"
    and "rp_home reply = rr_home (rq_rr request)"
    and "destinationPort (rp_UDP reply) = fa_sourcePort st"
  shows "\<exists>vs out. FA_relayReply e reply st = Inr (st\<lparr>fa_requests := requests, fa_visitors := vs\<rparr>, out) \<and>
    vl_inv vs \<and> vl_lookup vs = fa_visitors_after st reply (vl_lookup (fa_visitors st)) \<and>
    fa_relays_reply e st reply request out"
  using assms by (rule FA_relayReply_refines) blast

theorem FA_reply_handled_witness:
  "\<exists>vs out. FA_relayReply sample_env sample_reply (sample_FA\<lparr>fa_requests := [sample_request]\<rparr>) =
      Inr (sample_FA\<lparr>fa_requests := [], fa_visitors := vs\<rparr>, out) \<and>
    vl_lookup vs (0x0200A8C0, 0x0101A8C0) = Some (90, 90)"
  using FA_reply_handled [of sample_env "sample_FA\<lparr>fa_requests := [sample_request]\<rparr>" sample_reply sample_request "[]"]
  by (auto simp: sample_FA_def new_MobileIPForeignAgent_def sample_request_def sample_reply_def
        sample_registration_def vl_inv_def fa_visitors_after_def min_def)

text \<open>
  C7: Whatever packets, ticks and handler writes a configured and initialised foreign agent sees, it never
  has more pending requests than a bound on its limits (the initial 5 and every value
  written to \<open>max_pending_registrations\<close>), only requests for its configured public address as
  care-of address are pending, and there are never two visitor entries for one node and home agent.
\<close>

theorem FA_pending_bounded:
  assumes "FA_configure priv (Given pub) ha new_MobileIPForeignAgent = (0, st0)"
    and "run FA_step evs (snd (FA_initialize st0)) = Inr (st, out)"
    and "\<forall>v. FA_Write ''max_pending_registrations'' (Given v) \<in> set evs \<longrightarrow> unat v \<le> B" and "5 \<le> B"
  shows "length (fa_requests st) \<le> B \<and> (\<forall>r \<in> set (fa_requests st). rr_careOf (rq_rr r) = pub) \<and>
    distinct (map (\<lambda>v. (vi_MNhome v, vi_MNhomeAgent v)) (fa_visitors st))"
proof -
  have "fa_inv B pub (snd (FA_initialize st0))" using assms(1,4)
    by (auto simp: FA_configure_def FA_initialize_def new_MobileIPForeignAgent_def fa_inv_def vl_inv_def
        Args_read_m_def split: arg.splits)
  moreover have "\<forall>ev \<in> set evs. fa_write_within B ev" using assms(3) by (auto simp: fa_write_within_def)
  ultimately have "fa_inv B pub st" using assms(2) fa.guarded_run by blast
  then show ?thesis by (simp add: fa_inv_def vl_inv_def vi_key_def [abs_def])
qed

text \<open>A node registers through the agent, the home agent grants it 90 seconds, and the node asks again.\<close>

definition sample_request_packet :: packet where
  "sample_request_packet = deliver (udp_datagram 1 0x0200A8C0 5241 0x0102A8C0 434
     (request_bytes (e_clk sample_env) 100 0x0200A8C0 0x0101A8C0 0x0201A8C0 77))"

definition sample_reply_packet :: packet where
  "sample_reply_packet = deliver (udp_datagram 1 0x0101A8C0 434 0x0201A8C0 3581
     (reply_bytes (e_clk sample_env) 90 0 0x0200A8C0 0x0101A8C0 77))"

lemma sample_request_packet_facts:
  "getPacketType sample_request_packet = Inr REGISTRATION"
  "processRegistrationRequestPacket (e_undef sample_env) sample_request_packet = Inr sample_registration"
  by code_simp+

lemma sample_reply_packet_facts:
  "getPacketType sample_reply_packet = Inr REPLY"
  "processRegistrationReplyPacket (e_undef sample_env) sample_reply_packet = Inr sample_reply"
  by code_simp+

lemma sample_FA_pushes_request:
  assumes "fa_verdict st sample_registration = FA_Relay"
  shows "\<exists>out. FA_step (FA_Packet sample_env 0 sample_request_packet) st =
    Inr (st\<lparr>fa_requests := fa_requests st @ [fa_pending sample_env st sample_registration]\<rparr>, out)"
proof -
  obtain out where "FA_relayRequest sample_env sample_registration st =
      Inr (st\<lparr>fa_requests := fa_requests st @ [fa_pending sample_env st sample_registration]\<rparr>, out)"
    using mem_ok_sample assms by (rule FA_relayRequest_relays)
  with FA_push_request [OF sample_request_packet_facts] show ?thesis by (simp add: FA_step_def)
qed

lemma sample_FA_pushes_reply:
  assumes "fa_requests st = [r]" and "rq_identification r = 77" and "rr_home (rq_rr r) = 0x0200A8C0"
    and "fa_sourcePort st = 3581" and "fa_maxAcceptedLifetime st = 1800" and "fa_visitors st = []"
  shows "\<exists>vs out. FA_step (FA_Packet sample_env 1 sample_reply_packet) st =
      Inr (st\<lparr>fa_requests := [], fa_visitors := vs\<rparr>, out) \<and>
    vl_lookup vs (0x0200A8C0, 0x0101A8C0) = Some (90, 90)"
proof -
  have "vl_inv (fa_visitors st)" "rl_remove (rp_identification sample_reply) (fa_requests st) = Inr (r, [])"
    "rp_home sample_reply = rr_home (rq_rr r)" "destinationPort (rp_UDP sample_reply) = fa_sourcePort st"
    using assms by (simp_all add: vl_inv_def sample_reply_def)
  from FA_relayReply_refines [OF mem_ok_sample this] obtain vs out where
    "FA_relayReply sample_env sample_reply st = Inr (st\<lparr>fa_requests := [], fa_visitors := vs\<rparr>, out)"
    "vl_lookup vs = fa_visitors_after st sample_reply (vl_lookup (fa_visitors st))" by metis
  moreover from this(2) have "vl_lookup vs (0x0200A8C0, 0x0101A8C0) = Some (90, 90)"
    using assms(5,6) by (simp add: fa_visitors_after_def sample_reply_def min_def)
  ultimately show ?thesis using FA_push_reply [OF sample_reply_packet_facts] by (fastforce simp: FA_step_def)
qed

theorem FA_pending_bounded_witness:
  "\<exists>st0 st out. FA_configure (Given 0x0102A8C0) (Given 0x0201A8C0) (Given 0x0101A8C0) new_MobileIPForeignAgent = (0, st0) \<and>
     run FA_step [FA_Packet sample_env 0 sample_request_packet, FA_Packet sample_env 1 sample_reply_packet,
         FA_Write ''max_pending_registrations'' (Given 3), FA_Packet sample_env 0 sample_request_packet]
       (snd (FA_initialize st0)) = Inr (st, out) \<and>
     length (fa_requests st) = 1 \<and> length (fa_requests st) \<le> 5 \<and>
     vl_lookup (fa_visitors st) (0x0200A8C0, 0x0101A8C0) = Some (90, 90) \<and>
     distinct (map (\<lambda>v. (vi_MNhome v, vi_MNhomeAgent v)) (fa_visitors st))"
proof -
  let ?evs = "[FA_Packet sample_env 0 sample_request_packet, FA_Packet sample_env 1 sample_reply_packet,
         FA_Write ''max_pending_registrations'' (Given 3), FA_Packet sample_env 0 sample_request_packet]"
  obtain st0 where c: "FA_configure (Given 0x0102A8C0) (Given 0x0201A8C0) (Given 0x0101A8C0) new_MobileIPForeignAgent = (0, st0)"
    by (simp add: FA_configure_def Args_read_m_def)
  define s where "s = snd (FA_initialize st0)"
  have s: "fa_requests s = []" "fa_visitors s = []" "fa_careOfAddress s = 0x0201A8C0" "fa_sourcePort s = 3581"
    "fa_maxAcceptedLifetime s = 1800" "fa_maxPendingRegistrations s = 5"
    using c by (auto simp: s_def FA_configure_def FA_initialize_def new_MobileIPForeignAgent_def Args_read_m_def)
  let ?p = "fa_pending sample_env s sample_registration"
  have v: "fa_verdict st sample_registration = FA_Relay"
    if "fa_requests st = []" "fa_careOfAddress st = 0x0201A8C0" "fa_maxPendingRegistrations st \<in> {3, 5}"
      "fa_maxAcceptedLifetime st = 1800" for st
    using that by (auto simp: fa_verdict_def sample_registration_def)
  obtain o1 where 1: "FA_step (FA_Packet sample_env 0 sample_request_packet) s = Inr (s\<lparr>fa_requests := [?p]\<rparr>, o1)"
    using sample_FA_pushes_request [OF v, of s] s by auto
  obtain vs o2 where 2: "FA_step (FA_Packet sample_env 1 sample_reply_packet) (s\<lparr>fa_requests := [?p]\<rparr>) =
      Inr (s\<lparr>fa_requests := [], fa_visitors := vs\<rparr>, o2)" "vl_lookup vs (0x0200A8C0, 0x0101A8C0) = Some (90, 90)"
    using sample_FA_pushes_reply [of "s\<lparr>fa_requests := [?p]\<rparr>" ?p] s
    by (auto simp: fa_pending_def sample_registration_def)
  let ?s3 = "s\<lparr>fa_requests := [], fa_visitors := vs, fa_maxPendingRegistrations := 3\<rparr>"
  have 3: "FA_step (FA_Write ''max_pending_registrations'' (Given 3)) (s\<lparr>fa_requests := [], fa_visitors := vs\<rparr>) = Inr (?s3, [])"
    by (simp add: FA_step_def FA_write_handler_def integer_data_write_def)
  obtain q o4 where 4: "FA_step (FA_Packet sample_env 0 sample_request_packet) ?s3 = Inr (?s3\<lparr>fa_requests := [q]\<rparr>, o4)"
    using sample_FA_pushes_request [OF v, of ?s3] s by auto
  from 1 2(1) 3 4 have r: "run FA_step ?evs (snd (FA_initialize st0)) = Inr (?s3\<lparr>fa_requests := [q]\<rparr>, o1 @ o2 @ o4)"
    by (simp add: s_def [symmetric])
  from FA_pending_bounded [OF c r, of 5] c r 2(2) show ?thesis
    by (intro exI [of _ st0] exI [of _ "?s3\<lparr>fa_requests := [q]\<rparr>"] exI [of _ "o1 @ o2 @ o4"]) simp
qed

text \<open>
  C12: In a tick of the foreign agent, a pending request whose lifetime has run out is erased without an
  answer; of the others, those that have now waited longer than \<open>requestTimeout\<close> are answered to their senders with code 78,
  in the order in which the requests came, and leave the list; the rest stays pending, in order, with the
  second counted. Visitors age by a second, and the timer is set again.
\<close>

theorem FA_timeouts_answered:
  assumes "\<And>i. mem_ok (es i)"
  shows "\<exists>st' out. FA_run_timer es st = Inr (st', concat out) \<and>
    fa_requests st' = map rq_older
      (filter (\<lambda>r. \<not> rq_expired r \<and> \<not> rq_late (fa_requestTimeout st) r) (fa_requests st)) \<and>
    fa_visitors st' = vl_decreaseLifetime (fa_visitors st) \<and> fa_requestsTimer st' = After_msec 1000 \<and>
    (let late = filter (rq_late (fa_requestTimeout st)) (fa_requests st) in
      length out = length late \<and>
      (\<forall>i < length late. fa_denies (es i) st (rq_rr (late ! i)) 78 (rr_lifetime (rq_rr (late ! i))) (out ! i)))"
proof -
  let ?late = "filter (rq_late (fa_requestTimeout st)) (fa_requests st)"
  let ?st = "st\<lparr>fa_requests := map rq_older
      (filter (\<lambda>r. \<not> rq_expired r \<and> \<not> rq_late (fa_requestTimeout st) r) (fa_requests st))\<rparr>"
  obtain out where "FA_sendRequestTimedOutReply es (map rq_older ?late) ?st = Inr (concat out)"
    "length out = length (map rq_older ?late)"
    "\<And>i. i < length (map rq_older ?late) \<Longrightarrow> fa_denies (es i) ?st (rq_rr (map rq_older ?late ! i)) 78
       (rr_lifetime (rq_rr (map rq_older ?late ! i))) (out ! i)"
    by (rule FA_timeouts_sent [of es "map rq_older ?late" ?st, OF assms]) blast
  then show ?thesis
    by (intro exI [of _ "?st\<lparr>fa_visitors := vl_decreaseLifetime (fa_visitors st),
       fa_requestsTimer := After_msec 1000\<rparr>"] exI [of _ out]) (simp add: FA_run_timer_def rl_second rq_older_def)
qed

text \<open>Of three requests one has expired, one has waited its seven seconds, and one goes on waiting.\<close>

theorem FA_timeouts_answered_witness:
  "\<exists>st' out. FA_run_timer (\<lambda>i. sample_env)
       (sample_FA\<lparr>fa_requests := [sample_request\<lparr>rq_waitingTime := 7\<rparr>, sample_request\<lparr>rq_remainingLifetime := 0\<rparr>,
          sample_request]\<rparr>) = Inr (st', concat out) \<and>
     fa_requests st' = [sample_request\<lparr>rq_remainingLifetime := 99, rq_waitingTime := 1\<rparr>] \<and> length out = 1"
  using FA_timeouts_answered [of "\<lambda>i. sample_env" "sample_FA\<lparr>fa_requests :=
      [sample_request\<lparr>rq_waitingTime := 7\<rparr>, sample_request\<lparr>rq_remainingLifetime := 0\<rparr>, sample_request]\<rparr>"]
  by (auto simp: sample_FA_def new_MobileIPForeignAgent_def sample_request_def rq_late_def rq_expired_def rq_older_def)

text \<open>
  C40: An accepted deregistration (code 0, lifetime 0) of a node that is not in the visitor list
  puts it there, with a lifetime of 0 whose counter wraps at the next tick: the node that has
  just left is served for another 2^32 - 1 seconds.
\<close>

theorem FA_deregistration_adds_visitor:
  assumes "mem_ok e" and "vl_inv (fa_visitors st)"
    and "rl_remove (rp_identification reply) (fa_requests st) = Inr (request, requests)"
    and "rp_home reply = rr_home (rq_rr request)"
    and "destinationPort (rp_UDP reply) = fa_sourcePort st"
    and "rp_code reply = 0" and "rp_lifetime reply = 0"
    and "\<not> vl_has (rp_home reply) (rp_homeAgent reply) (fa_visitors st)"
  shows "\<exists>st' out. FA_relayReply e reply st = Inr (st', out) \<and>
    vl_lookup (vl_decreaseLifetime (fa_visitors st')) (rp_home reply, rp_homeAgent reply)
      = Some (0, 0xffffffff)"
proof -
  obtain vs out where "FA_relayReply e reply st = Inr (st\<lparr>fa_requests := requests, fa_visitors := vs\<rparr>, out)"
    "vl_inv vs" "vl_lookup vs = fa_visitors_after st reply (vl_lookup (fa_visitors st))"
    using FA_relayReply_refines [OF assms(1-5)] by metis
  with assms(6-8) show ?thesis
    by (simp add: vl.lookup_tick fa_visitors_after_def vl_has_iff age_visitor_def age_zero_wraps)
qed

theorem FA_deregistration_adds_visitor_witness:
  "\<exists>st' out. FA_relayReply sample_env (sample_reply\<lparr>rp_lifetime := 0\<rparr>)
       (sample_FA\<lparr>fa_requests := [sample_request]\<rparr>) = Inr (st', out) \<and>
     vl_lookup (vl_decreaseLifetime (fa_visitors st')) (0x0200A8C0, 0x0101A8C0) = Some (0, 0xffffffff)"
  using FA_deregistration_adds_visitor [of sample_env "sample_FA\<lparr>fa_requests := [sample_request]\<rparr>"
      "sample_reply\<lparr>rp_lifetime := 0\<rparr>" sample_request "[]"]
  by (simp add: sample_FA_def new_MobileIPForeignAgent_def sample_request_def sample_reply_def
        sample_registration_def vl_inv_def)

end
