(* ===== verification/Tunnel.thy ===== *)
theory Tunnel
  imports Home_Agent Foreign_Agent
begin

text \<open>
  \<^verbatim>\<open>elements/MobileIPEncapsulator.{hh,cc}\<close> and \<^verbatim>\<open>elements/MobileIPDecapsulator.{hh,cc}\<close>: the two
  ends of the IP-in-IP tunnel. Each holds a pointer to its agent; here the agent's state is
  an argument, read only. An exception of \<open>processIPHeader\<close> is not caught by the
  encapsulator and leaves its \<open>push\<close>.
\<close>

definition ENC_configure :: "'ha arg \<Rightarrow> int \<times> 'ha option" where
  "ENC_configure HA = (case Args_read_m HA of Some ha \<Rightarrow> (0, Some ha) | None \<Rightarrow> (-1, None))"

definition ENC_push :: "env \<Rightarrow> packet \<Rightarrow> MobileIPHomeAgent \<Rightarrow> effect list res" where
  "ENC_push e p HA =
     res_bind (processIPHeader p) (\<lambda>ip.
     if mb_isMobileBinded (ipdestination ip) (ha_mobilityBindings HA) then
       (let destination = mb_getCareOfAddress (ipdestination ip) (ha_mobilityBindings HA) in
        res_bind (buildTunnelIPPacket (e_mem e) p (ha_publicAddress HA) destination) (\<lambda>packet.
        res_bind (deref packet) (\<lambda>packet.
        Inr [Push 1 packet, Kill p])))
     else Inr [Push 0 p])"

definition DEC_configure :: "'fa arg \<Rightarrow> int \<times> 'fa option" where
  "DEC_configure FA = (case Args_read_m FA of Some fa \<Rightarrow> (0, Some fa) | None \<Rightarrow> (-1, None))"

definition DEC_push :: "packet \<Rightarrow> MobileIPForeignAgent \<Rightarrow> effect list res" where
  "DEC_push p FA =
     res_bind (getPacketType p) (\<lambda>type.
     if type = IPINIP then
       res_bind (processTunnelIPPacket p True) (\<lambda>(ipinip, p).
       if vl_has (ipdestination (tun_originalIP ipinip)) (tun_source ipinip) (fa_visitors FA)
       then Inr [Push 1 p] else Inr [])
     else Inr [Push 0 p])"

section \<open>Entering the tunnel\<close>

text \<open>
  The tunnel packet is the original datagram, byte for byte, behind a new header with the
  original TOS and a TTL one less.
\<close>

lemma buildTunnelIPPacket_bytes:
  assumes "mem_ok e" and p: "arrives p bs" and "20 \<le> length bs"
  obtains q where "buildTunnelIPPacket (e_mem e) p source destination = Inr (Some q)"
    "arrives q (ip_datagram IP_PROTO_IPIP (bs ! 1) source destination (bs ! 8 - 1) bs)"
    "p_dst_ip_anno q = destination"
proof -
  have len: "p_len p = length bs" and nh: "p_nh p = Some (p_data p)"
    using arrives_len [OF p] p by (simp_all add: arrives_def)
  obtain m where m: "Packet_make (e_mem e) 18 None (length bs + 20) 0 = Some m"
    using assms(1) by (rule mem_okE)
  note mk = Packet_make_SomeD [OF m] and wf = wf_pkt_make [OF m]
  have w1: "wr m (p_data m + 20) bs = Inr (store (p_data m + 20) bs m)"
    and wf1: "wf_pkt (store (p_data m + 20) bs m)"
    using wr_window [OF wf, of 20 bs] mk by simp_all
  have b1: "pkt_bytes (store (p_data m + 20) bs m) = take 20 (pkt_bytes m) @ bs"
    using pkt_bytes_store [OF wf, of 20 bs] mk length_pkt_bytes [OF wf] by (simp add: patch_def)
  have g: "20 \<le> length (take 20 (pkt_bytes m))"
    using length_pkt_bytes [OF wf] mk by simp
  let ?h = "enc_ip (with_sum (base_ip (20 + length bs) IP_PROTO_IPIP (bs ! 1) source destination (bs ! 8 - 1)))"
  obtain q where q: "wr (store (p_data m + 20) bs m) (p_data (store (p_data m + 20) bs m)) ?h = Inr q"
    "set_ip_header (p_data (store (p_data m + 20) bs m)) 20 q
       = Inr (q\<lparr>p_nh := Some (p_data (store (p_data m + 20) bs m)),
                p_h := Some (p_data (store (p_data m + 20) bs m) + 20)\<rparr>)"
    "wf_pkt q" "pkt_bytes q = ?h @ drop 20 (take 20 (pkt_bytes m)) @ bs"
    "p_data q = p_data (store (p_data m + 20) bs m)" "p_len q = p_len (store (p_data m + 20) bs m)"
    by (rule put_ip_header [OF wf1 b1 g length_enc_ip])
  have rd: "rd p (p_data p) (length bs) = Inr bs" "rd8 p (p_data p + 1) = Inr (bs ! 1)"
    "rd8 p (p_data p + 8) = Inr (bs ! 8)"
    using arrives_rd0 [OF p, of "length bs"] arrives_rd8 [OF p, of 1] arrives_rd8 [OF p, of 8] assms(3)
    by simp_all
  show thesis
    by (rule that [of "set_dst_ip_anno destination
          (q\<lparr>p_nh := Some (p_data m), p_h := Some (p_data m + 20)\<rparr>)"])
       (use q w1 m mk rd in \<open>simp_all add: buildTunnelIPPacket_def len nh wire_simps add.commute
          set_dst_ip_anno_def arrives_def ip_datagram_def sizeof_ip_def sizeof_ether_def\<close>)
qed

lemma ENC_push_bound:
  assumes "mem_ok e" and "arrives p bs" and "20 \<le> length bs"
    and "processIPHeader p = Inr ip"
    and "mb_isMobileBinded (ipdestination ip) (ha_mobilityBindings HA)"
  obtains q where "ENC_push e p HA = Inr [Push 1 q, Kill p]"
    "arrives q (ip_datagram IP_PROTO_IPIP (bs ! 1) (ha_publicAddress HA)
       (mb_getCareOfAddress (ipdestination ip) (ha_mobilityBindings HA)) (bs ! 8 - 1) bs)"
    "p_dst_ip_anno q = mb_getCareOfAddress (ipdestination ip) (ha_mobilityBindings HA)"
proof -
  obtain q where "buildTunnelIPPacket (e_mem e) p (ha_publicAddress HA)
      (mb_getCareOfAddress (ipdestination ip) (ha_mobilityBindings HA)) = Inr (Some q)"
    "arrives q (ip_datagram IP_PROTO_IPIP (bs ! 1) (ha_publicAddress HA)
       (mb_getCareOfAddress (ipdestination ip) (ha_mobilityBindings HA)) (bs ! 8 - 1) bs)"
    "p_dst_ip_anno q = mb_getCareOfAddress (ipdestination ip) (ha_mobilityBindings HA)"
    using assms(1-3) by (rule buildTunnelIPPacket_bytes)
  with assms(4,5) that show thesis by (simp add: ENC_push_def Let_def)
qed

lemma ENC_push_unbound:
  assumes "processIPHeader p = Inr ip"
    and "\<not> mb_isMobileBinded (ipdestination ip) (ha_mobilityBindings HA)"
  shows "ENC_push e p HA = Inr [Push 0 p]"
  using assms by (simp add: ENC_push_def)

section \<open>Leaving the tunnel\<close>

text \<open>The datagram inside, with the outer TTL and a fresh checksum.\<close>

definition with_ttl :: "byte \<Rightarrow> byte list \<Rightarrow> byte list" where
  "with_ttl ttl bs = enc_ip (with_sum ((dec_ip (take 20 bs))\<lparr>ip_ttl := ttl\<rparr>)) @ drop 20 bs"

definition inner_header :: "byte list \<Rightarrow> click_ip" where
  "inner_header bs = dec_ip (take 20 bs)"

lemma processTunnelIPPacket_strip:
  assumes p: "arrives p (ip_datagram proto tos s d ttl bs)" and "20 \<le> length bs"
  obtains q where
    "processTunnelIPPacket p True =
       Inr (\<lparr>tun_source = s, tun_destination = d, tun_ttl = ucast ttl,
             tun_originalIP = \<lparr>ipsource = ip_src (inner_header bs),
                               ipdestination = ip_dst (inner_header bs)\<rparr>\<rparr>, q)"
    "arrives q (with_ttl ttl bs)" "p_dst_ip_anno q = ip_dst (inner_header bs)"
proof -
  have wf: "wf_pkt p" and b: "pkt_bytes p = ip_datagram proto tos s d ttl bs"
    using p by (simp_all add: arrives_def)
  have len: "p_len p = 20 + length bs" using arrives_len [OF p] by (simp add: sizeof_ip_def)
  let ?q = "pkt_pull 20 p"
  have q: "wf_pkt ?q" "p_data ?q = p_data p + 20"
    using wf_pkt_pull [OF wf, of 20] len by (simp_all add: pkt_pull_def)
  have bq: "pkt_bytes ?q = take 20 bs @ drop 20 bs"
    using b by (simp add: pkt_bytes_pull ip_datagram_def length_enc_ip)
  have rd1: "rd p (p_data p) 20 = Inr (enc_ip (with_sum (base_ip (20 + length bs) proto tos s d ttl)))"
    using arrives_rd0 [OF p, of 20] ip_datagram_header [of proto tos s d ttl bs]
    by (simp add: sizeof_ip_def)
  have rd2: "rd p (p_data p + 20) 20 = Inr (take 20 bs)"
    using arrives_rd [OF p, of 20 20] chunk_ip_payload [of 0 20] assms(2)
    by (simp add: sizeof_ip_def chunk_def)
  have rd3: "rd ?q (p_data ?q) 20 = Inr (take 20 bs)"
    using rd2 q(2) by (simp add: rd_def pkt_pull_def Let_def split: if_splits)
  have g: "20 \<le> length (take 20 bs)" using assms(2) by simp
  let ?h = "enc_ip (with_sum ((dec_ip (take 20 bs))\<lparr>ip_ttl := ttl\<rparr>))"
  obtain r where r: "wr ?q (p_data ?q) ?h = Inr r"
    "set_ip_header (p_data ?q) 20 r = Inr (r\<lparr>p_nh := Some (p_data ?q), p_h := Some (p_data ?q + 20)\<rparr>)"
    "wf_pkt r" "pkt_bytes r = ?h @ drop 20 (take 20 bs) @ drop 20 bs" "p_data r = p_data ?q"
    "p_len r = p_len ?q"
    by (rule put_ip_header [OF q(1) bq g length_enc_ip])
  show thesis
    by (rule that [of "set_dst_ip_anno (ip_dst (inner_header bs))
          (r\<lparr>p_nh := Some (p_data ?q), p_h := Some (p_data ?q + 20)\<rparr>)"])
       (use r rd1 rd2 rd3 in \<open>simp_all add: processTunnelIPPacket_def Let_def sizeof_ip_def
          ip.dec_enc [simplified] with_sum_def base_ip_def inner_header_def arrives_def with_ttl_def
          set_dst_ip_anno_def\<close>)
qed

lemma DEC_push_tunnelled:
  assumes "arrives p (ip_datagram IP_PROTO_IPIP tos s d ttl bs)" and "20 \<le> length bs"
    and "\<not> looks_like_ether s"
  obtains q where
    "DEC_push p FA = Inr (if vl_has (ip_dst (inner_header bs)) s (fa_visitors FA) then [Push 1 q] else [])"
    "arrives q (with_ttl ttl bs)" "p_dst_ip_anno q = ip_dst (inner_header bs)"
proof -
  obtain q where q: "processTunnelIPPacket p True =
       Inr (\<lparr>tun_source = s, tun_destination = d, tun_ttl = ucast ttl,
             tun_originalIP = \<lparr>ipsource = ip_src (inner_header bs),
                               ipdestination = ip_dst (inner_header bs)\<rparr>\<rparr>, q)"
    "arrives q (with_ttl ttl bs)" "p_dst_ip_anno q = ip_dst (inner_header bs)"
    using assms(1,2) by (rule processTunnelIPPacket_strip)
  have "getPacketType p = Inr IPINIP"
    using getPacketType_datagram [OF assms(1,3)]
    by (simp add: IP_PROTO_IPIP_def IP_PROTO_ICMP_def)
  with q that [of q] show thesis by (simp add: DEC_push_def)
qed

section \<open>Properties\<close>

text \<open>The inner datagram of the examples, and the two ends of its tunnel.\<close>

definition sample_inner :: "byte list" where
  "sample_inner = ip_datagram IP_PROTO_UDP 0 0x0203A8C0 0x0200A8C0 64 [1, 2, 3]"

definition sample_HA_bound :: MobileIPHomeAgent where
  "sample_HA_bound = sample_HA\<lparr>ha_mobilityBindings := mb_add 0x0200A8C0 0x0201A8C0 60 []\<rparr>"

definition sample_FA_visited :: MobileIPForeignAgent where
  "sample_FA_visited = sample_FA\<lparr>fa_visitors := [\<lparr>vi_MNhome = 0x0200A8C0, vi_UDPSourcePort = 5241,
     vi_MNhomeAgent = 0x0101A8C0, vi_requestedLifetime = 60, vi_remainingLifetime = 60\<rparr>]\<rparr>"

lemma sample_inner_facts:
  "20 \<le> length sample_inner" "processIPHeader (deliver sample_inner) = Inr \<lparr>ipsource = 0x0203A8C0, ipdestination = 0x0200A8C0\<rparr>"
  "ip_dst (inner_header sample_inner) = 0x0200A8C0" "\<not> looks_like_ether 0x0101A8C0"
  by code_simp+

text \<open>
  The home agent's encapsulator sends a datagram for a bound node, unchanged and complete,
  as the payload of one IP-in-IP packet from its public address to a care-of address bound to
  the node, and frees the original; a datagram for anybody else is passed on untouched.
\<close>

theorem ENC_tunnels_bound:
  assumes "mem_ok e" and "arrives p bs" and "20 \<le> length bs" and "processIPHeader p = Inr ip"
    and "mb_inv (ha_mobilityBindings HA)"
  shows "(\<exists>q careOf. mb_lookup (ha_mobilityBindings HA) (ipdestination ip, careOf) \<noteq> None \<and>
      ENC_push e p HA = Inr [Push 1 q, Kill p] \<and> p_dst_ip_anno q = careOf \<and>
      arrives q (ip_datagram IP_PROTO_IPIP (bs ! 1) (ha_publicAddress HA) careOf (bs ! 8 - 1) bs))
    \<or> ((\<forall>careOf. mb_lookup (ha_mobilityBindings HA) (ipdestination ip, careOf) = None) \<and>
       ENC_push e p HA = Inr [Push 0 p])"
proof (cases "mb_isMobileBinded (ipdestination ip) (ha_mobilityBindings HA)")
  case True
  obtain q where "ENC_push e p HA = Inr [Push 1 q, Kill p]"
    "arrives q (ip_datagram IP_PROTO_IPIP (bs ! 1) (ha_publicAddress HA)
       (mb_getCareOfAddress (ipdestination ip) (ha_mobilityBindings HA)) (bs ! 8 - 1) bs)"
    "p_dst_ip_anno q = mb_getCareOfAddress (ipdestination ip) (ha_mobilityBindings HA)"
    using assms(1-4) True by (rule ENC_push_bound)
  with mb.careOf_lookup [OF assms(5) True] show ?thesis by blast
next
  case False
  with mb.bound_iff [OF assms(5)] ENC_push_unbound [OF assms(4) False] show ?thesis by simp
qed

theorem ENC_tunnels_bound_witness:
  "\<exists>q. ENC_push sample_env (deliver sample_inner) sample_HA_bound = Inr [Push 1 q, Kill (deliver sample_inner)] \<and>
     arrives q (ip_datagram IP_PROTO_IPIP 0 0x0101A8C0 0x0201A8C0 63 sample_inner)"
proof -
  have tab: "mb_inv (ha_mobilityBindings sample_HA_bound)"
    "mb_lookup (ha_mobilityBindings sample_HA_bound) (0x0200A8C0, c) \<noteq> None \<longleftrightarrow> c = 0x0201A8C0" for c
    by (auto simp: sample_HA_bound_def mb_inv_def mb_lookup_def mb_key_def)
  have facts: "sample_inner ! 1 = 0" "sample_inner ! 8 - 1 = 63" "ha_publicAddress sample_HA_bound = 0x0101A8C0"
    by code_simp+
  from ENC_tunnels_bound [OF mem_ok_sample arrives_deliver sample_inner_facts(1,2) tab(1)] tab(2) facts
  show ?thesis by (elim disjE exE conjE) (auto dest: spec [of _ "0x0201A8C0"])
qed

text \<open>
  C10: What went into the tunnel comes out of it: when the encapsulated datagram reaches the
  foreign agent with any remaining TTL, the decapsulator strips the outer header and delivers
  the original datagram, with that TTL and a recomputed header checksum and otherwise byte
  for byte, if and only if the inner destination is a visitor registered with the home agent
  the tunnel comes from; otherwise it is dropped.
\<close>

theorem tunnel_roundtrip:
  assumes "arrives p (ip_datagram IP_PROTO_IPIP tos (ha_publicAddress HA) careOf ttl bs)"
    and "20 \<le> length bs" and "\<not> looks_like_ether (ha_publicAddress HA)"
  shows "\<exists>q. DEC_push p FA =
      Inr (if vl_has (ip_dst (inner_header bs)) (ha_publicAddress HA) (fa_visitors FA) then [Push 1 q] else []) \<and>
    arrives q (with_ttl ttl bs) \<and> drop 20 (with_ttl ttl bs) = drop 20 bs \<and>
    inner_header (with_ttl ttl bs) = with_sum ((inner_header bs)\<lparr>ip_ttl := ttl\<rparr>)"
proof -
  have "inner_header (with_ttl ttl bs) = with_sum ((inner_header bs)\<lparr>ip_ttl := ttl\<rparr>)"
    by (simp add: inner_header_def with_ttl_def length_enc_ip ip.dec_enc [simplified])
  moreover have "drop 20 (with_ttl ttl bs) = drop 20 bs"
    by (simp add: with_ttl_def length_enc_ip)
  ultimately show ?thesis
    using DEC_push_tunnelled [OF assms, of FA] by metis
qed

theorem tunnel_roundtrip_witness:
  "\<exists>q. DEC_push (deliver (ip_datagram IP_PROTO_IPIP 0 0x0101A8C0 0x0201A8C0 60 sample_inner)) sample_FA_visited
       = Inr [Push 1 q] \<and> arrives q (with_ttl 60 sample_inner)"
proof -
  have "ha_publicAddress sample_HA_bound = 0x0101A8C0"
    "vl_has (ip_dst (inner_header sample_inner)) 0x0101A8C0 (fa_visitors sample_FA_visited)"
    by code_simp+
  with tunnel_roundtrip [of _ 0 sample_HA_bound "0x0201A8C0" 60 sample_inner, OF arrives_deliver
      sample_inner_facts(1), of sample_FA_visited] sample_inner_facts(4)
  show ?thesis by auto
qed

end
