(* ===== verification/Mobile_Node.thy ===== *)
theory Mobile_Node
  imports Element_Model Request_List "HOL-Library.Sublist"
begin

text \<open>
  \<^verbatim>\<open>elements/MobileIPNode.{hh,cc}\<close>: the registration state machine of the mobile node. It
  sends registration requests, resends those that time out, renews a registration at half
  its lifetime and evaluates replies. The \<open>bool\<close> functions \<open>reregister\<close>, \<open>registerFA\<close>, \<open>registerLL\<close>
  and \<open>deregister\<close> have no \<open>return\<close>; their callers ignore the value and so does the model.
  The statement \<open>connection.connected == true\<close> has no effect, here as in the source.
\<close>

record MobileIPNode =
  mn_homeAddress :: ipaddr
  mn_homeAgentPublicAddress :: ipaddr
  mn_homeAgentPrivateAddress :: ipaddr
  mn_sourcePort :: u32
  mn_requestTimeout :: u32
  mn_connection :: agentConnection
  mn_requests :: RequestList
  mn_requestsTimer :: timer

definition new_MobileIPNode :: MobileIPNode where
  "new_MobileIPNode =
     \<lparr>mn_homeAddress = 0, mn_homeAgentPublicAddress = 0, mn_homeAgentPrivateAddress = 0,
      mn_sourcePort = 5241, mn_requestTimeout = 10, mn_connection = init_agentConnection,
      mn_requests = [], mn_requestsTimer = Unscheduled\<rparr>"

text \<open>\<open>complete()\<close> also rejects arguments nobody reads; \<open>unread\<close> says whether there are any.\<close>

definition MN_configure ::
  "ipaddr arg \<Rightarrow> ipaddr arg \<Rightarrow> ipaddr arg \<Rightarrow> bool \<Rightarrow> MobileIPNode \<Rightarrow> int \<times> MobileIPNode" where
  "MN_configure HOME_ADDRESS HA_PRIVATE_ADDRESS HA_PUBLIC_ADDRESS unread st =
     (case (Args_read_m HOME_ADDRESS, Args_read_m HA_PRIVATE_ADDRESS, Args_read_m HA_PUBLIC_ADDRESS) of
        (Some home, Some priv, Some pub) \<Rightarrow>
          if unread then (-1, st)
          else (0, st\<lparr>mn_homeAddress := home, mn_homeAgentPrivateAddress := priv,
                      mn_homeAgentPublicAddress := pub\<rparr>)
      | _ \<Rightarrow> (-1, st))"

definition MN_initialize :: "MobileIPNode \<Rightarrow> int \<times> MobileIPNode" where
  "MN_initialize st = (0, st\<lparr>mn_requestsTimer := After_msec 0\<rparr>)"

definition MN_write_handler :: "string \<Rightarrow> u32 arg \<Rightarrow> MobileIPNode \<Rightarrow> (int \<times> MobileIPNode) option" where
  "MN_write_handler name str st =
     (if name = ''request_timeout''
      then Some (let (ret, v) = integer_data_write str (mn_requestTimeout st)
                 in (ret, st\<lparr>mn_requestTimeout := v\<rparr>))
      else None)"

definition MN_read_handler :: "string \<Rightarrow> MobileIPNode \<Rightarrow> string option" where
  "MN_read_handler name st =
     (if name = ''request_timeout'' then Some (integer_data_read (mn_requestTimeout st)) else None)"

text \<open>
  \<open>sendRequest\<close> reads the clock for the identification before the packet is built. The new
  list item leaves \<open>rr\<close> and \<open>remainingLifetime\<close> uninitialised.
\<close>

definition MN_sendRequest ::
  "env \<Rightarrow> ipaddr \<Rightarrow> ipaddr \<Rightarrow> u32 \<Rightarrow> u32 \<Rightarrow> MobileIPNode \<Rightarrow> (MobileIPNode \<times> effect list) res" where
  "MN_sendRequest e destination careOfAddress lifetime ttl st =
     (let identification = e_steady e in
      res_bind (deref (buildRegistrationRequestPacket (e_mem e) (e_clk e) lifetime
                  (mn_homeAddress st) (mn_homeAgentPublicAddress st) careOfAddress
                  identification)) (\<lambda>packet.
      res_bind (UDPIPfy (e_mem e) packet (mn_homeAddress st) (mn_sourcePort st) destination 434
                  (ucast ttl)) (\<lambda>packet.
      let r = \<lparr>rq_destination = destination, rq_careOfAddress = careOfAddress,
               rq_identification = identification, rq_rr = e_undef_rr e, rq_ttl = ttl,
               rq_requestedLifetime = lifetime, rq_remainingLifetime = e_undef_int e,
               rq_waitingTime = 0\<rparr> in
      Inr (st\<lparr>mn_requests := rl_add r (mn_requests st)\<rparr>, [Push 0 packet]))))"

definition MN_registerLL :: "env \<Rightarrow> MobileIPNode \<Rightarrow> (MobileIPNode \<times> effect list) res" where
  "MN_registerLL e st =
     MN_sendRequest e IP_BROADCAST (ac_careOfAddress (mn_connection st)) 1800 1 st"

definition MN_registerFA ::
  "env \<Rightarrow> ipaddr \<Rightarrow> ipaddr \<Rightarrow> u32 \<Rightarrow> MobileIPNode \<Rightarrow> (MobileIPNode \<times> effect list) res" where
  "MN_registerFA e FAAddress careOfAddress lifetime st =
     MN_sendRequest e FAAddress careOfAddress lifetime 1 st"

definition MN_deregister_all :: "env \<Rightarrow> MobileIPNode \<Rightarrow> (MobileIPNode \<times> effect list) res" where
  "MN_deregister_all e st =
     MN_sendRequest e (mn_homeAgentPrivateAddress st) (mn_homeAddress st) 0 1 st"

definition MN_deregister :: "env \<Rightarrow> ipaddr \<Rightarrow> MobileIPNode \<Rightarrow> (MobileIPNode \<times> effect list) res" where
  "MN_deregister e address st =
     MN_sendRequest e (mn_homeAgentPrivateAddress st) address 0 1 st"

definition MN_reregister ::
  "env \<Rightarrow> ipaddr \<Rightarrow> ipaddr \<Rightarrow> u32 \<Rightarrow> MobileIPNode \<Rightarrow> (MobileIPNode \<times> effect list) res" where
  "MN_reregister e address careOfAddress lifetime st =
     res_bind (if mn_homeAgentPrivateAddress st = address
               then MN_deregister e (ac_careOfAddress (mn_connection st)) st
               else MN_registerFA e address careOfAddress lifetime st) (\<lambda>(st, out).
     Inr (st\<lparr>mn_connection := (mn_connection st)
              \<lparr>ac_connected := False, ac_agentAddress := address,
               ac_careOfAddress := careOfAddress, ac_lifetime := lifetime,
               ac_remainingLifetime := lifetime\<rparr>\<rparr>, out))"

definition MN_checkReplyValidity :: "registrationReply \<Rightarrow> MobileIPNode \<Rightarrow> bool res" where
  "MN_checkReplyValidity reply st =
     res_bind (rl_getLastRequest (mn_requests st)) (\<lambda>lastRequest.
     if rp_identification reply \<noteq> rq_identification lastRequest then Inr False
     else if destinationPort (rp_UDP reply) \<noteq> mn_sourcePort st then Inr False
     else Inr True)"

text \<open>\<open>abs\<close> on the \<open>unsigned int\<close> difference is the C function on \<open>int\<close>.\<close>

definition c_abs :: "u32 \<Rightarrow> u32" where
  "c_abs x = (if sint x < 0 then - x else x)"

text \<open>
  \<open>processReply\<close>. The codes 64, 66, 70, 72, 77, 78, 128 and 134 are only logged, as are all
  codes the function does not mention.
\<close>

definition MN_processReply ::
  "env \<Rightarrow> registrationReply \<Rightarrow> MobileIPNode \<Rightarrow> (MobileIPNode \<times> effect list) res" where
  "MN_processReply e reply st =
     (case rl_remove (rp_identification reply) (mn_requests st) of
        Inl (RequestNotFoundException _) \<Rightarrow> Inr (st, [])
      | Inl x \<Rightarrow> Inl x
      | Inr (request, requests) \<Rightarrow>
          (let st = st\<lparr>mn_requests := requests\<rparr>;
               st = (if rp_code reply = 0 \<or> rp_code reply = 1 then
                       (let decreaseLifetime = c_abs (rp_lifetime reply - rq_requestedLifetime request)
                        in st\<lparr>mn_connection := (mn_connection st)
                               \<lparr>ac_remainingLifetime := rq_requestedLifetime request - decreaseLifetime,
                                ac_isHome := (if ipsource (rp_IP reply) = mn_homeAgentPrivateAddress st
                                              then True else False)\<rparr>\<rparr>)
                     else st) in
           if rp_code reply \<in> {64, 66} then Inr (st, [])
           else if rp_code reply = 69 then
             (let st = st\<lparr>mn_connection := (mn_connection st)\<lparr>ac_lifetime := rp_lifetime reply\<rparr>\<rparr> in
              MN_registerFA e (ipsource (rp_IP reply)) (rq_careOfAddress request)
                (rp_lifetime reply) st)
           else if rp_code reply \<in> {70, 72, 77, 78, 128, 134} then Inr (st, [])
           else if rp_code reply = 136 then
             (let st = st\<lparr>mn_homeAgentPublicAddress := rp_homeAgent reply\<rparr> in
              if ac_isHome (mn_connection st) = True
              then MN_registerFA e (ipsource (rp_IP reply)) (rq_careOfAddress request)
                     (rp_lifetime reply) st
              else Inr (st, []))
           else Inr (st, [])))"

text \<open>
  \<open>push\<close> catches the invalid checksum only: a \<open>ZeroChecksumException\<close> leaves the handler.
\<close>

definition MN_push :: "env \<Rightarrow> packet \<Rightarrow> MobileIPNode \<Rightarrow> (MobileIPNode \<times> effect list) res" where
  "MN_push e p st =
     res_bind (getPacketType p) (\<lambda>type.
     if type \<noteq> REPLY then Inr (st, []) else
     (case processRegistrationReplyPacket (e_undef e) p of
        Inl (InvalidChecksumException _) \<Rightarrow> Inr (st, [])
      | Inl x \<Rightarrow> Inl x
      | Inr reply \<Rightarrow>
          res_bind (MN_checkReplyValidity reply st) (\<lambda>valid.
          if valid = True then MN_processReply e reply st else Inr (st, []))))"

fun MN_resend ::
  "(nat \<Rightarrow> env) \<Rightarrow> RequestListItem list \<Rightarrow> MobileIPNode \<Rightarrow> (MobileIPNode \<times> effect list) res" where
  "MN_resend es [] st = Inr (st, [])"
| "MN_resend es (request # requests) st =
     res_bind (MN_sendRequest (es 0) (rq_destination request) (rq_careOfAddress request)
                 (rq_requestedLifetime request) (rq_ttl request) st) (\<lambda>(st, out).
     res_bind (MN_resend (\<lambda>i. es (Suc i)) requests st) (\<lambda>(st, outs).
     Inr (st, out @ outs)))"

text \<open>The comparison with half the lifetime is on doubles, which hold these values exactly.\<close>

definition MN_renew :: "env \<Rightarrow> MobileIPNode \<Rightarrow> (MobileIPNode \<times> effect list) res" where
  "MN_renew e st =
     (let c = mn_connection st in
      if ac_lifetime c \<noteq> 65535 \<and> ac_remainingLifetime c > 0 then
        (let c = c\<lparr>ac_remainingLifetime := ac_remainingLifetime c - 1\<rparr>;
             st = st\<lparr>mn_connection := c\<rparr> in
         if 2 * unat (ac_remainingLifetime c) \<le> unat (ac_lifetime c) \<and> ac_isHome c = False \<and>
            rl_has (ac_agentAddress c) (ac_careOfAddress c) (mn_requests st) = False
         then MN_registerFA e (ac_agentAddress c) (ac_careOfAddress c) (ac_lifetime c) st
         else Inr (st, []))
      else Inr (st, []))"

definition MN_run_timer ::
  "(nat \<Rightarrow> env) \<Rightarrow> MobileIPNode \<Rightarrow> (MobileIPNode \<times> effect list) res" where
  "MN_run_timer es st =
     (let requests = rl_decreaseLifetime (mn_requests st);
          (timedOutRequests, requests) = rl_removeTimedOutRequests (mn_requestTimeout st) requests;
          st = st\<lparr>mn_requests := requests\<rparr> in
      res_bind (MN_resend es timedOutRequests st) (\<lambda>(st, out).
      res_bind (MN_renew (es (length timedOutRequests)) st) (\<lambda>(st, outs).
      Inr (st\<lparr>mn_requestsTimer := After_msec 1000\<rparr>, out @ outs))))"

section \<open>What the node sends\<close>

definition mn_request :: "env \<Rightarrow> ipaddr \<Rightarrow> ipaddr \<Rightarrow> u32 \<Rightarrow> u32 \<Rightarrow> RequestListItem" where
  "mn_request e destination careOf lt ttl =
     \<lparr>rq_destination = destination, rq_careOfAddress = careOf, rq_identification = e_steady e,
      rq_rr = e_undef_rr e, rq_ttl = ttl, rq_requestedLifetime = lt,
      rq_remainingLifetime = e_undef_int e, rq_waitingTime = 0\<rparr>"

definition mn_sends ::
  "env \<Rightarrow> MobileIPNode \<Rightarrow> ipaddr \<Rightarrow> ipaddr \<Rightarrow> u32 \<Rightarrow> u32 \<Rightarrow> effect list \<Rightarrow> bool" where
  "mn_sends e st destination careOf lt ttl out \<longleftrightarrow>
     (\<exists>q. out = [Push 0 q] \<and> p_dst_ip_anno q = destination \<and>
        arrives q (udp_datagram (ucast ttl) (mn_homeAddress st) (mn_sourcePort st) destination 434
          (request_bytes (e_clk e) lt (mn_homeAddress st) (mn_homeAgentPublicAddress st) careOf
             (e_steady e))))"

lemma mn_sends_requests [simp]:
  "mn_sends e (st\<lparr>mn_requests := rs\<rparr>) = mn_sends e st"
  "mn_sends e (st\<lparr>mn_connection := c\<rparr>) = mn_sends e st"
  by (intro ext; simp add: mn_sends_def)+

lemma MN_sendRequest_sent:
  assumes "mem_ok e"
  obtains out where
    "MN_sendRequest e destination careOf lt ttl st =
       Inr (st\<lparr>mn_requests := mn_requests st @ [mn_request e destination careOf lt ttl]\<rparr>, out)"
    "mn_sends e st destination careOf lt ttl out"
proof -
  obtain m q where
    "buildRegistrationRequestPacket (e_mem e) (e_clk e) lt (mn_homeAddress st)
       (mn_homeAgentPublicAddress st) careOf (e_steady e) = Some m"
    "UDPIPfy (e_mem e) m (mn_homeAddress st) (mn_sourcePort st) destination 434 (ucast ttl) = Inr q"
    "arrives q (udp_datagram (ucast ttl) (mn_homeAddress st) (mn_sourcePort st) destination 434
       (request_bytes (e_clk e) lt (mn_homeAddress st) (mn_homeAgentPublicAddress st) careOf
          (e_steady e)))"
    "p_dst_ip_anno q = destination"
    using assms by (rule request_built)
  with that [of "[Push 0 q]"] show thesis
    by (simp add: MN_sendRequest_def mn_sends_def mn_request_def rl_add_def Let_def)
qed

lemma MN_resend_sent:
  assumes "\<And>i. mem_ok (es i)"
  obtains outs where
    "MN_resend es rs st = Inr (st\<lparr>mn_requests := mn_requests st @
       map (\<lambda>i. mn_request (es i) (rq_destination (rs ! i)) (rq_careOfAddress (rs ! i))
                  (rq_requestedLifetime (rs ! i)) (rq_ttl (rs ! i))) [0..<length rs]\<rparr>, concat outs)"
    "length outs = length rs"
    "\<And>i. i < length rs \<Longrightarrow>
       mn_sends (es i) st (rq_destination (rs ! i)) (rq_careOfAddress (rs ! i))
         (rq_requestedLifetime (rs ! i)) (rq_ttl (rs ! i)) (outs ! i)"
  using assms
proof (induction rs arbitrary: es st thesis)
  case Nil
  from Nil(1) [of "[]"] show ?case by simp
next
  case (Cons r rs)
  let ?r = "mn_request (es 0) (rq_destination r) (rq_careOfAddress r) (rq_requestedLifetime r) (rq_ttl r)"
  let ?st = "st\<lparr>mn_requests := mn_requests st @ [?r]\<rparr>"
  obtain o1 where o1: "MN_sendRequest (es 0) (rq_destination r) (rq_careOfAddress r)
      (rq_requestedLifetime r) (rq_ttl r) st = Inr (?st, o1)"
    "mn_sends (es 0) st (rq_destination r) (rq_careOfAddress r) (rq_requestedLifetime r) (rq_ttl r) o1"
    using Cons.prems(2) by (rule MN_sendRequest_sent)
  obtain os where os:
    "MN_resend (\<lambda>i. es (Suc i)) rs ?st = Inr (?st\<lparr>mn_requests := mn_requests ?st @
       map (\<lambda>i. mn_request (es (Suc i)) (rq_destination (rs ! i)) (rq_careOfAddress (rs ! i))
                  (rq_requestedLifetime (rs ! i)) (rq_ttl (rs ! i))) [0..<length rs]\<rparr>, concat os)"
    "length os = length rs"
    "\<And>i. i < length rs \<Longrightarrow>
       mn_sends (es (Suc i)) ?st (rq_destination (rs ! i)) (rq_careOfAddress (rs ! i))
         (rq_requestedLifetime (rs ! i)) (rq_ttl (rs ! i)) (os ! i)"
    using Cons.IH [of "\<lambda>i. es (Suc i)" ?st] Cons.prems(2) by blast
  show ?case
  proof (rule Cons.prems(1) [of "o1 # os"])
    fix i assume "i < length (r # rs)"
    then show "mn_sends (es i) st (rq_destination ((r # rs) ! i)) (rq_careOfAddress ((r # rs) ! i))
        (rq_requestedLifetime ((r # rs) ! i)) (rq_ttl ((r # rs) ! i)) ((o1 # os) ! i)"
      using o1(2) os(3) by (cases i) auto
  qed (use o1(1) os(1,2) in \<open>simp_all add: map_upt_Suc del: upt_Suc\<close>)
qed

section \<open>Evaluating replies\<close>

lemma uint_small: "unat (x :: u32) < n \<Longrightarrow> uint x < int n"
  using of_nat_less_iff [of "unat x" n, where 'a = int] by simp

lemma sint_small: "unat (x :: u32) < 2147483648 \<Longrightarrow> sint x = int (unat x)"
proof -
  assume "unat x < 2147483648"
  then have "uint x < 2147483648" using uint_small [of x 2147483648] by simp
  then have "signed_take_bit 31 (uint x) = uint x"
    by (intro signed_take_bit_int_eq_self) (simp_all add: order_trans [of _ 0])
  then show ?thesis by (simp add: sint_uint)
qed

text \<open>Lifetimes below 2^31 (on the wire they are 16-bit): the absolute difference is exact.\<close>

lemma c_abs_diff:
  assumes "unat (a :: u32) < 2147483648" and "unat b < 2147483648"
  shows "c_abs (a - b) = (if b \<le> a then a - b else b - a)"
proof (cases "b \<le> a")
  case True
  then have "unat (a - b) < 2147483648" using assms by (simp add: unat_sub)
  then have "\<not> sint (a - b) < 0" by (simp add: sint_small)
  with True show ?thesis by (simp add: c_abs_def)
next
  case False
  then have le: "a \<le> b" and lt: "unat a < unat b" by (auto simp: word_le_nat_alt)
  then have d: "unat (b - a) < 2147483648" "0 < unat (b - a)"
    using assms by (simp_all add: unat_sub)
  have "- u < 2147483648" if "0 \<le> u" for u :: int using that by simp
  from this [of "uint (b - a)"] have s: "signed_take_bit 31 (- uint (b - a)) = - uint (b - a)"
    using uint_small [OF d(1)] by (intro signed_take_bit_int_eq_self) simp_all
  have "sint (a - b) = sint (- (b - a))" by simp
  also have "\<dots> = - int (unat (b - a))"
    using d by (simp only: sint_word_ariths(4)) (simp add: sint_small s)
  finally have "sint (a - b) < 0" using d(2) by linarith
  then show ?thesis using False by (simp add: c_abs_def)
qed

lemma granted_lifetime:
  assumes "unat (a :: u32) < 2147483648" and "unat b < 2147483648"
  shows "b - c_abs (a - b) = (if a \<le> b then a else b - (a - b))"
  using c_abs_diff [OF assms] by (cases "a = b") auto

lemma zero_neq_code:
  "(0 :: u32) \<noteq> 64" "(0 :: u32) \<noteq> 66" "(0 :: u32) \<noteq> 69" "(0 :: u32) \<noteq> 70" "(0 :: u32) \<noteq> 72"
  "(0 :: u32) \<noteq> 77" "(0 :: u32) \<noteq> 78" "(0 :: u32) \<noteq> 128" "(0 :: u32) \<noteq> 134" "(0 :: u32) \<noteq> 136"
  by (simp_all flip: unat_eq_zero)

lemma MN_processReply_accepted:
  assumes "rl_remove (rp_identification reply) (mn_requests st) = Inr (request, requests)"
    and "rp_code reply \<in> {0, 1}"
  shows "MN_processReply e reply st =
    Inr (st\<lparr>mn_requests := requests, mn_connection := (mn_connection st)
           \<lparr>ac_remainingLifetime := rq_requestedLifetime request -
              c_abs (rp_lifetime reply - rq_requestedLifetime request),
            ac_isHome := (ipsource (rp_IP reply) = mn_homeAgentPrivateAddress st)\<rparr>\<rparr>, [])"
proof -
  have "rp_code reply \<notin> {64, 66, 69, 70, 72, 77, 78, 128, 134, 136}"
    using assms(2) by (elim insertE emptyE) (simp_all add: zero_neq_code)
  with assms show ?thesis by (auto simp: MN_processReply_def Let_def)
qed

lemma MN_processReply_logged:
  assumes "rl_remove (rp_identification reply) (mn_requests st) = Inr (request, requests)"
    and "rp_code reply \<notin> {0, 1, 69, 136}"
  shows "MN_processReply e reply st = Inr (st\<lparr>mn_requests := requests\<rparr>, [])"
  using assms by (auto simp: MN_processReply_def Let_def)

lemma MN_processReply_retry:
  assumes "mem_ok e"
    and "rl_remove (rp_identification reply) (mn_requests st) = Inr (request, requests)"
    and "rp_code reply = 69"
  obtains out where
    "MN_processReply e reply st =
       Inr (st\<lparr>mn_requests := requests @ [mn_request e (ipsource (rp_IP reply))
                  (rq_careOfAddress request) (rp_lifetime reply) 1],
              mn_connection := (mn_connection st)\<lparr>ac_lifetime := rp_lifetime reply\<rparr>\<rparr>, out)"
    "mn_sends e st (ipsource (rp_IP reply)) (rq_careOfAddress request) (rp_lifetime reply) 1 out"
proof -
  let ?st = "st\<lparr>mn_requests := requests,
    mn_connection := (mn_connection st)\<lparr>ac_lifetime := rp_lifetime reply\<rparr>\<rparr>"
  let ?r = "mn_request e (ipsource (rp_IP reply)) (rq_careOfAddress request) (rp_lifetime reply) 1"
  obtain out where "MN_sendRequest e (ipsource (rp_IP reply)) (rq_careOfAddress request)
      (rp_lifetime reply) 1 ?st = Inr (?st\<lparr>mn_requests := mn_requests ?st @ [?r]\<rparr>, out)"
    "mn_sends e ?st (ipsource (rp_IP reply)) (rq_careOfAddress request) (rp_lifetime reply) 1 out"
    using assms(1) by (rule MN_sendRequest_sent)
  with assms(2,3) that [of out] show thesis
    by (simp add: MN_processReply_def MN_registerFA_def Let_def)
qed

section \<open>Events and invariant\<close>

text \<open>No pending request has waited longer than the timeout allows.\<close>

datatype mn_event =
    MN_Packet env packet
  | MN_Tick "nat \<Rightarrow> env"
  | MN_Move env ipaddr ipaddr u32

definition MN_step :: "mn_event \<Rightarrow> MobileIPNode \<Rightarrow> (MobileIPNode \<times> effect list) res" where
  "MN_step ev st =
     (case ev of
        MN_Packet e p \<Rightarrow> MN_push e p st
      | MN_Tick es \<Rightarrow> MN_run_timer es st
      | MN_Move e address careOf lt \<Rightarrow> MN_reregister e address careOf lt st)"

definition mn_inv :: "MobileIPNode \<Rightarrow> bool" where
  "mn_inv st \<longleftrightarrow> (\<forall>r \<in> set (mn_requests st). rq_waitingTime r \<le> mn_requestTimeout st)"

lemma MN_sendRequest_inv:
  assumes "MN_sendRequest e d c l t st = Inr (st', out)" and "mn_inv st"
  shows "mn_inv st'"
  using assms by (auto simp: MN_sendRequest_def res_bind_eq_Inr_iff mn_inv_def rl_add_def Let_def)

lemma mn_inv_connection [simp]: "mn_inv (st\<lparr>mn_connection := c\<rparr>) = mn_inv st"
  by (simp add: mn_inv_def)

lemma mn_inv_other [simp]:
  "mn_inv (st\<lparr>mn_requestsTimer := t\<rparr>) = mn_inv st"
  "mn_inv (st\<lparr>mn_homeAgentPublicAddress := a\<rparr>) = mn_inv st"
  by (simp_all add: mn_inv_def)

lemma rl_remove_subset: "rl_remove i rs = Inr (r, rs') \<Longrightarrow> set rs' \<subseteq> set rs"
  by (auto dest: rl_remove_InrD)

lemma MN_processReply_inv:
  assumes "MN_processReply e reply st = Inr (st', out)" and "mn_inv st"
  shows "mn_inv st'"
proof (cases "rl_remove (rp_identification reply) (mn_requests st)")
  case (Inl x)
  with assms show ?thesis by (auto simp: MN_processReply_def split: exn.splits)
next
  case (Inr rr)
  obtain request requests where rr: "rr = (request, requests)" by (cases rr)
  have "mn_inv (st\<lparr>mn_requests := requests\<rparr>)"
    using assms(2) Inr rr rl_remove_subset by (fastforce simp: mn_inv_def)
  then show ?thesis
    using assms(1) Inr rr
    by (auto simp: MN_processReply_def MN_registerFA_def Let_def split: if_splits
          dest: MN_sendRequest_inv)
qed

lemma MN_resend_inv:
  "MN_resend es rs st = Inr (st', out) \<Longrightarrow> mn_inv st \<Longrightarrow> mn_inv st'"
  by (induction rs arbitrary: es st out) (auto simp: res_bind_eq_Inr_iff dest: MN_sendRequest_inv)

lemma MN_renew_inv: "MN_renew e st = Inr (st', out) \<Longrightarrow> mn_inv st \<Longrightarrow> mn_inv st'"
  by (auto simp: MN_renew_def MN_registerFA_def Let_def split: if_splits dest: MN_sendRequest_inv)

lemma rl_waiting:
  "r \<in> set (snd (rl_removeTimedOutRequests n rs)) \<Longrightarrow> rq_waitingTime r \<le> n"
  by (induction rs) (auto simp: Let_def split: prod.splits if_splits)

lemma MN_run_timer_inv:
  assumes "MN_run_timer es st = Inr (st', out)"
  shows "mn_inv st'"
proof -
  obtain to rs where t: "rl_removeTimedOutRequests (mn_requestTimeout st)
      (rl_decreaseLifetime (mn_requests st)) = (to, rs)" by fastforce
  then have "mn_inv (st\<lparr>mn_requests := rs\<rparr>)"
    using rl_waiting [of _ "mn_requestTimeout st" "rl_decreaseLifetime (mn_requests st)"]
    by (simp add: mn_inv_def)
  with assms t show ?thesis
    by (auto simp: MN_run_timer_def res_bind_eq_Inr_iff Let_def dest: MN_resend_inv MN_renew_inv)
qed

lemma MN_push_inv:
  assumes "MN_push e p st = Inr (st', out)" and "mn_inv st"
  shows "mn_inv st'"
  using assms
  by (auto simp: MN_push_def res_bind_eq_Inr_iff split: if_splits sum.splits exn.splits
        dest: MN_processReply_inv)

lemma MN_reregister_inv:
  assumes "MN_reregister e a c l st = Inr (st', out)" and "mn_inv st"
  shows "mn_inv st'"
  using assms
  by (auto simp: MN_reregister_def MN_registerFA_def MN_deregister_def res_bind_eq_Inr_iff
        split: if_splits dest: MN_sendRequest_inv)

interpretation mn: element_invariant MN_step mn_inv
proof
  fix st st' ev out
  assume "mn_inv st" and "MN_step ev st = Inr (st', out)"
  then show "mn_inv st'"
    by (cases ev) (auto simp: MN_step_def dest: MN_push_inv MN_run_timer_inv MN_reregister_inv)
qed

section \<open>Renewal\<close>

definition mn_renews :: "MobileIPNode \<Rightarrow> bool" where
  "mn_renews st \<longleftrightarrow>
     (let c = mn_connection st in
      ac_lifetime c \<noteq> 65535 \<and> 0 < ac_remainingLifetime c \<and>
      2 * (unat (ac_remainingLifetime c) - 1) \<le> unat (ac_lifetime c) \<and> \<not> ac_isHome c \<and>
      \<not> rl_has (ac_agentAddress c) (ac_careOfAddress c) (mn_requests st))"

definition mn_aged :: "MobileIPNode \<Rightarrow> MobileIPNode" where
  "mn_aged st =
     (let c = mn_connection st in
      if ac_lifetime c \<noteq> 65535 \<and> 0 < ac_remainingLifetime c
      then st\<lparr>mn_connection := c\<lparr>ac_remainingLifetime := ac_remainingLifetime c - 1\<rparr>\<rparr> else st)"

lemma MN_renew_quiet: "\<not> mn_renews st \<Longrightarrow> MN_renew e st = Inr (mn_aged st, [])"
  by (auto simp: MN_renew_def mn_renews_def mn_aged_def Let_def unat_minus_1 word_gt_0)

lemma MN_renew_sends:
  assumes "mem_ok e" and "mn_renews st"
  obtains out where
    "MN_renew e st = Inr ((mn_aged st)\<lparr>mn_requests := mn_requests st @
       [mn_request e (ac_agentAddress (mn_connection st)) (ac_careOfAddress (mn_connection st))
          (ac_lifetime (mn_connection st)) 1]\<rparr>, out)"
    "mn_sends e st (ac_agentAddress (mn_connection st)) (ac_careOfAddress (mn_connection st))
       (ac_lifetime (mn_connection st)) 1 out"
proof -
  let ?c = "mn_connection st"
  let ?st = "st\<lparr>mn_connection := ?c\<lparr>ac_remainingLifetime := ac_remainingLifetime ?c - 1\<rparr>\<rparr>"
  obtain out where "MN_sendRequest e (ac_agentAddress ?c) (ac_careOfAddress ?c) (ac_lifetime ?c) 1 ?st
      = Inr (?st\<lparr>mn_requests := mn_requests ?st @ [mn_request e (ac_agentAddress ?c)
          (ac_careOfAddress ?c) (ac_lifetime ?c) 1]\<rparr>, out)"
    "mn_sends e ?st (ac_agentAddress ?c) (ac_careOfAddress ?c) (ac_lifetime ?c) 1 out"
    using assms(1) by (rule MN_sendRequest_sent)
  with that [of out] assms(2) show thesis
    by (auto simp: MN_renew_def MN_registerFA_def mn_renews_def mn_aged_def Let_def unat_minus_1
          word_gt_0)
qed

lemma MN_renew_grows:
  assumes "mem_ok e"
  obtains st' out where "MN_renew e st = Inr (st', out)" "prefix (mn_requests st) (mn_requests st')"
proof (cases "mn_renews st")
  case True
  have a: "mn_requests (mn_aged st) = mn_requests st" by (simp add: mn_aged_def Let_def)
  from MN_renew_sends [OF assms True] obtain st' out where
    "MN_renew e st = Inr (st', out)" "prefix (mn_requests st) (mn_requests st')"
    by (metis MobileIPNode.select_convs(7) MobileIPNode.surjective MobileIPNode.update_convs(7) prefixI)
  then show thesis by (rule that)
next
  case False
  have "mn_requests (mn_aged st) = mn_requests st" by (simp add: mn_aged_def Let_def)
  with that [OF MN_renew_quiet [OF False, of e]] show thesis by simp
qed

section \<open>Properties\<close>

text \<open>
  A configured node, for the examples: 192.168.0.2, its home agent 192.168.0.1 on the link and
  192.168.1.1 outside; and a reply relayed to it by the foreign agent 192.168.2.1.
\<close>

definition sample_MN :: MobileIPNode where
  "sample_MN = new_MobileIPNode\<lparr>mn_homeAddress := 0x0200A8C0,
     mn_homeAgentPrivateAddress := 0x0100A8C0, mn_homeAgentPublicAddress := 0x0101A8C0\<rparr>"

definition sample_reply_MN :: registrationReply where
  "sample_reply_MN =
     \<lparr>rp_code = 0, rp_lifetime = 90, rp_home = 0x0200A8C0, rp_homeAgent = 0x0101A8C0,
      rp_UDP = \<lparr>sourcePort = 434, destinationPort = 5241\<rparr>,
      rp_IP = \<lparr>ipsource = 0x0102A8C0, ipdestination = 0x0200A8C0\<rparr>, rp_identification = 77\<rparr>"

text \<open>
  C6: An accepting reply to a pending request that grants no more than was requested sets the
  remaining lifetime to the granted one, takes the request off the pending list, and decides
  by the sender of the reply whether the node is at home; nothing else changes and nothing is
  sent.
\<close>

theorem MN_reply_accepted:
  assumes "rl_remove (rp_identification reply) (mn_requests st) = Inr (request, requests)"
    and "rp_code reply \<in> {0, 1}" and "rp_lifetime reply \<le> rq_requestedLifetime request"
    and "unat (rq_requestedLifetime request) < 2147483648"
  shows "MN_processReply e reply st =
    Inr (st\<lparr>mn_requests := requests, mn_connection := (mn_connection st)
           \<lparr>ac_remainingLifetime := rp_lifetime reply,
            ac_isHome := (ipsource (rp_IP reply) = mn_homeAgentPrivateAddress st)\<rparr>\<rparr>, [])"
proof -
  have "unat (rp_lifetime reply) < 2147483648"
    using assms(3,4) by (simp add: word_le_nat_alt)
  from granted_lifetime [OF this assms(4)] assms(3)
  show ?thesis by (simp add: MN_processReply_accepted [OF assms(1,2)])
qed

theorem MN_reply_accepted_witness:
  "\<exists>st. MN_processReply sample_env sample_reply_MN (sample_MN\<lparr>mn_requests := [sample_request]\<rparr>)
       = Inr (st, []) \<and>
     mn_requests st = [] \<and> ac_remainingLifetime (mn_connection st) = 90 \<and> \<not> ac_isHome (mn_connection st)"
  using MN_reply_accepted [of sample_reply_MN "sample_MN\<lparr>mn_requests := [sample_request]\<rparr>"
      sample_request "[]" sample_env]
  by (simp add: sample_reply_MN_def sample_MN_def new_MobileIPNode_def sample_request_def)

text \<open>
  C13: Every request that times out in a tick is sent again to the same agent with the same
  care-of address, lifetime and TTL and a new identification, and is pending again; the
  requests that have not timed out stay pending.
\<close>

theorem MN_timeouts_resent:
  assumes "\<And>i. mem_ok (es i)"
    and "rl_removeTimedOutRequests (mn_requestTimeout st) (rl_decreaseLifetime (mn_requests st)) = (to, rest)"
  shows "\<exists>st' outs out'. MN_run_timer es st = Inr (st', concat outs @ out') \<and> length outs = length to \<and>
    (\<forall>i < length to. mn_sends (es i) st (rq_destination (to ! i)) (rq_careOfAddress (to ! i))
       (rq_requestedLifetime (to ! i)) (rq_ttl (to ! i)) (outs ! i)) \<and>
    prefix (rest @ map (\<lambda>i. mn_request (es i) (rq_destination (to ! i)) (rq_careOfAddress (to ! i))
       (rq_requestedLifetime (to ! i)) (rq_ttl (to ! i))) [0..<length to]) (mn_requests st')"
proof -
  let ?st = "st\<lparr>mn_requests := rest\<rparr>"
  let ?new = "map (\<lambda>i. mn_request (es i) (rq_destination (to ! i)) (rq_careOfAddress (to ! i))
       (rq_requestedLifetime (to ! i)) (rq_ttl (to ! i))) [0..<length to]"
  let ?st1 = "st\<lparr>mn_requests := rest @ ?new\<rparr>"
  obtain outs where outs: "MN_resend es to ?st = Inr (?st1, concat outs)" "length outs = length to"
    "\<forall>i < length to. mn_sends (es i) st (rq_destination (to ! i)) (rq_careOfAddress (to ! i))
       (rq_requestedLifetime (to ! i)) (rq_ttl (to ! i)) (outs ! i)"
    by (rule MN_resend_sent [of es to ?st, OF assms(1)]) simp
  obtain st2 out' where st2: "MN_renew (es (length to)) ?st1 = Inr (st2, out')"
    "prefix (mn_requests ?st1) (mn_requests st2)"
    by (rule MN_renew_grows [of "es (length to)" ?st1, OF assms(1)])
  have "MN_run_timer es st = Inr (st2\<lparr>mn_requestsTimer := After_msec 1000\<rparr>, concat outs @ out')"
    using outs(1) st2(1) assms(2) by (simp add: MN_run_timer_def)
  with outs(2,3) st2(2) show ?thesis
    by (intro exI [of _ "st2\<lparr>mn_requestsTimer := After_msec 1000\<rparr>"] exI [of _ outs] exI [of _ out']) simp
qed

lemma sample_MN_sel [simp]:
  "mn_requests sample_MN = []" "mn_homeAddress sample_MN = 0x0200A8C0"
  "mn_homeAgentPrivateAddress sample_MN = 0x0100A8C0" "mn_sourcePort sample_MN = 5241"
  "mn_homeAgentPublicAddress sample_MN = 0x0101A8C0" "mn_requestTimeout sample_MN = 10"
  "mn_connection sample_MN = init_agentConnection"
  "mn_requests new_MobileIPNode = []" "mn_homeAgentPrivateAddress new_MobileIPNode = 0"
  by (simp_all add: sample_MN_def new_MobileIPNode_def)

theorem MN_timeouts_resent_witness:
  "\<exists>st' outs out'. MN_run_timer (\<lambda>i. sample_env)
       (sample_MN\<lparr>mn_requests := [sample_request\<lparr>rq_waitingTime := 10\<rparr>]\<rparr>) = Inr (st', concat outs @ out') \<and>
     length outs = 1 \<and> prefix [mn_request sample_env 0x0102A8C0 0x0201A8C0 100 1] (mn_requests st')"
  using MN_timeouts_resent [of "\<lambda>i. sample_env" "sample_MN\<lparr>mn_requests := [sample_request\<lparr>rq_waitingTime := 10\<rparr>]\<rparr>"
     "[sample_request\<lparr>rq_waitingTime := 11, rq_remainingLifetime := 99\<rparr>]" "[]"]
  by (fastforce simp: sample_request_def)

text \<open>
  C14: Once per second the node counts its finite registration down, and asks its foreign agent
  for a renewal with the original lifetime exactly when at most half of it is left, the node is
  away from home and no request to that agent for that care-of address is pending.
\<close>

theorem MN_renews_at_half_lifetime:
  assumes "mem_ok e"
  shows "\<exists>st' out. MN_renew e st = Inr (st', out) \<and> mn_connection st' = mn_connection (mn_aged st) \<and>
    (if mn_renews st
     then mn_sends e st (ac_agentAddress (mn_connection st)) (ac_careOfAddress (mn_connection st))
            (ac_lifetime (mn_connection st)) 1 out
     else out = [])"
proof (cases "mn_renews st")
  case True
  obtain out where "MN_renew e st = Inr ((mn_aged st)\<lparr>mn_requests := mn_requests st @
       [mn_request e (ac_agentAddress (mn_connection st)) (ac_careOfAddress (mn_connection st))
          (ac_lifetime (mn_connection st)) 1]\<rparr>, out)"
    "mn_sends e st (ac_agentAddress (mn_connection st)) (ac_careOfAddress (mn_connection st))
       (ac_lifetime (mn_connection st)) 1 out"
    using assms True by (rule MN_renew_sends)
  with True show ?thesis by simp
next
  case False
  with MN_renew_quiet [OF False] show ?thesis by simp
qed

theorem MN_renews_at_half_lifetime_witness:
  "\<exists>st' out. MN_renew sample_env (sample_MN\<lparr>mn_connection := \<lparr>ac_connected = False, ac_isHome = False,
       ac_agentAddress = 0x0102A8C0, ac_careOfAddress = 0x0201A8C0, ac_lifetime = 60,
       ac_remainingLifetime = 31\<rparr>\<rparr>) = Inr (st', out) \<and>
     mn_sends sample_env sample_MN 0x0102A8C0 0x0201A8C0 60 1 out"
  using MN_renews_at_half_lifetime [of sample_env "sample_MN\<lparr>mn_connection := \<lparr>ac_connected = False,
      ac_isHome = False, ac_agentAddress = 0x0102A8C0, ac_careOfAddress = 0x0201A8C0,
      ac_lifetime = 60, ac_remainingLifetime = 31\<rparr>\<rparr>"]
  by (auto simp: mn_renews_def)

text \<open>
  A foreign agent that finds the requested lifetime too long (code 69) is asked again, at
  the address its reply came from, with the lifetime it offered and the care-of address of the
  refused request; the refused request is no longer pending and the new one is.
\<close>

theorem MN_retries_with_offered_lifetime:
  assumes "mem_ok e"
    and "rl_remove (rp_identification reply) (mn_requests st) = Inr (request, requests)"
    and "rp_code reply = 69"
  shows "\<exists>st' out. MN_processReply e reply st = Inr (st', out) \<and>
    mn_requests st' = requests @ [mn_request e (ipsource (rp_IP reply)) (rq_careOfAddress request)
                                    (rp_lifetime reply) 1] \<and>
    ac_lifetime (mn_connection st') = rp_lifetime reply \<and>
    mn_sends e st (ipsource (rp_IP reply)) (rq_careOfAddress request) (rp_lifetime reply) 1 out"
proof -
  obtain out where
    "MN_processReply e reply st =
       Inr (st\<lparr>mn_requests := requests @ [mn_request e (ipsource (rp_IP reply))
                  (rq_careOfAddress request) (rp_lifetime reply) 1],
              mn_connection := (mn_connection st)\<lparr>ac_lifetime := rp_lifetime reply\<rparr>\<rparr>, out)"
    "mn_sends e st (ipsource (rp_IP reply)) (rq_careOfAddress request) (rp_lifetime reply) 1 out"
    using assms by (rule MN_processReply_retry)
  then show ?thesis by simp
qed

theorem MN_retries_with_offered_lifetime_witness:
  "\<exists>st' out. MN_processReply sample_env (sample_reply_MN\<lparr>rp_code := 69, rp_lifetime := 40\<rparr>)
       (sample_MN\<lparr>mn_requests := [sample_request]\<rparr>) = Inr (st', out) \<and>
     mn_sends sample_env sample_MN 0x0102A8C0 0x0201A8C0 40 1 out"
  using MN_retries_with_offered_lifetime [of sample_env "sample_reply_MN\<lparr>rp_code := 69, rp_lifetime := 40\<rparr>"
      "sample_MN\<lparr>mn_requests := [sample_request]\<rparr>" sample_request "[]"]
  by (auto simp: sample_reply_MN_def sample_request_def)

text \<open>
  After any sequence of replies, ticks and moves, no pending request of the node has
  waited longer than the request timeout.
\<close>

theorem MN_waiting_bounded:
  assumes "run MN_step evs new_MobileIPNode = Inr (st, out)" and "r \<in> set (mn_requests st)"
  shows "rq_waitingTime r \<le> mn_requestTimeout st"
proof -
  have "mn_inv new_MobileIPNode" by (simp add: mn_inv_def new_MobileIPNode_def)
  then have "mn_inv st" using assms(1) by (rule mn.run_inv)
  with assms(2) show ?thesis by (simp add: mn_inv_def)
qed

theorem MN_waiting_bounded_witness:
  "\<exists>st out. run MN_step [MN_Move sample_env 5 6 60] new_MobileIPNode = Inr (st, out) \<and>
     mn_requests st \<noteq> [] \<and> rq_waitingTime (hd (mn_requests st)) \<le> mn_requestTimeout st"
proof -
  obtain st' out where "MN_sendRequest sample_env 5 6 60 1 new_MobileIPNode = Inr (st', out)"
    "mn_requests st' = [mn_request sample_env 5 6 60 1]"
    by (rule MN_sendRequest_sent [OF mem_ok_sample, of 5 6 60 1 new_MobileIPNode])
       simp
  then obtain st where st: "run MN_step [MN_Move sample_env 5 6 60] new_MobileIPNode = Inr (st, out)"
    "mn_requests st = [mn_request sample_env 5 6 60 1]"
    by (simp add: MN_step_def MN_reregister_def MN_registerFA_def)
  with MN_waiting_bounded [OF st(1), of "mn_request sample_env 5 6 60 1"] show ?thesis by auto
qed

text \<open>
  A well-formed registration reply whose IP header checksum happens to be 0 makes the
  node's \<open>push\<close> end with an exception nobody catches: the handler has no clause for
  \<open>ZeroChecksumException\<close>, although 0 is the correct checksum of that header.
\<close>

theorem MN_zero_checksum_escapes:
  assumes p: "arrives p (udp_datagram ttl s sport d dport (reply_bytes clk lt code hm ha idn))"
    and "\<not> looks_like_ether s" and "header_sum IP_PROTO_UDP 0 s d ttl 48 = 0"
  shows "MN_push e p st = Inl (ZeroChecksumException ''IP Header'')"
proof -
  have "processRegistrationReplyPacket (e_undef e) p = Inl (ZeroChecksumException ''IP Header'')"
    using rd_udp_payload [OF p] processUDPHeader_datagram [OF p] processIPHeader_datagram [OF p] assms(3)
    by (simp add: processRegistrationReplyPacket_def wire_simps Let_def)
  with reply_recognised [OF assms(1,2)] show ?thesis by (simp add: MN_push_def)
qed

theorem MN_zero_checksum_escapes_witness:
  "MN_push sample_env (deliver (udp_datagram 1 0x0102A8C0 434 0x6C36A8C0 5241
       (reply_bytes (e_clk sample_env) 90 0 0x6C36A8C0 0x0101A8C0 77))) sample_MN
     = Inl (ZeroChecksumException ''IP Header'')"
proof (rule MN_zero_checksum_escapes [OF arrives_deliver])
  show "\<not> looks_like_ether 0x0102A8C0" by code_simp
  show "header_sum IP_PROTO_UDP 0 0x0102A8C0 0x6C36A8C0 1 48 = 0" by code_simp
qed

text \<open>
  A valid registration reply that reaches a node with no pending request makes it call
  \<open>back()\<close> on an empty vector: the check of the last identification does not ask first
  whether there is one.
\<close>

theorem MN_unsolicited_reply_faults:
  assumes p: "arrives p (udp_datagram ttl s sport d dport (reply_bytes clk lt code hm ha idn))"
    and "\<not> looks_like_ether s" and "header_sum IP_PROTO_UDP 0 s d ttl 48 \<noteq> 0"
    and "mn_requests st = []"
  shows "MN_push e p st = Inl EmptyVector"
  using reply_recognised [OF p assms(2)] reply_received [OF p assms(3)] assms(4)
  by (simp add: MN_push_def MN_checkReplyValidity_def rl_getLastRequest_def)

theorem MN_unsolicited_reply_faults_witness:
  "MN_push sample_env (deliver (udp_datagram 1 0x0102A8C0 434 0x0200A8C0 5241
       (reply_bytes (e_clk sample_env) 90 0 0x0200A8C0 0x0101A8C0 77))) sample_MN = Inl EmptyVector"
proof (rule MN_unsolicited_reply_faults [OF arrives_deliver])
  show "\<not> looks_like_ether 0x0102A8C0" by code_simp
  show "header_sum IP_PROTO_UDP 0 0x0102A8C0 0x0200A8C0 1 48 \<noteq> 0" by code_simp
qed simp

lemma rl_decreaseLifetime_append:
  "rl_decreaseLifetime (rs @ rs') = rl_decreaseLifetime rs @ rl_decreaseLifetime rs'"
  by (induction rs) auto

text \<open>
  \<open>sendRequest\<close> does not initialise the remaining lifetime of the pending entry. When the
  memory happens to hold 0 there, the next tick deletes the request instead of waiting for the
  reply: it is neither matched with its reply nor sent again.
\<close>

theorem MN_request_lost:
  assumes "mem_ok e" and "e_undef_int e = 0" and "lt \<notin> {0, 65535}"
  shows "\<exists>st' out. MN_sendRequest e destination careOf lt ttl st = Inr (st', out) \<and>
    mn_requests st' \<noteq> mn_requests st \<and>
    rl_decreaseLifetime (mn_requests st') = rl_decreaseLifetime (mn_requests st)"
proof -
  obtain out where
    "MN_sendRequest e destination careOf lt ttl st =
       Inr (st\<lparr>mn_requests := mn_requests st @ [mn_request e destination careOf lt ttl]\<rparr>, out)"
    using assms(1) by (rule MN_sendRequest_sent)
  with assms(2,3) show ?thesis by (simp add: rl_decreaseLifetime_append mn_request_def)
qed

theorem MN_request_lost_witness:
  "\<exists>st' out. MN_sendRequest (sample_env\<lparr>e_undef_int := 0\<rparr>) 0x0102A8C0 0x0201A8C0 60 1 sample_MN
       = Inr (st', out) \<and> mn_requests st' \<noteq> [] \<and> rl_decreaseLifetime (mn_requests st') = []"
  using MN_request_lost [of "sample_env\<lparr>e_undef_int := 0\<rparr>" 60, where destination = "0x0102A8C0"
    and careOf = "0x0201A8C0" and ttl = 1 and st = sample_MN]
  by (simp add: mem_ok_def sample_env_def)

end
