(* ===== verification/Registration.thy ===== *)
theory Registration
  imports Click_IP Tunnel Mobile_Node
begin

text \<open>
  The elements working together: a registration that travels from the mobile node over the
  foreign agent to the home agent and back, and the tunnel it sets up. The network between two
  elements is a function on packets that keeps the datagram up to its TTL and the header
  checksum that goes with it; \<^verbatim>\<open>DecIPTTL\<close> is such a function.
\<close>

section \<open>The network\<close>

definition transports :: "byte \<Rightarrow> (packet \<Rightarrow> packet) \<Rightarrow> bool" where
  "transports ttl n \<longleftrightarrow> (\<forall>q bs. arrives q bs \<longrightarrow> arrives (n q) (with_ttl ttl bs))"

lemma with_ttl_datagram:
  "with_ttl ttl' (ip_datagram proto tos s d ttl payload) = ip_datagram proto tos s d ttl' payload"
  by (simp add: with_ttl_def take_datagram ip.dec_enc [simplified])
     (simp add: ip_datagram_def length_enc_ip with_sum_def base_ip_def sizeof_ip_def)

lemma transportsD:
  "transports ttl' n \<Longrightarrow> arrives q (ip_datagram proto tos s d ttl payload) \<Longrightarrow>
     arrives (n q) (ip_datagram proto tos s d ttl' payload)"
  by (metis transports_def with_ttl_datagram)

text \<open>The simplest network: the bytes with another TTL, in a fresh packet.\<close>

definition redeliver :: "byte \<Rightarrow> packet \<Rightarrow> packet" where
  "redeliver ttl q = deliver (with_ttl ttl (pkt_bytes q))"

lemma transports_redeliver: "transports ttl (redeliver ttl)"
  unfolding transports_def redeliver_def by (metis arrives_def arrives_deliver)

text \<open>Decrementing the TTL incrementally is the same as writing a new header.\<close>

lemma unat_cksum_lt:
  assumes "0 < word_sum bs" and "length bs \<le> 65535"
  shows "unat (click_in_cksum bs) < 65535"
proof -
  have "ones_fold (word_sum bs) \<noteq> 0"
    using ones_fold_eq_0_iff [OF word_sum_lt [OF assms(2)]] assms(1) by simp
  then show ?thesis using unat_click_in_cksum [OF assms(2)] by simp
qed

lemma valid_sum_unique:
  assumes "click_in_cksum (enc_ip (h\<lparr>ip_sum := a\<rparr>)) = 0" and "click_in_cksum (enc_ip (h\<lparr>ip_sum := b\<rparr>)) = 0"
    and "unat a < 65535" and "unat b < 65535"
  shows "a = b"
proof -
  have len: "length (enc_ip x) \<le> 65535" for x by (simp add: length_enc_ip)
  define w where "w = word_sum (enc_ip (h\<lparr>ip_sum := 0\<rparr>))"
  have "word_sum (enc_ip (h\<lparr>ip_sum := r\<rparr>)) = w + unat r" for r
    using word_sum_enc_ip_sum [where h = h and r = r and xs = "[]"] by (simp only: w_def append_Nil2)
  then have d: "65535 dvd w + unat a" "65535 dvd w + unat b"
    using assms(1,2) by (simp_all only: click_in_cksum_zero_iff [OF len])
  have eq: "x = y" if "65535 dvd w + x" "65535 dvd w + y" "x \<le> y" "y < 65535" for x y
  proof -
    have "65535 dvd y - x" using dvd_diff_nat [OF that(2,1)] that(3) by simp
    with that(3,4) show ?thesis by (auto dest!: dvd_imp_le)
  qed
  show ?thesis
    using eq [OF d] eq [OF d(2,1)] assms(3,4)
    by (cases "unat a \<le> unat b") (auto intro: unsigned_word_eqI)
qed

lemma ttl_decremented_with_sum:
  assumes "1 < ip_ttl h"
  shows "ttl_decremented (with_sum h) = with_sum (h\<lparr>ip_ttl := ip_ttl h - 1\<rparr>)"
proof -
  let ?g = "h\<lparr>ip_ttl := ip_ttl h - 1\<rparr>"
  define a where "a = dec_ttl_sum (ip_sum (with_sum h))"
  define b where "b = ip_sum (with_sum ?g)"
  have pos: "0 < word_sum (enc_ip (x\<lparr>ip_sum := 0\<rparr>))" if "ip_ttl x \<noteq> 0" for x
    using word_sum_enc_ip_pos [of "x\<lparr>ip_sum := 0\<rparr>" "[]"] that by simp
  have t: "ip_ttl h \<noteq> 0" "ip_ttl ?g \<noteq> 0" using assms by auto
  have lt: "unat (ip_sum (with_sum x)) < 65535" if "ip_ttl x \<noteq> 0" for x
    using unat_cksum_lt [OF pos [OF that]] by (simp add: with_sum_def length_enc_ip)
  have eq: "ttl_decremented (with_sum h) = ?g\<lparr>ip_sum := a\<rparr>" "with_sum ?g = ?g\<lparr>ip_sum := b\<rparr>"
    by (simp_all add: ttl_decremented_def with_sum_def a_def b_def)
  have "a = b"
  proof (rule valid_sum_unique [where h = ?g])
    show "click_in_cksum (enc_ip (?g\<lparr>ip_sum := a\<rparr>)) = 0"
      using ttl_decremented_verifies [of "with_sum h" "[]"] with_sum_verifies assms
      by (simp flip: eq)
    show "click_in_cksum (enc_ip (?g\<lparr>ip_sum := b\<rparr>)) = 0"
      using with_sum_verifies [of ?g] by (simp only: eq)
    show "unat a < 65535" using lt [OF t(1)] by (simp add: a_def unat_dec_ttl_sum)
    show "unat b < 65535" using lt [OF t(2)] by (simp only: b_def)
  qed
  then show ?thesis by (simp only: eq)
qed

lemma DT_arrives:
  assumes p: "arrives p (ip_datagram proto tos s d ttl payload)" and "1 < ttl" and "\<not> shared p"
    and "dt_active st" and "dt_multicast st"
  obtains q where "DT_simple_action mem p st = Inr (st, [], Some q)"
    "arrives q (ip_datagram proto tos s d (ttl - 1) payload)"
proof -
  let ?h = "base_ip (20 + length payload) proto tos s d ttl"
  let ?hd = "enc_ip (ttl_decremented (with_sum ?h))"
  have wf: "wf_pkt p" and nh: "p_nh p = Some (p_data p)" and b: "pkt_bytes p = enc_ip (with_sum ?h) @ payload"
    using p by (simp_all add: arrives_def ip_datagram_def sizeof_ip_def)
  have t: "1 < ip_ttl (with_sum ?h)" using assms(2) by (simp add: base_ip_def)
  have r: "rd p (p_data p) 20 = Inr (enc_ip (with_sum ?h))"
    using arrives_rd0 [OF p, of 20] ip_datagram_header [of proto tos s d ttl payload]
    by (simp add: sizeof_ip_def)
  obtain q where q: "DT_simple_action mem p st = Inr (st, [], Some q)"
    "q = store (p_data p) ?hd p"
    using DT_forwards [of p "p_data p" "[]" "with_sum ?h" st mem] nh r assms(3-5) t
    by (auto simp: store_def)
  have hd: "?hd = enc_ip (with_sum (base_ip (20 + length payload) proto tos s d (ttl - 1)))"
    using ttl_decremented_with_sum [of ?h] t by (simp add: base_ip_def)
  have "pkt_bytes q = patch 0 ?hd (pkt_bytes p)"
    using pkt_bytes_store [OF wf, of 0 ?hd] arrives_len [OF p] by (simp add: q(2) length_enc_ip sizeof_ip_def)
  also have "\<dots> = ip_datagram proto tos s d (ttl - 1) payload"
    by (simp add: b patch_prefix length_enc_ip hd) (simp add: ip_datagram_def sizeof_ip_def)
  finally have "arrives q (ip_datagram proto tos s d (ttl - 1) payload)"
    using p wr_window(2) [OF wf, of 0 ?hd] arrives_len [OF p]
    by (simp add: arrives_def q(2) length_enc_ip sizeof_ip_def)
  with q(1) that show thesis by blast
qed

section \<open>The exchange\<close>

definition pushed :: "nat \<Rightarrow> effect list \<Rightarrow> packet list" where
  "pushed port out = concat (map (\<lambda>ef. case ef of Push k q \<Rightarrow> if k = port then [q] else [] | Kill _ \<Rightarrow> []) out)"

text \<open>The first packet an element pushed to \<open>port\<close> crosses the network \<open>n\<close> to the next element.\<close>

definition hop ::
  "nat \<Rightarrow> (packet \<Rightarrow> packet) \<Rightarrow> effect list \<Rightarrow> (packet \<Rightarrow> 's \<Rightarrow> ('s \<times> effect list) res) \<Rightarrow> 's
     \<Rightarrow> ('s \<times> effect list) res" where
  "hop port n out handler st = (case pushed port out of [] \<Rightarrow> Inr (st, []) | q # _ \<Rightarrow> handler (n q) st)"

type_synonym nodes = "MobileIPNode \<times> MobileIPForeignAgent \<times> MobileIPHomeAgent"

definition registration_exchange ::
  "(nat \<Rightarrow> env) \<Rightarrow> (nat \<Rightarrow> packet \<Rightarrow> packet) \<Rightarrow> ipaddr \<Rightarrow> ipaddr \<Rightarrow> u32 \<Rightarrow> nodes \<Rightarrow> nodes res" where
  "registration_exchange e n agent careOf lt =
     (\<lambda>(mn, fa, ha).
        res_bind (MN_registerFA (e 0) agent careOf lt mn) (\<lambda>(mn, out).
        res_bind (hop 0 (n 0) out (FA_push (e 1) 0) fa) (\<lambda>(fa, out).
        res_bind (hop 1 (n 1) out (HA_push (e 2) 1) ha) (\<lambda>(ha, out).
        res_bind (hop 1 (n 2) out (FA_push (e 3) 1) fa) (\<lambda>(fa, out).
        res_bind (hop 0 (n 3) out (MN_push (e 4)) mn) (\<lambda>(mn, out).
        Inr (mn, fa, ha)))))))"

lemma hop_push [simp]:
  "hop k n (Push k q # out) handler st = handler (n q) st"
  by (simp add: hop_def pushed_def)

section \<open>The legs of the exchange\<close>

text \<open>
  A datagram whose header checksum happens to be 0 is refused by all Mobile IP elements;
  \<open>readable\<close> excludes it, along with sources that look like an Ethernet frame.
\<close>

definition readable :: "ipaddr \<Rightarrow> ipaddr \<Rightarrow> byte \<Rightarrow> nat \<Rightarrow> bool" where
  "readable s d ttl len \<longleftrightarrow>
     \<not> looks_like_ether s \<and> header_sum IP_PROTO_UDP 0 s d ttl len \<noteq> 0"

definition wire_request :: "u32 \<Rightarrow> ipaddr \<Rightarrow> ipaddr \<Rightarrow> ipaddr \<Rightarrow> u32 \<Rightarrow> ipaddr \<Rightarrow> ipaddr \<Rightarrow> u32 \<Rightarrow> registrationRequest" where
  "wire_request lt hm ha co idn s d sport =
     \<lparr>rr_S = False, rr_B = False, rr_D = False, rr_M = False, rr_G = False, rr_r = False,
      rr_T = False, rr_x = False, rr_lifetime = lt, rr_home = hm, rr_homeAgent = ha, rr_careOf = co,
      rr_UDP = \<lparr>sourcePort = sport, destinationPort = 434\<rparr>,
      rr_IP = \<lparr>ipsource = s, ipdestination = d\<rparr>, rr_identification = idn\<rparr>"

definition wire_reply :: "u32 \<Rightarrow> byte \<Rightarrow> ipaddr \<Rightarrow> ipaddr \<Rightarrow> u32 \<Rightarrow> ipaddr \<Rightarrow> ipaddr \<Rightarrow> u32 \<Rightarrow> registrationReply" where
  "wire_reply lt code hm ha idn s d dport =
     \<lparr>rp_code = ucast code, rp_lifetime = lt, rp_home = hm, rp_homeAgent = ha,
      rp_UDP = \<lparr>sourcePort = 434, destinationPort = dport\<rparr>,
      rp_IP = \<lparr>ipsource = s, ipdestination = d\<rparr>, rp_identification = idn\<rparr>"

lemma request_read:
  assumes "arrives p (udp_datagram ttl s sport d 434 (request_bytes clk lt hm ha co idn))"
    and "readable s d ttl 52" and "unat lt < 65536" and "unat sport < 65536" and "idn \<noteq> 0"
  shows "getPacketType p = Inr REGISTRATION"
    "processRegistrationRequestPacket undef p = Inr (wire_request lt hm ha co idn s d sport)"
  using request_recognised [OF assms(1)] request_received [OF assms(1)] assms(2-5)
  by (simp_all add: readable_def wire_request_def ucast_ucast_16)

lemma reply_read:
  assumes "arrives p (udp_datagram ttl s 434 d dport (reply_bytes clk lt code hm ha idn))"
    and "readable s d ttl 48" and "unat lt < 65536" and "unat dport < 65536"
  shows "getPacketType p = Inr REPLY"
    "processRegistrationReplyPacket undef p = Inr (wire_reply lt code hm ha idn s d dport)"
  using reply_recognised [OF assms(1)] reply_received [OF assms(1)] assms(2-4)
  by (simp_all add: readable_def wire_reply_def ucast_ucast_16)

lemma leg_MN_FA:
  assumes "arrives p (udp_datagram ttl home sport agent 434 (request_bytes clk lt home hag co idn))"
    and "readable home agent ttl 52" and "unat lt < 65536" and "unat sport < 65536" and "idn \<noteq> 0"
    and "mem_ok e" and "co = fa_careOfAddress fa" and "lt \<le> fa_maxAcceptedLifetime fa"
    and "length (fa_requests fa) < unat (fa_maxPendingRegistrations fa)"
  obtains q where "FA_push e 0 p fa =
      Inr (fa\<lparr>fa_requests := fa_requests fa @ [fa_pending e fa (wire_request lt home hag co idn home agent sport)]\<rparr>,
           [Push 1 q, Kill p])"
    "arrives q (udp_datagram 16 (fa_careOfAddress fa) (fa_sourcePort fa) hag 434
       (request_bytes (e_clk e) lt home hag co idn))"
proof -
  let ?r = "wire_request lt home hag co idn home agent sport"
  have "fa_verdict fa ?r = FA_Relay"
    using assms(7-9) by (simp add: fa_verdict_def wire_request_def not_le not_less)
  with assms(6) obtain out where out: "FA_relayRequest e ?r fa =
      Inr (fa\<lparr>fa_requests := fa_requests fa @ [fa_pending e fa ?r]\<rparr>, out)" "fa_relays_request e fa ?r out"
    by (rule FA_relayRequest_relays)
  then obtain q where "out = [Push 1 q]"
    "arrives q (udp_datagram 16 (fa_careOfAddress fa) (fa_sourcePort fa) hag 434
       (request_bytes (e_clk e) lt home hag co idn))"
    using assms(7) by (auto simp: fa_relays_request_def wire_request_def)
  with FA_push_request [OF request_read [OF assms(1-5)] out(1)] that show thesis by simp
qed

lemma leg_FA_HA:
  assumes "arrives p (udp_datagram ttl co sport hag 434 (request_bytes clk lt home hag co idn))"
    and "readable co hag ttl 52" and "unat lt < 65536" and "unat sport < 65536" and "idn \<noteq> 0"
    and "mem_ok e" and "hag = ha_publicAddress ha" and "lt \<noteq> 0" and "ha_maxAcceptedLifetime ha \<noteq> 0"
    and "mb_inv (ha_mobilityBindings ha)" and "hag \<noteq> IP_BROADCAST"
  obtains q bs where "HA_push e 1 p ha = Inr (ha\<lparr>ha_mobilityBindings := bs\<rparr>, [Push 1 q])" "mb_inv bs"
    "mb_lookup bs = (mb_lookup (ha_mobilityBindings ha))
       ((home, co) \<mapsto> min lt (ha_maxAcceptedLifetime ha))"
    "arrives q (udp_datagram 1 hag 434 co sport
       (reply_bytes (e_clk e) (min lt (ha_maxAcceptedLifetime ha)) 0 home hag idn))"
proof -
  let ?r = "wire_request lt home hag co idn co hag sport"
  have acc: "ha_accepts ha ?r" using assms(7) by (simp add: ha_accepts_def wire_request_def)
  obtain out where out: "HA_handle e ?r 1 ha = Inr (ha\<lparr>ha_mobilityBindings := HA_bindings ha ?r\<rparr>, out)"
    "ha_replies e ha 1 ?r (0, min (rr_lifetime ?r) (ha_maxAcceptedLifetime ha), rr_homeAgent ?r) out"
    using assms(6) acc by (rule HA_handle_accepted)
  have nz: "min lt (ha_maxAcceptedLifetime ha) \<noteq> 0" using assms(8,9) by (simp add: min_def)
  obtain q where q: "out = [Push 1 q]" "arrives q (udp_datagram 1 hag 434 co sport
       (reply_bytes (e_clk e) (min lt (ha_maxAcceptedLifetime ha)) 0 home hag idn))"
    using out(2) nz assms(11) code_0_not_136
    by (auto simp: ha_replies_def ha_port_def ha_source_def wire_request_def)
  have "HA_push e 1 p ha = HA_handle e ?r 1 ha"
    by (rule HA_push_request) (rule request_read [OF assms(1-5)])+
  then show thesis
    using that [of "HA_bindings ha ?r" q] out(1) q
      HA_bindings_refines [OF assms(10) acc] acc assms(8)
    by (simp add: ha_update_def) (simp add: wire_request_def)
qed

lemma leg_HA_FA:
  assumes "arrives p (udp_datagram ttl hag 434 co fport (reply_bytes clk lt 0 home hag idn))"
    and "readable hag co ttl 48" and "unat lt < 65536" and "unat fport < 65536"
    and "mem_ok e" and "fport = fa_sourcePort fa" and "home \<noteq> IP_ANY" and "vl_inv (fa_visitors fa)"
    and "fa_requests fa = rs @ [item]" and "rq_identification item = idn" and "rr_home (rq_rr item) = home"
    and "\<forall>r \<in> set rs. rq_identification r \<noteq> idn" and "lt \<le> fa_maxAcceptedLifetime fa" and "lt \<noteq> 0"
  obtains q vs where "FA_push e 1 p fa = Inr (fa\<lparr>fa_requests := rs, fa_visitors := vs\<rparr>, [Push 0 q, Kill p])"
    "vl_inv vs" "vl_lookup vs = (vl_lookup (fa_visitors fa))((home, hag) \<mapsto> (lt, lt))"
    "arrives q (udp_datagram 1 (fa_privateAddress fa) 434 home (sourcePort (rr_UDP (rq_rr item)))
       (reply_bytes (e_clk e) lt 0 home hag idn))"
proof -
  let ?r = "wire_reply lt 0 home hag idn hag co fport"
  have rm: "rl_remove (rp_identification ?r) (fa_requests fa) = Inr (item, rs)"
    using rl_remove_snoc [of rs item] assms(9,10,12) by (auto simp: wire_reply_def)
  have h: "rp_home ?r = rr_home (rq_rr item)" "destinationPort (rp_UDP ?r) = fa_sourcePort fa"
    using assms(6,11) by (simp_all add: wire_reply_def)
  obtain vs out where o: "FA_relayReply e ?r fa = Inr (fa\<lparr>fa_requests := rs, fa_visitors := vs\<rparr>, out)"
    "vl_inv vs" "vl_lookup vs = fa_visitors_after fa ?r (vl_lookup (fa_visitors fa))"
    "fa_relays_reply e fa ?r item out"
    using assms(5,8) rm h by (rule FA_relayReply_refines)
  have "vl_lookup vs = (vl_lookup (fa_visitors fa))((home, hag) \<mapsto> (lt, lt))"
    using o(3) assms(13,14) by (simp add: fa_visitors_after_def wire_reply_def Let_def min_absorb1)
  moreover obtain q where "out = [Push 0 q]"
    "arrives q (udp_datagram 1 (fa_privateAddress fa) 434 home (sourcePort (rr_UDP (rq_rr item)))
       (reply_bytes (e_clk e) lt 0 home hag idn))"
    using o(4) assms(7) by (auto simp: fa_relays_reply_def wire_reply_def)
  ultimately show thesis
    using that [of vs q] FA_push_reply [OF reply_read [OF assms(1-4)] o(1)] o(2) by simp
qed

lemma leg_FA_MN:
  assumes "arrives p (udp_datagram ttl agent 434 home sport (reply_bytes clk lt 0 home hag idn))"
    and "readable agent home ttl 48" and "unat lt < 65536" and "unat sport < 65536"
    and "sport = mn_sourcePort mn" and "mn_requests mn = rs @ [item]" and "rq_identification item = idn"
    and "\<forall>r \<in> set rs. rq_identification r \<noteq> idn" and "lt \<le> rq_requestedLifetime item"
    and "unat (rq_requestedLifetime item) < 65536"
  shows "MN_push e p mn =
    Inr (mn\<lparr>mn_requests := rs, mn_connection := (mn_connection mn)
          \<lparr>ac_remainingLifetime := lt, ac_isHome := (agent = mn_homeAgentPrivateAddress mn)\<rparr>\<rparr>, [])"
proof -
  let ?r = "wire_reply lt 0 home hag idn agent home sport"
  have rm: "rl_remove (rp_identification ?r) (mn_requests mn) = Inr (item, rs)"
    using rl_remove_snoc [of rs item] assms(6-8) by (auto simp: wire_reply_def)
  have "MN_checkReplyValidity ?r mn = Inr True"
    using assms(5-7) by (simp add: MN_checkReplyValidity_def rl_getLastRequest_def wire_reply_def)
  moreover have "rq_requestedLifetime item - c_abs (rp_lifetime ?r - rq_requestedLifetime item) = lt"
    using granted_lifetime [of lt "rq_requestedLifetime item"] assms(3,9,10) by (simp add: wire_reply_def)
  ultimately show ?thesis
    using reply_read [OF assms(1-4)] MN_processReply_accepted [OF rm]
    by (simp add: MN_push_def wire_reply_def)
qed

section \<open>Properties\<close>

text \<open>What a registration over a foreign agent needs of the three parties and of the network.\<close>

definition parties_ready :: "ipaddr \<Rightarrow> u32 \<Rightarrow> u32 \<Rightarrow> nodes \<Rightarrow> bool" where
  "parties_ready careOf lt idn =
     (\<lambda>(mn, fa, ha).
        careOf = fa_careOfAddress fa \<and> mn_homeAgentPublicAddress mn = ha_publicAddress ha \<and>
        lt \<noteq> 0 \<and> unat lt < 65536 \<and> idn \<noteq> 0 \<and> lt \<le> fa_maxAcceptedLifetime fa \<and>
        ha_maxAcceptedLifetime ha \<noteq> 0 \<and> mn_homeAddress mn \<noteq> IP_ANY \<and>
        ha_publicAddress ha \<noteq> IP_BROADCAST \<and>
        unat (mn_sourcePort mn) < 65536 \<and> unat (fa_sourcePort fa) < 65536 \<and>
        length (fa_requests fa) < unat (fa_maxPendingRegistrations fa) \<and>
        (\<forall>r \<in> set (mn_requests mn) \<union> set (fa_requests fa). rq_identification r \<noteq> idn) \<and>
        vl_inv (fa_visitors fa) \<and> mb_inv (ha_mobilityBindings ha))"

definition path_readable :: "(nat \<Rightarrow> byte) \<Rightarrow> ipaddr \<Rightarrow> nodes \<Rightarrow> bool" where
  "path_readable t agent =
     (\<lambda>(mn, fa, ha).
        readable (mn_homeAddress mn) agent (t 0) 52 \<and>
        readable (fa_careOfAddress fa) (ha_publicAddress ha) (t 1) 52 \<and>
        readable (ha_publicAddress ha) (fa_careOfAddress fa) (t 2) 48 \<and>
        readable (fa_privateAddress fa) (mn_homeAddress mn) (t 3) 48)"

text \<open>
  C1: A registration completes: when the node registers over a foreign agent whose care-of
  address, lifetime limit and queue allow it, and the network delivers the four packets, the
  exchange ends, without a fault at any of the three elements, with the granted lifetime \<open>g\<close> (the
  requested one, or the home agent's limit if that is less) in all three places: the binding at the
  home agent, the visitor entry at the foreign agent and the remaining lifetime at the node; no
  request is left pending at the node or the foreign agent, and other bindings and visitors stay.
\<close>

theorem registration_completes:
  assumes ready: "parties_ready careOf lt (e_steady (e 0)) (mn, fa, ha)"
    and path: "path_readable t agent (mn, fa, ha)"
    and mem: "\<forall>i. mem_ok (e i)" and net: "\<forall>i. transports (t i) (n i)"
  shows "\<exists>mn' fa' ha' g. registration_exchange e n agent careOf lt (mn, fa, ha) = Inr (mn', fa', ha') \<and>
    g = min lt (ha_maxAcceptedLifetime ha) \<and>
    mb_lookup (ha_mobilityBindings ha') = (mb_lookup (ha_mobilityBindings ha))((mn_homeAddress mn, careOf) \<mapsto> g) \<and>
    vl_lookup (fa_visitors fa')
      = (vl_lookup (fa_visitors fa))((mn_homeAddress mn, ha_publicAddress ha) \<mapsto> (g, g)) \<and>
    mn_connection mn' = (mn_connection mn)
      \<lparr>ac_remainingLifetime := g, ac_isHome := (fa_privateAddress fa = mn_homeAgentPrivateAddress mn)\<rparr> \<and>
    mn_requests mn' = mn_requests mn \<and> fa_requests fa' = fa_requests fa"
proof -
  define idn home hag g where "idn = e_steady (e 0)" and "home = mn_homeAddress mn"
    and "hag = ha_publicAddress ha" and "g = min lt (ha_maxAcceptedLifetime ha)"
  define sport fport item where "sport = mn_sourcePort mn" and "fport = fa_sourcePort fa"
    and "item = fa_pending (e 1) fa (wire_request lt home hag careOf idn home agent sport)"
  note names = idn_def home_def hag_def g_def sport_def fport_def
  note R = ready [unfolded parties_ready_def prod.case, folded names]
  note P = path [unfolded path_readable_def prod.case, folded names]
  have gl: "unat g < 65536" "g \<le> lt" "g \<noteq> 0" "g \<le> fa_maxAcceptedLifetime fa"
    using R by (auto simp: g_def min_def word_le_nat_alt intro: le_less_trans order_trans)
  obtain o0 where o0: "MN_registerFA (e 0) agent careOf lt mn =
      Inr (mn\<lparr>mn_requests := mn_requests mn @ [mn_request (e 0) agent careOf lt 1]\<rparr>, o0)"
    "mn_sends (e 0) mn agent careOf lt 1 o0"
    unfolding MN_registerFA_def using mem MN_sendRequest_sent by blast
  obtain q0 where q0: "o0 = [Push 0 q0]" "arrives q0 (udp_datagram (ucast (1 :: u32)) home sport agent 434
      (request_bytes (e_clk (e 0)) lt home hag careOf idn))"
    using o0(2) R by (auto simp: mn_sends_def home_def hag_def idn_def sport_def)
  obtain q1 where q1: "FA_push (e 1) 0 (n 0 q0) fa = Inr (fa\<lparr>fa_requests := fa_requests fa @ [item]\<rparr>, [Push 1 q1, Kill (n 0 q0)])"
    "arrives q1 (udp_datagram 16 careOf fport hag 434 (request_bytes (e_clk (e 1)) lt home hag careOf idn))"
    using leg_MN_FA [OF transportsD [OF _ q0(2)], of "t 0" "n 0" "e 1" fa] R P mem net
    by (auto simp: item_def fport_def)
  obtain q2 bs where q2: "HA_push (e 2) 1 (n 1 q1) ha = Inr (ha\<lparr>ha_mobilityBindings := bs\<rparr>, [Push 1 q2])"
    "mb_lookup bs = (mb_lookup (ha_mobilityBindings ha))((home, careOf) \<mapsto> g)"
    "arrives q2 (udp_datagram 1 hag 434 careOf fport (reply_bytes (e_clk (e 2)) g 0 home hag idn))"
    by (rule leg_FA_HA [OF transportsD [OF _ q1(2)], of "t 1" "n 1" "e 2" ha])
       (use R P mem net in \<open>auto simp: g_def hag_def intro: that\<close>)
  let ?fa = "fa\<lparr>fa_requests := fa_requests fa @ [item]\<rparr>"
  have it: "rq_identification item = idn" "rr_home (rq_rr item) = home" "sourcePort (rr_UDP (rq_rr item)) = sport"
    by (simp_all add: item_def fa_pending_def wire_request_def)
  obtain q3 vs where q3: "FA_push (e 3) 1 (n 2 q2) ?fa =
      Inr (?fa\<lparr>fa_requests := fa_requests fa, fa_visitors := vs\<rparr>, [Push 0 q3, Kill (n 2 q2)])"
    "vl_lookup vs = (vl_lookup (fa_visitors fa))((home, hag) \<mapsto> (g, g))"
    "arrives q3 (udp_datagram 1 (fa_privateAddress fa) 434 home sport (reply_bytes (e_clk (e 3)) g 0 home hag idn))"
    by (rule leg_HA_FA [OF transportsD [OF _ q2(3)], of "t 2" "n 2" "e 3" ?fa "fa_requests fa" item])
       (use R P mem net gl it in \<open>auto simp: fport_def intro: that\<close>)
  let ?mn = "mn\<lparr>mn_requests := mn_requests mn @ [mn_request (e 0) agent careOf lt 1]\<rparr>"
  have q4: "MN_push (e 4) (n 3 q3) ?mn =
      Inr (?mn\<lparr>mn_requests := mn_requests mn, mn_connection := (mn_connection mn)
        \<lparr>ac_remainingLifetime := g, ac_isHome := (fa_privateAddress fa = mn_homeAgentPrivateAddress mn)\<rparr>\<rparr>, [])"
    using leg_FA_MN [OF transportsD [OF _ q3(3)], of "t 3" "n 3" ?mn "mn_requests mn"
        "mn_request (e 0) agent careOf lt 1" "e 4"] R P net gl
    by (simp add: mn_request_def sport_def idn_def)
  have "registration_exchange e n agent careOf lt (mn, fa, ha) =
      Inr (?mn\<lparr>mn_requests := mn_requests mn, mn_connection := (mn_connection mn)
        \<lparr>ac_remainingLifetime := g, ac_isHome := (fa_privateAddress fa = mn_homeAgentPrivateAddress mn)\<rparr>\<rparr>,
       ?fa\<lparr>fa_requests := fa_requests fa, fa_visitors := vs\<rparr>, ha\<lparr>ha_mobilityBindings := bs\<rparr>)"
    using q1(1) q2(1) q3(1) q4 by (simp add: registration_exchange_def o0(1) q0(1))
  then show ?thesis
    using q2(2) q3(2) by (simp add: home_def hag_def g_def)
qed

theorem registration_completes_witness:
  "\<exists>mn fa ha. registration_exchange (\<lambda>_. sample_env) (\<lambda>i. redeliver 1) 0x0102A8C0 0x0201A8C0 90
       (sample_MN, sample_FA, sample_HA) = Inr (mn, fa, ha) \<and>
     mb_lookup (ha_mobilityBindings ha) (0x0200A8C0, 0x0201A8C0) = Some 90 \<and>
     vl_lookup (fa_visitors fa) (0x0200A8C0, 0x0101A8C0) = Some (90, 90) \<and>
     ac_remainingLifetime (mn_connection mn) = 90"
proof -
  have ready: "parties_ready 0x0201A8C0 90 (e_steady sample_env) (sample_MN, sample_FA, sample_HA)"
    by (simp add: parties_ready_def sample_MN_def sample_FA_def sample_HA_def sample_env_def
          new_MobileIPNode_def new_MobileIPForeignAgent_def new_MobileIPHomeAgent_def IP_ANY_def
          IP_BROADCAST_def vl_inv_def mb_inv_def word_le_nat_alt)
  have path: "path_readable (\<lambda>_. 1) 0x0102A8C0 (sample_MN, sample_FA, sample_HA)" by code_simp
  have g: "min 90 (ha_maxAcceptedLifetime sample_HA) = 90" "mn_homeAddress sample_MN = 0x0200A8C0"
    "ha_publicAddress sample_HA = 0x0101A8C0" by code_simp+
  show ?thesis
    using registration_completes [OF ready path, of "\<lambda>i. redeliver 1"] g
    by (auto simp: transports_redeliver)
qed

text \<open>
  C2: Traffic reaches a registered node: when a node is bound to one care-of address and the foreign
  agent there has it as a visitor of this home agent, a datagram for its home address that comes
  by the home agent leaves in the tunnel towards that care-of address, and what the network
  delivers of it to the foreign agent comes out of the tunnel as the same datagram (up to TTL and
  header checksum), addressed to the node, on the visitors' side.
\<close>

theorem bound_traffic_reaches_visitor:
  assumes "mem_ok e" and "arrives p bs" and "20 \<le> length bs" and "processIPHeader p = Inr ip"
    and "ip_dst (inner_header bs) = ipdestination ip"
    and "mb_inv (ha_mobilityBindings ha)" and "vl_inv (fa_visitors fa)"
    and "\<forall>c. mb_lookup (ha_mobilityBindings ha) (ipdestination ip, c) \<noteq> None \<longleftrightarrow> c = careOf"
    and "vl_lookup (fa_visitors fa) (ipdestination ip, ha_publicAddress ha) \<noteq> None"
    and "\<not> looks_like_ether (ha_publicAddress ha)" and "transports t n"
  shows "\<exists>q r. ENC_push e p ha = Inr [Push 1 q, Kill p] \<and> p_dst_ip_anno q = careOf \<and>
    DEC_push (n q) fa = Inr [Push 1 r] \<and> arrives r (with_ttl t bs) \<and>
    p_dst_ip_anno r = ipdestination ip"
proof -
  have b: "mb_isMobileBinded (ipdestination ip) (ha_mobilityBindings ha)"
    using mb.bound_iff [OF assms(6)] assms(8) by blast
  obtain q where q: "ENC_push e p ha = Inr [Push 1 q, Kill p]"
    "arrives q (ip_datagram IP_PROTO_IPIP (bs ! 1) (ha_publicAddress ha)
       (mb_getCareOfAddress (ipdestination ip) (ha_mobilityBindings ha)) (bs ! 8 - 1) bs)"
    "p_dst_ip_anno q = mb_getCareOfAddress (ipdestination ip) (ha_mobilityBindings ha)"
    using assms(1-4) b by (rule ENC_push_bound)
  have c: "p_dst_ip_anno q = careOf"
    using q(3) mb.careOf_lookup [OF assms(6) b] assms(8) by simp
  obtain r where "DEC_push (n q) fa = Inr (if vl_has (ip_dst (inner_header bs)) (ha_publicAddress ha)
        (fa_visitors fa) then [Push 1 r] else [])"
    "arrives r (with_ttl t bs)" "p_dst_ip_anno r = ip_dst (inner_header bs)"
    using transportsD [OF assms(11) q(2)] assms(3,10) by (rule DEC_push_tunnelled)
  with q(1) c assms(5,7,9) show ?thesis by (auto simp: vl.has_iff)
qed

theorem bound_traffic_reaches_visitor_witness:
  "\<exists>q r. ENC_push sample_env (deliver sample_inner) sample_HA_bound = Inr [Push 1 q, Kill (deliver sample_inner)] \<and>
     p_dst_ip_anno q = 0x0201A8C0 \<and> DEC_push (redeliver 60 q) sample_FA_visited = Inr [Push 1 r] \<and>
     arrives r (with_ttl 60 sample_inner)"
proof -
  have tab: "mb_inv (ha_mobilityBindings sample_HA_bound)"
    "\<forall>c. mb_lookup (ha_mobilityBindings sample_HA_bound) (0x0200A8C0, c) \<noteq> None \<longleftrightarrow> c = 0x0201A8C0"
    "vl_inv (fa_visitors sample_FA_visited)"
    "vl_lookup (fa_visitors sample_FA_visited) (0x0200A8C0, ha_publicAddress sample_HA_bound) \<noteq> None"
    by (auto simp: sample_HA_bound_def sample_HA_def new_MobileIPHomeAgent_def mb_inv_def mb_lookup_def
          mb_key_def sample_FA_visited_def vl_inv_def vl_lookup_def vi_key_def)
  have pub: "\<not> looks_like_ether (ha_publicAddress sample_HA_bound)" by code_simp
  show ?thesis
    using bound_traffic_reaches_visitor [OF mem_ok_sample arrives_deliver sample_inner_facts(1,2) _ tab(1,3)
        _ _ pub transports_redeliver, of "0x0201A8C0" 60] tab sample_inner_facts(3)
    by auto
qed

text \<open>
  C21: The TTL decrement on the way is transparent: on a datagram as the packet builders make it, the
  incremental checksum update of \<open>DecIPTTL\<close> gives bit for bit the datagram with the header written
  anew for the smaller TTL.
\<close>

theorem DT_forwards_datagram:
  assumes "arrives p (ip_datagram proto tos s d ttl payload)" and "1 < ttl" and "\<not> shared p"
    and "dt_active st" and "dt_multicast st"
  shows "\<exists>q. DT_simple_action mem p st = Inr (st, [], Some q) \<and>
           arrives q (ip_datagram proto tos s d (ttl - 1) payload)"
  using DT_arrives [OF assms] by blast

theorem DT_forwards_datagram_witness:
  "let st = \<lparr>dt_active = True, dt_multicast = True, dt_drops = 0, dt_noutputs = 2\<rparr> in
   \<exists>q. DT_simple_action (e_mem sample_env) (deliver sample_inner) st = Inr (st, [], Some q) \<and>
     arrives q (ip_datagram IP_PROTO_UDP 0 0x0203A8C0 0x0200A8C0 63 [1, 2, 3])"
  using DT_forwards_datagram [OF arrives_deliver, where proto = IP_PROTO_UDP and tos = 0
      and s = "0x0203A8C0" and d = "0x0200A8C0" and ttl = 64 and payload = "[1, 2, 3]"]
  by (simp add: sample_inner_def Let_def deliver_def shared_def word_less_nat_alt)

end
