(* ===== verification/Advertiser.thy ===== *)
theory Advertiser
  imports Element_Model
begin

text \<open>
  \<^verbatim>\<open>elements/MobileIPAdvertiser.{hh,cc}\<close>: the agent advertisements of a link. The value of
  \<open>rand()\<close> is a parameter. \<open>sendAdvertisement\<close> has no \<open>return\<close>; its value is used nowhere but
  in the one-line overload, which passes it on to callers that ignore it.
\<close>

record MobileIPAdvertiser =
  av_isHomeAgent :: bool
  av_isForeignAgent :: bool
  av_sequenceNumber :: u32
  av_lifetime :: u32
  av_registrationLifetime :: u32
  av_linkAddress :: ipaddr
  av_careOfAddress :: ipaddr
  av_advertisementTimer :: timer

definition new_MobileIPAdvertiser :: MobileIPAdvertiser where
  "new_MobileIPAdvertiser =
     \<lparr>av_isHomeAgent = False, av_isForeignAgent = False, av_sequenceNumber = 0, av_lifetime = 45,
      av_registrationLifetime = 60, av_linkAddress = 0, av_careOfAddress = 0,
      av_advertisementTimer = Unscheduled\<rparr>"

definition AV_configure ::
  "ipaddr arg \<Rightarrow> ipaddr arg \<Rightarrow> bool arg \<Rightarrow> bool arg \<Rightarrow> MobileIPAdvertiser \<Rightarrow> int \<times> MobileIPAdvertiser" where
  "AV_configure LINK_ADDRESS CAREOF_ADDRESS FA HA st =
     (case (Args_read_m LINK_ADDRESS, Args_read CAREOF_ADDRESS (av_careOfAddress st),
            Args_read FA (av_isForeignAgent st), Args_read HA (av_isHomeAgent st)) of
        (Some link, Some careOf, Some fa, Some ha) \<Rightarrow>
          (let st = st\<lparr>av_linkAddress := link, av_careOfAddress := careOf,
                       av_isForeignAgent := fa, av_isHomeAgent := ha\<rparr> in
           if av_isForeignAgent st = av_isHomeAgent st then (-1, st) else (0, st))
      | _ \<Rightarrow> (-1, st))"

definition AV_initialize :: "MobileIPAdvertiser \<Rightarrow> int \<times> MobileIPAdvertiser" where
  "AV_initialize st = (0, st\<lparr>av_advertisementTimer := After_msec 3000\<rparr>)"

text \<open>
  \<open>ceil(this->lifetime/3)*1000 - (rand() % 100)\<close>: the division is on unsigned integers, so
  \<open>ceil\<close> rounds nothing. From a lifetime of 6442452 seconds on the \<open>double\<close> does not fit the \<open>int\<close> it is
  assigned to, which is undefined; here it is the exact number.
\<close>

definition AV_next :: "int \<Rightarrow> MobileIPAdvertiser \<Rightarrow> int" where
  "AV_next rand st = int (unat (av_lifetime st) div 3) * 1000 - rand mod 100"

definition AV_resetAdvertisementTimer :: "int \<Rightarrow> int \<Rightarrow> MobileIPAdvertiser \<Rightarrow> MobileIPAdvertiser" where
  "AV_resetAdvertisementTimer rand seconds st =
     (let st = st\<lparr>av_lifetime := word_of_int seconds\<rparr>
      in st\<lparr>av_advertisementTimer := After_msec (AV_next rand st)\<rparr>)"

text \<open>
  \<open>SECONDS\<close> is read with \<open>read_p\<close>, an optional argument: without it \<open>seconds\<close> stays the
  uninitialised \<open>undef\<close>. \<open>unread\<close>: further arguments are present.
\<close>

definition AV_changeLifetimeHandler ::
  "int \<Rightarrow> int \<Rightarrow> int arg \<Rightarrow> bool \<Rightarrow> MobileIPAdvertiser \<Rightarrow> int \<times> MobileIPAdvertiser" where
  "AV_changeLifetimeHandler undef rand SECONDS unread st =
     (case Args_read SECONDS undef of
        None \<Rightarrow> (-1, st)
      | Some seconds \<Rightarrow>
          if unread then (-1, st)
          else if seconds < 3 then (-1, st)
          else (0, AV_resetAdvertisementTimer rand seconds st))"

definition AV_write_registration_lifetime :: "u32 arg \<Rightarrow> MobileIPAdvertiser \<Rightarrow> int \<times> MobileIPAdvertiser" where
  "AV_write_registration_lifetime str st =
     (let (ret, v) = integer_data_write str (av_registrationLifetime st)
      in (ret, st\<lparr>av_registrationLifetime := v\<rparr>))"

definition AV_sendAdvertisement_to ::
  "env \<Rightarrow> ipaddr \<Rightarrow> MobileIPAdvertiser \<Rightarrow> (MobileIPAdvertiser \<times> effect list) res" where
  "AV_sendAdvertisement_to e destination st =
     res_bind (deref (buildRouterAdvertisementMessage (e_mem e) (av_lifetime st)
        (av_registrationLifetime st) (av_careOfAddress st) (av_sequenceNumber st)
        (av_isHomeAgent st) (av_isForeignAgent st))) (\<lambda>packet.
     res_bind (ICMPIPfy (e_mem e) packet (av_linkAddress st) destination 1) (\<lambda>packet.
     let st = (if av_sequenceNumber st = 65535 then st\<lparr>av_sequenceNumber := 256\<rparr>
               else st\<lparr>av_sequenceNumber := av_sequenceNumber st + 1\<rparr>) in
     Inr (st, [Push 0 packet])))"

definition AV_sendAdvertisement ::
  "env \<Rightarrow> MobileIPAdvertiser \<Rightarrow> (MobileIPAdvertiser \<times> effect list) res" where
  "AV_sendAdvertisement e st = AV_sendAdvertisement_to e IP_BROADCAST st"

definition AV_run_timer ::
  "env \<Rightarrow> int \<Rightarrow> MobileIPAdvertiser \<Rightarrow> (MobileIPAdvertiser \<times> effect list) res" where
  "AV_run_timer e rand st =
     res_bind (AV_sendAdvertisement e st) (\<lambda>(st, out).
     Inr (st\<lparr>av_advertisementTimer := After_msec (AV_next rand st)\<rparr>, out))"

definition AV_simple_action ::
  "env \<Rightarrow> packet \<Rightarrow> MobileIPAdvertiser \<Rightarrow> (MobileIPAdvertiser \<times> effect list) res" where
  "AV_simple_action e p st =
     (case processRouterSolicitationMessage p of
        Inl (ZeroChecksumException _) \<Rightarrow> Inr (st, [])
      | Inl (InvalidChecksumException _) \<Rightarrow> Inr (st, [])
      | Inl x \<Rightarrow> Inl x
      | Inr r \<Rightarrow> AV_sendAdvertisement_to e (ipsource (rs_IP r)) st)"

section \<open>Advertisements and their sequence numbers\<close>

definition next_sequence :: "u32 \<Rightarrow> u32" where
  "next_sequence n = (if n = 65535 then 256 else n + 1)"

definition av_advertises :: "MobileIPAdvertiser \<Rightarrow> ipaddr \<Rightarrow> effect list \<Rightarrow> bool" where
  "av_advertises st destination out \<longleftrightarrow>
     (\<exists>q. out = [Push 0 q] \<and> p_dst_ip_anno q = destination \<and>
        arrives q (ip_datagram IP_PROTO_ICMP 0 (av_linkAddress st) destination 1
          (adv_bytes (av_lifetime st) (av_registrationLifetime st) (av_careOfAddress st)
             (av_sequenceNumber st) (av_isHomeAgent st) (av_isForeignAgent st))))"

lemma AV_sendAdvertisement_sent:
  assumes "mem_ok e"
  obtains out where
    "AV_sendAdvertisement_to e destination st =
       Inr (st\<lparr>av_sequenceNumber := next_sequence (av_sequenceNumber st)\<rparr>, out)"
    "av_advertises st destination out"
proof -
  let ?bs = "adv_bytes (av_lifetime st) (av_registrationLifetime st) (av_careOfAddress st)
    (av_sequenceNumber st) (av_isHomeAgent st) (av_isForeignAgent st)"
  obtain m where m: "Packet_make (e_mem e) 38 None (length ?bs) 0 = Some m"
    using assms by (rule mem_okE)
  obtain q where
    "ICMPIPfy (e_mem e) (store (p_data m) ?bs m) (av_linkAddress st) destination 1 = Inr q"
    "arrives q (ip_datagram IP_PROTO_ICMP 0 (av_linkAddress st) destination 1 ?bs)"
    "p_dst_ip_anno q = destination"
    using m by (rule icmp_message_sent)
  with m that [of "[Push 0 q]"] show thesis
    by (auto simp: AV_sendAdvertisement_to_def build_adv_eq av_advertises_def next_sequence_def
          Let_def)
qed

lemma AV_sendAdvertisement_sequence:
  "AV_sendAdvertisement_to e destination st = Inr (st', out) \<Longrightarrow>
     av_sequenceNumber st' = next_sequence (av_sequenceNumber st)"
  by (auto simp: AV_sendAdvertisement_to_def res_bind_eq_Inr_iff next_sequence_def Let_def)

text \<open>The \<open>n\<close>-th advertisement after a start: 0, 1, ..., 65535, 256, ..., 65535, 256, ...\<close>

definition sequence_after :: "nat \<Rightarrow> nat" where
  "sequence_after n = (if n < 65536 then n else 256 + (n - 65536) mod 65280)"

lemma unat_next_sequence:
  "unat n < 65536 \<Longrightarrow> unat (next_sequence n) = (if unat n = 65535 then 256 else unat n + 1)"
proof -
  assume n: "unat n < 65536"
  have "n = 65535 \<longleftrightarrow> unat n = 65535" by (auto simp: word_unat_eq_iff)
  moreover have "unat (n + 1) = unat n + 1" using n by (simp add: unat_word_ariths)
  ultimately show ?thesis by (simp add: next_sequence_def)
qed

lemma sequence_after_Suc:
  "sequence_after (Suc n) = (if sequence_after n = 65535 then 256 else sequence_after n + 1)"
proof (cases "n < 65536")
  case False
  let ?m = "n - 65536"
  have "(?m + 1) mod 65280 = (if ?m mod 65280 = 65279 then 0 else ?m mod 65280 + 1)"
    by (simp add: mod_Suc)
  moreover have "Suc n - 65536 = ?m + 1" using False by simp
  ultimately show ?thesis using False by (simp add: sequence_after_def)
qed (auto simp: sequence_after_def)

lemma sequence_after_bounds: "sequence_after n < 65536" "256 \<le> n \<Longrightarrow> 256 \<le> sequence_after n"
proof -
  have "(n - 65536) mod 65280 < 65280" by simp
  then show "sequence_after n < 65536" unfolding sequence_after_def by simp
qed (simp add: sequence_after_def)

lemma unat_next_sequence_pow: "unat ((next_sequence ^^ n) 0) = sequence_after n"
proof (induction n)
  case (Suc n)
  then show ?case
    using unat_next_sequence [of "(next_sequence ^^ n) 0"] sequence_after_bounds(1) [of n]
    by (simp add: sequence_after_Suc)
qed (simp add: sequence_after_def)

section \<open>The interval\<close>

lemma AV_next_bounds:
  assumes "3 \<le> unat (av_lifetime st)" and "0 \<le> rand"
  shows "900 < AV_next rand st" and "3 * AV_next rand st \<le> 1000 * int (unat (av_lifetime st))"
proof -
  have r: "0 \<le> rand mod 100" "rand mod 100 < 100" by simp_all
  have "1 \<le> unat (av_lifetime st) div 3" using assms(1) by simp
  then have "1000 \<le> int (unat (av_lifetime st) div 3) * 1000" by linarith
  with r show "900 < AV_next rand st" by (simp add: AV_next_def)
  have "3 * (unat (av_lifetime st) div 3) \<le> unat (av_lifetime st)" by simp
  then have "3 * int (unat (av_lifetime st) div 3) \<le> int (unat (av_lifetime st))" by linarith
  with r show "3 * AV_next rand st \<le> 1000 * int (unat (av_lifetime st))"
    by (simp add: AV_next_def)
qed

section \<open>Events and invariant\<close>

datatype av_event =
    AV_Packet env packet
  | AV_Tick env int
  | AV_SetLifetime int int "int arg" bool
  | AV_SetRegistration "u32 arg"

definition AV_step :: "av_event \<Rightarrow> MobileIPAdvertiser \<Rightarrow> (MobileIPAdvertiser \<times> effect list) res" where
  "AV_step ev st =
     (case ev of
        AV_Packet e p \<Rightarrow> AV_simple_action e p st
      | AV_Tick e rand \<Rightarrow> AV_run_timer e rand st
      | AV_SetLifetime undef rand s unread \<Rightarrow>
          Inr (snd (AV_changeLifetimeHandler undef rand s unread st), [])
      | AV_SetRegistration s \<Rightarrow> Inr (snd (AV_write_registration_lifetime s st), []))"

definition av_inv :: "MobileIPAdvertiser \<Rightarrow> bool" where
  "av_inv st \<longleftrightarrow> unat (av_sequenceNumber st) < 65536"

lemma AV_send_inv:
  "AV_sendAdvertisement_to e d st = Inr (st', out) \<Longrightarrow> av_inv st \<Longrightarrow> av_inv st'"
  using unat_next_sequence [of "av_sequenceNumber st"]
  by (auto simp: av_inv_def AV_sendAdvertisement_sequence)

interpretation av: element_invariant AV_step av_inv
proof
  fix st st' :: MobileIPAdvertiser and ev out
  assume inv: "av_inv st" and step: "AV_step ev st = Inr (st', out)"
  have [simp]: "av_inv (s\<lparr>av_advertisementTimer := t\<rparr>) = av_inv s"
    "av_inv (s\<lparr>av_lifetime := l\<rparr>) = av_inv s"
    "av_inv (s\<lparr>av_registrationLifetime := l\<rparr>) = av_inv s" for s t l
    by (simp_all add: av_inv_def)
  show "av_inv st'"
  proof (cases ev)
    case (AV_Packet e p)
    with inv step show ?thesis
      by (auto simp: AV_step_def AV_simple_action_def split: sum.splits exn.splits dest: AV_send_inv)
  next
    case (AV_Tick e rand)
    with inv step show ?thesis
      by (auto simp: AV_step_def AV_run_timer_def AV_sendAdvertisement_def res_bind_eq_Inr_iff
            dest: AV_send_inv)
  next
    case (AV_SetLifetime undef rand s unread)
    with inv step show ?thesis
      by (auto simp: AV_step_def AV_changeLifetimeHandler_def AV_resetAdvertisementTimer_def Let_def
            split: option.splits)
  next
    case (AV_SetRegistration s)
    with inv step show ?thesis
      by (auto simp: AV_step_def AV_write_registration_lifetime_def Let_def split: prod.splits)
  qed
qed

section \<open>Properties\<close>

lemma AV_step_sequence:
  "AV_step ev st = Inr (st', out) \<Longrightarrow>
     av_sequenceNumber st' = (next_sequence ^^ length out) (av_sequenceNumber st)"
proof (cases ev)
  case (AV_Packet e p)
  have "length out = 1" if "AV_sendAdvertisement_to e d st = Inr (st', out)" for d
    using that by (auto simp: AV_sendAdvertisement_to_def res_bind_eq_Inr_iff Let_def)
  moreover assume "AV_step ev st = Inr (st', out)"
  ultimately show ?thesis using AV_Packet
    by (auto simp: AV_step_def AV_simple_action_def AV_sendAdvertisement_sequence
          split: sum.splits exn.splits)
next
  case (AV_Tick e rand)
  have "length out = 1 \<and> av_sequenceNumber s = next_sequence (av_sequenceNumber st)"
    if "AV_sendAdvertisement_to e d st = Inr (s, out)" for d s
    using that AV_sendAdvertisement_sequence [OF that]
    by (auto simp: AV_sendAdvertisement_to_def res_bind_eq_Inr_iff Let_def)
  moreover assume "AV_step ev st = Inr (st', out)"
  ultimately show ?thesis using AV_Tick
    by (auto simp: AV_step_def AV_run_timer_def AV_sendAdvertisement_def res_bind_eq_Inr_iff)
qed (auto simp: AV_step_def AV_changeLifetimeHandler_def AV_resetAdvertisementTimer_def Let_def
       AV_write_registration_lifetime_def split: option.splits prod.splits)

lemma AV_run_sequence:
  "run AV_step evs st = Inr (st', out) \<Longrightarrow>
     av_sequenceNumber st' = (next_sequence ^^ length out) (av_sequenceNumber st)"
proof (induction evs arbitrary: st out)
  case (Cons ev evs)
  then obtain s o1 o2 where "AV_step ev st = Inr (s, o1)" "run AV_step evs s = Inr (st', o2)"
    "out = o1 @ o2"
    by (auto simp: res_bind_eq_Inr_iff)
  with Cons.IH AV_step_sequence show ?case
    by (simp add: add.commute [of "length o1"] funpow_add)
qed simp

text \<open>The advertisements of a run, with the addresses and the role of a state and the sequence number \<open>n\<close>.\<close>

definition av_announces :: "MobileIPAdvertiser \<Rightarrow> nat \<Rightarrow> effect \<Rightarrow> bool" where
  "av_announces st n x \<longleftrightarrow>
     (\<exists>q destination lt rlt. x = Push 0 q \<and>
        arrives q (ip_datagram IP_PROTO_ICMP 0 (av_linkAddress st) destination 1
          (adv_bytes lt rlt (av_careOfAddress st) (of_nat n) (av_isHomeAgent st) (av_isForeignAgent st))))"

definition av_event_mem :: "av_event \<Rightarrow> bool" where
  "av_event_mem ev \<longleftrightarrow> (case ev of AV_Packet e p \<Rightarrow> mem_ok e | AV_Tick e rand \<Rightarrow> mem_ok e | _ \<Rightarrow> True)"

definition same_av :: "MobileIPAdvertiser \<Rightarrow> MobileIPAdvertiser \<Rightarrow> bool" where
  "same_av st st' \<longleftrightarrow> av_linkAddress st' = av_linkAddress st \<and> av_careOfAddress st' = av_careOfAddress st \<and>
     av_isHomeAgent st' = av_isHomeAgent st \<and> av_isForeignAgent st' = av_isForeignAgent st"

lemma AV_send_announces:
  assumes "mem_ok e" and "AV_sendAdvertisement_to e d st = Inr (st', out)"
  shows "same_av st st' \<and> (\<exists>x. out = [x] \<and> av_announces st (unat (av_sequenceNumber st)) x)"
proof -
  obtain o1 where o1: "AV_sendAdvertisement_to e d st = Inr (st\<lparr>av_sequenceNumber := next_sequence (av_sequenceNumber st)\<rparr>, o1)"
    "av_advertises st d o1" using assms(1) by (rule AV_sendAdvertisement_sent)
  have "of_nat (unat (av_sequenceNumber st)) = av_sequenceNumber st" by simp
  with o1(2) have "\<exists>x. o1 = [x] \<and> av_announces st (unat (av_sequenceNumber st)) x"
    unfolding av_advertises_def av_announces_def by metis
  then show ?thesis using assms(2) o1(1) by (auto simp: same_av_def)
qed

lemma AV_step_announces:
  assumes "AV_step ev st = Inr (st', out)" and "av_event_mem ev"
  shows "same_av st st' \<and> (out = [] \<or> (\<exists>x. out = [x] \<and> av_announces st (unat (av_sequenceNumber st)) x))"
proof (cases ev)
  case (AV_Packet e p)
  then show ?thesis using assms AV_send_announces [of e _ st st' out]
    by (auto simp: AV_step_def AV_simple_action_def av_event_mem_def same_av_def split: sum.splits exn.splits)
next
  case (AV_Tick e rand)
  then obtain s where s: "AV_sendAdvertisement_to e IP_BROADCAST st = Inr (s, out)" "same_av s st'"
    using assms(1) by (auto simp: AV_step_def AV_run_timer_def AV_sendAdvertisement_def res_bind_eq_Inr_iff same_av_def)
  then show ?thesis using AV_send_announces [OF _ s(1)] AV_Tick assms(2) by (auto simp: av_event_mem_def same_av_def)
qed (use assms in \<open>auto simp: AV_step_def AV_changeLifetimeHandler_def AV_resetAdvertisementTimer_def Let_def same_av_def
       AV_write_registration_lifetime_def split: option.splits prod.splits if_splits\<close>)

lemma av_announces_same: "same_av st st' \<Longrightarrow> av_announces st' = av_announces st"
  by (simp add: same_av_def av_announces_def [abs_def])

lemma AV_run_announces:
  "run AV_step evs st = Inr (st', out) \<Longrightarrow> \<forall>ev \<in> set evs. av_event_mem ev \<Longrightarrow>
     same_av st st' \<and> (\<forall>i < length out. av_announces st (unat ((next_sequence ^^ i) (av_sequenceNumber st))) (out ! i))"
proof (induction evs arbitrary: st out)
  case (Cons ev evs)
  then obtain s o1 o2 where s: "AV_step ev st = Inr (s, o1)" "run AV_step evs s = Inr (st', o2)" "out = o1 @ o2"
    by (auto simp: res_bind_eq_Inr_iff)
  note one = AV_step_announces [OF s(1)]
  have same: "same_av st s" using one Cons.prems(2) by simp
  have later: "same_av s st'" "\<forall>i < length o2. av_announces st (unat ((next_sequence ^^ i) (av_sequenceNumber s))) (o2 ! i)"
    using Cons.IH [OF s(2)] Cons.prems(2) av_announces_same [OF same] by auto
  have "av_announces st (unat ((next_sequence ^^ i) (av_sequenceNumber st))) (out ! i)" if "i < length out" for i
  proof (cases "o1 = []")
    case True
    then show ?thesis using later(2) AV_step_sequence [OF s(1)] that s(3) by simp
  next
    case False
    then obtain x where "o1 = [x]" "av_announces st (unat (av_sequenceNumber st)) x" using one Cons.prems(2) by auto
    then show ?thesis using later(2) AV_step_sequence [OF s(1)] that s(3) by (cases i) (auto simp: funpow_swap1)
  qed
  then show ?case using same later(1) by (simp add: same_av_def)
qed (simp add: same_av_def)

text \<open>
  C17: After any history of a configured and initialised advertiser in which \<open>n\<close> advertisements were sent, its
  sequence number is \<open>n\<close> for the first 65536 of them and from then on cycles through 256 ... 65535, so a number below 256
  identifies a restarted agent. The advertisement sent as number \<open>i\<close> carries the sequence number of that
  history, from the configured addresses and in the configured role.
\<close>

theorem AV_sequence_numbers:
  assumes "AV_configure link careOf fa ha new_MobileIPAdvertiser = (0, st0)"
    and "run AV_step evs (snd (AV_initialize st0)) = Inr (st, out)" and "\<forall>ev \<in> set evs. av_event_mem ev"
  shows "unat (av_sequenceNumber st) = sequence_after (length out) \<and>
    unat (av_sequenceNumber st) < 65536 \<and> (256 \<le> length out \<longrightarrow> 256 \<le> unat (av_sequenceNumber st)) \<and>
    av_isHomeAgent st0 = (\<not> av_isForeignAgent st0) \<and> (\<forall>i < length out. av_announces st0 (sequence_after i) (out ! i))"
proof -
  have c: "av_sequenceNumber st0 = 0" "av_isHomeAgent st0 = (\<not> av_isForeignAgent st0)"
    using assms(1) by (auto simp: AV_configure_def new_MobileIPAdvertiser_def Let_def split: option.splits if_splits)
  let ?s = "snd (AV_initialize st0)"
  have s: "av_sequenceNumber ?s = 0" "same_av st0 ?s" using c by (simp_all add: AV_initialize_def same_av_def)
  have "unat (av_sequenceNumber st) = sequence_after (length out)"
    using AV_run_sequence [OF assms(2)] unat_next_sequence_pow [of "length out"] s(1) by simp
  then show ?thesis
    using c(2) AV_run_announces [OF assms(2,3)] unat_next_sequence_pow s(1) av_announces_same [OF s(2)]
    by (simp add: sequence_after_bounds)
qed

theorem AV_sequence_numbers_witness:
  "\<exists>st0 st out. AV_configure (Given 0x0102A8C0) (Given 0x0201A8C0) (Given True) Absent new_MobileIPAdvertiser = (0, st0) \<and>
     run AV_step [AV_Tick sample_env 7, AV_Tick sample_env 8] (snd (AV_initialize st0)) = Inr (st, out) \<and>
     length out = 2 \<and> unat (av_sequenceNumber st) = 2 \<and> av_announces st0 1 (out ! 1)"
proof -
  obtain st0 where c: "AV_configure (Given 0x0102A8C0) (Given 0x0201A8C0) (Given True) Absent new_MobileIPAdvertiser = (0, st0)"
    by (simp add: AV_configure_def Args_read_m_def Args_read_def new_MobileIPAdvertiser_def)
  let ?s = "snd (AV_initialize st0)"
  obtain s1 o1 where s1: "AV_step (AV_Tick sample_env 7) ?s = Inr (s1, o1)" "length o1 = 1"
    by (rule AV_sendAdvertisement_sent [OF mem_ok_sample, of IP_BROADCAST ?s])
       (auto simp: AV_step_def AV_run_timer_def AV_sendAdvertisement_def av_advertises_def)
  obtain s2 o2 where s2: "AV_step (AV_Tick sample_env 8) s1 = Inr (s2, o2)" "length o2 = 1"
    by (rule AV_sendAdvertisement_sent [OF mem_ok_sample, of IP_BROADCAST s1])
       (auto simp: AV_step_def AV_run_timer_def AV_sendAdvertisement_def av_advertises_def)
  from s1 s2 have r: "run AV_step [AV_Tick sample_env 7, AV_Tick sample_env 8] ?s = Inr (s2, o1 @ o2)" by simp
  have "\<forall>ev \<in> set [AV_Tick sample_env 7, AV_Tick sample_env 8]. av_event_mem ev" by (simp add: av_event_mem_def)
  from AV_sequence_numbers [OF c r this] c r s1(2) s2(2) show ?thesis
    by (intro exI [of _ st0] exI [of _ s2] exI [of _ "o1 @ o2"]) (auto simp: sequence_after_def)
qed

text \<open>
  C18: While the lifetime is at least 3 and fits its 16-bit field, each tick broadcasts an
  advertisement and schedules the next so soon that three of them fit into the lifetime the
  advertisement announces, but not within 0.9 seconds.
\<close>

theorem AV_three_per_lifetime:
  assumes "mem_ok e" and "0 \<le> rand" and "3 \<le> unat (av_lifetime st)" and "unat (av_lifetime st) < 65536"
  shows "\<exists>st' out t. AV_run_timer e rand st = Inr (st', out) \<and>
    av_advertises st IP_BROADCAST out \<and> av_advertisementTimer st' = After_msec t \<and>
    900 < t \<and> 3 * t \<le> 1000 * int (unat (ucast (ucast (av_lifetime st) :: u16) :: u32))"
proof -
  obtain out where "AV_sendAdvertisement_to e IP_BROADCAST st =
       Inr (st\<lparr>av_sequenceNumber := next_sequence (av_sequenceNumber st)\<rparr>, out)"
    "av_advertises st IP_BROADCAST out"
    using assms(1) by (rule AV_sendAdvertisement_sent)
  with AV_next_bounds [OF assms(3,2)] assms(4) show ?thesis
    by (simp add: AV_run_timer_def AV_sendAdvertisement_def AV_next_def ucast_ucast_16)
qed

theorem AV_three_per_lifetime_witness:
  "\<exists>st' out t. AV_run_timer sample_env 42 new_MobileIPAdvertiser = Inr (st', out) \<and>
     av_advertisementTimer st' = After_msec t \<and> 900 < t \<and> 3 * t \<le> 45000"
  using AV_three_per_lifetime [of sample_env 42 new_MobileIPAdvertiser]
  by (auto simp: new_MobileIPAdvertiser_def)

text \<open>
  A lifetime of 65536 seconds or more, which the handler accepts, is announced modulo 65536
  while the interval follows the full value: with 65536 the agent announces the lifetime 0,
  which makes hosts drop it at once, and speaks again only after about six hours.
\<close>

theorem AV_long_lifetime_truncated:
  assumes "0 \<le> rand"
  shows "fst (AV_changeLifetimeHandler undef rand (Given 65536) False st) = 0 \<and>
    av_lifetime (snd (AV_changeLifetimeHandler undef rand (Given 65536) False st)) = 65536 \<and>
    (ucast (ucast (65536 :: u32) :: u16) :: u32) = 0 \<and>
    (\<exists>t > 21844000. av_advertisementTimer (snd (AV_changeLifetimeHandler undef rand (Given 65536) False st))
       = After_msec t)"
proof -
  have "rand mod 100 < 100" by simp
  then have "21845000 - rand mod 100 > 21844000" by linarith
  then show ?thesis
    by (simp add: AV_changeLifetimeHandler_def Args_read_def AV_resetAdvertisementTimer_def AV_next_def)
qed

theorem AV_long_lifetime_truncated_witness:
  "fst (AV_changeLifetimeHandler 0 5 (Given 65536) False new_MobileIPAdvertiser) = 0"
  using AV_long_lifetime_truncated [of 5 0 new_MobileIPAdvertiser] by simp

end
