(* ===== verification/Soliciter.thy ===== *)
theory Soliciter
  imports Mobile_Node
begin

text \<open>
  \<^verbatim>\<open>elements/MobileIPSoliciter.{hh,cc}\<close>, the move detection of the mobile node, and
  \<^verbatim>\<open>elements/MobileIPPacketTransformer.{hh,cc}\<close>, which sends the node's traffic to the agent's
  link address while it is away. The soliciter calls into its \<open>MobileIPNode\<close>, so its handlers
  act on the pair of both states; the effects they return are those on the node's output.
\<close>

record MobileIPSoliciter =
  so_connected :: bool
  so_enableFastMoving :: bool
  so_agentMAC :: ethaddr
  so_linkAddress :: ipaddr
  so_agentAddress :: ipaddr
  so_firstConnection :: bool
  so_lifetimeTimer :: timer
  so_solicitationTimer :: timer
  so_solicitationInterval :: u32
  so_advertisementSequenceNumber :: u32

definition new_MobileIPSoliciter :: MobileIPSoliciter where
  "new_MobileIPSoliciter =
     \<lparr>so_connected = False, so_enableFastMoving = False, so_agentMAC = EthernetAddress0,
      so_linkAddress = 0, so_agentAddress = 0, so_firstConnection = True,
      so_lifetimeTimer = Unscheduled, so_solicitationTimer = Unscheduled,
      so_solicitationInterval = 0, so_advertisementSequenceNumber = 0\<rparr>"

text \<open>The \<open>MN\<close> argument is an element reference; it is the node state the handlers get.\<close>

definition SO_configure :: "ipaddr arg \<Rightarrow> 'mn arg \<Rightarrow> MobileIPSoliciter \<Rightarrow> int \<times> MobileIPSoliciter" where
  "SO_configure LINK_ADDRESS MN st =
     (case (Args_read_m LINK_ADDRESS, Args_read_m MN) of
        (Some link, Some mn) \<Rightarrow> (0, st\<lparr>so_linkAddress := link\<rparr>)
      | _ \<Rightarrow> (-1, st))"

definition SO_initialize :: "MobileIPSoliciter \<Rightarrow> int \<times> MobileIPSoliciter" where
  "SO_initialize st = (0, st)"

definition SO_raiseLifetime :: "u32 \<Rightarrow> MobileIPSoliciter \<Rightarrow> MobileIPSoliciter" where
  "SO_raiseLifetime seconds st = st\<lparr>so_lifetimeTimer := After_msec (1000 * sint seconds)\<rparr>"

definition SO_disconnect :: "MobileIPSoliciter \<Rightarrow> MobileIPSoliciter" where
  "SO_disconnect st =
     st\<lparr>so_connected := False, so_agentAddress := 0, so_advertisementSequenceNumber := 0\<rparr>"

definition SO_isHome :: "MobileIPSoliciter \<Rightarrow> MobileIPNode \<Rightarrow> bool" where
  "SO_isHome st MN =
     (if so_connected st = False then True
      else if so_connected st = True \<and> so_agentAddress st = mn_homeAgentPrivateAddress MN then True
      else False)"

definition SO_sendSolicitation_to ::
  "env \<Rightarrow> ipaddr \<Rightarrow> MobileIPSoliciter \<Rightarrow> effect list res" where
  "SO_sendSolicitation_to e destination st =
     res_bind (deref (buildRouterSolicitationMessage (e_mem e))) (\<lambda>packet.
     res_bind (ICMPIPfy (e_mem e) packet (so_linkAddress st) destination 1) (\<lambda>packet.
     Inr [Push 0 packet]))"

definition SO_sendSolicitation :: "env \<Rightarrow> MobileIPSoliciter \<Rightarrow> effect list res" where
  "SO_sendSolicitation e st = SO_sendSolicitation_to e IP_BROADCAST st"

definition SO_lifetimeTimer_fires :: "MobileIPSoliciter \<Rightarrow> MobileIPSoliciter" where
  "SO_lifetimeTimer_fires st = SO_disconnect (st\<lparr>so_lifetimeTimer := Unscheduled\<rparr>)"

definition SO_solicitationTimer_fires ::
  "env \<Rightarrow> MobileIPSoliciter \<Rightarrow> (MobileIPSoliciter \<times> effect list) res" where
  "SO_solicitationTimer_fires e st =
     res_bind (SO_sendSolicitation e st) (\<lambda>out.
     Inr (st\<lparr>so_solicitationTimer := After_msec (1000 * int (unat (so_solicitationInterval st)))\<rparr>, out))"

definition SO_changeSolicitationInterval :: "u32 \<Rightarrow> MobileIPSoliciter \<Rightarrow> MobileIPSoliciter" where
  "SO_changeSolicitationInterval seconds st =
     (let st = st\<lparr>so_solicitationInterval := seconds\<rparr> in
      if seconds = 0 then st\<lparr>so_solicitationTimer := Unscheduled\<rparr>
      else st\<lparr>so_solicitationTimer := After_msec 0\<rparr>)"

definition SO_changeSolicitationIntervalHandler ::
  "int arg \<Rightarrow> bool \<Rightarrow> MobileIPSoliciter \<Rightarrow> int \<times> MobileIPSoliciter" where
  "SO_changeSolicitationIntervalHandler SECONDS unread st =
     (case Args_read_m SECONDS of
        None \<Rightarrow> (-1, st)
      | Some seconds \<Rightarrow>
          if unread then (-1, st) else (0, SO_changeSolicitationInterval (word_of_int seconds) st))"

definition SO_enableFastMovingHandler ::
  "bool arg \<Rightarrow> bool \<Rightarrow> MobileIPSoliciter \<Rightarrow> int \<times> MobileIPSoliciter" where
  "SO_enableFastMovingHandler VALUE unread st =
     (case Args_read_m VALUE of
        None \<Rightarrow> (-1, st)
      | Some enabled \<Rightarrow> if unread then (-1, st) else (0, st\<lparr>so_enableFastMoving := enabled\<rparr>))"

type_synonym mobile_host = "MobileIPSoliciter \<times> MobileIPNode"

definition SO_connect ::
  "env \<Rightarrow> routerAdvertisement \<Rightarrow> EtherHeader \<Rightarrow> bool \<Rightarrow> mobile_host \<Rightarrow> (mobile_host \<times> effect list) res" where
  "SO_connect e advertisement ether requestRegistration = (\<lambda>(st, MN).
     let st = st\<lparr>so_agentAddress := ipsource (ra_IP advertisement), so_connected := True\<rparr>;
         st = SO_raiseLifetime (ra_lifetime advertisement) st;
         st = st\<lparr>so_advertisementSequenceNumber := ra_sequenceNumber advertisement,
                 so_agentMAC := ethsource ether\<rparr> in
     if requestRegistration = True then
       res_bind (MN_reregister e (ipsource (ra_IP advertisement)) (ra_careOfAddress advertisement)
                   (ra_registrationLifetime advertisement) MN) (\<lambda>(MN, out).
       Inr ((st, MN), out))
     else Inr ((st, MN), []))"

text \<open>
  The decisions of \<open>simple_action\<close> once an advertisement was decoded.
\<close>

definition SO_advertised ::
  "env \<Rightarrow> routerAdvertisement \<Rightarrow> EtherHeader \<Rightarrow> mobile_host \<Rightarrow> (mobile_host \<times> effect list) res" where
  "SO_advertised e adv ether = (\<lambda>(st, MN).
     if ipsource (ra_IP adv) = mn_homeAgentPrivateAddress MN then
       (if so_connected st = True \<and> so_agentAddress st = ipsource (ra_IP adv) then
          (let st = st\<lparr>so_advertisementSequenceNumber := so_advertisementSequenceNumber st + 1\<rparr> in
           Inr ((SO_raiseLifetime (ra_lifetime adv) st, MN), []))
        else if so_firstConnection st = True then
          (let st = st\<lparr>so_firstConnection := False\<rparr> in
           SO_connect e adv ether False (SO_disconnect st, MN))
        else SO_connect e adv ether True (SO_disconnect st, MN))
     else if so_connected st = False then SO_connect e adv ether True (st, MN)
     else if so_agentAddress st = ipsource (ra_IP adv) then
       (if ra_sequenceNumber adv - 1 \<noteq> so_advertisementSequenceNumber st \<and> ra_sequenceNumber adv < 256 then
          res_bind (MN_reregister e (ipsource (ra_IP adv)) (ra_careOfAddress adv)
                      (ra_registrationLifetime adv) MN) (\<lambda>(MN, out).
          Inr ((st\<lparr>so_advertisementSequenceNumber := ra_sequenceNumber adv\<rparr>, MN), out))
        else
          (let st = st\<lparr>so_advertisementSequenceNumber := so_advertisementSequenceNumber st + 1\<rparr> in
           Inr ((SO_raiseLifetime (ra_lifetime adv) st, MN), [])))
     else if so_enableFastMoving st = True then SO_connect e adv ether True (SO_disconnect st, MN)
     else Inr ((st, MN), []))"

text \<open>
  After a checksum exception the handler goes on with the structure as it was declared: the
  address fields zero, the numbers uninitialised.
\<close>

definition uninit_adv :: "env \<Rightarrow> routerAdvertisement" where
  "uninit_adv e = (e_undef_adv e)\<lparr>ra_careOfAddress := 0, ra_IP := init_IPHeader\<rparr>"

definition SO_simple_action ::
  "env \<Rightarrow> packet \<Rightarrow> mobile_host \<Rightarrow> (mobile_host \<times> effect list) res" where
  "SO_simple_action e p st =
     res_bind (getPacketType p) (\<lambda>type.
     if type \<noteq> ADVERTISEMENT then Inr (st, []) else
     res_bind (processEtherHeader p True) (\<lambda>(ether, p).
     case processRouterAdvertisementMessage p of
       Inl (ZeroChecksumException _) \<Rightarrow> SO_advertised e (uninit_adv e) ether st
     | Inl (InvalidChecksumException _) \<Rightarrow> SO_advertised e (uninit_adv e) ether st
     | Inl x \<Rightarrow> Inl x
     | Inr adv \<Rightarrow> SO_advertised e adv ether st))"

section \<open>The packet transformer\<close>

text \<open>
  \<open>uniqueify\<close> and the push in \<open>Etherfy\<close> return the packet object itself unless its use count
  is above one, when \<open>uniqueify\<close> makes a clone. So \<open>p\<close> and \<open>q\<close> normally are one object, which
  the code kills before it pushes it.
\<close>

definition TR_configure :: "'so arg \<Rightarrow> int \<times> 'so option" where
  "TR_configure SOLICITER = (case Args_read_m SOLICITER of Some s \<Rightarrow> (0, Some s) | None \<Rightarrow> (-1, None))"

definition TR_push ::
  "env \<Rightarrow> packet \<Rightarrow> MobileIPSoliciter \<Rightarrow> MobileIPNode \<Rightarrow> effect list res" where
  "TR_push e p soliciter MN =
     (if SO_isHome soliciter MN = False \<and> isZero (so_agentMAC soliciter) = False then
        res_bind (deref (uniqueify (e_mem e) p)) (\<lambda>q.
        res_bind (processEtherHeader q False) (\<lambda>(ether, q).
        res_bind (Etherfy (e_mem e) q (ethsource ether) (so_agentMAC soliciter)) (\<lambda>q.
        let p = (if 1 < p_use_count p then p else q) in
        if isBroadcast (ethdestination ether) then Inr [Push 1 p]
        else Inr [Kill p, Push 1 q])))
      else Inr [Push 0 p])"

section \<open>Registering after a move\<close>

definition mn_moves :: "env \<Rightarrow> ipaddr \<Rightarrow> ipaddr \<Rightarrow> u32 \<Rightarrow> MobileIPNode \<Rightarrow> MobileIPNode" where
  "mn_moves e address careOf lt MN =
     (if mn_homeAgentPrivateAddress MN = address
      then MN\<lparr>mn_requests := mn_requests MN @
               [mn_request e address (ac_careOfAddress (mn_connection MN)) 0 1]\<rparr>
      else MN\<lparr>mn_requests := mn_requests MN @ [mn_request e address careOf lt 1]\<rparr>)
     \<lparr>mn_connection := (mn_connection MN)\<lparr>ac_connected := False, ac_agentAddress := address,
        ac_careOfAddress := careOf, ac_lifetime := lt, ac_remainingLifetime := lt\<rparr>\<rparr>"

text \<open>At home the node deregisters its last care-of address, elsewhere it registers the new one.\<close>

definition mn_move_sends ::
  "env \<Rightarrow> ipaddr \<Rightarrow> ipaddr \<Rightarrow> u32 \<Rightarrow> MobileIPNode \<Rightarrow> effect list \<Rightarrow> bool" where
  "mn_move_sends e address careOf lt MN out \<longleftrightarrow>
     (if mn_homeAgentPrivateAddress MN = address
      then mn_sends e MN address (ac_careOfAddress (mn_connection MN)) 0 1 out
      else mn_sends e MN address careOf lt 1 out)"

lemma MN_reregister_sent:
  assumes "mem_ok e"
  obtains out where "MN_reregister e address careOf lt MN = Inr (mn_moves e address careOf lt MN, out)"
    "mn_move_sends e address careOf lt MN out"
proof (cases "mn_homeAgentPrivateAddress MN = address")
  case True
  let ?co = "ac_careOfAddress (mn_connection MN)"
  obtain out where "MN_sendRequest e address ?co 0 1 MN =
      Inr (MN\<lparr>mn_requests := mn_requests MN @ [mn_request e address ?co 0 1]\<rparr>, out)"
    "mn_sends e MN address ?co 0 1 out"
    using assms by (rule MN_sendRequest_sent)
  with True that [of out] show thesis
    by (simp add: MN_reregister_def MN_deregister_def mn_moves_def mn_move_sends_def)
next
  case False
  obtain out where "MN_sendRequest e address careOf lt 1 MN =
      Inr (MN\<lparr>mn_requests := mn_requests MN @ [mn_request e address careOf lt 1]\<rparr>, out)"
    "mn_sends e MN address careOf lt 1 out"
    using assms by (rule MN_sendRequest_sent)
  with False that [of out] show thesis
    by (simp add: MN_reregister_def MN_registerFA_def mn_moves_def mn_move_sends_def)
qed

text \<open>The soliciter after it connected to the sender of an advertisement.\<close>

definition so_joined :: "routerAdvertisement \<Rightarrow> EtherHeader \<Rightarrow> MobileIPSoliciter \<Rightarrow> MobileIPSoliciter" where
  "so_joined adv ether st =
     st\<lparr>so_agentAddress := ipsource (ra_IP adv), so_connected := True,
        so_lifetimeTimer := After_msec (1000 * sint (ra_lifetime adv)),
        so_advertisementSequenceNumber := ra_sequenceNumber adv, so_agentMAC := ethsource ether\<rparr>"

lemma SO_connect_joins:
  assumes "mem_ok e"
  obtains out where
    "SO_connect e adv ether True (st, MN) =
       Inr ((so_joined adv ether st,
             mn_moves e (ipsource (ra_IP adv)) (ra_careOfAddress adv) (ra_registrationLifetime adv) MN), out)"
    "mn_move_sends e (ipsource (ra_IP adv)) (ra_careOfAddress adv) (ra_registrationLifetime adv) MN out"
proof -
  obtain out where
    "MN_reregister e (ipsource (ra_IP adv)) (ra_careOfAddress adv) (ra_registrationLifetime adv) MN
       = Inr (mn_moves e (ipsource (ra_IP adv)) (ra_careOfAddress adv) (ra_registrationLifetime adv) MN, out)"
    "mn_move_sends e (ipsource (ra_IP adv)) (ra_careOfAddress adv) (ra_registrationLifetime adv) MN out"
    using assms by (rule MN_reregister_sent)
  with that show thesis
    by (simp add: SO_connect_def SO_raiseLifetime_def so_joined_def Let_def)
qed

section \<open>Tracking an agent\<close>

text \<open>
  The recorded number \<open>m\<close> keeps up with the last received sequence number \<open>n\<close>: exactly while
  the agent's first 256 advertisements last, and past them it no longer matters.
\<close>

definition in_step :: "u32 \<Rightarrow> u32 \<Rightarrow> bool" where
  "in_step m n \<longleftrightarrow> unat n < 65536 \<and> (m = n \<or> 255 \<le> unat n)"

lemma unat_plus_1_u32: "unat (n :: u32) < 65536 \<Longrightarrow> unat (n + 1) = unat n + 1"
  by (simp add: unat_word_ariths)

lemma small_word_less_256: "(n :: u32) < 256 \<longleftrightarrow> unat n < 256"
  by (simp add: word_less_nat_alt)

section \<open>Properties\<close>

text \<open>A node away from home that follows the foreign agent 192.168.2.1.\<close>

definition sample_SO :: MobileIPSoliciter where
  "sample_SO = new_MobileIPSoliciter\<lparr>so_connected := True, so_agentAddress := 0x0102A8C0,
     so_linkAddress := 0x0200A8C0, so_advertisementSequenceNumber := 41, so_firstConnection := False,
     so_agentMAC := [2, 0, 0, 0, 0, 1]\<rparr>"

definition sample_adv :: routerAdvertisement where
  "sample_adv = \<lparr>ra_lifetime = 45, ra_code = 0, ra_sequenceNumber = 42, ra_registrationLifetime = 60,
     ra_homeAgent = False, ra_foreignAgent = True, ra_careOfAddress = 0x0201A8C0,
     ra_IP = \<lparr>ipsource = 0x0102A8C0, ipdestination = 0xffffffff\<rparr>\<rparr>"

definition sample_ether :: EtherHeader where
  "sample_ether = \<lparr>ethsource = [2, 0, 0, 0, 0, 1], ethdestination = [255, 255, 255, 255, 255, 255]\<rparr>"

text \<open>
  C16: A node that is not connected and hears an agent joins it: it records the agent's address, link
  address, sequence number and lifetime. If the agent is a foreign agent, it sends one registration
  request for the advertised care-of address; if it is its home agent, it sends one deregistration
  instead, except that a node whose flag \<open>firstConnection\<close> is still set sends nothing and clears the flag.
\<close>

theorem SO_joins_agent:
  assumes "mem_ok e" and "\<not> so_connected st"
  shows "\<exists>st' MN' out. SO_advertised e adv ether (st, MN) = Inr ((st', MN'), out) \<and>
    so_connected st' \<and> so_agentAddress st' = ipsource (ra_IP adv) \<and> so_agentMAC st' = ethsource ether \<and>
    so_advertisementSequenceNumber st' = ra_sequenceNumber adv \<and>
    so_lifetimeTimer st' = After_msec (1000 * sint (ra_lifetime adv)) \<and>
    (if ipsource (ra_IP adv) = mn_homeAgentPrivateAddress MN \<and> so_firstConnection st
     then MN' = MN \<and> out = [] \<and> \<not> so_firstConnection st'
     else MN' = mn_moves e (ipsource (ra_IP adv)) (ra_careOfAddress adv) (ra_registrationLifetime adv) MN \<and>
       mn_move_sends e (ipsource (ra_IP adv)) (ra_careOfAddress adv) (ra_registrationLifetime adv) MN out \<and>
       so_firstConnection st' = so_firstConnection st)"
proof (cases "ipsource (ra_IP adv) = mn_homeAgentPrivateAddress MN \<and> so_firstConnection st")
  case True
  then show ?thesis
    using assms(2) by (simp add: SO_advertised_def SO_connect_def SO_raiseLifetime_def SO_disconnect_def Let_def)
next
  case False
  define s where "s = (if ipsource (ra_IP adv) = mn_homeAgentPrivateAddress MN then SO_disconnect st else st)"
  obtain out where "SO_connect e adv ether True (s, MN) = Inr ((so_joined adv ether s,
        mn_moves e (ipsource (ra_IP adv)) (ra_careOfAddress adv) (ra_registrationLifetime adv) MN), out)"
    "mn_move_sends e (ipsource (ra_IP adv)) (ra_careOfAddress adv) (ra_registrationLifetime adv) MN out"
    using assms(1) by (rule SO_connect_joins)
  moreover have "SO_advertised e adv ether (st, MN) = SO_connect e adv ether True (s, MN)"
    using assms(2) False by (auto simp: SO_advertised_def s_def)
  moreover have "so_firstConnection s = so_firstConnection st" by (simp add: s_def SO_disconnect_def)
  ultimately show ?thesis using False by (auto simp: so_joined_def)
qed

theorem SO_joins_agent_witness:
  "\<exists>st' MN' out. SO_advertised sample_env sample_adv sample_ether (new_MobileIPSoliciter, sample_MN)
       = Inr ((st', MN'), out) \<and> so_agentAddress st' = 0x0102A8C0 \<and>
     mn_sends sample_env sample_MN 0x0102A8C0 0x0201A8C0 60 1 out"
  using SO_joins_agent [of sample_env new_MobileIPSoliciter sample_adv sample_ether sample_MN]
  by (auto simp: new_MobileIPSoliciter_def sample_adv_def mn_move_sends_def)

text \<open>
  The flag survives a connection with a foreign agent: a node that was first connected abroad and then
  comes home, having lost its agent, does not deregister, and its binding remains.
\<close>

theorem SO_first_home_after_visit:
  assumes "mem_ok e" and "\<not> so_connected st" and "so_firstConnection st"
    and "ipsource (ra_IP adv) \<noteq> mn_homeAgentPrivateAddress MN" and "ipsource (ra_IP home) = mn_homeAgentPrivateAddress MN"
  shows "\<exists>st' MN' out st''. SO_advertised e adv ether (st, MN) = Inr ((st', MN'), out) \<and>
    mn_sends e MN (ipsource (ra_IP adv)) (ra_careOfAddress adv) (ra_registrationLifetime adv) 1 out \<and>
    SO_advertised e home ether' (SO_disconnect st', MN') = Inr ((st'', MN'), [])"
proof -
  obtain out where "SO_connect e adv ether True (st, MN) = Inr ((so_joined adv ether st,
        mn_moves e (ipsource (ra_IP adv)) (ra_careOfAddress adv) (ra_registrationLifetime adv) MN), out)"
    "mn_move_sends e (ipsource (ra_IP adv)) (ra_careOfAddress adv) (ra_registrationLifetime adv) MN out"
    using assms(1) by (rule SO_connect_joins)
  moreover have "mn_homeAgentPrivateAddress (mn_moves e a c l MN) = mn_homeAgentPrivateAddress MN" for a c l
    by (simp add: mn_moves_def)
  ultimately show ?thesis using assms(2-5)
    by (auto simp: SO_advertised_def so_joined_def mn_move_sends_def SO_disconnect_def SO_connect_def SO_raiseLifetime_def)
qed

text \<open>
  An agent that was restarted (sequence number 0) makes a node connected to it register
  again, unless the recorded number is 2^32 - 1.
\<close>

theorem SO_detects_restart:
  assumes "mem_ok e" and "so_connected st" and "so_agentAddress st = ipsource (ra_IP adv)"
    and "ipsource (ra_IP adv) \<noteq> mn_homeAgentPrivateAddress MN" and "ra_sequenceNumber adv = 0"
    and "so_advertisementSequenceNumber st \<noteq> 0xffffffff"
  shows "\<exists>out. SO_advertised e adv ether (st, MN) =
      Inr ((st\<lparr>so_advertisementSequenceNumber := 0\<rparr>,
            mn_moves e (ipsource (ra_IP adv)) (ra_careOfAddress adv) (ra_registrationLifetime adv) MN), out) \<and>
    mn_sends e MN (ipsource (ra_IP adv)) (ra_careOfAddress adv) (ra_registrationLifetime adv) 1 out"
proof -
  obtain out where
    "MN_reregister e (ipsource (ra_IP adv)) (ra_careOfAddress adv) (ra_registrationLifetime adv) MN
       = Inr (mn_moves e (ipsource (ra_IP adv)) (ra_careOfAddress adv) (ra_registrationLifetime adv) MN, out)"
    "mn_move_sends e (ipsource (ra_IP adv)) (ra_careOfAddress adv) (ra_registrationLifetime adv) MN out"
    using assms(1) by (rule MN_reregister_sent)
  moreover have "(- 1 :: u32) = 0xffffffff" by code_simp
  then have "- 1 \<noteq> so_advertisementSequenceNumber st" using assms(6) by metis
  ultimately show ?thesis
    using assms(2-5) by (auto simp: SO_advertised_def mn_move_sends_def)
qed

theorem SO_detects_restart_witness:
  "\<exists>st MN out. SO_advertised sample_env (sample_adv\<lparr>ra_sequenceNumber := 0\<rparr>) sample_ether (sample_SO, sample_MN)
       = Inr ((st, MN), out) \<and> mn_sends sample_env sample_MN 0x0102A8C0 0x0201A8C0 60 1 out"
  using SO_detects_restart [of sample_env sample_SO "sample_adv\<lparr>ra_sequenceNumber := 0\<rparr>" sample_MN sample_ether]
  by (auto simp: sample_SO_def new_MobileIPSoliciter_def sample_adv_def)

text \<open>
  An advertisement with a wrong ICMP checksum is not dropped: a node that is not connected
  takes the default values of the structure for an advertisement, considers itself connected
  to 0.0.0.0 and sends a registration request there.
\<close>

theorem SO_joins_on_bad_checksum:
  assumes "mem_ok e" and "getPacketType p = Inr ADVERTISEMENT" and "processEtherHeader p True = Inr (ether, q)"
    and "processRouterAdvertisementMessage q = Inl (InvalidChecksumException m)"
    and "\<not> so_connected st" and "mn_homeAgentPrivateAddress MN \<noteq> 0"
  shows "\<exists>st' MN' out. SO_simple_action e p (st, MN) = Inr ((st', MN'), out) \<and>
    so_connected st' \<and> so_agentAddress st' = 0 \<and>
    mn_sends e MN 0 0 (ra_registrationLifetime (e_undef_adv e)) 1 out"
proof -
  let ?adv = "uninit_adv e"
  have adv: "ipsource (ra_IP ?adv) = 0" "ra_careOfAddress ?adv = 0"
    "ra_registrationLifetime ?adv = ra_registrationLifetime (e_undef_adv e)"
    by (simp_all add: uninit_adv_def init_IPHeader_def)
  obtain out where "SO_connect e ?adv ether True (st, MN) = Inr ((so_joined ?adv ether st,
        mn_moves e (ipsource (ra_IP ?adv)) (ra_careOfAddress ?adv) (ra_registrationLifetime ?adv) MN), out)"
    "mn_move_sends e (ipsource (ra_IP ?adv)) (ra_careOfAddress ?adv) (ra_registrationLifetime ?adv) MN out"
    using assms(1) by (rule SO_connect_joins)
  moreover have "SO_simple_action e p (st, MN) = SO_connect e ?adv ether True (st, MN)"
    using assms(2-6) adv by (simp add: SO_simple_action_def SO_advertised_def)
  ultimately show ?thesis using adv assms(6) by (auto simp: so_joined_def mn_move_sends_def)
qed

text \<open>An advertisement frame whose ICMP checksum field is 0, and what it decodes to.\<close>

definition sample_bad_frame :: packet where
  "sample_bad_frame = (deliver ([255, 255, 255, 255, 255, 255, 2, 0, 0, 0, 0, 1, 8, 0] @
     ip_datagram IP_PROTO_ICMP 0 0x0102A8C0 0xffffffff 1
       (enc_adv (adv_format 45 60 0x0201A8C0 1 False True))))\<lparr>p_nh := Some 14, p_h := Some 34\<rparr>"

lemma sample_bad_frame_facts:
  "getPacketType sample_bad_frame = Inr ADVERTISEMENT"
  "processEtherHeader sample_bad_frame True = Inr (sample_ether, pkt_pull 14 sample_bad_frame)"
  "processRouterAdvertisementMessage (pkt_pull 14 sample_bad_frame)
     = Inl (InvalidChecksumException ''Advertisement'')"
  by code_simp+

theorem SO_joins_on_bad_checksum_witness:
  "\<exists>st MN out. SO_simple_action sample_env sample_bad_frame (new_MobileIPSoliciter, sample_MN)
       = Inr ((st, MN), out) \<and> so_connected st \<and> so_agentAddress st = 0"
  using SO_joins_on_bad_checksum [OF mem_ok_sample sample_bad_frame_facts,
      of new_MobileIPSoliciter sample_MN]
  by (auto simp: new_MobileIPSoliciter_def)

text \<open>
  While a node is away and the packet is not shared, the transformer kills the packet and
  then pushes the very same object, with the new Ethernet header, to its output.
\<close>

theorem TR_kills_what_it_pushes:
  assumes "\<not> SO_isHome soliciter MN" and "\<not> isZero (so_agentMAC soliciter)"
    and "\<not> shared p" and "processEtherHeader p False = Inr (ether, p)"
    and "\<not> isBroadcast (ethdestination ether)"
    and "Etherfy (e_mem e) p (ethsource ether) (so_agentMAC soliciter) = Inr q"
  shows "TR_push e p soliciter MN = Inr [Kill q, Push 1 q]"
  using assms by (simp add: TR_push_def uniqueify_def shared_def)

definition sample_outgoing :: packet where
  "sample_outgoing = (deliver (replicate 14 0 @ ip_datagram IP_PROTO_UDP 0 0x0200A8C0 0x0203A8C0 64 [1, 2]))
     \<lparr>p_data := 14, p_len := 22\<rparr>"

theorem TR_kills_what_it_pushes_witness:
  "\<exists>q. TR_push sample_env sample_outgoing sample_SO sample_MN = Inr [Kill q, Push 1 q]"
proof -
  obtain ether where e: "processEtherHeader sample_outgoing False = Inr (ether, sample_outgoing)"
    "\<not> isBroadcast (ethdestination ether)"
    by (rule that [of "fst (projr (processEtherHeader sample_outgoing False))"]) code_simp+
  have "\<exists>q. Etherfy (e_mem sample_env) sample_outgoing s d = Inr q" for s d
    by (simp add: Etherfy_def sample_outgoing_def deliver_def pkt_push_def headroom_def shared_def
          wire_simps wr_def set_ether_header_def set_mac_header_def enc_ether_def EthernetAddress_def)
  then obtain q where "Etherfy (e_mem sample_env) sample_outgoing (ethsource ether) (so_agentMAC sample_SO) = Inr q"
    by blast
  moreover have "\<not> SO_isHome sample_SO sample_MN" "\<not> isZero (so_agentMAC sample_SO)" "\<not> shared sample_outgoing"
    by code_simp+
  ultimately show ?thesis
    using TR_kills_what_it_pushes [of sample_SO sample_MN sample_outgoing ether sample_env q] e by blast
qed

end
