(* ===== verification/Mobile_IP_Classifier.thy ===== *)
theory Mobile_IP_Classifier
  imports Element_Model
begin

text \<open>
  \<^verbatim>\<open>elements/MobileIPClassifier.{hh,cc}\<close>: the demultiplexer of Mobile IP messages. The
  \<open>std::map<PacketType, int>\<close> is a finite map; its iteration order is the order of the
  enumerators. \<open>noutputs\<close> is the number of output ports the router configuration gives the
  element: \<open>output(i)\<close> asserts that \<open>i\<close> is one of them.
\<close>

record MobileIPClassifier =
  cl_noutputs :: nat
  cl_mappings :: "PacketType \<Rightarrow> int option"

definition new_MobileIPClassifier :: "nat \<Rightarrow> MobileIPClassifier" where
  "new_MobileIPClassifier noutputs = \<lparr>cl_noutputs = noutputs, cl_mappings = Map.empty\<rparr>"

definition PacketType_enum :: "PacketType list" where
  "PacketType_enum = [IPINIP, ADVERTISEMENT, SOLICITATION, REGISTRATION, REPLY, UNKOWN]"

definition CL_addMapping ::
  "PacketType \<Rightarrow> int \<Rightarrow> MobileIPClassifier \<Rightarrow> bool \<times> MobileIPClassifier" where
  "CL_addMapping type port st =
     (if port = 0 then (False, st)
      else if list_ex (\<lambda>t. cl_mappings st t = Some port) PacketType_enum then (False, st)
      else (True, if cl_mappings st type = None
                  then st\<lparr>cl_mappings := (cl_mappings st)(type \<mapsto> port)\<rparr> else st))"

text \<open>The block \<open>if(x != -1 and addMapping(type, x) == false) return -1\<close>.\<close>

definition CL_map_option ::
  "PacketType \<Rightarrow> int \<Rightarrow> (MobileIPClassifier \<Rightarrow> int \<times> MobileIPClassifier) \<Rightarrow> MobileIPClassifier
     \<Rightarrow> int \<times> MobileIPClassifier" where
  "CL_map_option type port cont st =
     (if port \<noteq> -1
      then (let (ok, st) = CL_addMapping type port st in if ok = False then (-1, st) else cont st)
      else cont st)"

definition CL_configure ::
  "int arg \<Rightarrow> int arg \<Rightarrow> int arg \<Rightarrow> int arg \<Rightarrow> int arg \<Rightarrow> MobileIPClassifier
     \<Rightarrow> int \<times> MobileIPClassifier" where
  "CL_configure pREGISTRATION pREPLY pIPINIP pSOLICITATION pADVERTISEMENT st =
     (case (Args_read_or_set pREGISTRATION (-1), Args_read_or_set pREPLY (-1),
            Args_read_or_set pIPINIP (-1), Args_read_or_set pSOLICITATION (-1),
            Args_read_or_set pADVERTISEMENT (-1)) of
        (Some registration, Some reply, Some ipinip, Some solicitation, Some advertisement) \<Rightarrow>
          CL_map_option REGISTRATION registration
            (CL_map_option REPLY reply
              (CL_map_option IPINIP ipinip
                (CL_map_option SOLICITATION solicitation
                  (CL_map_option ADVERTISEMENT advertisement (Pair 0))))) st
      | _ \<Rightarrow> (-1, st))"

definition CL_push :: "packet \<Rightarrow> MobileIPClassifier \<Rightarrow> effect list res" where
  "CL_push p st =
     res_bind (getPacketType p) (\<lambda>type.
     let outputPort = (case cl_mappings st type of Some port \<Rightarrow> port | None \<Rightarrow> 0) in
     if 0 \<le> outputPort \<and> outputPort < int (cl_noutputs st)
     then Inr [Push (nat outputPort) p] else Inl AssertionFailure)"

section \<open>The mapping a configuration builds\<close>

definition cl_inv :: "MobileIPClassifier \<Rightarrow> bool" where
  "cl_inv st \<longleftrightarrow> (\<forall>t. cl_mappings st t \<noteq> Some 0) \<and>
     (\<forall>t t' port. cl_mappings st t = Some port \<longrightarrow> cl_mappings st t' = Some port \<longrightarrow> t = t')"

lemma set_PacketType_enum: "t \<in> set PacketType_enum"
  by (cases t) (simp_all add: PacketType_enum_def)

lemma CL_addMapping_port_used:
  "list_ex (\<lambda>t. m t = Some port) PacketType_enum \<longleftrightarrow> (\<exists>t. m t = Some (port :: int))"
  using set_PacketType_enum by (auto simp: list_ex_iff)

lemma CL_addMapping_inv:
  "cl_inv st \<Longrightarrow> CL_addMapping type port st = (ok, st') \<Longrightarrow> cl_inv st'"
  by (auto simp: CL_addMapping_def CL_addMapping_port_used cl_inv_def split: if_splits)

lemma CL_map_option_inv:
  assumes "cl_inv st" and "\<And>s. cl_inv s \<Longrightarrow> cl_inv (snd (cont s))"
  shows "cl_inv (snd (CL_map_option type port cont st))"
proof -
  have "cl_inv (snd (CL_addMapping type port st))"
    using assms(1) CL_addMapping_inv by (metis prod.collapse)
  with assms show ?thesis by (auto simp: CL_map_option_def Let_def split: prod.splits)
qed

lemma CL_configure_inv: "cl_inv st \<Longrightarrow> cl_inv (snd (CL_configure a b c d e st))"
  by (auto simp: CL_configure_def split: option.splits intro!: CL_map_option_inv)

lemma CL_push_mapped:
  assumes "getPacketType p = Inr type" and "cl_mappings st type = Some port"
    and "0 \<le> port" and "port < int (cl_noutputs st)"
  shows "CL_push p st = Inr [Push (nat port) p]"
  using assms by (simp add: CL_push_def)

lemma CL_push_Inr_iff:
  "CL_push p st = Inr out \<longleftrightarrow>
     (\<exists>type port. getPacketType p = Inr type \<and> out = [Push (nat port) p] \<and>
        0 \<le> port \<and> port < int (cl_noutputs st) \<and>
        port = (case cl_mappings st type of Some port \<Rightarrow> port | None \<Rightarrow> 0))"
  by (auto simp: CL_push_def res_bind_eq_Inr_iff Let_def)

section \<open>Properties\<close>

text \<open>
  C36: Whatever ports a configuration asks for, a configured classifier sends two packets of
  different types to the same port only when neither type has a mapping, and then to port 0;
  a mapped type never goes to port 0.
\<close>

theorem CL_separates_types:
  assumes "st = snd (CL_configure a b c d e (new_MobileIPClassifier n))"
    and "getPacketType p = Inr t" and "getPacketType q = Inr u" and "t \<noteq> u"
    and "CL_push p st = Inr [Push i p]" and "CL_push q st = Inr [Push j q]"
  shows "(i = j \<longrightarrow> i = 0 \<and> cl_mappings st t = None \<and> cl_mappings st u = None) \<and>
    (i = 0 \<longleftrightarrow> cl_mappings st t = None)"
proof -
  have "cl_inv (new_MobileIPClassifier n)" by (simp add: cl_inv_def new_MobileIPClassifier_def)
  then have inv: "cl_inv st" unfolding assms(1) by (rule CL_configure_inv)
  obtain x where x: "i = nat x" "0 \<le> x" "x = (case cl_mappings st t of Some port \<Rightarrow> port | None \<Rightarrow> 0)"
    using assms(2,5) by (auto simp: CL_push_Inr_iff)
  obtain y where y: "j = nat y" "0 \<le> y" "y = (case cl_mappings st u of Some port \<Rightarrow> port | None \<Rightarrow> 0)"
    using assms(3,6) by (auto simp: CL_push_Inr_iff)
  have "cl_mappings st t = None \<longleftrightarrow> x = 0" "cl_mappings st u = None \<longleftrightarrow> y = 0"
    using inv x(3) y(3) by (auto simp: cl_inv_def split: option.splits)
  moreover have "x = y \<Longrightarrow> cl_mappings st t = None"
    using inv x(3) y(3) assms(4) by (auto simp: cl_inv_def split: option.splits)
  ultimately show ?thesis using x(1,2) y(1,2) eq_nat_nat_iff [OF x(2) y(2)] by auto
qed

text \<open>
  The classifier of \<^verbatim>\<open>scripts/library/ha.click\<close> on a registration request and on an IP-in-IP packet.
\<close>

definition sample_registration_packet :: packet where
  "sample_registration_packet = deliver (udp_datagram 1 0x0200A8C0 5241 0x0102A8C0 434
     (request_bytes (e_clk sample_env) 100 0x0200A8C0 0x0101A8C0 0x0201A8C0 77))"

definition sample_tunnel_packet :: packet where
  "sample_tunnel_packet = deliver (ip_datagram IP_PROTO_IPIP 0 0x0101A8C0 0x0201A8C0 63
     (ip_datagram IP_PROTO_UDP 0 0x0203A8C0 0x0200A8C0 64 [1, 2, 3]))"

lemma sample_packet_types:
  "getPacketType sample_registration_packet = Inr REGISTRATION"
  "getPacketType sample_tunnel_packet = Inr IPINIP"
  by code_simp+

definition sample_classifier :: MobileIPClassifier where
  "sample_classifier = snd (CL_configure (Given 1) Absent Absent (Given 2) Absent (new_MobileIPClassifier 3))"

lemma sample_classifier_mappings:
  "cl_mappings sample_classifier REGISTRATION = Some 1" "cl_mappings sample_classifier IPINIP = None"
  "cl_noutputs sample_classifier = 3"
  by code_simp+

theorem CL_separates_types_witness:
  "CL_push sample_registration_packet sample_classifier = Inr [Push 1 sample_registration_packet] \<and>
   CL_push sample_tunnel_packet sample_classifier = Inr [Push 0 sample_tunnel_packet] \<and>
   cl_mappings sample_classifier REGISTRATION \<noteq> None"
proof -
  have pushes: "CL_push sample_registration_packet sample_classifier = Inr [Push 1 sample_registration_packet]"
    "CL_push sample_tunnel_packet sample_classifier = Inr [Push 0 sample_tunnel_packet]"
    by (simp_all add: CL_push_def sample_packet_types sample_classifier_mappings)
  with CL_separates_types [OF sample_classifier_def sample_packet_types, of 1 0] show ?thesis by simp
qed

end
