(* ===== verification/Route_Table.thy ===== *)
theory Route_Table
  imports Element_Model
begin

text \<open>
  The routing tables of the router configurations: the routes of \<^verbatim>\<open>click/elements/ip/iproutetable.hh\<close>;
  \<^verbatim>\<open>lineariplookup.{hh,cc}\<close>, a table in a vector whose entries carry an index (\<open>extra\<close>) before which no
  more specific route follows, with a cache of two lookups; and \<^verbatim>\<open>lookupiproute.cc\<close>
  (\<open>StaticIPLookup\<close>). An entry is removed by turning it into a dead route (\<open>kill\<close>) that matches the address 0.0.0.0 only.
\<close>

unbundle bit_operations_syntax

section \<open>Prefixes\<close>

definition matches_prefix :: "ipaddr \<Rightarrow> ipaddr \<Rightarrow> ipaddr \<Rightarrow> bool" where
  "matches_prefix a addr m \<longleftrightarrow> (a XOR addr) AND m = 0"

definition mask_as_specific :: "ipaddr \<Rightarrow> ipaddr \<Rightarrow> bool" where
  "mask_as_specific m n \<longleftrightarrow> m AND n = n"

text \<open>For lengths up to 32, which \<open>make_prefix\<close> asserts.\<close>

definition make_prefix :: "nat \<Rightarrow> ipaddr" where
  "make_prefix prefix_len =
     htonl (if prefix_len > 0 then push_bit (32 - prefix_len) 0xFFFFFFFF else 0)"

section \<open>Routes\<close>

record IPRoute =
  rt_addr :: ipaddr
  rt_mask :: ipaddr
  rt_gw :: ipaddr
  rt_port :: int
  rt_extra :: int

definition INT32_MIN :: int where "INT32_MIN = - 2147483648"

definition EEXIST :: int where "EEXIST = 17"

definition ENOENT :: int where "ENOENT = 2"

definition rt_real :: "IPRoute \<Rightarrow> bool" where
  "rt_real r \<longleftrightarrow> rt_port r > INT32_MIN"

definition rt_kill :: "IPRoute \<Rightarrow> IPRoute" where
  "rt_kill r = r\<lparr>rt_addr := 0, rt_mask := 0xFFFFFFFF, rt_port := INT32_MIN\<rparr>"

definition rt_contains :: "IPRoute \<Rightarrow> ipaddr \<Rightarrow> bool" where
  "rt_contains r a = matches_prefix a (rt_addr r) (rt_mask r)"

definition rt_contains_route :: "IPRoute \<Rightarrow> IPRoute \<Rightarrow> bool" where
  "rt_contains_route s r \<longleftrightarrow>
     matches_prefix (rt_addr r) (rt_addr s) (rt_mask s) \<and> mask_as_specific (rt_mask r) (rt_mask s)"

definition rt_match :: "IPRoute \<Rightarrow> IPRoute \<Rightarrow> bool" where
  "rt_match s r \<longleftrightarrow> rt_addr s = rt_addr r \<and> rt_mask s = rt_mask r \<and>
     (rt_port s < 0 \<or> (rt_gw s = rt_gw r \<and> rt_port s = rt_port r))"

section \<open>The linear table\<close>

record LinearIPLookup =
  li_t :: "IPRoute list"
  li_zero_route :: int
  li_last_addr :: ipaddr
  li_last_entry :: nat
  li_last_addr2 :: ipaddr
  li_last_entry2 :: nat
  li_noutputs :: nat

definition new_LinearIPLookup :: "nat \<Rightarrow> LinearIPLookup" where
  "new_LinearIPLookup n = \<lparr>li_t = [], li_zero_route = -1, li_last_addr = 0, li_last_entry = 0,
     li_last_addr2 = 0, li_last_entry2 = 0, li_noutputs = n\<rparr>"

definition LI_initialize :: "LinearIPLookup \<Rightarrow> int \<times> LinearIPLookup" where
  "LI_initialize st = (let st = st\<lparr>li_last_addr := 0\<rparr> in (0, st\<lparr>li_last_addr2 := li_last_addr st\<rparr>))"

text \<open>The entry of \<open>extra\<close> that stands for no later entry.\<close>

definition no_extra :: int where "no_extra = 0x7FFFFFFF"

text \<open>Entering a route into the slot \<open>found\<close>: the \<open>extra\<close> indices before it and its own.\<close>

definition LI_patch_up :: "nat \<Rightarrow> IPRoute \<Rightarrow> IPRoute list \<Rightarrow> IPRoute list" where
  "LI_patch_up found r t =
     (let t = t[found := (t ! found)\<lparr>rt_extra := no_extra\<rparr>];
          t = map (\<lambda>i. if i < found \<and> rt_contains_route (t ! i) r \<and> rt_extra (t ! i) > int found
                       then (t ! i)\<lparr>rt_extra := int found\<rparr> else t ! i) [0..<length t]
      in case find (\<lambda>i. rt_contains_route r (t ! i) \<and> rt_real (t ! i)) [Suc found..<length t] of
           Some i \<Rightarrow> t[found := (t ! found)\<lparr>rt_extra := int i\<rparr>]
         | None \<Rightarrow> t)"

text \<open>
  \<open>add_route\<close> returns the code, the route stored through \<open>replaced\<close>, if any, and the table. The
  loop looks for a route to overwrite and, on the way, for the first dead slot.
\<close>

definition LI_add_route ::
  "IPRoute \<Rightarrow> bool \<Rightarrow> LinearIPLookup \<Rightarrow> int \<times> IPRoute option \<times> LinearIPLookup" where
  "LI_add_route r allow_replace st =
     (let t = li_t st in
      case find (\<lambda>i. rt_real (t ! i) \<and> rt_addr (t ! i) = rt_addr r \<and> rt_mask (t ! i) = rt_mask r)
             [0..<length t] of
        Some i \<Rightarrow>
          if \<not> allow_replace then (- EEXIST, Some (t ! i), st)
          else (0, Some (t ! i),
                st\<lparr>li_t := t[i := (t ! i)\<lparr>rt_gw := rt_gw r, rt_port := rt_port r\<rparr>]\<rparr>)
      | None \<Rightarrow>
          let found = (case find (\<lambda>i. \<not> rt_real (t ! i)) [0..<length t] of Some i \<Rightarrow> i | None \<Rightarrow> length t);
              t = (if found = length t then t @ [r] else t[found := r]);
              st = st\<lparr>li_t := LI_patch_up found r t\<rparr>;
              st = (if rt_addr r = 0 \<and> rt_mask r = 0xFFFFFFFF
                    then st\<lparr>li_zero_route := int found\<rparr> else st)
          in (0, None, st\<lparr>li_last_addr := 0, li_last_addr2 := 0\<rparr>))"

text \<open>The code asserts that the route to 0.0.0.0 can be entered again; the assertion is the lemma \<open>LI_remove_assertion\<close>.\<close>

definition LI_remove_route ::
  "IPRoute \<Rightarrow> LinearIPLookup \<Rightarrow> int \<times> IPRoute option \<times> LinearIPLookup" where
  "LI_remove_route route st =
     (let t = li_t st in
      case find (\<lambda>i. rt_match route (t ! i)) [0..<length t] of
        None \<Rightarrow> (- ENOENT, None, st)
      | Some i \<Rightarrow>
          let old = t ! i;
              st = st\<lparr>li_t := t[i := rt_kill (t ! i)]\<rparr>;
              st = (if int i = li_zero_route st then st\<lparr>li_zero_route := -1\<rparr>
                    else if int i < li_zero_route st then
                      (let z = nat (li_zero_route st);
                           zero = li_t st ! z;
                           st = st\<lparr>li_t := (li_t st)[z := rt_kill zero]\<rparr>
                       in snd (snd (LI_add_route zero False st)))
                    else st)
          in (0, Some old, st\<lparr>li_last_addr := 0, li_last_addr2 := 0\<rparr>))"

definition LI_more_specific :: "IPRoute list \<Rightarrow> ipaddr \<Rightarrow> nat \<Rightarrow> nat \<Rightarrow> nat" where
  "LI_more_specific t a j found =
     (if rt_contains (t ! j) a \<and> mask_as_specific (rt_mask (t ! j)) (rt_mask (t ! found))
      then j else found)"

definition LI_lookup_entry :: "ipaddr \<Rightarrow> IPRoute list \<Rightarrow> nat option" where
  "LI_lookup_entry a t =
     (case find (\<lambda>i. rt_contains (t ! i) a) [0..<length t] of
        None \<Rightarrow> None
      | Some i \<Rightarrow> Some (fold (LI_more_specific t a) [nat (rt_extra (t ! i))..<length t] i))"

definition LI_lookup_route :: "ipaddr \<Rightarrow> LinearIPLookup \<Rightarrow> (ipaddr \<times> int) option" where
  "LI_lookup_route a st =
     (case LI_lookup_entry a (li_t st) of
        Some ei \<Rightarrow> Some (rt_gw (li_t st ! ei), rt_port (li_t st ! ei))
      | None \<Rightarrow> None)"

text \<open>\<open>output(port)\<close> with a port the element does not have is a read outside the port array.\<close>

definition LI_emit :: "IPRoute \<Rightarrow> packet \<Rightarrow> LinearIPLookup \<Rightarrow> (LinearIPLookup \<times> effect list) res" where
  "LI_emit e p st =
     (let p = (if rt_gw e \<noteq> 0 then set_dst_ip_anno (rt_gw e) p else p) in
      if 0 \<le> rt_port e \<and> rt_port e < int (li_noutputs st)
      then Inr (st, [Push (nat (rt_port e)) p]) else Inl OutOfBounds)"

definition LI_push :: "packet \<Rightarrow> LinearIPLookup \<Rightarrow> (LinearIPLookup \<times> effect list) res" where
  "LI_push p st =
     (let a = p_dst_ip_anno p in
      if a \<noteq> 0 \<and> a = li_last_addr st then LI_emit (li_t st ! li_last_entry st) p st
      else if a \<noteq> 0 \<and> a = li_last_addr2 st then LI_emit (li_t st ! li_last_entry2 st) p st
      else
        (case LI_lookup_entry a (li_t st) of
           Some ei \<Rightarrow>
             (let st = st\<lparr>li_last_addr2 := li_last_addr st, li_last_entry2 := li_last_entry st,
                          li_last_addr := a, li_last_entry := ei\<rparr>
              in LI_emit (li_t st ! ei) p st)
         | None \<Rightarrow> Inr (st, [Kill p])))"

text \<open>\<open>check\<close> returns whether it found no fault; its result is only used for messages.\<close>

definition LI_check :: "LinearIPLookup \<Rightarrow> bool" where
  "LI_check st =
     (let t = li_t st in
      list_all (\<lambda>i. \<not> rt_real (t ! i) \<or>
        list_all (\<lambda>j. \<not> (rt_contains_route (t ! i) (t ! j) \<and> rt_real (t ! j)))
          [Suc i..<nat (min (rt_extra (t ! i)) (int (length t)))]) [0..<length t] \<and>
      list_all (\<lambda>i. list_all (\<lambda>j. \<not> (rt_addr (t ! i) = rt_addr (t ! j) \<and> rt_mask (t ! i) = rt_mask (t ! j) \<and>
        rt_real (t ! i) \<and> rt_real (t ! j))) [Suc i..<length t]) [0..<length t] \<and>
      (li_last_addr st \<noteq> 0 \<longrightarrow> LI_lookup_entry (li_last_addr st) t = Some (li_last_entry st)) \<and>
      (li_last_addr2 st \<noteq> 0 \<longrightarrow> LI_lookup_entry (li_last_addr2 st) t = Some (li_last_entry2 st)))"

section \<open>The static table\<close>

definition SI_add_route ::
  "bool \<Rightarrow> IPRoute \<Rightarrow> bool \<Rightarrow> LinearIPLookup \<Rightarrow> int \<times> IPRoute option \<times> LinearIPLookup" where
  "SI_add_route initialized route allow_replace st =
     (if initialized then (- EINVAL, None, st) else LI_add_route route allow_replace st)"

definition SI_remove_route ::
  "bool \<Rightarrow> IPRoute \<Rightarrow> LinearIPLookup \<Rightarrow> int \<times> IPRoute option \<times> LinearIPLookup" where
  "SI_remove_route initialized r st =
     (if initialized then (- EINVAL, None, st) else LI_remove_route r st)"

section \<open>Masks\<close>

definition prefix_mask :: "ipaddr \<Rightarrow> bool" where
  "prefix_mask m \<longleftrightarrow> m \<in> set (map make_prefix [0..<33])"

lemma htonl_and: "htonl (x AND y) = htonl x AND htonl y"
  by (rule bit_word_eqI) (auto simp: htonl_def le32_def bit_simps)

lemma prefix_masks_comparable:
  assumes "prefix_mask m" and "prefix_mask n"
  shows "mask_as_specific m n \<or> mask_as_specific n m"
proof -
  define u :: "nat \<Rightarrow> u32" where "u i = (if i > 0 then push_bit (32 - i) 0xFFFFFFFF else 0)" for i
  have ones: "(0xFFFFFFFF :: u32) = mask 32" by (simp add: mask_eq_exp_minus_1)
  have bit_u: "bit (u i) k \<longleftrightarrow> k < 32 \<and> 32 - i \<le> k" if "i \<le> 32" for i k
    using that unfolding u_def ones by (auto simp: bit_simps)
  have le: "u j AND u i = u i" if "i \<le> j" "j \<le> 32" for i j
    by (rule bit_word_eqI) (use that in \<open>auto simp: bit_u bit_and_iff\<close>)
  have "\<exists>i \<le> 32. k = htonl (u i)" if "prefix_mask k" for k
    using that less_Suc_eq_le [of _ 32] by (fastforce simp: prefix_mask_def make_prefix_def u_def)
  with assms obtain i j where ij: "i \<le> 32" "j \<le> 32" "m = htonl (u i)" "n = htonl (u j)"
    by blast
  show ?thesis
  proof (cases "i \<le> j")
    case True
    then show ?thesis using le [of i j] ij by (simp add: mask_as_specific_def flip: htonl_and)
  next
    case False
    then show ?thesis using le [of j i] ij by (simp add: mask_as_specific_def flip: htonl_and)
  qed
qed

lemma mask_as_specific_refl [simp]: "mask_as_specific m m"
  by (simp add: mask_as_specific_def)

lemma mask_as_specific_trans:
  assumes "mask_as_specific l m" and "mask_as_specific m n"
  shows "mask_as_specific l n"
  using assms unfolding mask_as_specific_def by (metis and.assoc and.commute)

lemma mask_as_specific_antisym: "mask_as_specific m n \<Longrightarrow> mask_as_specific n m \<Longrightarrow> m = n"
  unfolding mask_as_specific_def by (metis and.commute)

lemma matches_prefix_iff: "matches_prefix a b m \<longleftrightarrow> a AND m = b AND m"
proof -
  have "(a XOR b) AND m = (a AND m) XOR (b AND m)" by (rule bit_word_eqI) (auto simp: bit_simps)
  moreover have "x XOR y = 0 \<longleftrightarrow> x = y" for x y :: u32
    by (metis xor.assoc xor.left_neutral xor.right_neutral xor_self_eq)
  ultimately show ?thesis by (simp add: matches_prefix_def)
qed

text \<open>Two prefixes of one address: the less specific one is a prefix of the other.\<close>

lemma matches_prefix_nested:
  assumes "matches_prefix a b m" and "matches_prefix a c n" and "mask_as_specific n m"
  shows "matches_prefix c b m"
proof -
  have "c AND m = (c AND n) AND m" using assms(3) by (metis mask_as_specific_def and.assoc)
  also have "\<dots> = a AND m" using assms(2,3) by (metis mask_as_specific_def matches_prefix_iff and.assoc)
  finally show ?thesis using assms(1) by (simp add: matches_prefix_iff)
qed

section \<open>Tables as maps\<close>

type_synonym rt_prefix = "ipaddr \<times> ipaddr"

type_synonym rt_map = "rt_prefix \<Rightarrow> (ipaddr \<times> int) option"

definition rt_key :: "IPRoute \<Rightarrow> rt_prefix" where
  "rt_key r = (rt_addr r, rt_mask r)"

definition rt_val :: "IPRoute \<Rightarrow> ipaddr \<times> int" where
  "rt_val r = (rt_gw r, rt_port r)"

text \<open>
  What \<open>cp_ip_route\<close> makes of a prefix \<open>a.b.c.d/n\<close>, and a route with an output port. The parser also accepts
  a dotted mask that is no prefix; such routes are outside what is shown of the table.
\<close>

definition rt_parsed :: "IPRoute \<Rightarrow> bool" where
  "rt_parsed r \<longleftrightarrow> rt_addr r AND rt_mask r = rt_addr r \<and> prefix_mask (rt_mask r)"

definition rt_wf :: "IPRoute \<Rightarrow> bool" where
  "rt_wf r \<longleftrightarrow> rt_parsed r \<and> 0 \<le> rt_port r"

definition li_map :: "IPRoute list \<Rightarrow> rt_map" where
  "li_map t k = map_option rt_val (find (\<lambda>r. rt_real r \<and> rt_key r = k) t)"

text \<open>
  Longest prefix match: \<open>v\<close> belongs to a prefix of \<open>a\<close> in the table that is at least as specific as
  every other prefix of \<open>a\<close> in the table.
\<close>

definition longest_match :: "rt_map \<Rightarrow> ipaddr \<Rightarrow> ipaddr \<times> int \<Rightarrow> bool" where
  "longest_match T a v \<longleftrightarrow>
     (\<exists>addr m. T (addr, m) = Some v \<and> matches_prefix a addr m \<and>
        (\<forall>addr' m'. T (addr', m') \<noteq> None \<and> matches_prefix a addr' m' \<longrightarrow> mask_as_specific m m'))"

section \<open>The invariant of the linear table\<close>

definition zero_prefix :: rt_prefix where "zero_prefix = (0, 0xFFFFFFFF)"

definition li_ok :: "IPRoute list \<Rightarrow> bool" where
  "li_ok t \<longleftrightarrow>
     (\<forall>i < length t. if rt_real (t ! i) then rt_wf (t ! i) else rt_key (t ! i) = zero_prefix) \<and>
     (\<forall>i < length t. \<forall>j < length t. rt_real (t ! i) \<and> rt_real (t ! j) \<and>
        rt_key (t ! i) = rt_key (t ! j) \<longrightarrow> i = j) \<and>
     (\<forall>j < length t. \<forall>i < j. rt_real (t ! i) \<and> rt_real (t ! j) \<and> int j < rt_extra (t ! i) \<longrightarrow>
        \<not> rt_contains_route (t ! i) (t ! j))"

lemma find_upt_Some:
  "find P [a..<b] = Some i \<longleftrightarrow> a \<le> i \<and> i < b \<and> P i \<and> (\<forall>j. a \<le> j \<and> j < i \<longrightarrow> \<not> P j)"
proof
  assume "find P [a..<b] = Some i"
  then obtain k where k: "k < length [a..<b]" "P ([a..<b] ! k)" "i = [a..<b] ! k"
    "\<forall>j<k. \<not> P ([a..<b] ! j)" by (auto simp: find_Some_iff)
  then have "i = a + k" by simp
  moreover have "\<not> P j" if "a \<le> j" "j < a + k" for j
    using k(4) [rule_format, of "j - a"] k(1) that by simp
  ultimately show "a \<le> i \<and> i < b \<and> P i \<and> (\<forall>j. a \<le> j \<and> j < i \<longrightarrow> \<not> P j)" using k by simp
next
  assume *: "a \<le> i \<and> i < b \<and> P i \<and> (\<forall>j. a \<le> j \<and> j < i \<longrightarrow> \<not> P j)"
  then show "find P [a..<b] = Some i"
    unfolding find_Some_iff by (intro exI [of _ "i - a"]) auto
qed

lemma find_upt_None: "find P [a..<b] = None \<longleftrightarrow> (\<forall>j. a \<le> j \<and> j < b \<longrightarrow> \<not> P j)"
  by (auto simp: find_None_iff)

lemma li_okD:
  assumes "li_ok t" and "i < length t"
  shows "rt_real (t ! i) \<Longrightarrow> rt_wf (t ! i)" "\<not> rt_real (t ! i) \<Longrightarrow> rt_key (t ! i) = zero_prefix"
  using assms by (auto simp: li_ok_def split: if_splits)

lemma li_ok_unique:
  assumes "li_ok t" and "i < length t" and "j < length t" and "rt_real (t ! i)" and "rt_real (t ! j)"
    and "rt_key (t ! i) = rt_key (t ! j)"
  shows "i = j"
  using assms unfolding li_ok_def by blast

lemma li_ok_extra:
  assumes "li_ok t" and "i < j" and "j < length t" and "rt_real (t ! i)" and "rt_real (t ! j)"
    and "int j < rt_extra (t ! i)"
  shows "\<not> rt_contains_route (t ! i) (t ! j)"
  using assms unfolding li_ok_def by blast

lemma li_map_SomeD:
  assumes "li_map t k = Some v"
  obtains i where "i < length t" "rt_real (t ! i)" "rt_key (t ! i) = k" "rt_val (t ! i) = v"
  using assms by (auto simp: li_map_def find_Some_iff)

lemma li_map_Some:
  assumes "li_ok t" and "i < length t" and "rt_real (t ! i)"
  shows "li_map t (rt_key (t ! i)) = Some (rt_val (t ! i))"
proof -
  have "find (\<lambda>r. rt_real r \<and> rt_key r = rt_key (t ! i)) t = Some (t ! i)"
    unfolding find_Some_iff using assms li_ok_unique [OF assms(1)]
    by (intro exI [of _ i]) (metis order.strict_trans nat_neq_iff)
  then show ?thesis by (simp add: li_map_def)
qed

lemma li_map_None:
  "li_map t k = None \<longleftrightarrow> (\<forall>i < length t. rt_real (t ! i) \<longrightarrow> rt_key (t ! i) \<noteq> k)"
  by (auto simp: li_map_def find_None_iff in_set_conv_nth)

lemma dead_contains:
  assumes "li_ok t" and "i < length t" and "rt_contains (t ! i) a" and "a \<noteq> 0"
  shows "rt_real (t ! i)"
proof (rule ccontr)
  assume "\<not> rt_real (t ! i)"
  then have "rt_addr (t ! i) = 0" "rt_mask (t ! i) = 0xFFFFFFFF"
    using li_okD(2) [OF assms(1,2)] by (simp_all add: rt_key_def zero_prefix_def)
  then have "a AND 0xFFFFFFFF = 0" using assms(3) by (simp add: rt_contains_def matches_prefix_def)
  moreover have "(0xFFFFFFFF :: u32) = - 1" by simp
  ultimately show False using assms(4) by simp
qed

section \<open>Lookup is longest prefix match\<close>

lemma LI_fold_best:
  assumes "li_ok t" and "a \<noteq> 0" and "i < length t" and "rt_contains (t ! i) a" and "n \<le> length t"
    and "f = fold (LI_more_specific t a) [m..<n] i"
  shows "f < length t \<and> rt_contains (t ! f) a \<and> mask_as_specific (rt_mask (t ! f)) (rt_mask (t ! i)) \<and>
    (\<forall>k. m \<le> k \<and> k < n \<and> rt_contains (t ! k) a \<longrightarrow> mask_as_specific (rt_mask (t ! f)) (rt_mask (t ! k)))"
  using assms(5) unfolding assms(6)
proof (induction n)
  case (Suc n)
  show ?case
  proof (cases "m \<le> n")
    case False
    then show ?thesis using assms(3,4) by auto
  next
    case True
    define g where "g = fold (LI_more_specific t a) [m..<n] i"
    have g: "g < length t" "rt_contains (t ! g) a" "mask_as_specific (rt_mask (t ! g)) (rt_mask (t ! i))"
      "\<And>k. m \<le> k \<Longrightarrow> k < n \<Longrightarrow> rt_contains (t ! k) a \<Longrightarrow> mask_as_specific (rt_mask (t ! g)) (rt_mask (t ! k))"
      using Suc unfolding g_def by auto
    have step: "fold (LI_more_specific t a) [m..<Suc n] i = LI_more_specific t a n g"
      using True by (simp add: g_def)
    have pm: "prefix_mask (rt_mask (t ! k))" if "k < length t" "rt_contains (t ! k) a" for k
      using dead_contains [OF assms(1) that assms(2)] li_okD(1) [OF assms(1) that(1)]
      by (simp add: rt_wf_def rt_parsed_def)
    have "mask_as_specific (rt_mask (t ! g)) (rt_mask (t ! n))"
      if "rt_contains (t ! n) a" "\<not> mask_as_specific (rt_mask (t ! n)) (rt_mask (t ! g))"
      using prefix_masks_comparable [OF pm pm] that g(1,2) Suc.prems by (meson Suc_le_eq)
    then show ?thesis
      unfolding step using g Suc.prems
      by (auto simp: LI_more_specific_def less_Suc_eq intro: mask_as_specific_trans)
  qed
qed (use assms(3,4) in simp)

lemma LI_lookup_entry_best:
  assumes "li_ok t" and "a \<noteq> 0" and "LI_lookup_entry a t = Some f"
  shows "f < length t \<and> rt_contains (t ! f) a \<and> rt_real (t ! f) \<and>
    (\<forall>k < length t. rt_contains (t ! k) a \<longrightarrow> mask_as_specific (rt_mask (t ! f)) (rt_mask (t ! k)))"
proof -
  obtain i where i: "i < length t" "rt_contains (t ! i) a" "\<forall>j < i. \<not> rt_contains (t ! j) a"
    and f: "f = fold (LI_more_specific t a) [nat (rt_extra (t ! i))..<length t] i"
    using assms(3) by (auto simp: LI_lookup_entry_def find_upt_Some split: option.splits)
  have b: "f < length t" "rt_contains (t ! f) a" "mask_as_specific (rt_mask (t ! f)) (rt_mask (t ! i))"
    "\<And>k. nat (rt_extra (t ! i)) \<le> k \<Longrightarrow> k < length t \<Longrightarrow> rt_contains (t ! k) a \<Longrightarrow>
       mask_as_specific (rt_mask (t ! f)) (rt_mask (t ! k))"
    using LI_fold_best [OF assms(1,2) i(1,2) order_refl f] by auto
  have "mask_as_specific (rt_mask (t ! f)) (rt_mask (t ! k))" if k: "k < length t" "rt_contains (t ! k) a" for k
  proof -
    have real: "rt_real (t ! i)" "rt_real (t ! k)" using dead_contains [OF assms(1)] i k assms(2) by auto
    consider "k = i" | "i < k" "int k < rt_extra (t ! i)" | "nat (rt_extra (t ! i)) \<le> k"
      using i(3) k(2) by (meson linorder_neqE_nat nat_le_iff not_le)
    then show ?thesis
    proof cases
      case 2
      then have "\<not> rt_contains_route (t ! i) (t ! k)" using li_ok_extra [OF assms(1)] k real by blast
      then have "\<not> mask_as_specific (rt_mask (t ! k)) (rt_mask (t ! i))"
        using matches_prefix_nested i(2) k(2) unfolding rt_contains_route_def rt_contains_def by blast
      then have "mask_as_specific (rt_mask (t ! i)) (rt_mask (t ! k))"
        using prefix_masks_comparable li_okD(1) [OF assms(1)] i(1) k(1) real
        by (auto simp: rt_wf_def rt_parsed_def)
      with b(3) show ?thesis by (rule mask_as_specific_trans)
    qed (use b k in auto)
  qed
  with b dead_contains [OF assms(1)] assms(2) show ?thesis by blast
qed

lemma LI_lookup_entry_None:
  "LI_lookup_entry a t = None \<longleftrightarrow> (\<forall>i < length t. \<not> rt_contains (t ! i) a)"
  by (auto simp: LI_lookup_entry_def find_upt_None find_upt_Some split: option.splits)

lemma same_prefix:
  assumes "rt_parsed r" and "rt_parsed s" and "rt_mask r = rt_mask s"
    and "rt_contains r a" and "rt_contains s a"
  shows "rt_key r = rt_key s"
  using assms by (simp add: rt_key_def rt_parsed_def rt_contains_def matches_prefix_iff)

lemma rt_contains_key: "rt_key r = (addr, m) \<Longrightarrow> rt_contains r a = matches_prefix a addr m"
  by (auto simp: rt_key_def rt_contains_def)

lemma LI_lookup_is_longest_match:
  assumes "li_ok t" and "a \<noteq> 0"
  shows "(case LI_lookup_entry a t of None \<Rightarrow> None | Some f \<Rightarrow> Some (rt_val (t ! f))) = Some v
           \<longleftrightarrow> longest_match (li_map t) a v"
proof
  assume "(case LI_lookup_entry a t of None \<Rightarrow> None | Some f \<Rightarrow> Some (rt_val (t ! f))) = Some v"
  then obtain f where f: "LI_lookup_entry a t = Some f" "v = rt_val (t ! f)"
    by (auto split: option.splits)
  note b = LI_lookup_entry_best [OF assms f(1)]
  have "li_map t (rt_addr (t ! f), rt_mask (t ! f)) = Some v"
    using li_map_Some [OF assms(1), of f] b f(2) by (simp add: rt_key_def)
  moreover have "mask_as_specific (rt_mask (t ! f)) m'"
    if m': "li_map t (addr', m') \<noteq> None" "matches_prefix a addr' m'" for addr' m'
  proof -
    obtain k where "k < length t" "rt_key (t ! k) = (addr', m')"
      using m'(1) by (auto elim: li_map_SomeD)
    with m'(2) b show ?thesis by (auto simp: rt_contains_def rt_key_def)
  qed
  ultimately show "longest_match (li_map t) a v"
    using b unfolding longest_match_def rt_contains_def by blast
next
  assume "longest_match (li_map t) a v"
  then obtain addr m where m: "li_map t (addr, m) = Some v" "matches_prefix a addr m"
    "\<And>addr' m'. li_map t (addr', m') \<noteq> None \<Longrightarrow> matches_prefix a addr' m' \<Longrightarrow> mask_as_specific m m'"
    unfolding longest_match_def by blast
  obtain k where k: "k < length t" "rt_real (t ! k)" "rt_key (t ! k) = (addr, m)" "rt_val (t ! k) = v"
    using m(1) by (rule li_map_SomeD)
  have ck: "rt_contains (t ! k) a" using m(2) k(3) by (simp add: rt_contains_key)
  then obtain f where f: "LI_lookup_entry a t = Some f"
    using LI_lookup_entry_None [of a t] k(1) by blast
  note b = LI_lookup_entry_best [OF assms f]
  have "li_map t (rt_addr (t ! f), rt_mask (t ! f)) \<noteq> None"
    using li_map_Some [OF assms(1), of f] b by (simp add: rt_key_def)
  then have "rt_mask (t ! f) = rt_mask (t ! k)"
    using m(3) b ck k(1,3) by (intro mask_as_specific_antisym) (auto simp: rt_contains_def rt_key_def)
  then have "rt_key (t ! f) = rt_key (t ! k)"
    using li_okD(1) [OF assms(1)] b k ck by (intro same_prefix [of _ _ a]) (auto simp: rt_wf_def)
  then have "f = k" using li_ok_unique [OF assms(1)] b k by blast
  with f k(4) show "(case LI_lookup_entry a t of None \<Rightarrow> None | Some f \<Rightarrow> Some (rt_val (t ! f))) = Some v"
    by simp
qed

section \<open>Adding a route\<close>

text \<open>What \<open>LI_patch_up\<close> leaves in each slot: the route it held, with a new \<open>extra\<close>.\<close>

definition new_extra :: "nat \<Rightarrow> IPRoute \<Rightarrow> IPRoute list \<Rightarrow> nat \<Rightarrow> int" where
  "new_extra found r t j =
     (if j = found then
        (case find (\<lambda>i. rt_contains_route r (t ! i) \<and> rt_real (t ! i)) [Suc found..<length t] of
           Some i \<Rightarrow> int i | None \<Rightarrow> no_extra)
      else if j < found \<and> rt_contains_route (t ! j) r \<and> rt_extra (t ! j) > int found then int found
      else rt_extra (t ! j))"

lemma rt_upd_extra [simp]:
  "rt_real (s\<lparr>rt_extra := x\<rparr>) = rt_real s" "rt_key (s\<lparr>rt_extra := x\<rparr>) = rt_key s"
  "rt_val (s\<lparr>rt_extra := x\<rparr>) = rt_val s" "rt_wf (s\<lparr>rt_extra := x\<rparr>) = rt_wf s"
  "rt_contains_route (s\<lparr>rt_extra := x\<rparr>) r = rt_contains_route s r"
  "rt_contains_route r (s\<lparr>rt_extra := x\<rparr>) = rt_contains_route r s"
  by (simp_all add: rt_real_def rt_key_def rt_val_def rt_wf_def rt_parsed_def rt_contains_route_def)

lemma find_cong_upt:
  "(\<And>i. a \<le> i \<Longrightarrow> i < b \<Longrightarrow> P i = Q i) \<Longrightarrow> find P [a..<b] = find Q [a..<b]"
  by (rule find_cong) auto

lemma LI_patch_up_nth:
  assumes "found < length t"
  shows "length (LI_patch_up found r t) = length t"
    and "j < length t \<Longrightarrow> LI_patch_up found r t ! j = (t ! j)\<lparr>rt_extra := new_extra found r t j\<rparr>"
proof -
  define t1 where "t1 = t[found := (t ! found)\<lparr>rt_extra := no_extra\<rparr>]"
  define t2 where "t2 = map (\<lambda>i. if i < found \<and> rt_contains_route (t1 ! i) r \<and> rt_extra (t1 ! i) > int found
      then (t1 ! i)\<lparr>rt_extra := int found\<rparr> else t1 ! i) [0..<length t1]"
  define F where "F = find (\<lambda>i. rt_contains_route r (t2 ! i) \<and> rt_real (t2 ! i)) [Suc found..<length t2]"
  have pu: "LI_patch_up found r t = (case F of Some i \<Rightarrow> t2[found := (t2 ! found)\<lparr>rt_extra := int i\<rparr>] | None \<Rightarrow> t2)"
    unfolding LI_patch_up_def Let_def t1_def [symmetric] t2_def [symmetric] F_def [symmetric] ..
  have l: "length t1 = length t" "length t2 = length t" by (simp_all add: t1_def t2_def)
  have t2_nth: "t2 ! i = (if i = found then (t ! i)\<lparr>rt_extra := no_extra\<rparr>
      else if i < found \<and> rt_contains_route (t ! i) r \<and> rt_extra (t ! i) > int found
        then (t ! i)\<lparr>rt_extra := int found\<rparr> else t ! i)" if "i < length t" for i
    using that assms by (simp add: t2_def t1_def nth_list_update)
  have F: "F = find (\<lambda>i. rt_contains_route r (t ! i) \<and> rt_real (t ! i)) [Suc found..<length t]"
    unfolding F_def l by (rule find_cong_upt) (simp add: t2_nth)
  show "length (LI_patch_up found r t) = length t" by (simp add: pu l split: option.splits)
  show "LI_patch_up found r t ! j = (t ! j)\<lparr>rt_extra := new_extra found r t j\<rparr>" if "j < length t"
    using that assms l unfolding pu
    by (cases F) (auto simp: nth_list_update t2_nth new_extra_def F [symmetric])
qed

lemma option_eqI: "(\<And>v. x = Some v \<longleftrightarrow> y = Some v) \<Longrightarrow> x = y"
  by (cases x; cases y) auto

lemma li_map_iff:
  assumes "li_ok t"
  shows "li_map t k = Some v \<longleftrightarrow>
    (\<exists>i < length t. rt_real (t ! i) \<and> rt_key (t ! i) = k \<and> rt_val (t ! i) = v)"
  using li_map_Some [OF assms] by (auto elim: li_map_SomeD)

definition put_route :: "nat \<Rightarrow> IPRoute \<Rightarrow> IPRoute list \<Rightarrow> IPRoute list" where
  "put_route found r t = (if found = length t then t @ [r] else t[found := r])"

definition free_slot :: "nat \<Rightarrow> IPRoute list \<Rightarrow> bool" where
  "free_slot found t \<longleftrightarrow> found = length t \<or> (found < length t \<and> \<not> rt_real (t ! found))"

lemma put_route_nth:
  assumes "free_slot found t"
  shows "found < length (put_route found r t)" "put_route found r t ! found = r"
    "length t \<le> length (put_route found r t)"
    "j < length (put_route found r t) \<Longrightarrow> j \<noteq> found \<Longrightarrow> j < length t \<and> put_route found r t ! j = t ! j"
    "j < length t \<Longrightarrow> j \<noteq> found \<Longrightarrow> put_route found r t ! j = t ! j"
  using assms by (auto simp: put_route_def free_slot_def nth_append)

lemma wf_is_real: "rt_wf r \<Longrightarrow> rt_real r"
  by (simp add: rt_wf_def rt_real_def INT32_MIN_def)

lemma LI_enter_ok:
  assumes ok: "li_ok t" and wf: "rt_wf r" and slot: "free_slot found t"
    and new: "li_map t (rt_key r) = None"
  shows "li_ok (LI_patch_up found r (put_route found r t))"
proof -
  define t1 where "t1 = put_route found r t"
  define t2 where "t2 = LI_patch_up found r t1"
  note p = put_route_nth [OF slot, where r = r, folded t1_def]
  have t2: "length t2 = length t1" "j < length t1 \<Longrightarrow> t2 ! j = (t1 ! j)\<lparr>rt_extra := new_extra found r t1 j\<rparr>" for j
    using LI_patch_up_nth [OF p(1), where r = r] by (simp_all add: t2_def)
  have old: "rt_key (t1 ! j) \<noteq> rt_key r" if "j < length t1" "j \<noteq> found" "rt_real (t1 ! j)" for j
    using new p(4) that by (auto simp: li_map_None)
  have slots: "if rt_real (t2 ! i) then rt_wf (t2 ! i) else rt_key (t2 ! i) = zero_prefix" if "i < length t2" for i
  proof (cases "i = found")
    case True
    then show ?thesis using that t2 p(2) wf by (simp add: wf_is_real)
  next
    case False
    then show ?thesis using that t2 p(4) [of i] li_okD [OF ok, of i] by simp
  qed
  moreover have "i = j" if "i < length t2" "j < length t2" "rt_real (t2 ! i)" "rt_real (t2 ! j)"
    "rt_key (t2 ! i) = rt_key (t2 ! j)" for i j
    using that t2 p(2) p(4) [of i] p(4) [of j] old [of i] old [of j] li_ok_unique [OF ok, of i j]
    by (cases "i = found"; cases "j = found") simp_all
  moreover have "\<not> rt_contains_route (t2 ! i) (t2 ! j)"
    if a: "j < length t2" "i < j" "rt_real (t2 ! i)" "rt_real (t2 ! j)" "int j < rt_extra (t2 ! i)" for i j
  proof -
    have i: "i < length t1" "j < length t1" using a t2(1) by auto
    have e: "int j < new_extra found r t1 i" using a(5) i t2(2) by simp
    have "\<not> rt_contains_route (t1 ! i) (t1 ! j)"
    proof (cases "i = found")
      case True
      show ?thesis
      proof (cases "find (\<lambda>i. rt_contains_route r (t1 ! i) \<and> rt_real (t1 ! i)) [Suc found..<length t1]")
        case None
        then show ?thesis using True a i t2(2) p(2) by (auto simp: find_upt_None)
      next
        case (Some k)
        then have "j < k" using e True by (simp add: new_extra_def)
        then show ?thesis using Some True a i t2(2) p(2) by (auto simp: find_upt_Some)
      qed
    next
      case False
      show ?thesis
      proof (cases "j = found")
        case True
        then show ?thesis using e a(2) p(2) False by (auto simp: new_extra_def split: if_splits)
      next
        case jf: False
        have "int j < rt_extra (t ! i)"
          using e False p(4) [OF i(1)] a(2) by (auto simp: new_extra_def split: if_splits)
        then show ?thesis
          using li_ok_extra [OF ok, of i j] p(4) i a(2-4) False jf t2(2) by auto
      qed
    qed
    then show ?thesis using t2(2) i by simp
  qed
  ultimately have "li_ok t2" unfolding li_ok_def by blast
  then show ?thesis by (simp add: t2_def t1_def)
qed

lemma LI_enter_map:
  assumes ok: "li_ok t" and wf: "rt_wf r" and slot: "free_slot found t"
    and new: "li_map t (rt_key r) = None"
  shows "li_map (LI_patch_up found r (put_route found r t)) = (li_map t)(rt_key r \<mapsto> rt_val r)"
proof -
  define t1 where "t1 = put_route found r t"
  define t2 where "t2 = LI_patch_up found r t1"
  note p = put_route_nth [OF slot, where r = r, folded t1_def]
  have t2: "length t2 = length t1" "j < length t1 \<Longrightarrow> rt_real (t2 ! j) = rt_real (t1 ! j)"
    "j < length t1 \<Longrightarrow> rt_key (t2 ! j) = rt_key (t1 ! j)" "j < length t1 \<Longrightarrow> rt_val (t2 ! j) = rt_val (t1 ! j)" for j
    using LI_patch_up_nth [OF p(1), where r = r] by (simp_all add: t2_def)
  have "li_map t2 k = Some v \<longleftrightarrow> ((li_map t)(rt_key r \<mapsto> rt_val r)) k = Some v" for k v
  proof -
    have "li_map t2 k = Some v \<longleftrightarrow>
        (\<exists>i < length t1. rt_real (t1 ! i) \<and> rt_key (t1 ! i) = k \<and> rt_val (t1 ! i) = v)"
      unfolding li_map_iff [OF LI_enter_ok [OF assms], folded t1_def, folded t2_def] using t2 by auto
    also have "\<dots> \<longleftrightarrow> (rt_key r = k \<and> rt_val r = v) \<or>
        (\<exists>i < length t. rt_real (t ! i) \<and> rt_key (t ! i) = k \<and> rt_val (t ! i) = v)"
    proof -
      have q1: "(\<exists>i < length t1. Q (t1 ! i)) \<longleftrightarrow> Q r \<or> (\<exists>i < length t. i \<noteq> found \<and> Q (t ! i))" for Q
        using p(1-4) p(5) [OF order_less_le_trans] by (metis order_less_le_trans)
      have q2: "(\<exists>i < length t. i \<noteq> found \<and> rt_real (t ! i) \<and> R (t ! i)) \<longleftrightarrow>
          (\<exists>i < length t. rt_real (t ! i) \<and> R (t ! i))" for R
        using slot unfolding free_slot_def by (metis nat_neq_iff)
      show ?thesis
        using wf_is_real [OF wf] q1 [of "\<lambda>s. rt_real s \<and> rt_key s = k \<and> rt_val s = v"]
          q2 [of "\<lambda>s. rt_key s = k \<and> rt_val s = v"] by simp
    qed
    also have "\<dots> \<longleftrightarrow> ((li_map t)(rt_key r \<mapsto> rt_val r)) k = Some v"
      using new by (auto simp: li_map_iff [OF ok] li_map_None)
    finally show ?thesis .
  qed
  then show ?thesis unfolding t2_def t1_def by (intro ext option_eqI)
qed

section \<open>The table with its zero route\<close>

text \<open>
  \<open>_zero_route\<close> is the slot of the real route for 0.0.0.0/32, which no dead slot precedes; dead slots
  match that address too.
\<close>

definition li_zero_ok :: "int \<Rightarrow> IPRoute list \<Rightarrow> bool" where
  "li_zero_ok z t \<longleftrightarrow>
     (if li_map t zero_prefix = None then z = -1
      else 0 \<le> z \<and> nat z < length t \<and> rt_real (t ! nat z) \<and> rt_key (t ! nat z) = zero_prefix \<and>
           (\<forall>i < nat z. rt_real (t ! i)))"

definition li_table_ok :: "LinearIPLookup \<Rightarrow> bool" where
  "li_table_ok st \<longleftrightarrow> li_ok (li_t st) \<and> li_zero_ok (li_zero_route st) (li_t st)"

abbreviation li_table :: "LinearIPLookup \<Rightarrow> rt_map" where
  "li_table st \<equiv> li_map (li_t st)"

definition first_free :: "IPRoute list \<Rightarrow> nat" where
  "first_free t = (case find (\<lambda>i. \<not> rt_real (t ! i)) [0..<length t] of Some i \<Rightarrow> i | None \<Rightarrow> length t)"

lemma first_free_slot: "free_slot (first_free t) t" "j < first_free t \<Longrightarrow> j < length t \<and> rt_real (t ! j)"
  by (auto simp: first_free_def free_slot_def find_upt_Some find_upt_None split: option.splits)

lemma LI_add_route_new:
  assumes "li_map (li_t st) (rt_key r) = None"
  shows "LI_add_route r b st =
    (0, None, st\<lparr>li_t := LI_patch_up (first_free (li_t st)) r (put_route (first_free (li_t st)) r (li_t st)),
       li_zero_route := (if rt_key r = zero_prefix then int (first_free (li_t st)) else li_zero_route st),
       li_last_addr := 0, li_last_addr2 := 0\<rparr>)"
proof -
  have "find (\<lambda>i. rt_real (li_t st ! i) \<and> rt_addr (li_t st ! i) = rt_addr r \<and>
      rt_mask (li_t st ! i) = rt_mask r) [0..<length (li_t st)] = None"
    using assms by (auto simp: find_upt_None li_map_None rt_key_def)
  then show ?thesis
    by (simp add: LI_add_route_def Let_def put_route_def first_free_def [symmetric] rt_key_def zero_prefix_def)
qed

lemma LI_add_route_existing:
  assumes "li_ok (li_t st)" and "i < length (li_t st)" and "rt_real (li_t st ! i)"
    and "rt_key (li_t st ! i) = rt_key r"
  shows "LI_add_route r b st =
    (if b then (0, Some (li_t st ! i),
                st\<lparr>li_t := (li_t st)[i := (li_t st ! i)\<lparr>rt_gw := rt_gw r, rt_port := rt_port r\<rparr>]\<rparr>)
     else (- EEXIST, Some (li_t st ! i), st))"
proof -
  have "find (\<lambda>i. rt_real (li_t st ! i) \<and> rt_addr (li_t st ! i) = rt_addr r \<and>
      rt_mask (li_t st ! i) = rt_mask r) [0..<length (li_t st)] = Some i"
  proof -
    have "\<not> (rt_real (li_t st ! j) \<and> rt_key (li_t st ! j) = rt_key r)" if "j < i" for j
      using li_ok_unique [OF assms(1), of j i] assms(2-4) that by auto
    then show ?thesis unfolding find_upt_Some using assms(2-4) by (simp add: rt_key_def)
  qed
  then show ?thesis by (simp add: LI_add_route_def Let_def)
qed

lemma li_zero_None: "li_zero_ok z t \<Longrightarrow> li_map t zero_prefix = None \<longleftrightarrow> z = -1"
  by (auto simp: li_zero_ok_def split: if_splits)

lemma LI_enter_table_ok:
  assumes ok: "li_ok t" and wf: "rt_wf r" and new: "li_map t (rt_key r) = None"
    and z: "rt_key r = zero_prefix \<or> li_zero_ok z t"
  shows "li_zero_ok (if rt_key r = zero_prefix then int (first_free t) else z)
    (LI_patch_up (first_free t) r (put_route (first_free t) r t))"
proof -
  define t1 where "t1 = put_route (first_free t) r t"
  define t2 where "t2 = LI_patch_up (first_free t) r t1"
  note p = put_route_nth [OF first_free_slot(1) [of t], where r = r, folded t1_def]
  have t2: "length t2 = length t1" "j < length t1 \<Longrightarrow> rt_real (t2 ! j) = rt_real (t1 ! j)"
    "j < length t1 \<Longrightarrow> rt_key (t2 ! j) = rt_key (t1 ! j)" for j
    using LI_patch_up_nth [OF p(1), where r = r] by (simp_all add: t2_def)
  have map: "li_map t2 = (li_map t)(rt_key r \<mapsto> rt_val r)"
    using LI_enter_map [OF ok wf first_free_slot(1) new] by (simp add: t2_def t1_def)
  have early: "rt_real (t2 ! i)" if "i < first_free t" for i
    using first_free_slot(2) [OF that] p(5) [of i] t2(2) [of i] p(3) that by simp
  show ?thesis
  proof (cases "rt_key r = zero_prefix")
    case True
    then have "li_zero_ok (int (first_free t)) t2"
      using map t2 p(1,2) early wf_is_real [OF wf] by (simp add: li_zero_ok_def)
    with True show ?thesis by (simp add: t2_def t1_def)
  next
    case False
    with z have zok: "li_zero_ok z t" by simp
    have same: "li_map t2 zero_prefix = li_map t zero_prefix" using map False by simp
    have "li_zero_ok z t2"
    proof (cases "li_map t zero_prefix = None")
      case True
      with zok same show ?thesis by (simp add: li_zero_ok_def)
    next
      case nz: False
      with zok have zz: "0 \<le> z" "nat z < length t" "rt_real (t ! nat z)" "rt_key (t ! nat z) = zero_prefix"
        "\<And>i. i < nat z \<Longrightarrow> rt_real (t ! i)" by (auto simp: li_zero_ok_def)
      have ne: "i \<noteq> first_free t" if "i \<le> nat z" for i
        using that zz(2,3,5) first_free_slot(1) [of t] by (auto simp: free_slot_def le_less)
      have "rt_real (t2 ! i) = rt_real (t ! i) \<and> rt_key (t2 ! i) = rt_key (t ! i) \<and> i < length t2" if "i \<le> nat z" for i
        using p(5) [of i] p(3) t2(1) t2(2,3) [of i] ne [OF that] zz(2) that by simp
      with zz nz same show ?thesis by (simp add: li_zero_ok_def)
    qed
    with False show ?thesis by (simp add: t2_def t1_def)
  qed
qed

section \<open>Overwriting and removing a route\<close>

lemma rt_contains_route_key:
  "rt_key r = rt_key r' \<Longrightarrow> rt_key s = rt_key s' \<Longrightarrow> rt_contains_route r s = rt_contains_route r' s'"
  by (simp add: rt_contains_route_def rt_key_def)

text \<open>Fewer real routes, with the same prefixes and \<open>extra\<close> indices, are still in order.\<close>

lemma li_ok_weaken:
  assumes ok: "li_ok t" and len: "length t' = length t"
    and real: "\<And>j. j < length t \<Longrightarrow> rt_real (t' ! j) \<Longrightarrow> rt_real (t ! j) \<and> rt_key (t' ! j) = rt_key (t ! j) \<and>
          rt_extra (t' ! j) = rt_extra (t ! j) \<and> rt_wf (t' ! j)"
    and dead: "\<And>j. j < length t \<Longrightarrow> \<not> rt_real (t' ! j) \<Longrightarrow> rt_key (t' ! j) = zero_prefix"
  shows "li_ok t'"
proof -
  have "i = j" if "i < length t" "j < length t" "rt_real (t' ! i)" "rt_real (t' ! j)"
    "rt_key (t' ! i) = rt_key (t' ! j)" for i j
    using li_ok_unique [OF ok, of i j] real [of i] real [of j] that by simp
  moreover have "\<not> rt_contains_route (t' ! i) (t' ! j)"
    if "j < length t" "i < j" "rt_real (t' ! i)" "rt_real (t' ! j)" "int j < rt_extra (t' ! i)" for i j
    using li_ok_extra [OF ok, of i j] real [of i] real [of j] that
      rt_contains_route_key [of "t' ! i" "t ! i" "t' ! j" "t ! j"] by simp
  moreover have "if rt_real (t' ! j) then rt_wf (t' ! j) else rt_key (t' ! j) = zero_prefix" if "j < length t" for j
    using real [OF that] dead [OF that] by simp
  ultimately show ?thesis unfolding li_ok_def len by blast
qed

lemma LI_replace:
  assumes ok: "li_ok t" and i: "i < length t" "rt_real (t ! i)" "rt_key (t ! i) = rt_key r" and wf: "rt_wf r"
  defines "t' \<equiv> t[i := (t ! i)\<lparr>rt_gw := rt_gw r, rt_port := rt_port r\<rparr>]"
  shows "li_ok t'" and "li_map t' = (li_map t)(rt_key r \<mapsto> rt_val r)"
    and "li_zero_ok z t \<Longrightarrow> li_zero_ok z t'"
proof -
  have nth: "t' ! i = (t ! i)\<lparr>rt_gw := rt_gw r, rt_port := rt_port r\<rparr>" "j \<noteq> i \<Longrightarrow> t' ! j = t ! j" "length t' = length t" for j
    using i(1) by (simp_all add: t'_def)
  have at: "rt_wf (t' ! i)" "rt_key (t' ! i) = rt_key r" "rt_val (t' ! i) = rt_val r" "rt_extra (t' ! i) = rt_extra (t ! i)"
    using nth(1) i(3) wf by (simp_all add: rt_wf_def rt_parsed_def rt_key_def rt_val_def)
  have same: "rt_real (t' ! j) = rt_real (t ! j) \<and> rt_key (t' ! j) = rt_key (t ! j)" for j
    using at(2) wf_is_real [OF at(1)] i nth(2) by (cases "j = i") auto
  show ok': "li_ok t'"
  proof (rule li_ok_weaken [OF ok nth(3)])
    fix j assume j: "j < length t"
    show "rt_real (t ! j) \<and> rt_key (t' ! j) = rt_key (t ! j) \<and> rt_extra (t' ! j) = rt_extra (t ! j) \<and> rt_wf (t' ! j)"
      if "rt_real (t' ! j)"
      using that same [of j] at nth(2) [of j] li_okD(1) [OF ok j] by (cases "j = i") simp_all
    show "rt_key (t' ! j) = zero_prefix" if "\<not> rt_real (t' ! j)"
      using that same [of j] li_okD(2) [OF ok j] by simp
  qed
  show map: "li_map t' = (li_map t)(rt_key r \<mapsto> rt_val r)"
  proof (intro ext option_eqI)
    fix k v
    show "li_map t' k = Some v \<longleftrightarrow> ((li_map t)(rt_key r \<mapsto> rt_val r)) k = Some v"
    proof (cases "k = rt_key r")
      case True
      then show ?thesis using li_map_Some [OF ok', of i] at wf_is_real [OF at(1)] i(1) nth(3) by auto
    next
      case False
      have "rt_val (t' ! j) = rt_val (t ! j)" if "rt_key (t ! j) = k" for j
        using that i(3) nth(2) [of j] False by (cases "j = i") auto
      then have "li_map t' k = Some v \<longleftrightarrow> li_map t k = Some v"
        unfolding li_map_iff [OF ok] li_map_iff [OF ok'] nth(3) using same by (metis (no_types, lifting))
      with False show ?thesis by simp
    qed
  qed
  show "li_zero_ok z t'" if "li_zero_ok z t"
  proof -
    have "li_map t' zero_prefix = None \<longleftrightarrow> li_map t zero_prefix = None"
      by (simp add: li_map_None same nth(3))
    with that show ?thesis by (simp add: li_zero_ok_def same nth(3))
  qed
qed

lemma rt_kill_sel [simp]:
  "\<not> rt_real (rt_kill r)" "rt_key (rt_kill r) = zero_prefix" "rt_extra (rt_kill r) = rt_extra r"
  by (simp_all add: rt_kill_def rt_real_def rt_key_def zero_prefix_def)

lemma LI_kill:
  assumes ok: "li_ok t" and i: "i < length t"
  shows "li_ok (t[i := rt_kill (t ! i)])"
    and "li_map (t[i := rt_kill (t ! i)]) = (if rt_real (t ! i) then (li_map t)(rt_key (t ! i) := None) else li_map t)"
proof -
  define t' where "t' = t[i := rt_kill (t ! i)]"
  have nth: "t' ! j = (if j = i then rt_kill (t ! i) else t ! j)" "length t' = length t" for j
    using i by (auto simp: t'_def)
  have ok': "li_ok t'"
    by (rule li_ok_weaken [OF ok nth(2)]) (use li_okD [OF ok] nth(1) in \<open>auto split: if_splits\<close>)
  have "li_map t' k = Some v \<longleftrightarrow> (if rt_real (t ! i) then (li_map t)(rt_key (t ! i) := None) else li_map t) k = Some v" for k v
  proof -
    have "li_map t' k = Some v \<longleftrightarrow> (\<exists>j < length t. j \<noteq> i \<and> rt_real (t ! j) \<and> rt_key (t ! j) = k \<and> rt_val (t ! j) = v)"
      unfolding li_map_iff [OF ok'] nth by (auto split: if_splits)
    also have "\<dots> \<longleftrightarrow> \<not> (rt_real (t ! i) \<and> rt_key (t ! i) = k) \<and> li_map t k = Some v"
      unfolding li_map_iff [OF ok] using li_ok_unique [OF ok _ i] i by blast
    finally show ?thesis by auto
  qed
  then have m: "li_map t' = (if rt_real (t ! i) then (li_map t)(rt_key (t ! i) := None) else li_map t)"
    by (intro ext option_eqI)
  show "li_ok (t[i := rt_kill (t ! i)])"
    and "li_map (t[i := rt_kill (t ! i)]) = (if rt_real (t ! i) then (li_map t)(rt_key (t ! i) := None) else li_map t)"
    using ok' m by (simp_all add: t'_def)
qed

text \<open>The slot of the zero route and the dead slots.\<close>

lemma li_zero_slot:
  assumes "li_ok t" and "li_zero_ok z t" and "i < length t" and "rt_key (t ! i) = zero_prefix"
  shows "if rt_real (t ! i) then z = int i else z = -1 \<or> z < int i"
proof (cases "li_map t zero_prefix = None")
  case True
  then show ?thesis using assms by (auto simp: li_zero_ok_def li_map_None)
next
  case False
  then have z: "0 \<le> z" "nat z < length t" "rt_real (t ! nat z)" "rt_key (t ! nat z) = zero_prefix"
    "\<And>j. j < nat z \<Longrightarrow> rt_real (t ! j)"
    using assms(2) by (auto simp: li_zero_ok_def)
  show ?thesis
  proof (cases "rt_real (t ! i)")
    case True
    then have "nat z = i" using li_ok_unique [OF assms(1) z(2) assms(3) z(3)] z(4) assms(4) by simp
    with True z(1) show ?thesis by auto
  next
    case False
    then have "\<not> i < nat z" "i \<noteq> nat z" using z(3,5) by auto
    with False z(1) show ?thesis by auto
  qed
qed

text \<open>A removed route was in the table, or (for the prefix of dead slots only) was not there at all.\<close>

lemma rt_match_dead:
  assumes "li_table_ok st" and "find (\<lambda>i. rt_match r (li_t st ! i)) [0..<length (li_t st)] = Some i"
    and "\<not> rt_real (li_t st ! i)"
  shows "li_table st (rt_key r) = None" and "li_zero_route st = -1"
proof -
  let ?t = "li_t st"
  have ok: "li_ok ?t" and zok: "li_zero_ok (li_zero_route st) ?t" using assms(1) by (simp_all add: li_table_ok_def)
  have i: "i < length ?t" "rt_match r (?t ! i)" "\<And>j. j < i \<Longrightarrow> \<not> rt_match r (?t ! j)"
    using assms(2) by (auto simp: find_upt_Some)
  have key: "rt_key (?t ! i) = zero_prefix" "rt_key r = zero_prefix"
    using li_okD(2) [OF ok i(1) assms(3)] i(2) by (simp_all add: rt_match_def rt_key_def)
  have neg: "rt_port r < 0"
    using i(2) assms(3) by (auto simp: rt_match_def rt_real_def INT32_MIN_def)
  show z: "li_zero_route st = -1"
  proof (rule ccontr)
    assume nz: "li_zero_route st \<noteq> -1"
    then have "li_zero_route st < int i" using li_zero_slot [OF ok zok i(1) key(1)] assms(3) by simp
    moreover have "li_map ?t zero_prefix \<noteq> None" using li_zero_None [OF zok] nz by simp
    then have "rt_key (?t ! nat (li_zero_route st)) = zero_prefix" "0 \<le> li_zero_route st"
      using zok by (auto simp: li_zero_ok_def)
    ultimately show False
      using i(3) [of "nat (li_zero_route st)"] neg key(2) by (auto simp: rt_match_def rt_key_def zero_prefix_def nat_less_iff)
  qed
  show "li_table st (rt_key r) = None" using li_zero_None [OF zok] z key(2) by simp
qed

lemma LI_remove_dead:
  assumes "li_table_ok st" and "find (\<lambda>i. rt_match r (li_t st ! i)) [0..<length (li_t st)] = Some i"
    and "\<not> rt_real (li_t st ! i)"
  shows "\<exists>st'. LI_remove_route r st = (0, Some (li_t st ! i), st') \<and> li_table_ok st' \<and> li_table st' = li_table st"
proof -
  let ?t = "(li_t st)[i := rt_kill (li_t st ! i)]"
  note d = rt_match_dead [OF assms]
  have ok: "li_ok (li_t st)" and zok: "li_zero_ok (li_zero_route st) (li_t st)" and i: "i < length (li_t st)"
    using assms(1,2) by (simp_all add: li_table_ok_def find_upt_Some)
  have "li_map ?t = li_map (li_t st)" "li_ok ?t" using LI_kill [OF ok i] assms(3) by simp_all
  moreover from this have "li_zero_ok (-1) ?t" using zok d(2) by (auto simp: li_zero_ok_def split: if_splits)
  ultimately show ?thesis
    using assms(2) d(2) by (simp add: LI_remove_route_def Let_def li_table_ok_def)
qed

lemma LI_remove_real:
  assumes tok: "li_table_ok st" and m: "find (\<lambda>i. rt_match r (li_t st ! i)) [0..<length (li_t st)] = Some i"
    and real: "rt_real (li_t st ! i)"
  shows "\<exists>st'. LI_remove_route r st = (0, Some (li_t st ! i), st') \<and> li_table_ok st' \<and>
    li_table st' = (li_table st)(rt_key r := None)"
proof -
  define t where "t = li_t st"
  define z where "z = li_zero_route st"
  define t1 where "t1 = t[i := rt_kill (t ! i)]"
  have ok: "li_ok t" and zok: "li_zero_ok z t" using tok by (simp_all add: li_table_ok_def t_def z_def)
  have i: "i < length t" "rt_key (t ! i) = rt_key r"
    using m by (auto simp: find_upt_Some rt_match_def rt_key_def t_def)
  have t1: "li_ok t1" "li_map t1 = (li_map t)(rt_key r := None)"
    using LI_kill [OF ok i(1)] real i(2) by (simp_all add: t1_def t_def)
  have nth: "t1 ! j = t ! j" if "j \<noteq> i" for j using that by (simp add: t1_def)
  consider "int i = z" | "int i < z" | "int i \<noteq> z" "\<not> int i < z" by linarith
  then show ?thesis
  proof cases
    case 1
    then have "rt_key (t ! i) = zero_prefix" using zok by (auto simp: li_zero_ok_def split: if_splits)
    then have "li_zero_ok (-1) t1" using t1(2) i(2) by (simp add: li_zero_ok_def)
    then show ?thesis
      using m 1 t1 by (simp add: LI_remove_route_def Let_def li_table_ok_def t_def z_def t1_def)
  next
    case 2
    then have zz: "0 \<le> z" "nat z < length t" "rt_real (t ! nat z)" "rt_key (t ! nat z) = zero_prefix" "nat z \<noteq> i"
      using zok by (auto simp: li_zero_ok_def split: if_splits)
    define t2 where "t2 = t1[nat z := rt_kill (t1 ! nat z)]"
    have tz: "t1 ! nat z = t ! nat z" "nat z < length t1" using nth zz(2,5) by (simp_all add: t1_def)
    have t2_eq: "t2 = t1[nat z := rt_kill (t ! nat z)]" by (simp add: t2_def tz(1))
    have t2: "li_ok t2" "li_map t2 = (li_map t1)(zero_prefix := None)"
      using LI_kill [OF t1(1) tz(2)] zz(3,4) by (simp_all add: t2_def tz(1))
    have wf: "rt_wf (t ! nat z)" using li_okD(1) [OF ok zz(2,3)] .
    have none: "li_map t2 (rt_key (t ! nat z)) = None" using t2(2) zz(4) by simp
    define f where "f = first_free t2"
    define t3 where "t3 = LI_patch_up f (t ! nat z) (put_route f (t ! nat z) t2)"
    have t3: "li_ok t3" "li_map t3 = (li_map t2)(zero_prefix \<mapsto> rt_val (t ! nat z))" "li_zero_ok (int f) t3"
      using LI_enter_ok [OF t2(1) wf first_free_slot(1) none] LI_enter_map [OF t2(1) wf first_free_slot(1) none]
        LI_enter_table_ok [OF t2(1) wf none, of z] zz(4) by (simp_all add: t3_def f_def)
    have "rt_key r \<noteq> zero_prefix" using li_ok_unique [OF ok zz(2) i(1) zz(3)] real zz(4,5) i(2) by (auto simp: t_def)
    moreover have "li_map t zero_prefix = Some (rt_val (t ! nat z))" using li_map_Some [OF ok zz(2,3)] zz(4) by simp
    ultimately have "li_map t3 = (li_map t)(rt_key r := None)" using t3(2) t2(2) t1(2) by (auto simp: fun_eq_iff)
    moreover have "LI_add_route (t ! nat z) False (st\<lparr>li_t := t2\<rparr>) =
        (0, None, st\<lparr>li_t := t3, li_zero_route := int f, li_last_addr := 0, li_last_addr2 := 0\<rparr>)"
      using LI_add_route_new [of "st\<lparr>li_t := t2\<rparr>" "t ! nat z" False] none zz(4) by (simp add: t3_def f_def)
    ultimately show ?thesis
      using m 2 t3(1,3) tz(1)
      by (simp add: LI_remove_route_def Let_def li_table_ok_def t_def [symmetric] z_def [symmetric]
            t1_def [symmetric] t2_eq [symmetric])
  next
    case 3
    have "li_zero_ok z t1"
    proof (cases "z = -1")
      case True
      then show ?thesis using li_zero_None [OF zok] t1(2) by (simp add: li_zero_ok_def)
    next
      case False
      then have some: "li_map t zero_prefix \<noteq> None" using li_zero_None [OF zok] by simp
      then have zz: "0 \<le> z" "nat z < length t" "rt_real (t ! nat z)" "rt_key (t ! nat z) = zero_prefix"
        "\<And>j. j < nat z \<Longrightarrow> rt_real (t ! j)" using zok by (auto simp: li_zero_ok_def)
      have lt: "nat z < i" using 3 zz(1) by linarith
      then have "rt_key r \<noteq> zero_prefix" using li_ok_unique [OF ok zz(2) i(1) zz(3)] real zz(4) i(2) by (auto simp: t_def)
      moreover have "t1 ! j = t ! j" if "j \<le> nat z" for j using nth that lt by simp
      ultimately show ?thesis using zz some t1(2) by (simp add: li_zero_ok_def t1_def)
    qed
    then show ?thesis
      using m 3 t1 by (simp add: LI_remove_route_def Let_def li_table_ok_def t_def z_def t1_def)
  qed
qed

text \<open>The assertion in \<open>remove_route\<close>: when the route to 0.0.0.0 has to move to the freed slot, it can be entered there.\<close>

lemma LI_remove_assertion:
  assumes tok: "li_table_ok st" and m: "find (\<lambda>i. rt_match r (li_t st ! i)) [0..<length (li_t st)] = Some i"
    and lt: "int i < li_zero_route st"
  defines "z \<equiv> nat (li_zero_route st)" and "t1 \<equiv> (li_t st)[i := rt_kill (li_t st ! i)]"
  shows "0 \<le> fst (LI_add_route (t1 ! z) False (st\<lparr>li_t := t1[z := rt_kill (t1 ! z)]\<rparr>))"
proof -
  let ?t = "li_t st"
  have real: "rt_real (?t ! i)" using rt_match_dead(2) [OF tok m] lt by fastforce
  have ok: "li_ok ?t" and zok: "li_zero_ok (li_zero_route st) ?t" using tok by (simp_all add: li_table_ok_def)
  have zz: "z < length ?t" "rt_real (?t ! z)" "rt_key (?t ! z) = zero_prefix" "z \<noteq> i"
    using zok lt by (auto simp: li_zero_ok_def z_def split: if_splits)
  have i: "i < length ?t" using m by (simp add: find_upt_Some)
  have "li_ok t1" using LI_kill [OF ok i] real by (simp add: t1_def)
  moreover have tz: "t1 ! z = ?t ! z" "z < length t1" using zz(1,4) by (simp_all add: t1_def)
  ultimately have "li_map (t1[z := rt_kill (t1 ! z)]) (rt_key (t1 ! z)) = None"
    using LI_kill [of t1 z] zz(2,3) by simp
  then show ?thesis
    using LI_add_route_new [of "st\<lparr>li_t := t1[z := rt_kill (t1 ! z)]\<rparr>" "t1 ! z" False] by simp
qed

end
