(* ===== verification/Route_Control.thy ===== *)
theory Route_Control
  imports Route_Table
begin

text \<open>
  \<^verbatim>\<open>click/elements/ip/iproutetable.{hh,cc}\<close>: the superclass of the routing tables, whose configuration
  and handlers work over the virtual functions \<open>add_route\<close> and \<open>remove_route\<close>; these are arguments here.
  Routes come parsed; a line that does not parse is \<open>None\<close>. The contract between the handlers and a
  table is a locale, with the transaction of the \<open>ctrl\<close> handler proved in it and
  \<open>LinearIPLookup\<close> as an instance.
\<close>

section \<open>Configuration and handlers of the superclass\<close>

datatype rt_command = CMD_ADD | CMD_SET | CMD_REMOVE

type_synonym 's add_fn = "IPRoute \<Rightarrow> bool \<Rightarrow> 's \<Rightarrow> int \<times> IPRoute option \<times> 's"

type_synonym 's remove_fn = "IPRoute \<Rightarrow> 's \<Rightarrow> int \<times> IPRoute option \<times> 's"

text \<open>The loop of \<open>configure\<close>; a failed argument leaves an error code but does not end it.\<close>

fun RT_configure :: "'s add_fn \<Rightarrow> nat \<Rightarrow> IPRoute option list \<Rightarrow> int \<Rightarrow> 's \<Rightarrow> int \<times> 's" where
  "RT_configure add noutputs [] r st = (r, st)"
| "RT_configure add noutputs (None # conf) r st = RT_configure add noutputs conf (- EINVAL) st"
| "RT_configure add noutputs (Some route # conf) r st =
     (if rt_port route < 0 \<or> rt_port route \<ge> int noutputs
      then RT_configure add noutputs conf (- EINVAL) st
      else
        (case add route False st of
           (r1, _, st') \<Rightarrow>
             RT_configure add noutputs conf (if r1 < 0 \<and> r1 \<noteq> - EEXIST then r1 else r) st'))"

definition new_IPRoute :: IPRoute where
  "new_IPRoute = \<lparr>rt_addr = 0, rt_mask = 0, rt_gw = 0, rt_port = -1, rt_extra = 0\<rparr>"

text \<open>
  \<open>run_command\<close>, with what it appends to \<open>old_routes\<close> when that is not null. The route saved for an
  undo is tagged with the command whose effect has to be undone.
\<close>

definition RT_run_command ::
  "'s add_fn \<Rightarrow> 's remove_fn \<Rightarrow> nat \<Rightarrow> rt_command \<Rightarrow> IPRoute option \<Rightarrow> 's
     \<Rightarrow> int \<times> (IPRoute \<times> rt_command) option \<times> 's" where
  "RT_run_command add remove noutputs command parsed st =
     (case parsed of
        None \<Rightarrow> (- EINVAL, None, st)
      | Some route \<Rightarrow>
          if rt_port route < (if command = CMD_REMOVE then -1 else 0) \<or> rt_port route \<ge> int noutputs
          then (- EINVAL, None, st)
          else
          let (r, out, st') = (case command of
                CMD_ADD \<Rightarrow> add route False st
              | CMD_SET \<Rightarrow> add route True st
              | CMD_REMOVE \<Rightarrow> remove route st);
              old_route = (case out of Some old \<Rightarrow> old | None \<Rightarrow> new_IPRoute)
          in (r,
              if r \<ge> 0 then Some (if rt_port old_route < 0 then (route, CMD_ADD) else (old_route, command))
              else None,
              st'))"

text \<open>The \<open>add\<close>, \<open>set\<close> and \<open>remove\<close> handlers, which keep no log.\<close>

definition RT_add_route_handler ::
  "'s add_fn \<Rightarrow> 's remove_fn \<Rightarrow> nat \<Rightarrow> bool \<Rightarrow> IPRoute option \<Rightarrow> 's \<Rightarrow> int \<times> 's" where
  "RT_add_route_handler add remove noutputs thunk parsed st =
     (case RT_run_command add remove noutputs (if thunk then CMD_SET else CMD_ADD) parsed st of
        (r, _, st') \<Rightarrow> (r, st'))"

definition RT_remove_route_handler ::
  "'s add_fn \<Rightarrow> 's remove_fn \<Rightarrow> nat \<Rightarrow> IPRoute option \<Rightarrow> 's \<Rightarrow> int \<times> 's" where
  "RT_remove_route_handler add remove noutputs parsed st =
     (case RT_run_command add remove noutputs CMD_REMOVE parsed st of (r, _, st') \<Rightarrow> (r, st'))"

text \<open>
  The superclass's own \<open>push\<close>, over the virtual function \<open>lookup_route\<close>; no route is \<open>None\<close>, which the
  code has as the port -1.
\<close>

definition RT_push ::
  "(ipaddr \<Rightarrow> 's \<Rightarrow> (ipaddr \<times> int) option) \<Rightarrow> nat \<Rightarrow> packet \<Rightarrow> 's \<Rightarrow> effect list res" where
  "RT_push lookup_route noutputs p st =
     (case lookup_route (p_dst_ip_anno p) st of
        None \<Rightarrow> Inr [Kill p]
      | Some (gw, port) \<Rightarrow>
          if port \<ge> 0 then
            (if port < int noutputs
             then Inr [Push (nat port) (if gw \<noteq> 0 then set_dst_ip_anno gw p else p)]
             else Inl AssertionFailure)
          else Inr [Kill p])"

text \<open>The lines of a \<open>ctrl\<close> request. The loop steps over a line only after it ran a command.\<close>

datatype ctrl_line = Blank | Bad_command | Command rt_command "IPRoute option"

definition RT_undo :: "'s add_fn \<Rightarrow> 's remove_fn \<Rightarrow> IPRoute \<times> rt_command \<Rightarrow> 's \<Rightarrow> 's" where
  "RT_undo add remove = (\<lambda>(rt, command) st.
     (case command of
        CMD_REMOVE \<Rightarrow> snd (snd (add rt False st))
      | CMD_ADD \<Rightarrow> snd (snd (remove rt st))
      | CMD_SET \<Rightarrow> snd (snd (add rt True st))))"

text \<open>\<open>old_routes\<close> with its last element first; \<open>fuel\<close> bounds the number of iterations.\<close>

fun RT_ctrl ::
  "'s add_fn \<Rightarrow> 's remove_fn \<Rightarrow> nat \<Rightarrow> nat \<Rightarrow> ctrl_line list \<Rightarrow> (IPRoute \<times> rt_command) list \<Rightarrow> 's
     \<Rightarrow> (int \<times> 's) option" where
  "RT_ctrl add remove noutputs 0 conf old_routes st = None"
| "RT_ctrl add remove noutputs (Suc fuel) conf old_routes st =
     (case conf of
        [] \<Rightarrow> Some (0, st)
      | Blank # _ \<Rightarrow> RT_ctrl add remove noutputs fuel conf old_routes st
      | Bad_command # _ \<Rightarrow> Some (- EINVAL, fold (RT_undo add remove) old_routes st)
      | Command command parsed # rest \<Rightarrow>
          (case RT_run_command add remove noutputs command parsed st of
             (r, old, st') \<Rightarrow>
               if r < 0 then Some (r, fold (RT_undo add remove) old_routes st')
               else RT_ctrl add remove noutputs fuel rest
                      (case old of Some o1 \<Rightarrow> o1 # old_routes | None \<Rightarrow> old_routes) st'))"

section \<open>The contract of a table\<close>

text \<open>A \<open>remove\<close> names a route of the table by its prefix and, with a port, by its value too.\<close>

definition rt_hits :: "IPRoute \<Rightarrow> rt_map \<Rightarrow> bool" where
  "rt_hits r T \<longleftrightarrow> (case T (rt_key r) of None \<Rightarrow> False | Some v \<Rightarrow> rt_port r < 0 \<or> rt_val r = v)"

definition rt_valid :: "nat \<Rightarrow> IPRoute \<Rightarrow> bool" where
  "rt_valid noutputs r \<longleftrightarrow> rt_wf r \<and> rt_port r < int noutputs"

definition rt_apply :: "rt_command \<Rightarrow> IPRoute \<Rightarrow> rt_map \<Rightarrow> rt_map" where
  "rt_apply command r T =
     (if command = CMD_REMOVE then (if rt_hits r T then T(rt_key r := None) else T)
      else T(rt_key r \<mapsto> rt_val r))"

fun rt_apply_all :: "ctrl_line list \<Rightarrow> rt_map \<Rightarrow> rt_map" where
  "rt_apply_all [] T = T"
| "rt_apply_all (Command command (Some r) # conf) T = rt_apply_all conf (rt_apply command r T)"
| "rt_apply_all (_ # conf) T = rt_apply_all conf T"

text \<open>The commands a table has to accept, one by one and as a whole request.\<close>

definition rt_accepts :: "nat \<Rightarrow> rt_command \<Rightarrow> IPRoute \<Rightarrow> rt_map \<Rightarrow> bool" where
  "rt_accepts noutputs command r T \<longleftrightarrow> rt_port r < int noutputs \<and>
     (case command of
        CMD_ADD \<Rightarrow> 0 \<le> rt_port r \<and> T (rt_key r) = None
      | CMD_SET \<Rightarrow> 0 \<le> rt_port r
      | CMD_REMOVE \<Rightarrow> -1 \<le> rt_port r \<and> rt_hits r T)"

fun rt_accepts_all :: "nat \<Rightarrow> ctrl_line list \<Rightarrow> rt_map \<Rightarrow> bool" where
  "rt_accepts_all noutputs [] T \<longleftrightarrow> True"
| "rt_accepts_all noutputs (Command command (Some r) # conf) T \<longleftrightarrow>
     rt_accepts noutputs command r T \<and> rt_accepts_all noutputs conf (rt_apply command r T)"
| "rt_accepts_all noutputs (_ # conf) T \<longleftrightarrow> False"

text \<open>An error code comes with an unchanged table, and a route handed back is the one that was there.\<close>

locale ip_route_table =
  fixes noutputs :: nat and add :: "'s add_fn" and remove :: "'s remove_fn" and table :: "'s \<Rightarrow> rt_map" and inv :: "'s \<Rightarrow> bool"
  assumes add_new: "inv s \<Longrightarrow> rt_valid noutputs r \<Longrightarrow> table s (rt_key r) = None \<Longrightarrow>
      \<exists>s'. add r b s = (0, None, s') \<and> inv s' \<and> table s' = (table s)(rt_key r \<mapsto> rt_val r)"
    and add_old: "inv s \<Longrightarrow> rt_valid noutputs r \<Longrightarrow> table s (rt_key r) = Some v \<Longrightarrow>
      \<exists>old s'. add r b s = (if b then (0, Some old, s') else (- EEXIST, Some old, s)) \<and>
        rt_valid noutputs old \<and> rt_key old = rt_key r \<and> rt_val old = v \<and> inv s' \<and>
        table s' = (table s)(rt_key r \<mapsto> rt_val r)"
    and remove_hit: "inv s \<Longrightarrow> rt_hits r (table s) \<Longrightarrow>
      \<exists>old s'. remove r s = (0, Some old, s') \<and> rt_valid noutputs old \<and> rt_key old = rt_key r \<and>
        table s (rt_key r) = Some (rt_val old) \<and> inv s' \<and> table s' = (table s)(rt_key r := None)"
    and remove_miss: "inv s \<Longrightarrow> \<not> rt_hits r (table s) \<Longrightarrow>
      \<exists>c out s'. remove r s = (c, out, s') \<and> inv s' \<and> table s' = table s \<and>
        (c < 0 \<or> (c = 0 \<and> table s (rt_key r) = None \<and> (\<exists>old. out = Some old \<and> rt_port old < 0)))"
begin

text \<open>One command: it fails and leaves the table, or it does what it says and can be undone.\<close>

lemma run_remove_cases:
  assumes inv: "inv s" and r: "\<not> rt_port r < -1" "rt_port r < int noutputs"
    and run: "RT_run_command add remove noutputs CMD_REMOVE (Some r) s = (c, old, s')"
  shows "inv s' \<and>
    (if c < 0 then table s' = table s
     else c = 0 \<and> (\<exists>o1. old = Some o1 \<and> table s' = rt_apply CMD_REMOVE r (table s) \<and>
       (\<forall>u. inv u \<and> table u = table s' \<longrightarrow>
          inv (RT_undo add remove o1 u) \<and> table (RT_undo add remove o1 u) = table s)))"
proof (cases "rt_hits r (table s)")
  case hit: True
  obtain o0 s1 where o0: "remove r s = (0, Some o0, s1)" "rt_valid noutputs o0" "rt_key o0 = rt_key r"
    "table s (rt_key r) = Some (rt_val o0)" "inv s1" "table s1 = (table s)(rt_key r := None)"
    using remove_hit [OF inv hit] by blast
  then have eqs: "c = 0" "old = Some (o0, CMD_REMOVE)" "s' = s1"
    using run r by (simp_all add: RT_run_command_def rt_valid_def rt_wf_def)
  have "inv (RT_undo add remove (o0, CMD_REMOVE) u) \<and> table (RT_undo add remove (o0, CMD_REMOVE) u) = table s"
    if "inv u" "table u = table s1" for u
    using add_new [OF that(1) o0(2), of False] that(2) o0(3,4,6) by (auto simp: RT_undo_def fun_upd_idem)
  with eqs o0 hit show ?thesis by (simp add: rt_apply_def)
next
  case miss: False
  obtain c' out s1 where m: "remove r s = (c', out, s1)" "inv s1" "table s1 = table s"
    "c' < 0 \<or> (c' = 0 \<and> table s (rt_key r) = None \<and> (\<exists>o1. out = Some o1 \<and> rt_port o1 < 0))"
    using remove_miss [OF inv miss] by blast
  have undo: "inv (RT_undo add remove (r, CMD_ADD) u) \<and> table (RT_undo add remove (r, CMD_ADD) u) = table u"
    if "inv u" "table u (rt_key r) = None" for u
    using remove_miss [OF that(1), of r] that(2) by (auto simp: RT_undo_def rt_hits_def)
  have "c = c'" "s' = s1" "c' = 0 \<longrightarrow> old = Some (r, CMD_ADD)"
    using run r m(1,4) by (auto simp: RT_run_command_def)
  with m undo miss show ?thesis by (auto simp: rt_apply_def)
qed

lemma run_add_eq:
  assumes "rt_valid noutputs r" and "command \<noteq> CMD_REMOVE"
  shows "RT_run_command add remove noutputs command (Some r) s =
    (case add r (command = CMD_SET) s of (c', out, s1) \<Rightarrow>
       (c', if c' \<ge> 0 then Some (case out of None \<Rightarrow> (r, CMD_ADD)
               | Some o1 \<Rightarrow> if rt_port o1 < 0 then (r, CMD_ADD) else (o1, command)) else None, s1))"
  using assms
  by (cases command)
     (auto simp: RT_run_command_def new_IPRoute_def rt_valid_def rt_wf_def split: prod.splits option.splits)

lemma run_add_cases:
  assumes inv: "inv s" and r: "rt_valid noutputs r" "command \<noteq> CMD_REMOVE"
    and run: "RT_run_command add remove noutputs command (Some r) s = (c, old, s')"
  shows "inv s' \<and>
    (if c < 0 then table s' = table s
     else c = 0 \<and> (\<exists>o1. old = Some o1 \<and> table s' = rt_apply command r (table s) \<and>
       (\<forall>u. inv u \<and> table u = table s' \<longrightarrow>
          inv (RT_undo add remove o1 u) \<and> table (RT_undo add remove o1 u) = table s)))"
proof (cases "table s (rt_key r)")
  case None
  obtain s1 where s1: "add r (command = CMD_SET) s = (0, None, s1)" "inv s1"
    "table s1 = (table s)(rt_key r \<mapsto> rt_val r)"
    using add_new [OF inv r(1) None] by blast
  have undo: "inv (RT_undo add remove (r, CMD_ADD) u) \<and> table (RT_undo add remove (r, CMD_ADD) u) = table s"
    if "inv u" "table u = table s1" for u
    using remove_hit [OF that(1), of r] that(2) s1(3) None by (auto simp: RT_undo_def rt_hits_def fun_upd_idem)
  have "c = 0" "s' = s1" "old = Some (r, CMD_ADD)" using run run_add_eq [OF r] s1(1) by simp_all
  with s1 undo r(2) show ?thesis by (simp add: rt_apply_def)
next
  case (Some v)
  obtain o0 s1 where o0: "add r (command = CMD_SET) s =
      (if command = CMD_SET then (0, Some o0, s1) else (- EEXIST, Some o0, s))"
    "rt_valid noutputs o0" "rt_key o0 = rt_key r" "rt_val o0 = v" "inv s1" "table s1 = (table s)(rt_key r \<mapsto> rt_val r)"
    using add_old [OF inv r(1) Some] by blast
  show ?thesis
  proof (cases "command = CMD_SET")
    case True
    have undo: "inv (RT_undo add remove (o0, CMD_SET) u) \<and> table (RT_undo add remove (o0, CMD_SET) u) = table s"
      if "inv u" "table u = table s1" for u
      using add_old [OF that(1) o0(2), of "rt_val r" True] that(2) o0(3,4,6) Some
      by (auto simp: RT_undo_def fun_upd_idem)
    have "c = 0" "s' = s1" "old = Some (o0, CMD_SET)"
      using run run_add_eq [OF r] o0(1,2) True by (auto simp: rt_valid_def rt_wf_def)
    with o0 undo True show ?thesis by (simp add: rt_apply_def)
  next
    case False
    then have "c = - EEXIST" "s' = s" using run run_add_eq [OF r] o0(1) by simp_all
    then show ?thesis using inv by (simp add: EEXIST_def)
  qed
qed

lemma run_command_cases:
  assumes "inv s" and "\<And>r. parsed = Some r \<Longrightarrow> rt_parsed r"
    and "RT_run_command add remove noutputs command parsed s = (c, old, s')"
  shows "inv s' \<and>
    (if c < 0 then table s' = table s
     else c = 0 \<and> (\<exists>r o1. parsed = Some r \<and> old = Some o1 \<and> table s' = rt_apply command r (table s) \<and>
       (\<forall>u. inv u \<and> table u = table s' \<longrightarrow>
          inv (RT_undo add remove o1 u) \<and> table (RT_undo add remove o1 u) = table s)))"
proof -
  consider "c = - EINVAL" "s' = s"
    | r where "parsed = Some r" "rt_valid noutputs r" "command \<noteq> CMD_REMOVE"
    | r where "parsed = Some r" "command = CMD_REMOVE" "\<not> rt_port r < -1" "rt_port r < int noutputs"
    using assms(2,3) by (auto simp: RT_run_command_def rt_valid_def rt_wf_def not_le split: option.splits if_splits)
  then show ?thesis
  proof cases
    case 1
    then show ?thesis using assms(1) by (simp add: EINVAL_def)
  next
    case (2 r)
    then show ?thesis using run_add_cases [OF assms(1), of r command c old s'] assms(3) by auto
  next
    case (3 r)
    then show ?thesis using run_remove_cases [OF assms(1), of r c old s'] assms(3) by auto
  qed
qed

lemma run_accepts:
  assumes inv: "inv s" and r: "rt_parsed r" and acc: "rt_accepts noutputs command r (table s)"
  shows "fst (RT_run_command add remove noutputs command (Some r) s) = 0"
proof (cases "command = CMD_REMOVE")
  case True
  then have "rt_hits r (table s)" using acc by (simp add: rt_accepts_def)
  then show ?thesis using remove_hit [OF inv] acc True by (fastforce simp: RT_run_command_def rt_accepts_def)
next
  case False
  then have v: "rt_valid noutputs r" using acc r by (cases command) (simp_all add: rt_accepts_def rt_valid_def rt_wf_def)
  show ?thesis
  proof (cases "table s (rt_key r)")
    case None
    then show ?thesis using add_new [OF inv v None, of "command = CMD_SET"] run_add_eq [OF v False] by auto
  next
    case (Some u)
    then have "command = CMD_SET" using acc False by (cases command) (simp_all add: rt_accepts_def)
    then show ?thesis using add_old [OF inv v Some, of True] run_add_eq [OF v False] by auto
  qed
qed

text \<open>A whole request: either all commands took effect or none did.\<close>

lemma ctrl_transaction:
  assumes "inv s" and "Blank \<notin> set conf" and "\<And>c r. Command c (Some r) \<in> set conf \<Longrightarrow> rt_parsed r"
    and "length conf < fuel"
    and "\<And>u. inv u \<Longrightarrow> table u = table s \<Longrightarrow>
      inv (fold (RT_undo add remove) log u) \<and> table (fold (RT_undo add remove) log u) = T0"
  shows "\<exists>c s'. RT_ctrl add remove noutputs fuel conf log s = Some (c, s') \<and> inv s' \<and>
    (if c < 0 then table s' = T0 else c = 0 \<and> table s' = rt_apply_all conf (table s)) \<and>
    (rt_accepts_all noutputs conf (table s) \<longrightarrow> c = 0)"
  using assms
proof (induction conf arbitrary: fuel log s)
  case Nil
  then obtain n where "fuel = Suc n" by (cases fuel) auto
  with Nil show ?case by simp
next
  case (Cons line conf)
  then obtain n where n: "fuel = Suc n" "length conf < n" by (cases fuel) auto
  show ?case
  proof (cases line)
    case Blank
    then show ?thesis using Cons.prems by simp
  next
    case Bad_command
    then show ?thesis using n Cons.prems(1,5) by (simp add: EINVAL_def)
  next
    case (Command command parsed)
    obtain c old s1 where run: "RT_run_command add remove noutputs command parsed s = (c, old, s1)"
      by (rule prod_cases3)
    have wf: "rt_parsed r" if "parsed = Some r" for r
      using Cons.prems(3) [of command r] Command that by simp
    note rc = run_command_cases [OF Cons.prems(1) wf run]
    show ?thesis
    proof (cases "c < 0")
      case True
      then have "\<not> rt_accepts_all noutputs (line # conf) (table s)"
        using run_accepts [OF Cons.prems(1) wf] run Command by (cases parsed) fastforce+
      with True show ?thesis using n Command run rc Cons.prems(5) by simp
    next
      case False
      then obtain r o1 where o1: "parsed = Some r" "old = Some o1" "table s1 = rt_apply command r (table s)"
        "\<And>u. inv u \<Longrightarrow> table u = table s1 \<Longrightarrow>
          inv (RT_undo add remove o1 u) \<and> table (RT_undo add remove o1 u) = table s"
        using rc by auto
      have "\<exists>c s'. RT_ctrl add remove noutputs n conf (o1 # log) s1 = Some (c, s') \<and> inv s' \<and>
          (if c < 0 then table s' = T0 else c = 0 \<and> table s' = rt_apply_all conf (table s1)) \<and>
          (rt_accepts_all noutputs conf (table s1) \<longrightarrow> c = 0)"
        by (rule Cons.IH) (use rc Cons.prems o1(4) n in auto)
      then obtain c2 s2 where c2: "RT_ctrl add remove noutputs n conf (o1 # log) s1 = Some (c2, s2)" "inv s2"
        "if c2 < 0 then table s2 = T0 else c2 = 0 \<and> table s2 = rt_apply_all conf (table s1)"
        "rt_accepts_all noutputs conf (table s1) \<longrightarrow> c2 = 0"
        by blast
      have "RT_ctrl add remove noutputs fuel (line # conf) log s = Some (c2, s2)"
        using n(1) Command run False o1(1,2) c2(1) by simp
      moreover have "rt_apply_all (line # conf) (table s) = rt_apply_all conf (table s1)"
        using Command o1(1,3) by simp
      moreover have "rt_accepts_all noutputs (line # conf) (table s) \<longrightarrow> c2 = 0"
        using Command o1(1,3) c2(4) by simp
      ultimately show ?thesis using c2(2,3) by auto
    qed
  qed
qed

text \<open>A blank line is never stepped over, so a request that gets as far as one does not return.\<close>

lemma ctrl_blank:
  assumes "inv s" and "\<And>c r. Command c (Some r) \<in> set conf \<Longrightarrow> rt_parsed r"
    and "rt_accepts_all noutputs conf (table s)"
  shows "RT_ctrl add remove noutputs fuel (conf @ Blank # rest) log s = None"
  using assms
proof (induction fuel arbitrary: conf log s)
  case (Suc fuel)
  show ?case
  proof (cases conf)
    case Nil
    then show ?thesis using Suc.IH [OF Suc.prems(1), of "[]"] by simp
  next
    case (Cons line conf')
    then obtain command r where line: "line = Command command (Some r)"
      "rt_accepts noutputs command r (table s)" "rt_accepts_all noutputs conf' (rt_apply command r (table s))"
      using Suc.prems(3) by (auto elim: rt_accepts_all.elims)
    have r: "rt_parsed r" using Suc.prems(2) [of command r] line(1) Cons by simp
    obtain c old s1 where run: "RT_run_command add remove noutputs command (Some r) s = (c, old, s1)"
      by (rule prod_cases3)
    then have c: "c = 0" using run_accepts [OF Suc.prems(1) r line(2)] by simp
    then have s1: "inv s1" "table s1 = rt_apply command r (table s)"
      using run_command_cases [OF Suc.prems(1) _ run] r by auto
    have "RT_ctrl add remove noutputs fuel (conf' @ Blank # rest) log' s1 = None" for log'
      using Suc.IH [OF s1(1), of conf'] Suc.prems(2) Cons line(3) s1(2) by auto
    with Cons line(1) run c show ?thesis by simp
  qed
qed simp

end

end
