(* ===== verification/Linear_Lookup.thy ===== *)
theory Linear_Lookup
  imports Route_Control
begin

text \<open>
  \<open>LinearIPLookup\<close> as an element: the linear table meets the contract of the route handlers, its caches
  and ports stay correct in every state that configuration, handlers and packets can reach, and a
  packet leaves by the longest matching prefix.
\<close>

section \<open>The invariant of the element\<close>

definition li_cache_ok :: "LinearIPLookup \<Rightarrow> bool" where
  "li_cache_ok st \<longleftrightarrow>
     (li_last_addr st \<noteq> 0 \<longrightarrow> LI_lookup_entry (li_last_addr st) (li_t st) = Some (li_last_entry st)) \<and>
     (li_last_addr2 st \<noteq> 0 \<longrightarrow> LI_lookup_entry (li_last_addr2 st) (li_t st) = Some (li_last_entry2 st))"

definition li_ports_ok :: "nat \<Rightarrow> rt_map \<Rightarrow> bool" where
  "li_ports_ok n T \<longleftrightarrow> (\<forall>k v. T k = Some v \<longrightarrow> 0 \<le> snd v \<and> snd v < int n)"

definition li_inv :: "nat \<Rightarrow> LinearIPLookup \<Rightarrow> bool" where
  "li_inv n st \<longleftrightarrow> li_table_ok st \<and> li_noutputs st = n \<and> li_ports_ok n (li_table st) \<and> li_cache_ok st"

text \<open>\<open>check\<close> is the part of the invariant that does not concern single routes.\<close>

lemma li_inv_check:
  assumes "li_inv n st"
  shows "LI_check st"
proof -
  have ok: "li_ok (li_t st)" and "li_cache_ok st" using assms by (simp_all add: li_inv_def li_table_ok_def)
  moreover have "\<not> (rt_contains_route (li_t st ! i) (li_t st ! j) \<and> rt_real (li_t st ! j))"
    if "rt_real (li_t st ! i)" "i < j" "j < nat (min (rt_extra (li_t st ! i)) (int (length (li_t st))))" for i j
    using li_ok_extra [OF ok, of i j] that by linarith
  moreover have "\<not> (rt_addr (li_t st ! i) = rt_addr (li_t st ! j) \<and> rt_mask (li_t st ! i) = rt_mask (li_t st ! j) \<and>
      rt_real (li_t st ! i) \<and> rt_real (li_t st ! j))" if "i < j" "j < length (li_t st)" for i j
    using li_ok_unique [OF ok, of i j] that by (auto simp: rt_key_def)
  ultimately show ?thesis
    unfolding LI_check_def Let_def list_all_iff li_cache_ok_def
    by (intro conjI ballI) (auto simp: Suc_le_eq)
qed

lemma li_ports_ok_upd:
  "li_ports_ok n T \<Longrightarrow> rt_valid n r \<Longrightarrow> li_ports_ok n (T(k \<mapsto> rt_val r))"
  "li_ports_ok n T \<Longrightarrow> li_ports_ok n (T(k := None))"
  by (auto simp: li_ports_ok_def rt_valid_def rt_wf_def rt_val_def)

lemma li_inv_cleared:
  assumes "li_table_ok st" and "li_noutputs st = n" and "li_ports_ok n (li_table st)"
    and "li_last_addr st = 0" and "li_last_addr2 st = 0"
  shows "li_inv n st"
  using assms by (simp add: li_inv_def li_cache_ok_def)

lemma li_inv_valid:
  assumes "li_inv n st" and "i < length (li_t st)" and "rt_real (li_t st ! i)"
  shows "rt_valid n (li_t st ! i)"
proof -
  have ok: "li_ok (li_t st)" using assms(1) by (simp add: li_inv_def li_table_ok_def)
  have "snd (rt_val (li_t st ! i)) < int n"
    using li_map_Some [OF ok assms(2,3)] assms(1) unfolding li_inv_def li_ports_ok_def by blast
  then show ?thesis using li_okD(1) [OF ok assms(2,3)] by (simp add: rt_valid_def rt_val_def)
qed

section \<open>The linear table meets the contract\<close>

lemma LI_lookup_entry_cong:
  assumes "length t' = length t"
    and "\<And>i. i < length t \<Longrightarrow> rt_key (t' ! i) = rt_key (t ! i) \<and> rt_extra (t' ! i) = rt_extra (t ! i)"
  shows "LI_lookup_entry a t' = LI_lookup_entry a t"
proof -
  have c: "rt_contains (t' ! i) a = rt_contains (t ! i) a" "rt_mask (t' ! i) = rt_mask (t ! i)" if "i < length t" for i
    using assms(2) [OF that] by (simp_all add: rt_contains_def rt_key_def)
  have f: "find (\<lambda>i. rt_contains (t' ! i) a) [0..<length t] = find (\<lambda>i. rt_contains (t ! i) a) [0..<length t]"
    by (rule find_cong_upt) (simp add: c)
  have g: "fold (LI_more_specific t' a) [m..<k] i = fold (LI_more_specific t a) [m..<k] i \<and>
      fold (LI_more_specific t a) [m..<k] i < length t" if "i < length t" "k \<le> length t" for m k i
    using that(2) by (induction k) (use that(1) in \<open>auto simp: LI_more_specific_def c\<close>)
  show ?thesis
  proof (cases "find (\<lambda>i. rt_contains (t ! i) a) [0..<length t]")
    case (Some i)
    then have "i < length t" by (simp add: find_upt_Some)
    with Some g assms(2) show ?thesis by (simp add: LI_lookup_entry_def assms(1) f)
  qed (simp add: LI_lookup_entry_def assms(1) f)
qed

lemma LI_add_new_inv:
  assumes inv: "li_inv n st" and r: "rt_valid n r" and new: "li_table st (rt_key r) = None"
  shows "\<exists>st'. LI_add_route r b st = (0, None, st') \<and> li_inv n st' \<and>
    li_table st' = (li_table st)(rt_key r \<mapsto> rt_val r)"
proof -
  have ok: "li_ok (li_t st)" and zok: "li_zero_ok (li_zero_route st) (li_t st)" and wf: "rt_wf r"
    using inv r by (simp_all add: li_inv_def li_table_ok_def rt_valid_def)
  have "li_ports_ok n ((li_table st)(rt_key r \<mapsto> rt_val r))" "li_noutputs st = n"
    using inv li_ports_ok_upd(1) [OF _ r] by (simp_all add: li_inv_def)
  then show ?thesis
    using LI_enter_ok [OF ok wf first_free_slot(1) new] LI_enter_map [OF ok wf first_free_slot(1) new]
      LI_enter_table_ok [OF ok wf new, of "li_zero_route st"] zok
    by (auto simp: LI_add_route_new [OF new] li_table_ok_def intro!: li_inv_cleared)
qed

lemma LI_add_old_inv:
  assumes inv: "li_inv n st" and r: "rt_valid n r" and old: "li_table st (rt_key r) = Some v"
  shows "\<exists>o1 st'. LI_add_route r b st = (if b then (0, Some o1, st') else (- EEXIST, Some o1, st)) \<and>
    rt_valid n o1 \<and> rt_key o1 = rt_key r \<and> rt_val o1 = v \<and> li_inv n st' \<and>
    li_table st' = (li_table st)(rt_key r \<mapsto> rt_val r)"
proof -
  have ok: "li_ok (li_t st)" and zok: "li_zero_ok (li_zero_route st) (li_t st)" and wf: "rt_wf r"
    using inv r by (simp_all add: li_inv_def li_table_ok_def rt_valid_def)
  obtain i where i: "i < length (li_t st)" "rt_real (li_t st ! i)" "rt_key (li_t st ! i) = rt_key r"
    "rt_val (li_t st ! i) = v"
    using old by (rule li_map_SomeD)
  let ?t = "(li_t st)[i := (li_t st ! i)\<lparr>rt_gw := rt_gw r, rt_port := rt_port r\<rparr>]"
  note rep = LI_replace [OF ok i(1-3) wf]
  have "rt_key (?t ! j) = rt_key (li_t st ! j) \<and> rt_extra (?t ! j) = rt_extra (li_t st ! j)" for j
    using i(1) by (cases "j = i") (simp_all add: rt_key_def)
  then have "LI_lookup_entry a ?t = LI_lookup_entry a (li_t st)" for a
    by (intro LI_lookup_entry_cong) simp_all
  then have "li_inv n (st\<lparr>li_t := ?t\<rparr>)"
    using inv rep(1,2) rep(3) [OF zok] li_ports_ok_upd(1) [OF _ r]
    by (simp add: li_inv_def li_table_ok_def li_cache_ok_def)
  then show ?thesis
    using LI_add_route_existing [OF ok i(1-3), of b] li_inv_valid [OF inv i(1,2)] i(3,4) rep(2)
    by (intro exI [of _ "li_t st ! i"] exI [of _ "st\<lparr>li_t := ?t\<rparr>"]) simp
qed

lemma LI_remove_clears:
  "LI_remove_route r st = (0, out, st') \<Longrightarrow>
     li_last_addr st' = 0 \<and> li_last_addr2 st' = 0 \<and> li_noutputs st' = li_noutputs st"
  by (auto simp: LI_remove_route_def LI_add_route_def Let_def ENOENT_def split: option.splits if_splits)

lemma LI_remove_hit_inv:
  assumes inv: "li_inv n st" and hit: "rt_hits r (li_table st)"
  shows "\<exists>o1 st'. LI_remove_route r st = (0, Some o1, st') \<and> rt_valid n o1 \<and> rt_key o1 = rt_key r \<and>
    li_table st (rt_key r) = Some (rt_val o1) \<and> li_inv n st' \<and> li_table st' = (li_table st)(rt_key r := None)"
proof -
  have tok: "li_table_ok st" and ok: "li_ok (li_t st)" using inv by (simp_all add: li_inv_def li_table_ok_def)
  obtain v where v: "li_table st (rt_key r) = Some v" "rt_port r < 0 \<or> rt_val r = v"
    using hit by (auto simp: rt_hits_def split: option.splits)
  obtain k where k: "k < length (li_t st)" "rt_key (li_t st ! k) = rt_key r" "rt_val (li_t st ! k) = v"
    using v(1) by (rule li_map_SomeD)
  have "rt_match r (li_t st ! k)" using k v(2) by (auto simp: rt_match_def rt_key_def rt_val_def)
  then obtain i where i: "find (\<lambda>i. rt_match r (li_t st ! i)) [0..<length (li_t st)] = Some i"
    using k(1) by (metis find_upt_None le0 not_None_eq)
  then have ii: "i < length (li_t st)" "rt_key (li_t st ! i) = rt_key r"
    by (auto simp: find_upt_Some rt_match_def rt_key_def)
  have real: "rt_real (li_t st ! i)" using rt_match_dead(1) [OF tok i] v(1) by auto
  obtain st' where st': "LI_remove_route r st = (0, Some (li_t st ! i), st')" "li_table_ok st'"
    "li_table st' = (li_table st)(rt_key r := None)"
    using LI_remove_real [OF tok i real] by blast
  have "li_inv n st'"
    using LI_remove_clears [OF st'(1)] st'(2,3) inv li_ports_ok_upd(2)
    by (intro li_inv_cleared) (simp_all add: li_inv_def)
  then show ?thesis
    using st' li_inv_valid [OF inv ii(1) real] li_map_Some [OF ok ii(1) real] ii(2) by auto
qed

lemma LI_remove_miss_inv:
  assumes inv: "li_inv n st" and miss: "\<not> rt_hits r (li_table st)"
  shows "\<exists>c out st'. LI_remove_route r st = (c, out, st') \<and> li_inv n st' \<and> li_table st' = li_table st \<and>
    (c < 0 \<or> (c = 0 \<and> li_table st (rt_key r) = None \<and> (\<exists>o1. out = Some o1 \<and> rt_port o1 < 0)))"
proof (cases "find (\<lambda>i. rt_match r (li_t st ! i)) [0..<length (li_t st)]")
  case None
  then show ?thesis using inv by (simp add: LI_remove_route_def ENOENT_def)
next
  case (Some i)
  have tok: "li_table_ok st" and ok: "li_ok (li_t st)" using inv by (simp_all add: li_inv_def li_table_ok_def)
  have i: "i < length (li_t st)" "rt_match r (li_t st ! i)" using Some by (auto simp: find_upt_Some)
  have dead: "\<not> rt_real (li_t st ! i)"
  proof
    assume "rt_real (li_t st ! i)"
    then have "li_table st (rt_key (li_t st ! i)) = Some (rt_val (li_t st ! i))" using li_map_Some [OF ok i(1)] by blast
    with miss i(2) show False by (auto simp: rt_hits_def rt_match_def rt_key_def rt_val_def split: option.splits)
  qed
  obtain st' where st': "LI_remove_route r st = (0, Some (li_t st ! i), st')" "li_table_ok st'" "li_table st' = li_table st"
    using LI_remove_dead [OF tok Some dead] by blast
  have "li_inv n st'"
    using LI_remove_clears [OF st'(1)] st'(2,3) inv by (intro li_inv_cleared) (simp_all add: li_inv_def)
  then show ?thesis using st' rt_match_dead(1) [OF tok Some dead] dead by (simp add: rt_real_def INT32_MIN_def)
qed

interpretation li: ip_route_table n LI_add_route LI_remove_route li_table "li_inv n" for n
  by unfold_locales
     (blast intro: LI_add_new_inv LI_add_old_inv LI_remove_hit_inv LI_remove_miss_inv)+
section \<open>Forwarding\<close>

text \<open>An entry found for an address other than 0.0.0.0 is a real route with a port of the element.\<close>

lemma LI_emit_found:
  assumes inv: "li_inv n st" and a: "p_dst_ip_anno p \<noteq> 0"
    and ei: "LI_lookup_entry (p_dst_ip_anno p) (li_t st) = Some ei"
    and st': "li_t st' = li_t st" "li_noutputs st' = n"
  shows "RT_push LI_lookup_route n p st = map_sum id snd (LI_emit (li_t st ! ei) p st')"
    and "\<exists>out. LI_emit (li_t st ! ei) p st' = Inr (st', [out])"
proof -
  have ok: "li_ok (li_t st)" using inv by (simp add: li_inv_def li_table_ok_def)
  have "rt_valid n (li_t st ! ei)"
    using LI_lookup_entry_best [OF ok a ei] li_inv_valid [OF inv] by blast
  then have "0 \<le> rt_port (li_t st ! ei)" "rt_port (li_t st ! ei) < int n" by (simp_all add: rt_valid_def rt_wf_def)
  then show "RT_push LI_lookup_route n p st = map_sum id snd (LI_emit (li_t st ! ei) p st')"
    and "\<exists>out. LI_emit (li_t st ! ei) p st' = Inr (st', [out])"
    using st'(2) ei by (simp_all add: RT_push_def LI_lookup_route_def LI_emit_def)
qed

text \<open>The caches do not show: \<open>push\<close> does what the superclass does with a fresh lookup.\<close>

lemma LI_push_eq_RT_push:
  assumes inv: "li_inv n st" and a: "p_dst_ip_anno p \<noteq> 0"
  shows "\<exists>st' out. LI_push p st = Inr (st', out) \<and> RT_push LI_lookup_route n p st = Inr out \<and>
    li_inv n st' \<and> li_t st' = li_t st"
proof -
  have n: "li_noutputs st = n" and c: "li_cache_ok st" using inv by (simp_all add: li_inv_def)
  show ?thesis
  proof (cases "LI_lookup_entry (p_dst_ip_anno p) (li_t st)")
    case None
    then have "p_dst_ip_anno p \<noteq> li_last_addr st" "p_dst_ip_anno p \<noteq> li_last_addr2 st"
      using c a by (auto simp: li_cache_ok_def)
    with None inv show ?thesis by (simp add: LI_push_def RT_push_def LI_lookup_route_def)
  next
    case (Some ei)
    let ?st = "st\<lparr>li_last_addr2 := li_last_addr st, li_last_entry2 := li_last_entry st,
      li_last_addr := p_dst_ip_anno p, li_last_entry := ei\<rparr>"
    have "LI_push p st = LI_emit (li_t st ! ei) p st \<or> LI_push p st = LI_emit (li_t st ! ei) p ?st"
      using c Some a by (auto simp: LI_push_def Let_def li_cache_ok_def)
    then obtain st' where st': "LI_push p st = LI_emit (li_t st ! ei) p st'" "st' = st \<or> st' = ?st" by blast
    moreover have "li_inv n ?st" using inv Some by (simp add: li_inv_def li_table_ok_def li_cache_ok_def)
    ultimately show ?thesis using LI_emit_found [OF inv a Some, of st'] inv n by auto
  qed
qed

lemma LI_push_keeps_inv:
  assumes inv: "li_inv n st" and push: "LI_push p st = Inr (st', out)"
  shows "li_inv n st'"
proof (cases "p_dst_ip_anno p = 0")
  case True
  then consider "st' = st" | ei where "st' = st\<lparr>li_last_addr2 := li_last_addr st, li_last_entry2 := li_last_entry st,
      li_last_addr := 0, li_last_entry := ei\<rparr>"
    using push by (auto simp: LI_push_def LI_emit_def Let_def split: option.splits if_splits)
  then show ?thesis using inv by cases (simp_all add: li_inv_def li_table_ok_def li_cache_ok_def)
next
  case False
  then show ?thesis using LI_push_eq_RT_push [OF inv False] push by auto
qed

section \<open>Reachable states\<close>

lemma LI_add_keeps_inv:
  assumes "li_inv n st" and "rt_valid n r"
  shows "li_inv n (snd (snd (LI_add_route r b st)))"
proof (cases "li_table st (rt_key r)")
  case None
  then show ?thesis using LI_add_new_inv [OF assms None, of b] by auto
next
  case (Some v)
  then show ?thesis using LI_add_old_inv [OF assms Some, of b] assms(1) by auto
qed

lemma LI_configure_inv:
  assumes "li_inv n st" and "\<And>r. Some r \<in> set conf \<Longrightarrow> rt_parsed r"
  shows "li_inv n (snd (RT_configure LI_add_route n conf c st))"
  using assms
proof (induction LI_add_route n conf c st rule: RT_configure.induct)
  case (3 noutputs route conf r st)
  have "li_inv noutputs (snd (snd (LI_add_route route False st)))"
    if "\<not> (rt_port route < 0 \<or> rt_port route \<ge> int noutputs)"
    using LI_add_keeps_inv [OF 3(3)] 3(4) [of route] that by (simp add: rt_valid_def rt_wf_def)
  then show ?case using 3 by (auto split: prod.splits)
qed simp_all

text \<open>
  The life of the element: configuration and initialization, then handler calls and packets in any order. A
  \<open>ctrl\<close> request that does not return has no successor.
\<close>

inductive LI_reach :: "nat \<Rightarrow> LinearIPLookup \<Rightarrow> bool" for n where
  start: "(\<And>r. Some r \<in> set conf \<Longrightarrow> rt_parsed r) \<Longrightarrow>
    LI_reach n (snd (LI_initialize (snd (RT_configure LI_add_route n conf 0 (new_LinearIPLookup n)))))"
| add: "LI_reach n st \<Longrightarrow> (\<And>r. parsed = Some r \<Longrightarrow> rt_parsed r) \<Longrightarrow>
    LI_reach n (snd (RT_add_route_handler LI_add_route LI_remove_route n thunk parsed st))"
| remove: "LI_reach n st \<Longrightarrow> (\<And>r. parsed = Some r \<Longrightarrow> rt_parsed r) \<Longrightarrow>
    LI_reach n (snd (RT_remove_route_handler LI_add_route LI_remove_route n parsed st))"
| ctrl: "LI_reach n st \<Longrightarrow> Blank \<notin> set conf \<Longrightarrow> (\<And>c r. Command c (Some r) \<in> set conf \<Longrightarrow> rt_parsed r) \<Longrightarrow>
    RT_ctrl LI_add_route LI_remove_route n (Suc (length conf)) conf [] st = Some (c, st') \<Longrightarrow> LI_reach n st'"
| push: "LI_reach n st \<Longrightarrow> LI_push p st = Inr (st', out) \<Longrightarrow> LI_reach n st'"

lemma LI_run_command_inv:
  assumes "li_inv n st" and "\<And>r. parsed = Some r \<Longrightarrow> rt_parsed r"
  shows "li_inv n (snd (snd (RT_run_command LI_add_route LI_remove_route n command parsed st)))"
  using li.run_command_cases [OF assms]
  by (metis prod.collapse)

lemma LI_reach_inv: "LI_reach n st \<Longrightarrow> li_inv n st"
proof (induction rule: LI_reach.induct)
  case (start conf)
  have "li_inv n (new_LinearIPLookup n)"
    by (simp add: new_LinearIPLookup_def li_inv_def li_table_ok_def li_ok_def li_zero_ok_def li_ports_ok_def
          li_cache_ok_def li_map_def)
  then have "li_inv n (snd (RT_configure LI_add_route n conf 0 (new_LinearIPLookup n)))"
    using start by (rule LI_configure_inv)
  then show ?case by (simp add: LI_initialize_def li_inv_def li_table_ok_def li_cache_ok_def)
next
  case (add st parsed thunk)
  then show ?case using LI_run_command_inv by (simp add: RT_add_route_handler_def split_beta)
next
  case (remove st parsed)
  then show ?case using LI_run_command_inv by (simp add: RT_remove_route_handler_def split_beta)
next
  case (ctrl st conf c st')
  then show ?case using li.ctrl_transaction [of n st conf "Suc (length conf)" "[]" "li_table st"] by auto
next
  case (push st p st' out)
  then show ?case using LI_push_keeps_inv by blast
qed
section \<open>Properties\<close>

definition rt_pkt_out :: "ipaddr \<Rightarrow> packet \<Rightarrow> packet" where
  "rt_pkt_out gw p = (if gw \<noteq> 0 then set_dst_ip_anno gw p else p)"

lemma LI_lookup_route_longest:
  assumes "li_inv n st" and "a \<noteq> 0"
  shows "LI_lookup_route a st = Some v \<longleftrightarrow> longest_match (li_table st) a v"
    and "LI_lookup_route a st = None \<longleftrightarrow>
      (\<forall>addr m. li_table st (addr, m) \<noteq> None \<longrightarrow> \<not> matches_prefix a addr m)"
proof -
  have ok: "li_ok (li_t st)" using assms(1) by (simp add: li_inv_def li_table_ok_def)
  have eq: "LI_lookup_route a st =
      (case LI_lookup_entry a (li_t st) of None \<Rightarrow> None | Some f \<Rightarrow> Some (rt_val (li_t st ! f)))"
    by (simp add: LI_lookup_route_def rt_val_def split: option.splits)
  show "LI_lookup_route a st = Some v \<longleftrightarrow> longest_match (li_table st) a v"
    unfolding eq by (rule LI_lookup_is_longest_match [OF ok assms(2)])
  have "LI_lookup_route a st = None \<longleftrightarrow> (\<forall>i < length (li_t st). rt_real (li_t st ! i) \<longrightarrow> \<not> rt_contains (li_t st ! i) a)"
    using dead_contains [OF ok _ _ assms(2)] LI_lookup_entry_None [of a "li_t st"]
    by (auto simp: eq split: option.splits)
  also have "\<dots> \<longleftrightarrow> (\<forall>addr m. li_table st (addr, m) \<noteq> None \<longrightarrow> \<not> matches_prefix a addr m)"
    by (simp add: li_map_None rt_key_def rt_contains_def) blast
  finally show "LI_lookup_route a st = None \<longleftrightarrow>
      (\<forall>addr m. li_table st (addr, m) \<noteq> None \<longrightarrow> \<not> matches_prefix a addr m)" .
qed

text \<open>
  The table of \<^verbatim>\<open>mn.click\<close> for a node 192.168.0.10/24 with gateway 192.168.0.1, and packets with a given
  destination annotation.
\<close>

definition sample_mn_routes :: "IPRoute option list" where
  "sample_mn_routes =
     [Some \<lparr>rt_addr = 0x0A00A8C0, rt_mask = 0xFFFFFFFF, rt_gw = 0, rt_port = 0, rt_extra = 0\<rparr>,
      Some \<lparr>rt_addr = 0x0000A8C0, rt_mask = 0x00FFFFFF, rt_gw = 0, rt_port = 1, rt_extra = 0\<rparr>,
      Some \<lparr>rt_addr = 0, rt_mask = 0, rt_gw = 0x0100A8C0, rt_port = 1, rt_extra = 0\<rparr>]"

definition sample_mn_table :: LinearIPLookup where
  "sample_mn_table =
     snd (LI_initialize (snd (RT_configure LI_add_route 2 sample_mn_routes 0 (new_LinearIPLookup 2))))"

lemma sample_parsed: "Some r \<in> set sample_mn_routes \<Longrightarrow> rt_parsed r"
proof -
  have "prefix_mask 0xFFFFFFFF" "prefix_mask 0x00FFFFFF" "prefix_mask 0" by code_simp+
  then show "Some r \<in> set sample_mn_routes \<Longrightarrow> rt_parsed r"
    by (auto simp: sample_mn_routes_def rt_parsed_def)
qed

lemma sample_mn_reach: "LI_reach 2 sample_mn_table"
  unfolding sample_mn_table_def by (rule LI_reach.start) (rule sample_parsed)

lemmas route_evals = rt_contains_route_def rt_contains_def matches_prefix_def mask_as_specific_def rt_real_def
  INT32_MIN_def no_extra_def

lemma sample_mn_t:
  "li_t sample_mn_table =
     [\<lparr>rt_addr = 0x0A00A8C0, rt_mask = 0xFFFFFFFF, rt_gw = 0, rt_port = 0, rt_extra = 0x7FFFFFFF\<rparr>,
      \<lparr>rt_addr = 0x0000A8C0, rt_mask = 0x00FFFFFF, rt_gw = 0, rt_port = 1, rt_extra = 0x7FFFFFFF\<rparr>,
      \<lparr>rt_addr = 0, rt_mask = 0, rt_gw = 0x0100A8C0, rt_port = 1, rt_extra = 0x7FFFFFFF\<rparr>]"
  by (simp add: sample_mn_table_def LI_initialize_def sample_mn_routes_def new_LinearIPLookup_def
        LI_add_route_def LI_patch_up_def route_evals Let_def)

lemma sample_zero: "li_zero_route sample_mn_table = -1"
  by (simp add: sample_mn_table_def LI_initialize_def sample_mn_routes_def new_LinearIPLookup_def
        LI_add_route_def LI_patch_up_def route_evals Let_def)

lemma sample_lookup: "LI_lookup_route 0x08080808 sample_mn_table = Some (0x0100A8C0, 1)"
  by (simp add: LI_lookup_route_def LI_lookup_entry_def sample_mn_t route_evals)

definition sample_to :: "ipaddr \<Rightarrow> packet" where
  "sample_to a = \<lparr>p_buf = [], p_data = 0, p_len = 0, p_mac = None, p_nh = None, p_h = None,
     p_dst_ip_anno = a, p_use_count = 1, p_data_packet = False\<rparr>"

text \<open>
  C22: In every state that configuration, handlers and packets can bring a LinearIPLookup into, a packet
  for an address other than 0.0.0.0 leaves by the port and gateway of the most specific prefix in the
  table that matches (the cached entries included), that port exists, and the packet is dropped exactly when no
  prefix matches; the table is not changed.
\<close>

theorem LI_push_longest_prefix:
  assumes "LI_reach n st" and "p_dst_ip_anno p \<noteq> 0"
  shows "\<exists>st' out. LI_push p st = Inr (st', out) \<and> li_t st' = li_t st \<and>
    (\<forall>gw port. longest_match (li_table st) (p_dst_ip_anno p) (gw, port) \<longrightarrow>
       0 \<le> port \<and> port < int n \<and> out = [Push (nat port) (rt_pkt_out gw p)]) \<and>
    ((\<forall>addr m. li_table st (addr, m) \<noteq> None \<longrightarrow> \<not> matches_prefix (p_dst_ip_anno p) addr m) \<longleftrightarrow> out = [Kill p])"
proof -
  have inv: "li_inv n st" using assms(1) by (rule LI_reach_inv)
  obtain st' out where push: "LI_push p st = Inr (st', out)" "RT_push LI_lookup_route n p st = Inr out"
    "li_t st' = li_t st"
    using LI_push_eq_RT_push [OF inv assms(2)] by blast
  have port: "0 \<le> port \<and> port < int n" if "longest_match (li_table st) (p_dst_ip_anno p) (gw, port)" for gw port
    using that inv by (fastforce simp: longest_match_def li_inv_def li_ports_ok_def)
  have lookup: "0 \<le> port" if "LI_lookup_route (p_dst_ip_anno p) st = Some (gw, port)" for gw port
    using LI_lookup_route_longest(1) [OF inv assms(2), of "(gw, port)"] port that by blast
  show ?thesis
  proof (intro exI [of _ st'] exI [of _ out] conjI allI impI)
    fix gw port
    assume "longest_match (li_table st) (p_dst_ip_anno p) (gw, port)"
    with port LI_lookup_route_longest(1) [OF inv assms(2), of "(gw, port)"] push(2)
    show "0 \<le> port" "port < int n" "out = [Push (nat port) (rt_pkt_out gw p)]"
      by (simp_all add: RT_push_def rt_pkt_out_def)
  next
    show "(\<forall>addr m. li_table st (addr, m) \<noteq> None \<longrightarrow> \<not> matches_prefix (p_dst_ip_anno p) addr m) \<longleftrightarrow> out = [Kill p]"
      unfolding LI_lookup_route_longest(2) [OF inv assms(2), symmetric]
      using push(2) lookup by (auto simp: RT_push_def split: option.splits if_splits)
  qed (use push in simp_all)
qed

theorem LI_push_longest_prefix_witness:
  "LI_reach 2 sample_mn_table \<and> p_dst_ip_anno (sample_to 0x08080808) \<noteq> 0 \<and>
   (\<exists>st' out. LI_push (sample_to 0x08080808) sample_mn_table = Inr (st', out) \<and> li_t st' = li_t sample_mn_table \<and>
     out = [Push 1 (sample_to 0x0100A8C0)])"
proof -
  let ?p = "sample_to 0x08080808"
  have dst: "p_dst_ip_anno ?p = 0x08080808" by (simp add: sample_to_def)
  obtain st' out where push: "LI_push ?p sample_mn_table = Inr (st', out)" "li_t st' = li_t sample_mn_table"
    "\<forall>gw port. longest_match (li_table sample_mn_table) (p_dst_ip_anno ?p) (gw, port) \<longrightarrow>
       0 \<le> port \<and> port < int 2 \<and> out = [Push (nat port) (rt_pkt_out gw ?p)]"
    using LI_push_longest_prefix [OF sample_mn_reach, of ?p] dst by auto
  have "longest_match (li_table sample_mn_table) (p_dst_ip_anno ?p) (0x0100A8C0, 1)"
    using LI_lookup_route_longest(1) [OF LI_reach_inv [OF sample_mn_reach], of "0x08080808" "(0x0100A8C0, 1)"]
    by (simp add: dst sample_lookup)
  with push sample_mn_reach dst show ?thesis
    by (auto simp: rt_pkt_out_def sample_to_def set_dst_ip_anno_def)
qed
text \<open>
  The element's own consistency test \<open>check\<close> finds no fault in any reachable state: the \<open>extra\<close>
  indices skip no more specific route, no prefix is entered twice, and both cached entries are
  what a lookup of their address gives.
\<close>

theorem LI_check_never_fails:
  assumes "LI_reach n st"
  shows "LI_check st"
  using li_inv_check [OF LI_reach_inv [OF assms]] .

theorem LI_check_never_fails_witness: "LI_reach 2 sample_mn_table \<and> LI_check sample_mn_table"
  using LI_check_never_fails [OF sample_mn_reach] sample_mn_reach by simp

text \<open>
  C23: A \<open>ctrl\<close> request without blank lines returns and is atomic: when it returns an error, every route of the
  table is as before the request, otherwise it returns 0 and all its commands have
  taken effect in order; a request all of whose commands the table has to accept does not fail.
\<close>

theorem LI_ctrl_atomic:
  assumes "LI_reach n st" and "Blank \<notin> set conf" and "\<forall>c r. Command c (Some r) \<in> set conf \<longrightarrow> rt_parsed r"
    and "length conf < fuel"
  shows "\<exists>c st'. RT_ctrl LI_add_route LI_remove_route n fuel conf [] st = Some (c, st') \<and>
    (if c < 0 then li_table st' = li_table st
     else c = 0 \<and> li_table st' = rt_apply_all conf (li_table st)) \<and>
    (rt_accepts_all n conf (li_table st) \<longrightarrow> c = 0)"
proof -
  have "\<exists>c st'. RT_ctrl LI_add_route LI_remove_route n fuel conf [] st = Some (c, st') \<and> li_inv n st' \<and>
    (if c < 0 then li_table st' = li_table st
     else c = 0 \<and> li_table st' = rt_apply_all conf (li_table st)) \<and>
    (rt_accepts_all n conf (li_table st) \<longrightarrow> c = 0)"
    by (rule li.ctrl_transaction) (use assms LI_reach_inv in auto)
  then show ?thesis by blast
qed

definition sample_request_lines :: "ctrl_line list" where
  "sample_request_lines =
     [Command CMD_REMOVE (Some \<lparr>rt_addr = 0, rt_mask = 0, rt_gw = 0, rt_port = -1, rt_extra = 0\<rparr>),
      Command CMD_ADD (Some \<lparr>rt_addr = 0x0A00A8C0, rt_mask = 0xFFFFFFFF, rt_gw = 0, rt_port = 1, rt_extra = 0\<rparr>)]"

lemma sample_request_parsed: "\<forall>c r. Command c (Some r) \<in> set sample_request_lines \<longrightarrow> rt_parsed r"
proof -
  have "prefix_mask 0xFFFFFFFF" "prefix_mask 0" by code_simp+
  then show ?thesis by (auto simp: sample_request_lines_def rt_parsed_def)
qed

text \<open>The second command is refused, so the default route is back.\<close>

theorem LI_ctrl_atomic_witness:
  "LI_reach 2 sample_mn_table \<and> Blank \<notin> set sample_request_lines \<and> length sample_request_lines < 3 \<and>
   (\<exists>st'. RT_ctrl LI_add_route LI_remove_route 2 3 sample_request_lines [] sample_mn_table = Some (- EEXIST, st') \<and>
     li_table st' = li_table sample_mn_table)"
proof -
  have len: "Blank \<notin> set sample_request_lines" "length sample_request_lines < 3"
    by (simp_all add: sample_request_lines_def)
  obtain c st' where c: "RT_ctrl LI_add_route LI_remove_route 2 3 sample_request_lines [] sample_mn_table = Some (c, st')"
    "if c < 0 then li_table st' = li_table sample_mn_table
     else c = 0 \<and> li_table st' = rt_apply_all sample_request_lines (li_table sample_mn_table)"
    using LI_ctrl_atomic [OF sample_mn_reach len(1) sample_request_parsed len(2)] by blast
  have "map_option fst (RT_ctrl LI_add_route LI_remove_route 2 3 sample_request_lines [] sample_mn_table) = Some (- EEXIST)"
    by (simp add: eval_nat_numeral sample_request_lines_def RT_run_command_def LI_remove_route_def LI_add_route_def
          sample_mn_t rt_match_def route_evals rt_kill_def sample_zero EEXIST_def Let_def)
  with c sample_mn_reach len show ?thesis by (simp add: EEXIST_def)
qed

text \<open>
  C38: A \<open>ctrl\<close> request whose commands up to a blank line are all acceptable does not return: the loop
  goes on from the blank line without stepping over it, for any number of iterations.
\<close>

theorem LI_ctrl_blank_line_loops:
  assumes "LI_reach n st" and "\<forall>c r. Command c (Some r) \<in> set conf \<longrightarrow> rt_parsed r"
    and "rt_accepts_all n conf (li_table st)"
  shows "RT_ctrl LI_add_route LI_remove_route n fuel (conf @ Blank # rest) [] st = None"
  using li.ctrl_blank [OF LI_reach_inv [OF assms(1)] _ assms(3)] assms(2) by blast

theorem LI_ctrl_blank_line_loops_witness:
  "LI_reach 2 sample_mn_table \<and> rt_accepts_all 2 (take 1 sample_request_lines) (li_table sample_mn_table) \<and>
   (\<forall>fuel. RT_ctrl LI_add_route LI_remove_route 2 fuel
      (take 1 sample_request_lines @ Blank # drop 1 sample_request_lines) [] sample_mn_table = None)"
proof -
  have acc: "rt_accepts_all 2 (take 1 sample_request_lines) (li_table sample_mn_table)"
    by (simp add: sample_request_lines_def rt_accepts_def rt_hits_def li_map_def sample_mn_t rt_key_def route_evals)
  have "\<forall>c r. Command c (Some r) \<in> set (take 1 sample_request_lines) \<longrightarrow> rt_parsed r"
    using sample_request_parsed by (auto simp: sample_request_lines_def)
  then show ?thesis using LI_ctrl_blank_line_loops [OF sample_mn_reach _ acc] sample_mn_reach acc by blast
qed

text \<open>A static table takes no route and loses none once the router runs, whatever the handlers are asked.\<close>

lemma SI_static:
  "fst (RT_run_command (SI_add_route True) (SI_remove_route True) n command parsed st) = - EINVAL"
  "snd (snd (RT_run_command (SI_add_route True) (SI_remove_route True) n command parsed st)) = st"
  by (auto simp: RT_run_command_def SI_add_route_def SI_remove_route_def EINVAL_def split: option.splits rt_command.splits)

text \<open>
  A dead slot matches the address 0.0.0.0, for which no route is in the table: the lookup gives it back, with
  the smallest integer as its port, and a second \<open>remove\<close> of 0.0.0.0/32 succeeds.
\<close>

lemma LI_dead_slot_answers_zero:
  assumes "li_t st = [rt_kill r]" and "li_zero_route st = -1"
  shows "LI_lookup_route 0 st = Some (rt_gw r, INT32_MIN)"
    and "li_table st = (\<lambda>_. None)"
    and "fst (LI_remove_route \<lparr>rt_addr = 0, rt_mask = 0xFFFFFFFF, rt_gw = 0, rt_port = -1, rt_extra = 0\<rparr> st) = 0"
  using assms
  by (auto simp: LI_lookup_route_def LI_lookup_entry_def LI_more_specific_def LI_remove_route_def li_map_def
        rt_match_def rt_kill_def route_evals upt_rec Let_def fun_eq_iff split: if_splits)

end
