(* ===== verification/IP_Datagram.thy ===== *)
theory IP_Datagram
  imports Click_IP
begin

text \<open>
  Datagrams with options, as the elements of the forwarding path see them: a packet whose data starts
  with an IP header (\<open>holds_dgram\<close>), the fields of that header, the checksum written over header and options,
  and the functions of \<^verbatim>\<open>Packet\<close> these elements share.
\<close>

unbundle bit_operations_syntax

lemma res_bind_cong [fundef_cong]:
  "m = m' \<Longrightarrow> (\<And>x. m' = Inr x \<Longrightarrow> f x = g x) \<Longrightarrow> res_bind m f = res_bind m' g"
  by (cases m') simp_all

section \<open>Annotations\<close>

text \<open>
  The packet type and the annotation bytes, kept beside a packet by the elements that use them;
  the destination address annotation is part of \<open>packet\<close>.
\<close>

datatype packet_type_anno = HOST | BROADCAST | MULTICAST | OTHERHOST | OUTGOING | LOOPBACK | FASTROUTE

record annos =
  packet_type :: packet_type_anno
  anno_u8 :: "nat \<Rightarrow> byte"

definition set_anno_u8 :: "nat \<Rightarrow> byte \<Rightarrow> annos \<Rightarrow> annos" where
  "set_anno_u8 i x an = an\<lparr>anno_u8 := (anno_u8 an)(i := x)\<rparr>"

definition new_annos :: annos where
  "new_annos = \<lparr>packet_type = HOST, anno_u8 = \<lambda>_. 0\<rparr>"

definition PAINT_ANNO_OFFSET :: nat where "PAINT_ANNO_OFFSET = 16"

definition ICMP_PARAMPROB_ANNO_OFFSET :: nat where "ICMP_PARAMPROB_ANNO_OFFSET = 17"

definition FIX_IP_SRC_ANNO_OFFSET :: nat where "FIX_IP_SRC_ANNO_OFFSET = 19"

abbreviation ICMP_PARAMPROB_ANNO :: "annos \<Rightarrow> byte" where
  "ICMP_PARAMPROB_ANNO an \<equiv> anno_u8 an ICMP_PARAMPROB_ANNO_OFFSET"

abbreviation FIX_IP_SRC_ANNO :: "annos \<Rightarrow> byte" where
  "FIX_IP_SRC_ANNO an \<equiv> anno_u8 an FIX_IP_SRC_ANNO_OFFSET"

section \<open>Making, cloning and lengths\<close>

lemma Packet_make_has_memory:
  assumes "\<forall>n. mem n \<noteq> None"
  shows "\<exists>q. Packet_make mem hr None len tr = Some q"
  using assms [rule_format, of "max (len + hr + tr) min_buffer_length"]
  by (auto simp: Packet_make_def alloc_data_def Let_def)

definition default_headroom :: u32 where "default_headroom = 28"

text \<open>
  \<open>Packet::clone\<close>, when there is memory for the packet object: the clone and the packet it was made from. Without it the code
  returns a null pointer, which \<open>PaintTee\<close> and \<open>IPFragmenter\<close> do not expect.
\<close>

definition pkt_clone :: "packet \<Rightarrow> packet \<times> packet" where
  "pkt_clone p =
     (p\<lparr>p_use_count := 1, p_data_packet := True\<rparr>,
      if p_data_packet p then p else p\<lparr>p_use_count := p_use_count p + 1\<rparr>)"

definition network_header_offset :: "packet \<Rightarrow> nat \<Rightarrow> int" where
  "network_header_offset p nh = int nh - int (p_data p)"

definition network_length :: "packet \<Rightarrow> nat \<Rightarrow> int" where
  "network_length p nh = int (p_data p + p_len p) - int nh"

definition network_header_length :: "packet \<Rightarrow> int res" where
  "network_header_length p =
     res_bind (deref (p_nh p)) (\<lambda>nh. res_bind (deref (p_h p)) (\<lambda>h. Inr (int h - int nh)))"

section \<open>Storing a header\<close>

text \<open>\<open>ip->ip_sum = 0; ip->ip_sum = click_in_cksum(ip, hlen)\<close> on the header \<open>ip\<close> to be stored at \<open>nh\<close>.\<close>

definition store_ip_sum :: "nat \<Rightarrow> nat \<Rightarrow> click_ip \<Rightarrow> packet \<Rightarrow> packet res" where
  "store_ip_sum nh hlen ip p =
     res_bind (wr p nh (enc_ip (ip\<lparr>ip_sum := 0\<rparr>))) (\<lambda>p.
     res_bind (rd p nh hlen) (\<lambda>hdr.
     wr p nh (enc_ip (ip\<lparr>ip_sum := click_in_cksum hdr\<rparr>))))"

section \<open>Headers with options\<close>

definition summed :: "click_ip \<Rightarrow> byte list \<Rightarrow> click_ip" where
  "summed ip opts = ip\<lparr>ip_sum := click_in_cksum (enc_ip (ip\<lparr>ip_sum := 0\<rparr>) @ opts)\<rparr>"

lemma summed_fields [simp]:
  "ip_v (summed h opts) = ip_v h" "ip_hl (summed h opts) = ip_hl h" "ip_tos (summed h opts) = ip_tos h"
  "ip_len (summed h opts) = ip_len h" "ip_id (summed h opts) = ip_id h" "ip_off (summed h opts) = ip_off h"
  "ip_ttl (summed h opts) = ip_ttl h" "ip_p (summed h opts) = ip_p h"
  "ip_src (summed h opts) = ip_src h" "ip_dst (summed h opts) = ip_dst h"
  by (simp_all add: summed_def)

lemma summed_verifies:
  assumes "length opts \<le> 40"
  shows "click_in_cksum (enc_ip (summed h opts) @ opts) = 0"
proof -
  define S where "S = word_sum (enc_ip (h\<lparr>ip_sum := 0\<rparr>) @ opts)"
  define c where "c = click_in_cksum (enc_ip (h\<lparr>ip_sum := 0\<rparr>) @ opts)"
  have len: "length (enc_ip x @ opts) \<le> 65535" for x using assms by (simp add: length_enc_ip)
  have "S < 4294967296" unfolding S_def by (rule word_sum_lt) (rule len)
  moreover have "unat c = 65535 - ones_fold S"
    unfolding S_def c_def by (rule unat_click_in_cksum) (rule len)
  moreover have "word_sum (enc_ip (summed h opts) @ opts) = S + unat c"
    using word_sum_enc_ip_sum [where h = h and r = c and xs = opts]
    by (simp only: summed_def c_def S_def)
  ultimately have "0 < word_sum (enc_ip (summed h opts) @ opts) \<and> 65535 dvd word_sum (enc_ip (summed h opts) @ opts)"
    using ones_fold_complement [of S] by simp
  then show ?thesis by (simp only: click_in_cksum_zero_iff [OF len])
qed

lemma patch_patch:
  "off + length bs \<le> length xs \<Longrightarrow> length cs = length bs \<Longrightarrow> patch off cs (patch off bs xs) = patch off cs xs"
  by (simp add: patch_def)

lemma store_ip_sum_eq:
  assumes "nh + 20 + length opts \<le> length (p_buf p)" and "chunk (nh + 20) (length opts) (p_buf p) = opts"
  shows "store_ip_sum nh (20 + length opts) ip p = Inr (p\<lparr>p_buf := patch nh (enc_ip (summed ip opts)) (p_buf p)\<rparr>)"
proof -
  let ?b = "patch nh (enc_ip (ip\<lparr>ip_sum := 0\<rparr>)) (p_buf p)"
  have "chunk nh 20 ?b = enc_ip (ip\<lparr>ip_sum := 0\<rparr>)"
    using chunk_patch_same [of nh "enc_ip (ip\<lparr>ip_sum := 0\<rparr>)" "p_buf p"] assms(1) by (simp add: length_enc_ip)
  moreover have "chunk (nh + 20) (length opts) ?b = opts"
    using chunk_patch_after [of nh "enc_ip (ip\<lparr>ip_sum := 0\<rparr>)" "nh + 20" "p_buf p"] assms by (simp add: length_enc_ip)
  ultimately have "chunk nh (20 + length opts) ?b = enc_ip (ip\<lparr>ip_sum := 0\<rparr>) @ opts" by (simp add: chunk_split)
  then show ?thesis
    using assms(1) by (simp add: store_ip_sum_def wr_def rd_def length_enc_ip patch_patch summed_def)
qed

lemma header_length:
  assumes "4 dvd n" and "n \<le> 40"
  shows "4 * unat (of_nat ((20 + n) div 4) :: 4 word) = 20 + n"
proof -
  obtain k where k: "n = 4 * k" using assms(1) by blast
  then have "(20 + n) div 4 = 5 + k" "k \<le> 10" using assms(2) by simp_all
  moreover from this have "unat (of_nat (5 + k) :: 4 word) = 5 + k"
    by (simp add: unat_of_nat take_bit_nat_eq_self del: of_nat_add)
  ultimately show ?thesis using k by (simp del: of_nat_add)
qed

text \<open>A header, options and a message written one behind the other.\<close>

lemma chunk_three_patches:
  assumes "length h = 20" and "at + 20 + length opts + length m \<le> length b"
  defines "b1 \<equiv> patch (at + 20 + length opts) m (patch (at + 20) opts b)"
  shows "chunk (at + 20) (length opts) b1 = opts" (is ?opts)
    and "chunk at (20 + length opts + length m) (patch at h b1) = h @ opts @ m" (is ?all)
proof -
  have l: "length b1 = length b" using assms(2) by (simp add: b1_def)
  show o: ?opts
    using assms(2) chunk_patch_same [of "at + 20" opts b] by (simp add: b1_def chunk_patch_before)
  have m: "chunk (at + 20 + length opts) (length m) b1 = m"
    using assms(2) chunk_patch_same [of "at + 20 + length opts" m "patch (at + 20) opts b"] by (simp add: b1_def)
  have h: "chunk at 20 (patch at h b1) = h" using chunk_patch_same [of at h b1] assms(1,2) l by simp
  have "chunk (at + 20) n (patch at h b1) = chunk (at + 20) n b1" for n
    using assms(1,2) l by (simp add: chunk_patch_after)
  then show ?all
    using chunk_split [of at 20 "length opts + length m" "patch at h b1"]
      chunk_split [of "at + 20" "length opts" "length m" b1] o m h by (simp add: add.assoc)
qed

section \<open>Datagrams\<close>

definition dgram_hdr :: "byte list \<Rightarrow> click_ip" where
  "dgram_hdr bs = dec_ip (take 20 bs)"

definition dgram_hlen :: "byte list \<Rightarrow> nat" where
  "dgram_hlen bs = 4 * unat (ip_hl (dgram_hdr bs))"

definition dgram_payload :: "byte list \<Rightarrow> byte list" where
  "dgram_payload bs = drop (dgram_hlen bs) bs"

definition dgram_off :: "byte list \<Rightarrow> nat" where
  "dgram_off bs = 8 * unat (take_bit 13 (ntohs (ip_off (dgram_hdr bs))))"

definition dgram_mf :: "byte list \<Rightarrow> bool" where
  "dgram_mf bs \<longleftrightarrow> bit (ntohs (ip_off (dgram_hdr bs))) 13"

definition dgram_valid :: "byte list \<Rightarrow> bool" where
  "dgram_valid bs \<longleftrightarrow> 20 \<le> dgram_hlen bs \<and> dgram_hlen bs \<le> length bs \<and> ip_v (dgram_hdr bs) = 4 \<and>
     unat (ntohs (ip_len (dgram_hdr bs))) = length bs \<and> click_in_cksum (take (dgram_hlen bs) bs) = 0"

lemma dgram_hdr_enc: "dgram_hdr (enc_ip h @ bs) = h"
  by (simp add: dgram_hdr_def length_enc_ip ip.dec_enc [simplified])

lemma dgram_built:
  assumes "4 * unat (ip_hl h) = 20 + length opts" and "length opts \<le> 40"
  shows "dgram_hdr (enc_ip (summed h opts) @ opts @ data) = summed h opts"
    and "dgram_payload (enc_ip (summed h opts) @ opts @ data) = data"
    and "ip_v h = 4 \<Longrightarrow> unat (ntohs (ip_len h)) = 20 + length opts + length data \<Longrightarrow>
      dgram_valid (enc_ip (summed h opts) @ opts @ data)"
proof -
  let ?bs = "enc_ip (summed h opts) @ opts @ data"
  show hdr: "dgram_hdr ?bs = summed h opts" by (rule dgram_hdr_enc)
  have hlen: "dgram_hlen ?bs = 20 + length opts" using assms(1) by (simp add: dgram_hlen_def hdr)
  show "dgram_payload ?bs = data" by (simp add: dgram_payload_def hlen length_enc_ip)
  show "dgram_valid ?bs" if "ip_v h = 4" "unat (ntohs (ip_len h)) = 20 + length opts + length data"
    using that summed_verifies [OF assms(2), of h]
    by (simp add: dgram_valid_def hlen hdr length_enc_ip)
qed

text \<open>A packet that holds the datagram \<open>bs\<close> with its header pointers set.\<close>

definition holds_dgram :: "packet \<Rightarrow> byte list \<Rightarrow> bool" where
  "holds_dgram p bs \<longleftrightarrow> wf_pkt p \<and> pkt_bytes p = bs \<and> p_nh p = Some (p_data p) \<and>
     p_h p = Some (p_data p + dgram_hlen bs)"

lemma holds_dgram_rd8:
  assumes "holds_dgram p bs" and "i < length bs"
  shows "rd8 p (p_data p + i) = Inr (bs ! i)"
  using assms rd8_data [of p i] length_pkt_bytes [of p] by (auto simp: holds_dgram_def)

lemma holds_dgram_rd:
  assumes "holds_dgram p bs" and "i + n \<le> length bs"
  shows "rd p (p_data p + i) n = Inr (chunk i n bs)"
  using assms rd_data [of p i n] length_pkt_bytes [of p] by (auto simp: holds_dgram_def)

lemma dgram_split:
  assumes "dgram_valid bs"
  obtains opts where "bs = enc_ip (dgram_hdr bs) @ opts @ dgram_payload bs" "dgram_hlen bs = 20 + length opts"
    "4 dvd length opts" "length opts \<le> 40"
proof -
  have len: "20 \<le> dgram_hlen bs" "dgram_hlen bs \<le> length bs" using assms by (simp_all add: dgram_valid_def)
  define opts where "opts = take (dgram_hlen bs - 20) (drop 20 bs)"
  have "enc_ip (dgram_hdr bs) = take 20 bs"
    using len by (simp add: dgram_hdr_def ip.enc_dec [simplified] sizeof_ip_def)
  moreover have "take 20 bs @ opts @ dgram_payload bs = bs"
    using len by (simp add: opts_def dgram_payload_def)
      (metis append.assoc append_take_drop_id le_add_diff_inverse take_add)
  moreover have lo: "dgram_hlen bs = 20 + length opts" using len by (simp add: opts_def)
  moreover have "4 dvd length opts" using lo by (simp add: dgram_hlen_def) presburger
  moreover have "length opts \<le> 40"
  proof -
    have "unat (ip_hl (dgram_hdr bs)) < 16" using unsigned_less [of "ip_hl (dgram_hdr bs)", where 'a = nat] by simp
    then show ?thesis using lo by (simp add: dgram_hlen_def)
  qed
  ultimately show thesis using that by metis
qed

lemma sint_of_unat:
  fixes w :: u32
  assumes "unat w = n" and "n < 2147483648"
  shows "sint w = int n"
proof -
  have "w = of_nat n" using assms(1) by auto
  then show ?thesis using plen_word(1) [OF assms(2)] by simp
qed

section \<open>An example\<close>

definition sample_long :: "byte list" where
  "sample_long = ip_datagram 17 0 0x0100A8C0 0x0200A8C0 64 (replicate 20 7)"

definition sample_long_packet :: packet where
  "sample_long_packet = \<lparr>p_buf = sample_long, p_data = 0, p_len = 40, p_mac = None, p_nh = Some 0, p_h = Some 20,
     p_dst_ip_anno = 0, p_use_count = 1, p_data_packet = False\<rparr>"

lemma sample_long_facts:
  "dgram_valid sample_long" "dgram_hdr sample_long = summed (base_ip 40 17 0 0x0100A8C0 0x0200A8C0 64) []"
  "dgram_payload sample_long = replicate 20 7" "dgram_hlen sample_long = 20" "length sample_long = 40"
proof -
  let ?h = "base_ip 40 17 0 0x0100A8C0 0x0200A8C0 64"
  have eq: "sample_long = enc_ip (summed ?h []) @ [] @ replicate 20 7"
    by (simp add: sample_long_def ip_datagram_def with_sum_def summed_def sizeof_ip_def)
  have hl: "4 * unat (ip_hl ?h) = 20 + length ([] :: byte list)" by (simp add: unat_ip_hl_base)
  note b = dgram_built [OF hl, of "replicate 20 7", folded eq]
  show "dgram_hdr sample_long = summed ?h []" "dgram_payload sample_long = replicate 20 7" using b by simp_all
  then show "dgram_hlen sample_long = 20" by (simp add: dgram_hlen_def unat_ip_hl_base)
  show "dgram_valid sample_long" using b(3) by (simp add: base_ip_def)
  show "length sample_long = 40" by (simp add: eq length_enc_ip)
qed

lemma sample_long_held: "holds_dgram sample_long_packet sample_long" "\<not> shared sample_long_packet"
  by (simp_all add: holds_dgram_def sample_long_packet_def wf_pkt_def pkt_bytes_def sample_long_facts chunk_def shared_def)

end
