(* ===== verification/IP_Options.thy ===== *)
theory IP_Options
  imports IP_Datagram
begin

text \<open>
  \<^verbatim>\<open>click/elements/ip/ipgwoptions.{hh,cc}\<close>: the element that records routes and time stamps in the options
  of forwarded datagrams. Its loop over the bytes of the header refines a map over a list of
  options (\<open>gw_options\<close>): what it forwards is the datagram with these options and a header
  checksum to match, and a faulty option is reported with its position.
\<close>

unbundle bit_operations_syntax

section \<open>The element\<close>

definition IPOPT_RR :: byte where "IPOPT_RR = 7"

definition IPOPT_TS :: byte where "IPOPT_TS = 68"

record IPGWOptions =
  gw_drops :: u32
  gw_preferred_addr :: ipaddr
  gw_my_addrs :: "ipaddr list"
  gw_noutputs :: nat

definition new_IPGWOptions :: "nat \<Rightarrow> IPGWOptions" where
  "new_IPGWOptions n = \<lparr>gw_drops = 0, gw_preferred_addr = 0, gw_my_addrs = [], gw_noutputs = n\<rparr>"

definition GW_configure :: "ipaddr arg \<Rightarrow> ipaddr list arg \<Rightarrow> bool \<Rightarrow> IPGWOptions \<Rightarrow> int \<times> IPGWOptions" where
  "GW_configure MYADDR OTHERADDRS unread st =
     (case (Args_read_m MYADDR, Args_read OTHERADDRS (gw_my_addrs st)) of
        (Some a, Some others) \<Rightarrow>
          if unread then (-1, st)
          else (0, st\<lparr>gw_preferred_addr := a, gw_my_addrs := others @ [a]\<rparr>)
      | _ \<Rightarrow> (-1, st))"

text \<open>
  The packets of the variables \<open>p\<close> and \<open>wp\<close>: \<open>wp\<close> is null, the same object as \<open>p\<close>, or another one,
  which \<open>uniqueify\<close> makes when clones refer to \<open>p\<close>. It releases \<open>p\<close> then.
\<close>

datatype gw_packets = Untouched packet | Same packet | Copied packet packet

fun gw_read :: "gw_packets \<Rightarrow> packet" where
  "gw_read (Untouched p) = p"
| "gw_read (Same w) = w"
| "gw_read (Copied p w) = w"

fun gw_p :: "gw_packets \<Rightarrow> packet" where
  "gw_p (Untouched p) = p"
| "gw_p (Same w) = w"
| "gw_p (Copied p w) = p"

fun gw_write :: "packet \<Rightarrow> gw_packets \<Rightarrow> gw_packets" where
  "gw_write w (Copied p _) = Copied p w"
| "gw_write w _ = Same w"

fun GW_writable :: "allocator \<Rightarrow> gw_packets \<Rightarrow> gw_packets option" where
  "GW_writable mem (Untouched p) =
     map_option (\<lambda>w. if 1 < p_use_count p then Copied (p\<lparr>p_use_count := p_use_count p - 1\<rparr>) w else Same w)
       (uniqueify mem p)"
| "GW_writable mem pk = Some pk"

section \<open>The options\<close>

text \<open>An option is written in place; a number is the offset of the faulty byte from \<open>woa\<close>.\<close>

definition add_to_byte :: "packet \<Rightarrow> nat \<Rightarrow> byte \<Rightarrow> packet res" where
  "add_to_byte w at n = res_bind (rd8 w at) (\<lambda>b. wr w at [b + n])"

definition GW_record_route :: "IPGWOptions \<Rightarrow> packet \<Rightarrow> nat \<Rightarrow> nat \<Rightarrow> nat \<Rightarrow> (packet \<times> nat option) res" where
  "GW_record_route st w woa oi xlen =
     res_bind (rd8 w (woa + oi + 2)) (\<lambda>ptr.
     let p = uint ptr - 1 in
     if p \<ge> 3 \<and> p + 4 \<le> int xlen then
       res_bind (wr w (woa + oi + nat p) (u32_bytes (gw_preferred_addr st))) (\<lambda>w.
       res_bind (add_to_byte w (woa + oi + 2) 4) (\<lambda>w. Inr (w, None)))
     else if p \<noteq> int xlen then Inr (w, Some (oi + 2))
     else Inr (w, None))"

definition GW_ms :: "nat \<times> nat \<Rightarrow> u32" where
  "GW_ms now = htonl (of_nat ((fst now mod 86400) * 1000 + snd now))"

definition GW_overflowed :: "packet \<Rightarrow> nat \<Rightarrow> nat \<Rightarrow> byte \<Rightarrow> (packet \<times> nat option) res" where
  "GW_overflowed w woa oi x =
     (let oflw = drop_bit 4 x; flg = x AND 0xf in
      if oflw < 15
      then res_bind (wr w (woa + oi + 3) [push_bit 4 (oflw + 1) OR flg]) (\<lambda>w. Inr (w, None))
      else Inr (w, Some (oi + 3)))"

definition GW_timestamp ::
  "IPGWOptions \<Rightarrow> u32 \<Rightarrow> packet \<Rightarrow> nat \<Rightarrow> nat \<Rightarrow> nat \<Rightarrow> (packet \<times> nat option) res" where
  "GW_timestamp st ms w woa oi xlen =
     res_bind (rd8 w (woa + oi + 2)) (\<lambda>ptr.
     res_bind (rd8 w (woa + oi + 3)) (\<lambda>x.
     let p = uint ptr - 1; at = woa + oi + nat p; flg = x AND 0xf in
     if p < 4 then Inr (w, Some (oi + 2))
     else if flg = 0 then
       (if p + 4 \<le> int xlen then
          res_bind (wr w at (u32_bytes ms)) (\<lambda>w.
          res_bind (add_to_byte w (woa + oi + 2) 4) (\<lambda>w. Inr (w, None)))
        else GW_overflowed w woa oi x)
     else if flg = 1 then
       (if p + 8 \<le> int xlen then
          res_bind (wr w at (u32_bytes (gw_preferred_addr st))) (\<lambda>w.
          res_bind (wr w (at + 4) (u32_bytes ms)) (\<lambda>w.
          res_bind (add_to_byte w (woa + oi + 2) 8) (\<lambda>w. Inr (w, None))))
        else GW_overflowed w woa oi x)
     else if flg = 3 \<and> p + 8 \<le> int xlen then
       res_bind (rd w at 4) (\<lambda>addr.
       if le32 (addr ! 0) (addr ! 1) (addr ! 2) (addr ! 3) \<in> set (gw_my_addrs st) then
         res_bind (wr w (at + 4) (u32_bytes ms)) (\<lambda>w.
         res_bind (add_to_byte w (woa + oi + 2) 8) (\<lambda>w. Inr (w, None)))
       else Inr (w, None))
     else Inr (w, Some (oi + 3))))"

text \<open>
  The loop from the option at \<open>oi\<close>; \<open>now oi\<close> is the clock reading made for that option. \<open>None\<close>: there
  was no memory for a writable packet.
\<close>

function GW_loop ::
  "allocator \<Rightarrow> (nat \<Rightarrow> nat \<times> nat) \<Rightarrow> IPGWOptions \<Rightarrow> nat \<Rightarrow> nat \<Rightarrow> nat \<Rightarrow> gw_packets
     \<Rightarrow> (gw_packets \<times> nat option) option res" where
  "GW_loop mem now st oa hlen oi pk =
     (if \<not> oi < hlen then Inr (Some (pk, None))
      else
      res_bind (rd8 (gw_read pk) (oa + oi)) (\<lambda>type.
      if type = IPOPT_NOP then GW_loop mem now st oa hlen (oi + 1) pk
      else if type = IPOPT_EOL then Inr (Some (pk, None))
      else
      res_bind (rd8 (gw_read pk) (oa + oi + 1)) (\<lambda>x.
      let xlen = unat x in
      if xlen < 2 \<or> oi + xlen > hlen then Inr (Some (pk, Some (oi + 1)))
      else if type \<noteq> IPOPT_RR \<and> type \<noteq> IPOPT_TS then GW_loop mem now st oa hlen (oi + xlen) pk
      else
        (case GW_writable mem pk of
           None \<Rightarrow> Inr None
         | Some pk \<Rightarrow>
             res_bind (deref (p_nh (gw_read pk))) (\<lambda>woa.
             res_bind (if type = IPOPT_RR then GW_record_route st (gw_read pk) woa oi xlen
                       else GW_timestamp st (GW_ms (now oi)) (gw_read pk) woa oi xlen) (\<lambda>r.
             case r of
               (w, Some e) \<Rightarrow> Inr (Some (gw_write w pk, Some e))
             | (w, None) \<Rightarrow> GW_loop mem now st woa hlen (oi + xlen) (gw_write w pk)))))))"
  by pat_completeness auto
termination
  by (relation "measure (\<lambda>(mem, now, st, oa, hlen, oi, pk). hlen - oi)") auto

declare GW_loop.simps [simp del]

text \<open>The checksum is written into \<open>wp\<close> but computed over the header of \<open>p\<close>.\<close>

definition GW_store_sum :: "nat \<Rightarrow> gw_packets \<Rightarrow> packet res" where
  "GW_store_sum hlen pk =
     res_bind (deref (p_nh (gw_read pk))) (\<lambda>nh.
     case pk of
       Copied p w \<Rightarrow>
         res_bind (rd w nh sizeof_ip) (\<lambda>bs.
         res_bind (deref (p_nh p)) (\<lambda>pnh.
         res_bind (rd p pnh hlen) (\<lambda>hdr. wr w nh (enc_ip ((dec_ip bs)\<lparr>ip_sum := click_in_cksum hdr\<rparr>)))))
     | _ \<Rightarrow> res_bind (rd (gw_read pk) nh sizeof_ip) (\<lambda>bs. store_ip_sum nh hlen (dec_ip bs) (gw_read pk)))"

definition GW_handle_options ::
  "allocator \<Rightarrow> (nat \<Rightarrow> nat \<times> nat) \<Rightarrow> annos \<Rightarrow> packet \<Rightarrow> IPGWOptions
     \<Rightarrow> (IPGWOptions \<times> annos \<times> effect list \<times> packet option) res" where
  "GW_handle_options mem now an p st =
     res_bind (deref (p_nh p)) (\<lambda>oa.
     res_bind (network_header_length p) (\<lambda>hlen.
     res_bind (GW_loop mem now st oa (nat hlen) sizeof_ip (Untouched p)) (\<lambda>r.
     case r of
       None \<Rightarrow> Inr (st, an, [], None)
     | Some (pk, Some oi) \<Rightarrow>
         Inr (st\<lparr>gw_drops := gw_drops st + 1\<rparr>, set_anno_u8 ICMP_PARAMPROB_ANNO_OFFSET (of_nat oi) an,
              [checked_output_push (gw_noutputs st) 1 (gw_p pk)], None)
     | Some (Untouched p, None) \<Rightarrow> Inr (st, an, [], Some p)
     | Some (pk, None) \<Rightarrow> res_bind (GW_store_sum (nat hlen) pk) (\<lambda>w. Inr (st, an, [], Some w)))))"

definition GW_simple_action ::
  "allocator \<Rightarrow> (nat \<Rightarrow> nat \<times> nat) \<Rightarrow> annos \<Rightarrow> packet \<Rightarrow> IPGWOptions
     \<Rightarrow> (IPGWOptions \<times> annos \<times> effect list \<times> packet option) res" where
  "GW_simple_action mem now an p st =
     (case p_nh p of
        None \<Rightarrow> Inl AssertionFailure
      | Some nh \<Rightarrow>
          res_bind (rd p nh sizeof_ip) (\<lambda>bs.
          if 4 * unat (ip_hl (dec_ip bs)) \<le> sizeof_ip then Inr (st, an, [], Some p)
          else GW_handle_options mem now an p st))"
section \<open>Lists of options\<close>

datatype ip_option = Nop | Opt byte "byte list"

fun opt_bytes :: "ip_option \<Rightarrow> byte list" where
  "opt_bytes Nop = [IPOPT_NOP]"
| "opt_bytes (Opt t body) = t # of_nat (length body + 2) # body"

definition opts_bytes :: "ip_option list \<Rightarrow> byte list" where
  "opts_bytes os = concat (map opt_bytes os)"

lemma opts_bytes_simps [simp]: "opts_bytes [] = []" "opts_bytes (x # os) = opt_bytes x @ opts_bytes os"
  by (simp_all add: opts_bytes_def)

text \<open>Long enough for its fixed fields: pointer, and for time stamps overflow and flags.\<close>

fun opt_wf :: "ip_option \<Rightarrow> bool" where
  "opt_wf Nop \<longleftrightarrow> True"
| "opt_wf (Opt t body) \<longleftrightarrow> t \<noteq> IPOPT_NOP \<and> t \<noteq> IPOPT_EOL \<and> length body \<le> 253 \<and>
     (t = IPOPT_RR \<longrightarrow> 1 \<le> length body) \<and> (t = IPOPT_TS \<longrightarrow> 2 \<le> length body)"

section \<open>Specification\<close>

text \<open>
  The contents of an option after the router, or the offset of its faulty byte. A pointer \<open>n\<close> is the
  position \<open>n - 1\<close> in the option, \<open>n - 3\<close> in its contents.
\<close>

definition gw_route :: "ipaddr \<Rightarrow> byte list \<Rightarrow> nat + byte list" where
  "gw_route a body =
     (let ptr = unat (body ! 0); n = length body + 2 in
      if 4 \<le> ptr \<and> ptr + 3 \<le> n then Inr ((patch (ptr - 3) (u32_bytes a) body)[0 := body ! 0 + 4])
      else if ptr = n + 1 then Inr body
      else Inl 2)"

definition gw_overflow :: "byte list \<Rightarrow> nat + byte list" where
  "gw_overflow body =
     (if drop_bit 4 (body ! 1) < 15
      then Inr (body[1 := push_bit 4 (drop_bit 4 (body ! 1) + 1) OR (body ! 1 AND 0xf)]) else Inl 3)"

definition gw_stamp :: "IPGWOptions \<Rightarrow> u32 \<Rightarrow> byte list \<Rightarrow> nat + byte list" where
  "gw_stamp st ms body =
     (let ptr = unat (body ! 0); n = length body + 2; flg = body ! 1 AND 0xf;
          addr = chunk (ptr - 3) 4 body in
      if ptr < 5 then Inl 2
      else if flg = 0 \<and> ptr + 3 \<le> n then Inr ((patch (ptr - 3) (u32_bytes ms) body)[0 := body ! 0 + 4])
      else if flg = 1 \<and> ptr + 7 \<le> n
      then Inr ((patch (ptr - 3) (u32_bytes (gw_preferred_addr st) @ u32_bytes ms) body)[0 := body ! 0 + 8])
      else if flg = 0 \<or> flg = 1 then gw_overflow body
      else if flg = 3 \<and> ptr + 7 \<le> n then
        Inr (if le32 (addr ! 0) (addr ! 1) (addr ! 2) (addr ! 3) \<in> set (gw_my_addrs st)
             then (patch (ptr + 1) (u32_bytes ms) body)[0 := body ! 0 + 8] else body)
      else Inl 3)"

fun gw_option :: "IPGWOptions \<Rightarrow> u32 \<Rightarrow> ip_option \<Rightarrow> nat + ip_option" where
  "gw_option st ms Nop = Inr Nop"
| "gw_option st ms (Opt t body) =
     (if t = IPOPT_RR then map_sum id (Opt t) (gw_route (gw_preferred_addr st) body)
      else if t = IPOPT_TS then map_sum id (Opt t) (gw_stamp st ms body)
      else Inr (Opt t body))"

text \<open>All options in order, the first at \<open>oi\<close>, up to the first faulty one.\<close>

fun gw_options :: "IPGWOptions \<Rightarrow> (nat \<Rightarrow> nat \<times> nat) \<Rightarrow> nat \<Rightarrow> ip_option list \<Rightarrow> ip_option list \<times> nat option" where
  "gw_options st now oi [] = ([], None)"
| "gw_options st now oi (x # os) =
     (case gw_option st (GW_ms (now oi)) x of
        Inl k \<Rightarrow> (x # os, Some (oi + k))
      | Inr x' \<Rightarrow> (let (os', e) = gw_options st now (oi + length (opt_bytes x)) os in (x' # os', e)))"

section \<open>One option\<close>

lemma rd_option:
  assumes "p_buf w = A @ t # l # body @ Z" and "length A = at" and "i + n \<le> length body"
  shows "rd w (at + (i + 2)) n = Inr (chunk i n body)"
  using assms(2,3) by (simp add: rd_def assms(1) chunk_def)

lemma rd8_option:
  assumes "p_buf w = A @ t # l # body @ Z" and "length A = at" and "i < length body"
  shows "rd8 w (at + (i + 2)) = Inr (body ! i)"
  using assms(2,3) by (simp add: rd8_def assms(1) nth_append)

lemma wr_option:
  assumes "p_buf w = A @ t # l # body @ Z" and "length A = at" and "i + length bs \<le> length body"
  shows "wr w (at + (i + 2)) bs = Inr (w\<lparr>p_buf := A @ t # l # patch i bs body @ Z\<rparr>)"
  using assms(2,3) by (simp add: wr_def assms(1) patch_def)

lemma patch_single: "i < length xs \<Longrightarrow> patch i [x] xs = xs[i := x]"
  by (simp add: patch_def upd_conv_take_nth_drop)

lemma patch_twice:
  "i + length bs + length cs \<le> length xs \<Longrightarrow> patch (i + length bs) cs (patch i bs xs) = patch i (bs @ cs) xs"
  by (simp add: patch_def ac_simps)

lemma patch_nth_0: "0 < i \<Longrightarrow> i + length bs \<le> length xs \<Longrightarrow> patch i bs xs ! 0 = xs ! 0"
  by (simp add: patch_def nth_append)

lemma add_to_pointer:
  assumes "p_buf w = A @ t # l # body @ Z" and "length A = at" and "body \<noteq> []"
  shows "add_to_byte w (at + 2) n = Inr (w\<lparr>p_buf := A @ t # l # body[0 := body ! 0 + n] @ Z\<rparr>)"
  using rd8_option [OF assms(1,2), of 0] wr_option [OF assms(1,2), of 0 "[body ! 0 + n]"] assms(3)
  by (cases body) (simp_all add: add_to_byte_def patch_def)

text \<open>What a routine for one option returns: the option changed in place, or the fault.\<close>

definition option_done :: "nat + byte list \<Rightarrow> nat \<Rightarrow> packet \<Rightarrow> byte list \<Rightarrow> byte \<Rightarrow> byte \<Rightarrow> byte list
    \<Rightarrow> (packet \<times> nat option) res" where
  "option_done r oi w A t l Z =
     (case r of Inl k \<Rightarrow> Inr (w, Some (oi + k))
      | Inr body \<Rightarrow> Inr (w\<lparr>p_buf := A @ t # l # body @ Z\<rparr>, None))"

lemma write_and_advance:
  assumes w: "p_buf w = A @ t # l # body @ Z" "length A = at" and ptr: "4 \<le> ptr" "ptr + length bs \<le> length body + 3"
  shows "res_bind (wr w (at + nat (int ptr - 1)) bs) (\<lambda>w. res_bind (add_to_byte w (at + 2) n) (\<lambda>w. Inr (w, None))) =
    option_done (Inr ((patch (ptr - 3) bs body)[0 := body ! 0 + n])) oi w A t l Z"
proof -
  define body' where "body' = patch (ptr - 3) bs body"
  have at: "at + nat (int ptr - 1) = at + ((ptr - 3) + 2)" using ptr by arith
  have "wr w (at + nat (int ptr - 1)) bs = Inr (w\<lparr>p_buf := A @ t # l # body' @ Z\<rparr>)"
    unfolding at body'_def by (rule wr_option [OF w]) (use ptr in simp)
  moreover have "body' \<noteq> [] \<or> bs = [] \<and> body = []" "body' ! 0 = body ! 0"
    using ptr patch_nth_0 [of "ptr - 3" bs body] by (auto simp: body'_def patch_def)
  ultimately show ?thesis
    using add_to_pointer [of "w\<lparr>p_buf := A @ t # l # body' @ Z\<rparr>" A t l body' Z at n] w(2) ptr
    by (auto simp: option_done_def body'_def)
qed

lemma GW_record_route_eq:
  assumes w: "p_buf w = A @ t # l # body @ Z" "length A = woa + oi" and body: "1 \<le> length body"
  shows "GW_record_route st w woa oi (length body + 2) =
    option_done (gw_route (gw_preferred_addr st) body) oi w A t l Z"
proof -
  define ptr where "ptr = unat (body ! 0)"
  have r: "rd8 w (woa + oi + 2) = Inr (body ! 0)" using rd8_option [OF w, of 0] body by (cases body) auto
  have u: "uint (body ! 0) = int ptr" by (simp add: ptr_def)
  show ?thesis
    using write_and_advance [OF w, of ptr "u32_bytes (gw_preferred_addr st)" 4 oi]
    unfolding GW_record_route_def r res_bind_Inr Let_def u gw_route_def ptr_def [symmetric]
    by (auto simp: option_done_def w(1))
qed
lemma GW_overflowed_eq:
  assumes w: "p_buf w = A @ t # l # body @ Z" "length A = woa + oi" and body: "2 \<le> length body"
  shows "GW_overflowed w woa oi (body ! 1) = option_done (gw_overflow body) oi w A t l Z"
proof -
  have "wr w (woa + oi + 3) [x] = Inr (w\<lparr>p_buf := A @ t # l # body[1 := x] @ Z\<rparr>)" for x
    using wr_option [OF w, of 1 "[x]"] body by (simp add: patch_single eval_nat_numeral)
  then show ?thesis by (simp add: GW_overflowed_def gw_overflow_def option_done_def Let_def)
qed

lemma GW_timestamp_eq:
  assumes w: "p_buf w = A @ t # l # body @ Z" "length A = woa + oi" and body: "2 \<le> length body"
  shows "GW_timestamp st ms w woa oi (length body + 2) = option_done (gw_stamp st ms body) oi w A t l Z"
proof -
  define ptr flg where "ptr = unat (body ! 0)" and "flg = body ! 1 AND 0xf"
  have "0 < length body" "1 < length body" using body by linarith+
  then have r: "rd8 w (woa + oi + 2) = Inr (body ! 0)" "rd8 w (woa + oi + 3) = Inr (body ! 1)"
    using rd8_option [OF w, of 0] rd8_option [OF w, of 1] by (simp_all add: eval_nat_numeral)
  have u: "uint (body ! 0) = int ptr" by (simp add: ptr_def)
  note adv = write_and_advance [OF w, of ptr _ _ oi]
  note unfold = GW_timestamp_def r res_bind_Inr u Let_def flg_def [symmetric] ptr_def [symmetric] gw_stamp_def
  note over = GW_overflowed_eq [OF w body]
  consider "ptr < 5" | "5 \<le> ptr" "flg = 0" | "5 \<le> ptr" "flg = 1" | "5 \<le> ptr" "flg = 3"
    | "5 \<le> ptr" "flg \<noteq> 0" "flg \<noteq> 1" "flg \<noteq> 3" by linarith
  then show ?thesis
  proof cases
    case 1
    then show ?thesis unfolding unfold by (simp add: option_done_def)
  next
    case 2
    then show ?thesis using adv [of "u32_bytes ms" 4] over unfolding unfold
      by (cases "ptr + 3 \<le> length body + 2") simp_all
  next
    case 3
    have two: "res_bind (wr w x (u32_bytes a)) (\<lambda>w. res_bind (wr w (x + 4) (u32_bytes b)) f) =
        res_bind (wr w x (u32_bytes a @ u32_bytes b)) f" if "x + 8 \<le> length (p_buf w)" for x a b f
      using that patch_twice [of x "u32_bytes a" "u32_bytes b" "p_buf w"] by (simp add: wr_def)
    show ?thesis
    proof (cases "ptr + 7 \<le> length body + 2")
      case True
      then have "woa + oi + nat (int ptr - 1) + 8 \<le> length (p_buf w)" using 3 by (simp add: w)
      then show ?thesis
        using 3 True adv [of "u32_bytes (gw_preferred_addr st) @ u32_bytes ms" 8] unfolding unfold by (simp add: two)
    next
      case False
      then show ?thesis using 3 over unfolding unfold by simp
    qed
  next
    case 4
    show ?thesis
    proof (cases "ptr + 7 \<le> length body + 2")
      case True
      have at: "woa + oi + nat (int ptr - 1) = woa + oi + ((ptr - 3) + 2)"
        "woa + oi + nat (int ptr - 1) + 4 = woa + oi + nat (int (ptr + 4) - 1)" using 4 by arith+
      have "rd w (woa + oi + nat (int ptr - 1)) 4 = Inr (chunk (ptr - 3) 4 body)"
        unfolding at(1) by (rule rd_option [OF w]) (use 4 True in simp)
      then show ?thesis
        using 4 True write_and_advance [OF w, of "ptr + 4" "u32_bytes ms" 8 oi]
        unfolding unfold at(2) by (simp add: option_done_def w(1))
    next
      case False
      then show ?thesis using 4 unfolding unfold by (simp add: option_done_def)
    qed
  next
    case 5
    then show ?thesis unfolding unfold by (simp add: option_done_def)
  qed
qed
section \<open>The loop\<close>

text \<open>The same window and pointers on a buffer that starts with \<open>B\<close>, not shared unless it was.\<close>

definition rewritten :: "packet \<Rightarrow> byte list \<Rightarrow> packet \<Rightarrow> bool" where
  "rewritten p B w \<longleftrightarrow> (\<exists>J. p_buf w = B @ J) \<and> p_data w = p_data p \<and> p_len w = p_len p \<and> p_nh w = p_nh p \<and>
     p_h w = p_h p \<and> p_dst_ip_anno w = p_dst_ip_anno p \<and> (shared w \<longrightarrow> shared p)"

lemma rewritten_trans: "rewritten p X w \<Longrightarrow> rewritten w (B @ J) w' \<Longrightarrow> rewritten p B w'"
  by (auto simp: rewritten_def)

lemma rewritten_buf: "rewritten p X w \<Longrightarrow> rewritten p (B @ J) (w\<lparr>p_buf := B @ J\<rparr>)"
  by (auto simp: rewritten_def shared_def)

lemma uniqueify_rewritten:
  assumes "wf_pkt p" and "\<forall>n. mem n \<noteq> None"
  shows "\<exists>w. uniqueify mem p = Some w \<and> rewritten p (p_buf p) w"
proof (cases "shared p")
  case True
  have room: "headroom p + p_len p + tailroom p = length (p_buf p)"
    using assms(1) by (simp add: wf_pkt_def headroom_def tailroom_def)
  obtain b where b: "alloc_data mem (headroom p + 0) (p_len p) (tailroom p) = Some b"
    using assms(2) [rule_format, of "max (p_len p + headroom p + tailroom p) min_buffer_length"]
    by (auto simp: alloc_data_def Let_def)
  then have "length (p_buf p) \<le> length b" using room by (auto simp: alloc_data_def Let_def)
  then have "patch 0 (p_buf p) b = p_buf p @ drop (length (p_buf p)) b" by (simp add: patch_def)
  moreover have "map_option ((+) 0) x = x" for x :: "nat option" by (cases x) simp_all
  ultimately show ?thesis
    using True b by (simp add: uniqueify_def expensive_uniqueify_def rewritten_def shared_def)
next
  case False
  then show ?thesis by (simp add: uniqueify_def rewritten_def)
qed

text \<open>Nothing written yet, or everything written to the packet \<open>p\<close> itself.\<close>

fun gw_alone :: "gw_packets \<Rightarrow> bool" where
  "gw_alone (Untouched p) \<longleftrightarrow> p_use_count p \<le> 1 \<and> wf_pkt p"
| "gw_alone (Same w) \<longleftrightarrow> True"
| "gw_alone (Copied p w) \<longleftrightarrow> False"

fun gw_outcome :: "gw_packets \<Rightarrow> byte list \<Rightarrow> gw_packets \<Rightarrow> bool" where
  "gw_outcome pk B (Untouched q) \<longleftrightarrow> pk = Untouched q \<and> (\<exists>J. p_buf q = B @ J)"
| "gw_outcome pk B (Same w) \<longleftrightarrow> rewritten (gw_read pk) B w"
| "gw_outcome pk B (Copied p w) \<longleftrightarrow> False"

lemma GW_writable_alone:
  assumes "gw_alone pk" and "\<forall>n. mem n \<noteq> None"
  shows "\<exists>w. GW_writable mem pk = Some (Same w) \<and> rewritten (gw_read pk) (p_buf (gw_read pk)) w"
proof (cases pk)
  case (Untouched p)
  then show ?thesis using assms uniqueify_rewritten [of p mem] by auto
qed (use assms in \<open>auto simp: rewritten_def\<close>)

definition gw_body :: "IPGWOptions \<Rightarrow> u32 \<Rightarrow> byte \<Rightarrow> byte list \<Rightarrow> nat + byte list" where
  "gw_body st ms t body = (if t = IPOPT_RR then gw_route (gw_preferred_addr st) body else gw_stamp st ms body)"

lemma gw_body_length: "gw_body st ms t body = Inr body' \<Longrightarrow> length body' = length body"
  by (auto simp: gw_body_def gw_route_def gw_stamp_def gw_overflow_def Let_def split: if_splits)

lemma gw_option_body:
  "t = IPOPT_RR \<or> t = IPOPT_TS \<Longrightarrow> gw_option st ms (Opt t body) = map_sum id (Opt t) (gw_body st ms t body)"
  by (auto simp: gw_body_def IPOPT_RR_def IPOPT_TS_def)

lemma GW_one_option:
  assumes "p_buf w = A @ t # l # body @ Z" "length A = woa + oi" and "opt_wf (Opt t body)" and "t = IPOPT_RR \<or> t = IPOPT_TS"
  shows "(if t = IPOPT_RR then GW_record_route st w woa oi (length body + 2)
    else GW_timestamp st ms w woa oi (length body + 2)) = option_done (gw_body st ms t body) oi w A t l Z"
  using assms(3,4) GW_record_route_eq [OF assms(1,2)] GW_timestamp_eq [OF assms(1,2)] by (auto simp: gw_body_def)

lemma GW_loop_header:
  assumes buf: "p_buf (gw_read pk) = A @ t # of_nat (length body + 2) # body @ Z" "length A = oa + oi"
    and wf: "opt_wf (Opt t body)" and len: "oi + 2 + length body \<le> hlen"
  shows "GW_loop mem now st oa hlen oi pk =
    (if t \<noteq> IPOPT_RR \<and> t \<noteq> IPOPT_TS then GW_loop mem now st oa hlen (oi + (length body + 2)) pk
     else
       (case GW_writable mem pk of
          None \<Rightarrow> Inr None
        | Some pk \<Rightarrow>
            res_bind (deref (p_nh (gw_read pk))) (\<lambda>woa.
            res_bind (if t = IPOPT_RR then GW_record_route st (gw_read pk) woa oi (length body + 2)
                      else GW_timestamp st (GW_ms (now oi)) (gw_read pk) woa oi (length body + 2)) (\<lambda>r.
            case r of
              (w, Some e) \<Rightarrow> Inr (Some (gw_write w pk, Some e))
            | (w, None) \<Rightarrow> GW_loop mem now st woa hlen (oi + (length body + 2)) (gw_write w pk)))))"
proof -
  have r: "rd8 (gw_read pk) (oa + oi) = Inr t" "rd8 (gw_read pk) (oa + oi + 1) = Inr (of_nat (length body + 2))"
    using buf(2) by (simp_all add: rd8_def buf(1) nth_append)
  have small: "unat (of_nat n :: byte) = n" if "n < 256" for n
    using that by (simp add: unat_of_nat take_bit_nat_eq_self)
  have l: "unat (of_nat (length body + 2) :: byte) = length body + 2"
    by (rule small) (use wf in simp)
  have "\<not> (length body + 2 < 2 \<or> oi + (length body + 2) > hlen)" "oi < hlen" "t \<noteq> IPOPT_NOP" "t \<noteq> IPOPT_EOL"
    using len wf by auto
  then show ?thesis
    by (subst GW_loop.simps) (simp only: r l res_bind_Inr Let_def if_False if_True not_True_eq_False simp_thms)
qed
lemma GW_loop_writes:
  assumes buf: "p_buf (gw_read pk) = A @ t # of_nat (length body + 2) # body @ Z" "length A = oa + oi"
    and pk: "p_nh (gw_read pk) = Some oa" "gw_alone pk" and mem: "\<forall>n. mem n \<noteq> None"
    and wf: "opt_wf (Opt t body)" and len: "oi + 2 + length body \<le> hlen" and t: "t = IPOPT_RR \<or> t = IPOPT_TS"
  shows "\<exists>w J. rewritten (gw_read pk) (p_buf (gw_read pk)) w \<and> p_buf w = A @ t # of_nat (length body + 2) # body @ Z @ J \<and>
    GW_loop mem now st oa hlen oi pk =
      (case gw_body st (GW_ms (now oi)) t body of
         Inl k \<Rightarrow> Inr (Some (Same w, Some (oi + k)))
       | Inr body' \<Rightarrow> GW_loop mem now st oa hlen (oi + (length body + 2))
           (Same (w\<lparr>p_buf := A @ t # of_nat (length body + 2) # body' @ Z @ J\<rparr>)))"
proof -
  obtain w where w: "GW_writable mem pk = Some (Same w)" "rewritten (gw_read pk) (p_buf (gw_read pk)) w"
    using GW_writable_alone [OF pk(2) mem] by blast
  then obtain J where J: "p_buf w = A @ t # of_nat (length body + 2) # body @ Z @ J" "p_nh w = Some oa"
    using buf(1) pk(1) by (auto simp: rewritten_def)
  note one = GW_one_option [OF J(1) buf(2) wf t, of st "GW_ms (now oi)"]
  have "GW_loop mem now st oa hlen oi pk =
      (case gw_body st (GW_ms (now oi)) t body of
         Inl k \<Rightarrow> Inr (Some (Same w, Some (oi + k)))
       | Inr body' \<Rightarrow> GW_loop mem now st oa hlen (oi + (length body + 2))
           (Same (w\<lparr>p_buf := A @ t # of_nat (length body + 2) # body' @ Z @ J\<rparr>)))"
    using t unfolding GW_loop_header [OF buf wf len] w(1) option.case gw_read.simps J(2) deref_simps res_bind_Inr one
    by (auto simp: option_done_def split: sum.split)
  with w(2) J(1) show ?thesis by blast
qed

lemma GW_loop_options:
  assumes "p_buf (gw_read pk) = A @ opts_bytes os @ tail @ Z" and "length A = oa + oi" and "p_nh (gw_read pk) = Some oa"
    and "gw_alone pk" and "\<forall>n. mem n \<noteq> None" and "list_all opt_wf os" and "tail = [] \<or> hd tail = IPOPT_EOL"
    and "hlen = oi + length (opts_bytes os @ tail)"
  shows "\<exists>pk'. GW_loop mem now st oa hlen oi pk = Inr (Some (pk', snd (gw_options st now oi os))) \<and>
    gw_outcome pk (A @ opts_bytes (fst (gw_options st now oi os)) @ tail @ Z) pk'"
  using assms
proof (induction os arbitrary: pk A oi Z)
  case Nil
  then have "GW_loop mem now st oa hlen oi pk = Inr (Some (pk, None))"
    by (cases tail) (auto simp: GW_loop.simps rd8_def nth_append IPOPT_EOL_def IPOPT_NOP_def)
  moreover have "gw_outcome pk (A @ tail @ Z) pk" using Nil by (cases pk) (auto simp: rewritten_def)
  ultimately show ?case by simp
next
  case (Cons x os)
  show ?case
  proof (cases x)
    case Nop
    have "GW_loop mem now st oa hlen oi pk = GW_loop mem now st oa hlen (oi + 1) pk"
      using Cons.prems Nop by (subst GW_loop.simps) (simp add: rd8_def nth_append)
    then show ?thesis
      using Cons.IH [of pk "A @ [IPOPT_NOP]" Z "oi + 1"] Cons.prems Nop by (simp add: Let_def case_prod_beta)
  next
    case (Opt t body)
    let ?l = "of_nat (length body + 2) :: byte"
    have buf: "p_buf (gw_read pk) = A @ t # ?l # body @ (opts_bytes os @ tail @ Z)" using Cons.prems(1) Opt by simp
    have wf: "opt_wf (Opt t body)" and len: "oi + 2 + length body \<le> hlen" using Cons.prems(6,8) Opt by simp_all
    show ?thesis
    proof (cases "t = IPOPT_RR \<or> t = IPOPT_TS")
      case False
      then have "gw_option st ms x = Inr x" for ms using Opt by simp
      then show ?thesis
        using False GW_loop_header [OF buf Cons.prems(2) wf len, of mem now st] Cons.IH [of pk "A @ opt_bytes x" Z "oi + (length body + 2)"] Cons.prems Opt
        by (simp add: Let_def case_prod_beta)
    next
      case True
      let ?r = "gw_body st (GW_ms (now oi)) t body"
      have go: "gw_option st (GW_ms (now oi)) x = map_sum id (Opt t) ?r" unfolding Opt by (rule gw_option_body [OF True])
      obtain w J where w: "rewritten (gw_read pk) (p_buf (gw_read pk)) w"
          "p_buf w = A @ t # ?l # body @ (opts_bytes os @ tail @ Z) @ J"
        and loop: "GW_loop mem now st oa hlen oi pk =
          (case ?r of Inl k \<Rightarrow> Inr (Some (Same w, Some (oi + k)))
           | Inr body' \<Rightarrow> GW_loop mem now st oa hlen (oi + (length body + 2))
               (Same (w\<lparr>p_buf := A @ t # ?l # body' @ (opts_bytes os @ tail @ Z) @ J\<rparr>)))"
        using GW_loop_writes [OF buf Cons.prems(2-5) wf len True] by blast
      show ?thesis
      proof (cases ?r)
        case (Inl k)
        then have "gw_options st now oi (x # os) = (x # os, Some (oi + k))" by (simp add: go)
        moreover have "rewritten (gw_read pk) (A @ opts_bytes (x # os) @ tail @ Z) w"
          using w Opt by (simp add: rewritten_def)
        ultimately show ?thesis using loop Inl by simp
      next
        case (Inr body')
        let ?A = "A @ opt_bytes (Opt t body')"
        let ?w = "w\<lparr>p_buf := ?A @ (opts_bytes os @ tail @ Z @ J)\<rparr>"
        have nh: "p_nh w = Some oa" using w(1) Cons.prems(3) by (simp add: rewritten_def)
        have lb: "length body' = length body" using gw_body_length [OF Inr] .
        have "\<exists>pk'. GW_loop mem now st oa hlen (oi + (length body + 2)) (Same ?w) =
            Inr (Some (pk', snd (gw_options st now (oi + (length body + 2)) os))) \<and>
            gw_outcome (Same ?w) (?A @ opts_bytes (fst (gw_options st now (oi + (length body + 2)) os)) @ tail @ Z @ J) pk'"
          by (rule Cons.IH) (use Cons.prems Opt lb nh in simp_all)
        then obtain pk' where pk': "GW_loop mem now st oa hlen (oi + (length body + 2)) (Same ?w) =
            Inr (Some (pk', snd (gw_options st now (oi + (length body + 2)) os)))"
            "gw_outcome (Same ?w) (?A @ opts_bytes (fst (gw_options st now (oi + (length body + 2)) os)) @ tail @ Z @ J) pk'"
          by blast
        then obtain w' where w': "pk' = Same w'" "rewritten ?w
            ((?A @ opts_bytes (fst (gw_options st now (oi + (length body + 2)) os)) @ tail @ Z) @ J) w'"
          by (cases pk') auto
        have "rewritten (gw_read pk) (?A @ opts_bytes (fst (gw_options st now (oi + (length body + 2)) os)) @ tail @ Z) w'"
          by (rule rewritten_trans [OF rewritten_buf [OF w(1)] w'(2)])
        moreover have "gw_options st now oi (x # os) =
            (Opt t body' # fst (gw_options st now (oi + (length body + 2)) os), snd (gw_options st now (oi + (length body + 2)) os))"
          unfolding gw_options.simps go Inr by (simp add: Opt Let_def case_prod_beta)
        ultimately show ?thesis using loop pk'(1) w'(1) Inr lb by simp
      qed
    qed
  qed
qed
section \<open>Datagrams\<close>

lemma gw_option_length:
  assumes "gw_option st ms x = Inr x'"
  shows "length (opt_bytes x') = length (opt_bytes x)"
proof (cases x)
  case (Opt t body)
  show ?thesis
  proof (cases "t = IPOPT_RR \<or> t = IPOPT_TS")
    case True
    then obtain body' where "gw_body st ms t body = Inr body'" "x' = Opt t body'"
      using assms unfolding Opt gw_option_body [OF True] by (cases "gw_body st ms t body") simp_all
    then show ?thesis using Opt gw_body_length [of st ms t body body'] by simp
  qed (use assms Opt in simp)
qed (use assms in simp)

lemma gw_options_length:
  "length (opts_bytes (fst (gw_options st now oi os))) = length (opts_bytes os)"
  by (induction os arbitrary: oi)
    (auto simp: Let_def case_prod_beta gw_option_length split: sum.split)

lemma gw_option_fault:
  assumes "gw_option st ms x = Inl k" and "opt_wf x"
  shows "k < length (opt_bytes x)"
proof (cases x)
  case (Opt t body)
  have "k = 2 \<or> k = 3 \<and> t = IPOPT_TS"
    using assms(1) unfolding Opt
    by (auto simp: gw_route_def gw_stamp_def gw_overflow_def Let_def split: if_splits)
  then show ?thesis using assms Opt by (auto split: if_splits)
qed (use assms in simp)

lemma gw_options_fault:
  assumes "snd (gw_options st now oi os) = Some e" and "list_all opt_wf os"
  shows "oi \<le> e \<and> e < oi + length (opts_bytes os)"
  using assms
proof (induction os arbitrary: oi)
  case (Cons x os)
  show ?case
  proof (cases "gw_option st (GW_ms (now oi)) x")
    case (Inl k)
    then show ?thesis using Cons.prems gw_option_fault [OF Inl] by auto
  next
    case (Inr x')
    then show ?thesis using Cons.prems Cons.IH [of "oi + length (opt_bytes x)"] by (auto simp: Let_def case_prod_beta)
  qed
qed simp

text \<open>A packet over a buffer known up to its end holds the datagram in it.\<close>

lemma rewritten_holds:
  assumes "rewritten p (A @ r @ Z) w" and "length A = p_data p" and "length r = p_len p" and "p_nh p = Some (p_data p)"
    and "p_h p = Some (p_data p + dgram_hlen r)"
  shows "holds_dgram w r"
  using assms by (auto simp: rewritten_def holds_dgram_def wf_pkt_def pkt_bytes_def chunk_def)

lemma GW_store_sum_same:
  assumes w: "p_buf w = A @ enc_ip h @ opts @ Z" "p_nh w = Some (length A)"
  shows "GW_store_sum (20 + length opts) (Same w) = Inr (w\<lparr>p_buf := A @ enc_ip (summed h opts) @ opts @ Z\<rparr>)"
proof -
  have "rd w (length A) 20 = Inr (enc_ip h)" by (simp add: rd_def w(1) chunk_def length_enc_ip)
  moreover have "patch (length A) (enc_ip (summed h opts)) (p_buf w) = A @ enc_ip (summed h opts) @ opts @ Z"
    by (simp add: w(1) patch_def length_enc_ip)
  ultimately show ?thesis
    using store_ip_sum_eq [of "length A" opts w h]
    by (simp add: GW_store_sum_def w(2) sizeof_ip_def ip.dec_enc [simplified] w(1) chunk_def length_enc_ip)
qed
text \<open>
  A packet to which no clone refers and that holds a valid datagram with header \<open>h\<close>, options \<open>os\<close>, what
  follows an end-of-list option, and the payload \<open>data\<close>.
\<close>

definition gw_datagram :: "packet \<Rightarrow> click_ip \<Rightarrow> ip_option list \<Rightarrow> byte list \<Rightarrow> byte list \<Rightarrow> bool" where
  "gw_datagram p h os tail data \<longleftrightarrow>
     (let bs = enc_ip h @ (opts_bytes os @ tail) @ data in
      holds_dgram p bs \<and> dgram_valid bs \<and> dgram_hlen bs = 20 + length (opts_bytes os @ tail)) \<and>
     p_use_count p \<le> 1 \<and> list_all opt_wf os \<and> (tail = [] \<or> hd tail = IPOPT_EOL)"

lemma gw_datagramD:
  assumes "gw_datagram p h os tail data"
  defines "opts \<equiv> opts_bytes os @ tail"
  shows "holds_dgram p (enc_ip h @ opts @ data)" "dgram_valid (enc_ip h @ opts @ data)"
    and "4 * unat (ip_hl h) = 20 + length opts" "length opts \<le> 40" "ip_v h = 4"
    and "unat (ntohs (ip_len h)) = 20 + length opts + length data"
    and "p_nh p = Some (p_data p)" "p_h p = Some (p_data p + (20 + length opts))" "p_len p = 20 + length opts + length data"
proof -
  show h: "holds_dgram p (enc_ip h @ opts @ data)" and v: "dgram_valid (enc_ip h @ opts @ data)"
    using assms by (simp_all add: gw_datagram_def Let_def)
  show hl: "4 * unat (ip_hl h) = 20 + length opts"
    using assms by (simp add: gw_datagram_def Let_def dgram_hlen_def dgram_hdr_enc)
  have "unat (ip_hl h) < 16" using unsigned_less [of "ip_hl h", where 'a = nat] by simp
  then show "length opts \<le> 40" using hl by simp
  show "ip_v h = 4" "unat (ntohs (ip_len h)) = 20 + length opts + length data"
    using v by (simp_all add: dgram_valid_def dgram_hdr_enc length_enc_ip)
  show "p_nh p = Some (p_data p)" "p_h p = Some (p_data p + (20 + length opts))" "p_len p = 20 + length opts + length data"
    using h hl length_pkt_bytes [of p] by (auto simp: holds_dgram_def dgram_hlen_def dgram_hdr_enc length_enc_ip)
qed

lemma GW_loop_datagram:
  assumes p: "gw_datagram p h os tail data" and mem: "\<forall>n. mem n \<noteq> None" and g: "gw_options st now 20 os = (os', e)"
  obtains pk A Z where
    "GW_loop mem now st (p_data p) (20 + length (opts_bytes os @ tail)) 20 (Untouched p) = Inr (Some (pk, e))"
    "gw_outcome (Untouched p) (A @ (enc_ip h @ (opts_bytes os' @ tail) @ data) @ Z) pk" "length A = p_data p"
    "holds_dgram (gw_read pk) (enc_ip h @ (opts_bytes os' @ tail) @ data)" "gw_p pk = gw_read pk"
proof -
  note d = gw_datagramD [OF p]
  let ?r = "enc_ip h @ (opts_bytes os' @ tail) @ data"
  have w: "wf_pkt p" "pkt_bytes p = enc_ip h @ (opts_bytes os @ tail) @ data"
    using d(1) by (simp_all add: holds_dgram_def)
  obtain A Z where b: "p_buf p = A @ pkt_bytes p @ Z" "length A = p_data p" using wf_pkt_bufE [OF w(1)] .
  have "\<exists>pk'. GW_loop mem now st (p_data p) (20 + length (opts_bytes os @ tail)) 20 (Untouched p) =
       Inr (Some (pk', snd (gw_options st now 20 os))) \<and>
     gw_outcome (Untouched p) ((A @ enc_ip h) @ opts_bytes (fst (gw_options st now 20 os)) @ tail @ (data @ Z)) pk'"
    by (rule GW_loop_options) (use w b d(7) mem p in \<open>simp_all add: gw_datagram_def Let_def length_enc_ip\<close>)
  then obtain pk where pk: "GW_loop mem now st (p_data p) (20 + length (opts_bytes os @ tail)) 20 (Untouched p) = Inr (Some (pk, e))"
    "gw_outcome (Untouched p) (A @ ?r @ Z) pk" by (auto simp: g)
  moreover have "length ?r = p_len p" using d(9) gw_options_length [of st now 20 os] g by (simp add: length_enc_ip)
  then have "holds_dgram (gw_read pk) ?r" "gw_p pk = gw_read pk"
    using pk(2) b(2) d(3,7,8) rewritten_holds [of p A ?r Z]
    by (cases pk; auto simp: rewritten_def dgram_hlen_def dgram_hdr_enc)+
  ultimately show thesis using that b(2) by blast
qed

lemma GW_simple_action_dgram:
  assumes p: "holds_dgram p (enc_ip h @ opts @ data)" and hl: "4 * unat (ip_hl h) = 20 + length opts"
  shows "GW_simple_action mem now an p st =
    (if opts = [] then Inr (st, an, [], Some p)
     else res_bind (GW_loop mem now st (p_data p) (20 + length opts) 20 (Untouched p)) (\<lambda>r.
       case r of
         None \<Rightarrow> Inr (st, an, [], None)
       | Some (pk, Some oi) \<Rightarrow>
           Inr (st\<lparr>gw_drops := gw_drops st + 1\<rparr>, set_anno_u8 ICMP_PARAMPROB_ANNO_OFFSET (of_nat oi) an,
                [checked_output_push (gw_noutputs st) 1 (gw_p pk)], None)
       | Some (Untouched p, None) \<Rightarrow> Inr (st, an, [], Some p)
       | Some (pk, None) \<Rightarrow> res_bind (GW_store_sum (20 + length opts) pk) (\<lambda>w. Inr (st, an, [], Some w))))"
proof -
  have none: "unat (ip_hl h) \<le> 5 \<longleftrightarrow> opts = []" using hl by (cases opts) auto
  have P: "p_nh p = Some (p_data p)" "p_h p = Some (p_data p + (20 + length opts))"
    using p hl by (simp_all add: holds_dgram_def dgram_hlen_def dgram_hdr_enc)
  then have nhl: "network_header_length p = Inr (int (20 + length opts))" by (simp add: network_header_length_def)
  have "rd p (p_data p) 20 = Inr (enc_ip h)" using holds_dgram_rd [OF p, of 0 20] by (simp add: chunk_def length_enc_ip)
  then have "GW_simple_action mem now an p st =
      (if opts = [] then Inr (st, an, [], Some p) else GW_handle_options mem now an p st)"
    by (simp add: GW_simple_action_def P(1) sizeof_ip_def ip.dec_enc [simplified] none)
  then show ?thesis
    unfolding GW_handle_options_def P(1) deref_simps res_bind_Inr nhl nat_int sizeof_ip_def .
qed

lemma GW_sum_sent:
  assumes w: "rewritten p (A @ (enc_ip h @ opts @ data) @ Z) w" and p: "length A = p_data p" "p_nh p = Some (p_data p)"
      "p_h p = Some (p_data p + (20 + length opts))" "length (enc_ip h @ opts @ data) = p_len p"
    and hl: "4 * unat (ip_hl h) = 20 + length opts" "length opts \<le> 40"
    and valid: "ip_v h = 4" "unat (ntohs (ip_len h)) = 20 + length opts + length data"
  shows "\<exists>q. GW_store_sum (20 + length opts) (Same w) = Inr q \<and> (shared q \<longrightarrow> shared p) \<and> holds_dgram q (enc_ip (summed h opts) @ opts @ data) \<and>
    dgram_valid (enc_ip (summed h opts) @ opts @ data)"
proof -
  obtain J where J: "p_buf w = A @ enc_ip h @ opts @ data @ Z @ J" "p_nh w = Some (length A)"
    using w p(1,2) by (auto simp: rewritten_def)
  let ?s = "enc_ip (summed h opts) @ opts @ data" and ?q = "w\<lparr>p_buf := A @ enc_ip (summed h opts) @ opts @ data @ Z @ J\<rparr>"
  have r: "rewritten p (A @ ?s @ Z) ?q" using w by (simp add: rewritten_def shared_def)
  then have "holds_dgram ?q ?s"
    by (rule rewritten_holds) (use p hl in \<open>simp_all add: dgram_hlen_def dgram_hdr_enc length_enc_ip\<close>)
  then show ?thesis
    using GW_store_sum_same [OF J] dgram_built(3) [OF hl valid] r by (auto simp: rewritten_def)
qed

lemma GW_reports:
  assumes p: "gw_datagram p h os tail data" and mem: "\<forall>n. mem n \<noteq> None" and g: "gw_options st now 20 os = (os', Some oi)"
  shows "\<exists>q. GW_simple_action mem now an p st =
      Inr (st\<lparr>gw_drops := gw_drops st + 1\<rparr>, set_anno_u8 ICMP_PARAMPROB_ANNO_OFFSET (of_nat oi) an,
           [checked_output_push (gw_noutputs st) 1 q], None) \<and>
    holds_dgram q (enc_ip h @ (opts_bytes os' @ tail) @ data) \<and> 20 \<le> oi \<and> oi < 20 + length (opts_bytes os @ tail)"
proof -
  note d = gw_datagramD [OF p]
  obtain pk where pk: "GW_loop mem now st (p_data p) (20 + length (opts_bytes os @ tail)) 20 (Untouched p) = Inr (Some (pk, Some oi))"
    "holds_dgram (gw_read pk) (enc_ip h @ (opts_bytes os' @ tail) @ data)" "gw_p pk = gw_read pk"
    using GW_loop_datagram [OF p mem g] by metis
  have "20 \<le> oi \<and> oi < 20 + length (opts_bytes os)"
    using gw_options_fault [of st now 20 os oi] g p by (simp add: gw_datagram_def)
  moreover from this have "opts_bytes os @ tail \<noteq> []" by auto
  then have "GW_simple_action mem now an p st =
      Inr (st\<lparr>gw_drops := gw_drops st + 1\<rparr>, set_anno_u8 ICMP_PARAMPROB_ANNO_OFFSET (of_nat oi) an,
           [checked_output_push (gw_noutputs st) 1 (gw_read pk)], None)"
    using pk(3) unfolding GW_simple_action_dgram [OF d(1,3)] pk(1) by (cases pk) simp_all
  ultimately show ?thesis using pk(2) by auto
qed

lemma GW_forwards:
  assumes p: "gw_datagram p h os tail data" and mem: "\<forall>n. mem n \<noteq> None" and g: "gw_options st now 20 os = (os', None)"
  shows "\<exists>q sum. GW_simple_action mem now an p st = Inr (st, an, [], Some q) \<and> (shared q \<longrightarrow> shared p) \<and>
    holds_dgram q (enc_ip (h\<lparr>ip_sum := sum\<rparr>) @ (opts_bytes os' @ tail) @ data) \<and>
    dgram_valid (enc_ip (h\<lparr>ip_sum := sum\<rparr>) @ (opts_bytes os' @ tail) @ data)"
proof -
  note d = gw_datagramD [OF p]
  define opts opts' where "opts = opts_bytes os @ tail" and "opts' = opts_bytes os' @ tail"
  have lo: "length opts' = length opts" using gw_options_length [of st now 20 os] g by (simp add: opts_def opts'_def)
  obtain pk A Z where pk: "GW_loop mem now st (p_data p) (20 + length opts) 20 (Untouched p) = Inr (Some (pk, None))"
    "gw_outcome (Untouched p) (A @ (enc_ip h @ opts' @ data) @ Z) pk" "length A = p_data p"
    "holds_dgram (gw_read pk) (enc_ip h @ opts' @ data)"
    using GW_loop_datagram [OF p mem g] unfolding opts_def opts'_def by metis
  note act = GW_simple_action_dgram [OF d(1,3), folded opts_def, of mem now an st]
  show ?thesis
  proof (cases "opts = [] \<or> pk = Untouched p")
    case True
    then have "enc_ip h @ opts' @ data = enc_ip h @ opts @ data" using pk(4) d(1) lo by (auto simp: holds_dgram_def opts_def)
    moreover have "GW_simple_action mem now an p st = Inr (st, an, [], Some p)"
      using True by (auto simp: act pk(1))
    ultimately show ?thesis using d(1,2)
      by (auto simp: opts_def opts'_def intro!: exI [of _ p] exI [of _ "ip_sum h"])
  next
    case False
    then obtain w where w: "pk = Same w" "rewritten p (A @ (enc_ip h @ opts' @ data) @ Z) w"
      using pk(2) by (cases pk) auto
    obtain q where q: "GW_store_sum (20 + length opts') (Same w) = Inr q" "shared q \<longrightarrow> shared p"
        "holds_dgram q (enc_ip (summed h opts') @ opts' @ data)" "dgram_valid (enc_ip (summed h opts') @ opts' @ data)"
      using GW_sum_sent [OF w(2) pk(3) d(7)] d(3-6,8,9) lo by (auto simp: opts_def length_enc_ip)
    then have "GW_simple_action mem now an p st = Inr (st, an, [], Some q)"
      using False by (simp add: act pk(1) w(1) lo)
    with q show ?thesis by (auto simp: opts'_def summed_def)
  qed
qed

text \<open>
  C26: For a valid datagram whose options are long enough for their fixed fields, in a packet to which no
  clone refers, and with memory: IPGWOptions forwards the datagram with its options processed as \<open>gw_options\<close>
  says, everything else but the checksum unchanged and the header valid, or, when that finds a fault, counts a drop and
  emits the packet at output 1 with the position of the faulty byte, which lies in the header, in its annotation. No
  access is out of bounds.
\<close>

theorem GW_processes_options:
  assumes p: "gw_datagram p h os tail data" and mem: "\<forall>n. mem n \<noteq> None"
  shows "case gw_options st now 20 os of
      (os', None) \<Rightarrow>
        (\<exists>q sum. GW_simple_action mem now an p st = Inr (st, an, [], Some q) \<and>
           holds_dgram q (enc_ip (h\<lparr>ip_sum := sum\<rparr>) @ (opts_bytes os' @ tail) @ data) \<and>
           dgram_valid (enc_ip (h\<lparr>ip_sum := sum\<rparr>) @ (opts_bytes os' @ tail) @ data))
    | (os', Some oi) \<Rightarrow>
        (\<exists>q. GW_simple_action mem now an p st =
             Inr (st\<lparr>gw_drops := gw_drops st + 1\<rparr>, set_anno_u8 ICMP_PARAMPROB_ANNO_OFFSET (of_nat oi) an,
                  [checked_output_push (gw_noutputs st) 1 q], None) \<and>
           holds_dgram q (enc_ip h @ (opts_bytes os' @ tail) @ data) \<and>
           20 \<le> oi \<and> oi < 20 + length (opts_bytes os @ tail))"
proof -
  obtain os' e where g: "gw_options st now 20 os = (os', e)" by fastforce
  show ?thesis
  proof (cases e)
    case None
    then show ?thesis using GW_forwards [OF p mem, of st now os' an] g by auto
  next
    case (Some oi)
    then show ?thesis using GW_reports [OF p mem, of st now os' oi an] g by auto
  qed
qed

definition sample_options :: "ip_option list" where
  "sample_options = [Opt IPOPT_RR [4, 0, 0, 0, 0], Nop]"

definition sample_routed :: "byte list" where
  "sample_routed =
     enc_ip (summed ((base_ip 32 17 0 0x0100A8C0 0x0200A8C0 64)\<lparr>ip_hl := 7\<rparr>) (opts_bytes sample_options)) @
     opts_bytes sample_options @ [1, 2, 3, 4]"

definition sample_routed_packet :: packet where
  "sample_routed_packet = \<lparr>p_buf = sample_routed, p_data = 0, p_len = 32, p_mac = None, p_nh = Some 0, p_h = Some 28,
     p_dst_ip_anno = 0, p_use_count = 1, p_data_packet = True\<rparr>"

theorem GW_processes_options_witness:
  "\<exists>q sum. GW_simple_action (\<lambda>_. Some (\<lambda>_. 0)) (\<lambda>_. (0, 0)) new_annos sample_routed_packet
      ((new_IPGWOptions 2)\<lparr>gw_preferred_addr := 0x0300A8C0\<rparr>) =
      Inr ((new_IPGWOptions 2)\<lparr>gw_preferred_addr := 0x0300A8C0\<rparr>, new_annos, [], Some q) \<and>
    holds_dgram q (enc_ip ((dgram_hdr sample_routed)\<lparr>ip_sum := sum\<rparr>) @
      [7, 7, 8, 0xC0, 0xA8, 0, 3, 1] @ [1, 2, 3, 4])"
proof -
  let ?st = "(new_IPGWOptions 2)\<lparr>gw_preferred_addr := 0x0300A8C0\<rparr>" and ?h0 = "(base_ip 32 17 0 0x0100A8C0 0x0200A8C0 64)\<lparr>ip_hl := 7\<rparr>"
  have o: "opts_bytes sample_options = [7, 7, 4, 0, 0, 0, 0, 1]" by (simp add: sample_options_def IPOPT_RR_def IPOPT_NOP_def)
  have bs: "sample_routed = enc_ip (dgram_hdr sample_routed) @ (opts_bytes sample_options @ []) @ [1, 2, 3, 4]"
    by (simp add: sample_routed_def dgram_hdr_enc)
  have b: "dgram_valid sample_routed" "dgram_hlen sample_routed = 28" "length sample_routed = 32"
    using dgram_built(3) [of ?h0 "opts_bytes sample_options" "[1, 2, 3, 4]"]
    by (simp_all add: sample_routed_def dgram_hlen_def dgram_hdr_enc o base_ip_def length_enc_ip)
  have h: "holds_dgram sample_routed_packet sample_routed"
    by (simp add: holds_dgram_def sample_routed_packet_def wf_pkt_def pkt_bytes_def b chunk_def)
  have d: "gw_datagram sample_routed_packet (dgram_hdr sample_routed) sample_options [] [1, 2, 3, 4]"
    using h b bs
    by (auto simp: gw_datagram_def Let_def o sample_routed_packet_def)
      (simp_all add: sample_options_def IPOPT_RR_def IPOPT_NOP_def IPOPT_EOL_def IPOPT_TS_def)
  have "gw_options ?st (\<lambda>_. (0, 0)) 20 sample_options = ([Opt IPOPT_RR [8, 0xC0, 0xA8, 0, 3], Nop], None)"
    by (simp add: sample_options_def gw_route_def Let_def patch_def u32_bytes_def)
  then show ?thesis
    using GW_processes_options [OF d, where mem = "\<lambda>_. Some (\<lambda>_. 0)" and st = ?st and now = "\<lambda>_. (0, 0)" and an = new_annos]
    by simp (auto simp: IPOPT_RR_def IPOPT_NOP_def)
qed
section \<open>Two faults\<close>

text \<open>
  A time stamp option of length 3, too short for its overflow field: the overflow is counted in
  the byte behind the option, here the first byte of the payload.
\<close>

lemma GW_short_timestamp_changes_payload:
  assumes p: "holds_dgram p (enc_ip h @ [IPOPT_NOP, IPOPT_TS, 3, 5] @ d # data)" "\<not> shared p" "p_use_count p = 1"
    and hl: "unat (ip_hl h) = 6" and d: "d AND 0xf = 0" "drop_bit 4 d < 15"
  shows "\<exists>q. GW_simple_action mem now an p st = Inr (st, an, [], Some q) \<and>
    dgram_payload (pkt_bytes q) = push_bit 4 (drop_bit 4 d + 1) # data"
proof -
  let ?opts = "[IPOPT_NOP, IPOPT_TS, 3, 5]" and ?d = "push_bit 4 (drop_bit 4 d + 1) :: byte"
  obtain A Z where b: "p_buf p = A @ (enc_ip h @ ?opts @ d # data) @ Z" "length A = p_data p"
    using p(1) wf_pkt_bufE [of p] by (metis holds_dgram_def)
  have P: "p_nh p = Some (p_data p)" "p_len p = 25 + length data"
    using p(1) length_pkt_bytes [of p] by (auto simp: holds_dgram_def length_enc_ip)
  have r: "rd8 p (p_data p + 20) = Inr IPOPT_NOP" "rd8 p (p_data p + 21) = Inr IPOPT_TS" "rd8 p (p_data p + 21 + 1) = Inr 3"
    "rd8 p (p_data p + 21 + 2) = Inr 5" "rd8 p (p_data p + 21 + 3) = Inr d"
    using b(2) by (simp_all add: rd8_def b(1) nth_append length_enc_ip)
  define w where "w = p\<lparr>p_buf := A @ (enc_ip h @ ?opts @ ?d # data) @ Z\<rparr>"
  have wr: "wr p (p_data p + 21 + 3) [?d] = Inr w"
    using b(2) by (simp add: wr_def b(1) patch_def length_enc_ip w_def)
  have ts: "GW_timestamp st ms p (p_data p) 21 3 = Inr (w, None)" for ms
    using d wr by (simp add: GW_timestamp_def r [simplified] GW_overflowed_def Let_def)
  have "uniqueify mem p = Some p" using p(2) by (simp add: uniqueify_def)
  then have "GW_loop mem now st (p_data p) 24 20 (Untouched p) = Inr (Some (Same w, None))"
    using ts P(1) p(3)
    by (simp add: r [simplified] GW_loop.simps [of _ _ _ _ 24 20] GW_loop.simps [of _ _ _ _ 24 21] GW_loop.simps [of _ _ _ _ 24 24]
          IPOPT_NOP_def IPOPT_EOL_def IPOPT_TS_def IPOPT_RR_def)
  moreover have "GW_store_sum (20 + length ?opts) (Same w) =
      Inr (w\<lparr>p_buf := A @ enc_ip (summed h ?opts) @ ?opts @ (?d # data) @ Z\<rparr>)" (is "_ = Inr ?q")
    by (rule GW_store_sum_same) (simp_all add: w_def b(2) P(1))
  ultimately have "GW_simple_action mem now an p st = Inr (st, an, [], Some ?q)"
    using GW_simple_action_dgram [OF p(1)] hl by simp
  moreover have "pkt_bytes ?q = enc_ip (summed h ?opts) @ ?opts @ ?d # data"
    using b(2) P(2) by (simp add: pkt_bytes_def w_def chunk_def length_enc_ip take_Cons')
  then have "dgram_payload (pkt_bytes ?q) = ?d # data"
    using dgram_built(2) [of h ?opts "?d # data"] hl by simp
  ultimately show ?thesis by blast
qed

text \<open>When clones refer to the packet, the checksum of the old header, which is 0 for a valid one, is stored into the copy.\<close>

lemma GW_copied_sum_is_zero:
  assumes "p_nh w = Some nh" "rd w nh 20 = Inr (enc_ip h)" and "p_nh p = Some n" "rd p n hlen = Inr hdr" "click_in_cksum hdr = 0"
  shows "GW_store_sum hlen (Copied p w) = wr w nh (enc_ip (h\<lparr>ip_sum := 0\<rparr>))"
  using assms by (simp add: GW_store_sum_def sizeof_ip_def ip.dec_enc [simplified])

end
