(* ===== verification/IP_Fragmenter.thy ===== *)
theory IP_Fragmenter
  imports IP_Datagram
begin

text \<open>
  \<^verbatim>\<open>click/elements/ip/ipfragmenter.{hh,cc}\<close>, the last element before the address resolution on every
  forwarding path. The payload is cut into pieces of a multiple of
  eight bytes; the first fragment reuses the packet, the others are copies with the options that
  have to be copied. Shown: the fragments are valid datagrams that fit the link and put together
  again give the payload.
\<close>

unbundle bit_operations_syntax

section \<open>Configuration\<close>

definition IP_DF :: u16 where "IP_DF = 0x4000"

definition IP_MF :: u16 where "IP_MF = 0x2000"

record IPFragmenter =
  fg_honor_df :: bool
  fg_verbose :: bool
  fg_mtu :: u32
  fg_headroom :: u32
  fg_drops :: u32
  fg_fragments :: u32
  fg_noutputs :: nat

definition new_IPFragmenter :: "nat \<Rightarrow> IPFragmenter" where
  "new_IPFragmenter n = \<lparr>fg_honor_df = True, fg_verbose = False, fg_mtu = 0, fg_headroom = 0,
     fg_drops = 0, fg_fragments = 0, fg_noutputs = n\<rparr>"

definition FG_configure ::
  "u32 arg \<Rightarrow> bool arg \<Rightarrow> bool arg \<Rightarrow> u32 arg \<Rightarrow> bool \<Rightarrow> IPFragmenter \<Rightarrow> int \<times> IPFragmenter" where
  "FG_configure MTU HONOR_DF VERBOSE HEADROOM unread st =
     (let st = st\<lparr>fg_headroom := default_headroom\<rparr> in
      case (Args_read_m MTU, Args_read HONOR_DF (fg_honor_df st), Args_read VERBOSE (fg_verbose st),
            Args_read HEADROOM (fg_headroom st)) of
        (Some m, Some d, Some v, Some r) \<Rightarrow>
          if unread then (-1, st)
          else
          let st = st\<lparr>fg_mtu := m, fg_honor_df := d, fg_verbose := v, fg_headroom := r\<rparr> in
          if fg_mtu st < 8 then (- EINVAL, st) else (0, st)
      | _ \<Rightarrow> (-1, st))"

section \<open>Copying options\<close>

function optcopy_loop :: "byte list \<Rightarrow> byte list" where
  "optcopy_loop oin =
     (if oin = [] then []
      else if oin ! 0 = IPOPT_NOP then optcopy_loop (drop 1 oin)
      else if oin ! 0 = IPOPT_EOL \<or> length oin = 1 \<or> unat (oin ! 1) < 2 \<or> unat (oin ! 1) > length oin
      then []
      else (if oin ! 0 AND 0x80 \<noteq> 0 then take (unat (oin ! 1)) oin else [])
           @ optcopy_loop (drop (unat (oin ! 1)) oin))"
  by pat_completeness auto
termination by (relation "measure length") auto

declare optcopy_loop.simps [simp del]

text \<open>The bytes written behind the new header; their number is what \<open>optcopy\<close> returns.\<close>

definition optcopy :: "byte list \<Rightarrow> byte list" where
  "optcopy opts =
     (let out = optcopy_loop opts in out @ replicate ((4 - length out mod 4) mod 4) IPOPT_EOL)"

section \<open>Fragmenting\<close>

text \<open>The first fragment: the header of the packet rewritten in place.\<close>

definition FG_first_header :: "u32 \<Rightarrow> nat \<Rightarrow> nat \<Rightarrow> click_ip \<Rightarrow> click_ip" where
  "FG_first_header random hlen first_dlen ip =
     (let ip = (if ip_off ip AND htons IP_DF \<noteq> 0
                then ip\<lparr>ip_id := ucast random, ip_off := ip_off ip AND NOT (htons IP_DF)\<rparr> else ip)
      in ip\<lparr>ip_len := htons (of_nat (hlen + first_dlen)), ip_off := ip_off ip OR htons IP_MF\<rparr>)"

text \<open>One further fragment: its header, and the packet with \<open>out_dlen\<close> bytes of the payload from \<open>off\<close>.\<close>

definition FG_next_header :: "bool \<Rightarrow> nat \<Rightarrow> nat \<Rightarrow> nat \<Rightarrow> nat \<Rightarrow> click_ip \<Rightarrow> click_ip" where
  "FG_next_header had_mf in_dlen out_hlen off out_dlen qip =
     (let qip = qip\<lparr>ip_hl := of_nat (out_hlen div 4),
                    ip_off := htons (ntohs (ip_off qip) + of_nat (off div 8))\<rparr>;
          qip = (if out_dlen + off \<ge> in_dlen \<and> \<not> had_mf
                 then qip\<lparr>ip_off := ip_off qip AND NOT (htons IP_MF)\<rparr> else qip)
      in qip\<lparr>ip_len := htons (of_nat (out_hlen + out_dlen))\<rparr>)"

definition FG_one ::
  "allocator \<Rightarrow> u32 \<Rightarrow> packet \<Rightarrow> bool \<Rightarrow> nat \<Rightarrow> byte list \<Rightarrow> nat \<Rightarrow> nat \<Rightarrow> effect list res" where
  "FG_one mem hroom p had_mf in_dlen copied off out_dlen =
     (let out_hlen = sizeof_ip + length copied in
      case Packet_make mem (unat hroom) None (out_hlen + out_dlen) 0 of
        None \<Rightarrow> Inr []
      | Some q \<Rightarrow>
          res_bind (set_network_header (p_data q) out_hlen q) (\<lambda>q.
          res_bind (deref (p_nh p)) (\<lambda>nh.
          res_bind (rd p nh sizeof_ip) (\<lambda>ip.
          res_bind (wr q (p_data q) ip) (\<lambda>q.
          res_bind (wr q (p_data q + sizeof_ip) copied) (\<lambda>q.
          res_bind (deref (p_h p)) (\<lambda>h.
          res_bind (rd p (h + off) out_dlen) (\<lambda>data.
          res_bind (wr q (p_data q + out_hlen) data) (\<lambda>q.
          res_bind (store_ip_sum (p_data q) out_hlen
                      (FG_next_header had_mf in_dlen out_hlen off out_dlen (dec_ip ip)) q) (\<lambda>q.
          Inr [Push 0 (set_dst_ip_anno (p_dst_ip_anno p) q)]))))))))))"

definition FG_out_dlen :: "u32 \<Rightarrow> nat \<Rightarrow> nat \<Rightarrow> nat \<Rightarrow> nat" where
  "FG_out_dlen mtu out_hlen in_dlen off =
     (let out_dlen = sint ((mtu - of_nat out_hlen) AND NOT 7)
      in nat (if out_dlen + int off > int in_dlen then int in_dlen - int off else out_dlen))"

text \<open>
  The loop over the further fragments; \<open>None\<close> if it does not end. \<open>mem off\<close> is the allocator's
  answer in the iteration at \<open>off\<close>.
\<close>

partial_function (option) FG_rest ::
  "(nat \<Rightarrow> allocator) \<Rightarrow> u32 \<Rightarrow> u32 \<Rightarrow> packet \<Rightarrow> bool \<Rightarrow> nat \<Rightarrow> byte list \<Rightarrow> nat \<Rightarrow> effect list res option" where
  "FG_rest mem mtu hroom p had_mf in_dlen copied off =
     (if off < in_dlen then
        (let out_dlen = FG_out_dlen mtu (sizeof_ip + length copied) in_dlen off in
         case FG_one (mem off) hroom p had_mf in_dlen copied off out_dlen of
           Inl e \<Rightarrow> Some (Inl e)
         | Inr out \<Rightarrow>
             Option.bind (FG_rest mem mtu hroom p had_mf in_dlen copied (off + out_dlen))
               (\<lambda>r. Some (res_bind r (\<lambda>outs. Inr (out @ outs)))))
      else Some (Inr []))"

definition FG_fragment ::
  "(nat \<Rightarrow> allocator) \<Rightarrow> u32 \<Rightarrow> packet \<Rightarrow> IPFragmenter \<Rightarrow> (IPFragmenter \<times> effect list) res option" where
  "FG_fragment mem random p_in st =
     (case res_bind (deref (p_nh p_in)) (\<lambda>nh. rd p_in nh sizeof_ip) of
        Inl e \<Rightarrow> Some (Inl e)
      | Inr bs \<Rightarrow>
          let ip_in = dec_ip bs;
              hlen = 4 * unat (ip_hl ip_in);
              first_dlen = sint ((fg_mtu st - of_nat hlen) AND NOT 7);
              in_dlen = nat (int (unat (ntohs (ip_len ip_in))) - int hlen) in
          if (ip_off ip_in AND htons IP_DF \<noteq> 0 \<and> fg_honor_df st) \<or> first_dlen < 8
          then Some (Inr (st\<lparr>fg_drops := fg_drops st + 1\<rparr>, [checked_output_push (fg_noutputs st) 1 p_in]))
          else
          (case uniqueify (mem 0) p_in of
             None \<Rightarrow> Some (Inr (st, []))
           | Some p \<Rightarrow>
               (case res_bind (deref (p_nh p)) (\<lambda>nh.
                     res_bind (rd p nh sizeof_ip) (\<lambda>bs.
                     let ip = FG_first_header random hlen (nat first_dlen) (dec_ip bs) in
                     res_bind (store_ip_sum nh hlen ip p) (\<lambda>p.
                     res_bind (rd p (nh + sizeof_ip) (hlen - sizeof_ip)) (\<lambda>opts.
                     Inr (nh, ip_off (dec_ip bs) AND htons IP_MF \<noteq> 0, p, opts))))) of
                  Inl e \<Rightarrow> Some (Inl e)
                | Inr (nh, had_mf, p, opts) \<Rightarrow>
                    let (first_fragment, p) = pkt_clone p;
                        cut = of_nat (p_len p) - of_int (network_header_offset p nh) - of_nat hlen
                              - of_int first_dlen :: u32;
                        first_fragment = pkt_take (unat cut) first_fragment in
                    map_option (\<lambda>r. res_bind r (\<lambda>outs.
                        Inr (st\<lparr>fg_fragments := fg_fragments st + 1 + of_nat (length outs)\<rparr>,
                             Push 0 first_fragment # outs @ [Kill p])))
                      (FG_rest mem (fg_mtu st) (fg_headroom st) p had_mf in_dlen (optcopy opts)
                         (nat first_dlen)))))"

definition FG_push ::
  "(nat \<Rightarrow> allocator) \<Rightarrow> u32 \<Rightarrow> packet \<Rightarrow> IPFragmenter \<Rightarrow> (IPFragmenter \<times> effect list) res option" where
  "FG_push mem random p st =
     (case deref (p_nh p) of
        Inl e \<Rightarrow> Some (Inl e)
      | Inr nh \<Rightarrow>
          if network_length p nh \<le> sint (fg_mtu st) then Some (Inr (st, [Push 0 p]))
          else FG_fragment mem random p st)"
section \<open>Flags and offsets\<close>

lemma bit_htons: "bit (htons v) n \<longleftrightarrow> (if n < 8 then bit v (n + 8) else n < 16 \<and> bit v (n - 8))"
  by (auto simp: htons_def le16_def bit_simps add.commute)

lemma htons_logic:
  "htons (x AND y) = htons x AND htons y" "htons (x OR y) = htons x OR htons y" "htons (NOT x) = NOT (htons x)"
  by (rule bit_word_eqI; auto simp: bit_htons bit_simps)+

lemma MF_DF_bits: "bit IP_MF n \<longleftrightarrow> n = 13" "bit IP_DF n \<longleftrightarrow> n = 14"
proof -
  have p: "IP_MF = push_bit 13 1" "IP_DF = push_bit 14 1" by (simp_all add: IP_MF_def IP_DF_def push_bit_eq_mult)
  have "bit (push_bit k 1 :: u16) n \<longleftrightarrow> n = k" if "k < 16" for k
    using that by (auto simp: bit_exp_iff)
  from this [of 13] this [of 14] show "bit IP_MF n \<longleftrightarrow> n = 13" "bit IP_DF n \<longleftrightarrow> n = 14" unfolding p by simp_all
qed

lemma and_flag:
  assumes "\<And>n. bit f n \<longleftrightarrow> n = k" and "8 \<le> k" and "k < 16"
  shows "x AND htons f \<noteq> 0 \<longleftrightarrow> bit (ntohs x) k"
proof -
  have f: "bit (htons f) n \<longleftrightarrow> n = k - 8" for n
    unfolding bit_htons assms(1) using assms(2,3) by (cases "n < 8") (simp_all, linarith+)
  have "x AND htons f \<noteq> 0 \<longleftrightarrow> (\<exists>n. bit x n \<and> n = k - 8)"
    by (simp only: bit_eq_iff [of "x AND htons f"] bit_and_iff f) (auto simp: bit_0_eq dest: bit_imp_le_length)
  also have "\<dots> \<longleftrightarrow> bit (ntohs x) k" using assms(2,3) by (simp add: bit_htons)
  finally show ?thesis .
qed

lemmas and_MF = and_flag [where f = IP_MF and k = 13, OF MF_DF_bits(1), simplified]
  and and_DF = and_flag [where f = IP_DF and k = 14, OF MF_DF_bits(2), simplified]

lemma offset_add:
  fixes v :: u16
  assumes "unat (take_bit 13 v) + k < 8192"
  shows "unat (take_bit 13 (v + of_nat k)) = unat (take_bit 13 v) + k"
    and "13 \<le> n \<Longrightarrow> bit (v + of_nat k) n = bit v n"
proof -
  define t where "t = take_bit 13 v + of_nat k"
  define a where "a = v AND NOT (mask 13)"
  have k: "unat (of_nat k :: u16) = k" using assms by (simp add: unat_of_nat take_bit_nat_eq_self)
  have t: "unat t = unat (take_bit 13 v) + k" using assms k by (simp add: t_def unat_word_ariths)
  have tb: "take_bit 13 t = t"
    unfolding word_unat_eq_iff using t assms by (simp add: unsigned_take_bit_eq take_bit_nat_eq_self)
  have bt: "bit t n \<Longrightarrow> n < 13" for n using tb by (metis bit_take_bit_iff)
  have "a AND t = 0" by (rule bit_word_eqI) (auto simp: a_def bit_simps dest: bt)
  then have at: "a + t = a OR t" by (rule disjunctive_add_eq_or)
  have "a AND take_bit 13 v = 0" "a OR take_bit 13 v = v" by (rule bit_word_eqI; auto simp: a_def bit_simps)+
  then have "v = a + take_bit 13 v" using disjunctive_add_eq_or [of a "take_bit 13 v"] by simp
  then have "v + of_nat k = a OR t" using at unfolding t_def by (metis add.assoc)
  then have b: "bit (v + of_nat k) n = (if n < 13 then bit t n else bit v n)" for n
    using bt by (auto simp: a_def bit_simps dest: bit_imp_le_length)
  have "take_bit 13 (v + of_nat k) = t" by (rule bit_word_eqI) (auto simp: bit_take_bit_iff b dest: bt)
  with t show "unat (take_bit 13 (v + of_nat k)) = unat (take_bit 13 v) + k" by simp
  show "bit (v + of_nat k) n = bit v n" if "13 \<le> n" using b that by simp
qed
lemma optcopy_length:
  "length (optcopy_loop opts) \<le> length opts"
proof (induction opts rule: optcopy_loop.induct)
  case (1 oin)
  then show ?case by (subst optcopy_loop.simps) (auto simp: min_def)
qed

lemma optcopy_header:
  assumes "4 dvd length opts"
  shows "length (optcopy opts) \<le> length opts" and "4 dvd length (optcopy opts)"
proof -
  define l where "l = length (optcopy_loop opts)"
  have len: "length (optcopy opts) = l + (4 - l mod 4) mod 4" by (simp add: optcopy_def Let_def l_def)
  have le: "l \<le> length opts" unfolding l_def by (rule optcopy_length)
  have "l + (4 - l mod 4) mod 4 = 4 * ((l + 3) div 4)"
  proof -
    define q r where "q = l div 4" and "r = l mod 4"
    have l: "l = 4 * q + r" "r < 4" by (simp_all add: q_def r_def)
    then consider "r = 0" | "r = 1" | "r = 2" | "r = 3" by linarith
    then show ?thesis unfolding r_def [symmetric] by cases (simp_all add: l(1))
  qed
  then have up: "length (optcopy opts) = 4 * ((l + 3) div 4)" using len by simp
  then show "4 dvd length (optcopy opts)" by simp
  obtain k where "length opts = 4 * k" using assms by blast
  then show "length (optcopy opts) \<le> length opts"
    using le up less_mult_imp_div_less [of "l + 3" "k + 1" 4] by simp
qed
section \<open>Reassembly\<close>

text \<open>
  What a receiver that knows the fragments in order puts together: they have to follow each other
  without a gap, and all but the last have to announce more.
\<close>

fun reassemble :: "nat \<Rightarrow> byte list list \<Rightarrow> (byte list \<times> bool) option" where
  "reassemble off [] = None"
| "reassemble off (f # fs) =
     (if dgram_off f \<noteq> off then None
      else if fs = [] then Some (dgram_payload f, dgram_mf f)
      else if dgram_mf f
      then map_option (\<lambda>(bs, mf). (dgram_payload f @ bs, mf))
             (reassemble (off + length (dgram_payload f)) fs)
      else None)"

section \<open>One fragment\<close>

lemma FG_next_header_hl:
  assumes "4 dvd clen" and "clen \<le> 40"
  shows "4 * unat (ip_hl (FG_next_header had_mf in_dlen (20 + clen) off d h)) = 20 + clen"
  using header_length [OF assms] by (simp add: FG_next_header_def Let_def)

lemma FG_next_header_fields:
  "ip_v (FG_next_header had_mf in_dlen hl off d h) = ip_v h"
  "ip_len (FG_next_header had_mf in_dlen hl off d h) = htons (of_nat (hl + d))"
  "ip_src (FG_next_header had_mf in_dlen hl off d h) = ip_src h" "ip_dst (FG_next_header had_mf in_dlen hl off d h) = ip_dst h"
  "ip_p (FG_next_header had_mf in_dlen hl off d h) = ip_p h" "ip_id (FG_next_header had_mf in_dlen hl off d h) = ip_id h"
  "ip_tos (FG_next_header had_mf in_dlen hl off d h) = ip_tos h" "ip_ttl (FG_next_header had_mf in_dlen hl off d h) = ip_ttl h"
  by (simp_all add: FG_next_header_def Let_def)

lemma FG_one_fragment:
  fixes had_mf :: bool and in_dlen :: nat
  assumes p: "p_nh p = Some nh" "p_h p = Some hh" "rd p nh 20 = Inr (enc_ip h)" "rd p (hh + off) d = Inr data"
    and c: "4 dvd length c" "length c \<le> 40" and mem: "\<And>n. mem n \<noteq> None" and v: "ip_v h = 4"
    and len: "20 + length c + d < 65536"
  defines "h' \<equiv> FG_next_header had_mf in_dlen (20 + length c) off d h"
  shows "\<exists>q. FG_one mem hroom p had_mf in_dlen c off d = Inr [Push 0 q] \<and>
    holds_dgram q (enc_ip (summed h' c) @ c @ data) \<and> dgram_valid (enc_ip (summed h' c) @ c @ data)"
proof -
  define hr where "hr = unat hroom"
  obtain q0 where q0: "Packet_make mem hr None (20 + length c + d) 0 = Some q0"
    using Packet_make_has_memory [of mem] mem by blast
  have m: "p_data q0 = hr" "p_len q0 = 20 + length c + d" "hr + 20 + length c + d \<le> length (p_buf q0)"
    using Packet_make_SomeD [OF q0] by simp_all
  have ld: "length data = d" using p(4) by (auto simp: rd_def split: if_splits)
  define b1 where "b1 = patch hr (enc_ip h) (p_buf q0)"
  define b2 where "b2 = patch (hr + 20) c b1"
  define b3 where "b3 = patch (hr + (20 + length c)) data b2"
  have lens: "length b1 = length (p_buf q0)" "length b2 = length (p_buf q0)" "length b3 = length (p_buf q0)"
    using m ld by (simp_all add: b1_def b2_def b3_def length_enc_ip)
  let ?q = "q0\<lparr>p_nh := Some hr, p_h := Some (hr + (20 + length c)), p_buf := b3\<rparr>"
  note layout = chunk_three_patches [of _ hr c data b1]
  have "chunk (hr + 20) (length c) b3 = c"
    using layout(1) [of "replicate 20 0"] m ld lens by (simp add: b3_def b2_def add.assoc)
  then have st: "store_ip_sum hr (20 + length c) h' ?q = Inr (?q\<lparr>p_buf := patch hr (enc_ip (summed h' c)) b3\<rparr>)"
    using store_ip_sum_eq [of hr c ?q h'] m lens by simp
  have one: "FG_one mem hroom p had_mf in_dlen c off d =
      Inr [Push 0 (set_dst_ip_anno (p_dst_ip_anno p) (?q\<lparr>p_buf := patch hr (enc_ip (summed h' c)) b3\<rparr>))]"
    using p m lens ld st q0
    by (simp add: FG_one_def hr_def [symmetric] sizeof_ip_def Let_def set_network_header_def wr_def length_enc_ip
          b1_def [symmetric] b2_def [symmetric] b3_def [symmetric] ip.dec_enc [simplified] h'_def [symmetric])
  let ?bs = "enc_ip (summed h' c) @ c @ data"
  have hl: "4 * unat (ip_hl h') = 20 + length c" unfolding h'_def by (rule FG_next_header_hl [OF c])
  have "chunk hr (20 + length c + d) (patch hr (enc_ip (summed h' c)) b3) = ?bs"
    using layout(2) [of "enc_ip (summed h' c)"] m ld lens by (simp add: b2_def b3_def length_enc_ip add.assoc)
  moreover have "dgram_hlen ?bs = 20 + length c" using hl by (simp add: dgram_hlen_def dgram_built(1) [OF hl c(2)])
  ultimately have "holds_dgram (set_dst_ip_anno (p_dst_ip_anno p) (?q\<lparr>p_buf := patch hr (enc_ip (summed h' c)) b3\<rparr>)) ?bs"
    using m lens by (simp add: holds_dgram_def wf_pkt_def pkt_bytes_def set_dst_ip_anno_def length_enc_ip)
  moreover have "dgram_valid ?bs"
    using dgram_built(3) [OF hl c(2), of data] v len ld
    by (simp add: h'_def FG_next_header_fields unat_of_nat take_bit_nat_eq_self del: of_nat_add)
  ultimately show ?thesis using one by blast
qed
section \<open>The further fragments\<close>

lemma FG_next_header_off:
  fixes had_mf :: bool and in_dlen hl d :: nat
  assumes "8 dvd off" and "8 * unat (take_bit 13 (ntohs (ip_off h))) + off < 65536"
  defines "v \<equiv> ntohs (ip_off (FG_next_header had_mf in_dlen hl off d h))"
  shows "8 * unat (take_bit 13 v) = 8 * unat (take_bit 13 (ntohs (ip_off h))) + off"
    and "bit v 13 \<longleftrightarrow> bit (ntohs (ip_off h)) 13 \<and> (d + off \<ge> in_dlen \<longrightarrow> had_mf)"
proof -
  define w where "w = ntohs (ip_off h) + of_nat (off div 8)"
  have k: "unat (take_bit 13 (ntohs (ip_off h))) + off div 8 < 8192" using assms(1,2) by auto
  have v: "v = (if d + off \<ge> in_dlen \<and> \<not> had_mf then w AND NOT IP_MF else w)"
    by (simp add: v_def FG_next_header_def Let_def w_def htons_logic)
  have "take_bit 13 v = take_bit 13 w"
    unfolding v by (rule bit_word_eqI) (auto simp: bit_simps MF_DF_bits)
  then show "8 * unat (take_bit 13 v) = 8 * unat (take_bit 13 (ntohs (ip_off h))) + off"
    using offset_add(1) [OF k] assms(1) by (simp add: w_def)
  show "bit v 13 \<longleftrightarrow> bit (ntohs (ip_off h)) 13 \<and> (d + off \<ge> in_dlen \<longrightarrow> had_mf)"
    using offset_add(2) [OF k, of 13] by (simp add: v w_def bit_simps MF_DF_bits)
qed

lemma round_to_8:
  assumes "unat mtu < 2147483648" and "hl \<le> unat mtu"
  shows "sint ((mtu - of_nat hl :: u32) AND NOT 7) = int ((unat mtu - hl) div 8 * 8)"
proof -
  have u: "unat (mtu - of_nat hl) = unat mtu - hl"
    using assms by (simp add: unat_sub unat_of_nat take_bit_nat_eq_self word_le_nat_alt)
  have m: "(7 :: u32) = mask 3" by (simp add: mask_eq_exp_minus_1)
  have "x AND NOT (mask 3) = x - take_bit 3 x" for x :: u32
  proof -
    have "push_bit 3 (drop_bit 3 x) = x AND NOT (mask 3)" by (rule bit_word_eqI) (auto simp: bit_simps)
    then show ?thesis using bits_ident [of 3 x] by (metis add_diff_cancel_right')
  qed
  moreover have "unat (x - take_bit 3 x) = unat x div 8 * 8" for x :: u32
  proof -
    have t: "unat (take_bit 3 x) = unat x mod 8"
      by (simp only: unsigned_take_bit_eq) (simp add: take_bit_eq_mod)
    then have "unat (x - take_bit 3 x) = unat x - unat x mod 8"
      by (subst unat_sub) (simp_all add: word_le_nat_alt)
    then show ?thesis by (simp add: minus_mod_eq_div_mult)
  qed
  ultimately have "unat ((mtu - of_nat hl) AND NOT 7) = (unat mtu - hl) div 8 * 8" by (simp add: m u)
  moreover have "(unat mtu - hl) div 8 * 8 < 2147483648" using assms(1) using div_times_less_eq_dividend [of "unat mtu - hl" 8] by linarith
  ultimately show ?thesis by (rule sint_of_unat)
qed

definition same_stream :: "click_ip \<Rightarrow> click_ip \<Rightarrow> bool" where
  "same_stream h h' \<longleftrightarrow> ip_src h' = ip_src h \<and> ip_dst h' = ip_dst h \<and> ip_p h' = ip_p h \<and> ip_id h' = ip_id h \<and>
     ip_tos h' = ip_tos h \<and> ip_ttl h' = ip_ttl h"

definition fragment_ok :: "nat \<Rightarrow> click_ip \<Rightarrow> packet \<Rightarrow> bool" where
  "fragment_ok mtu h q \<longleftrightarrow> holds_dgram q (pkt_bytes q) \<and> dgram_valid (pkt_bytes q) \<and>
     length (pkt_bytes q) \<le> mtu \<and> same_stream h (dgram_hdr (pkt_bytes q))"

lemma FG_rest_fragments:
  fixes had_mf :: bool
  assumes p: "p_nh p = Some nh" "p_h p = Some hh" "rd p nh 20 = Inr (enc_ip h)" "rd p hh in_dlen = Inr payload"
    and c: "4 dvd length c" "length c \<le> 40" and mem: "\<And>k n. mem k n \<noteq> None" and v: "ip_v h = 4"
    and mf: "bit (ntohs (ip_off h)) 13" and base: "base = 8 * unat (take_bit 13 (ntohs (ip_off h)))"
    and fits: "base + in_dlen \<le> 65536" "20 + length c + in_dlen < 65536"
    and mtu: "unat mtu < 2147483648" "28 + length c \<le> unat mtu"
    and off: "off < in_dlen" "8 dvd off"
  shows "\<exists>qs. FG_rest mem mtu hroom p had_mf in_dlen c off = Some (Inr (map (Push 0) qs)) \<and>
    (\<forall>q \<in> set qs. fragment_ok (unat mtu) h q) \<and>
    reassemble (base + off) (map pkt_bytes qs) = Some (drop off payload, had_mf)"
  using off
proof (induction "in_dlen - off" arbitrary: off rule: less_induct)
  case less
  define D where "D = (unat mtu - (20 + length c)) div 8 * 8"
  have D: "8 \<le> D" "8 dvd D" "D + 20 + length c \<le> unat mtu"
    using mtu(2) div_times_less_eq_dividend [of "unat mtu - (20 + length c)" 8] by (simp_all add: D_def)
  define d where "d = FG_out_dlen mtu (20 + length c) in_dlen off"
  have d: "d = (if D + off > in_dlen then in_dlen - off else D)"
    unfolding d_def FG_out_dlen_def Let_def using round_to_8 [OF mtu(1), of "20 + length c"] mtu(2) less.prems(1)
    by (auto simp: D_def [symmetric])
  then have d': "0 < d" "off + d \<le> in_dlen" "d \<le> D" using D(1) less.prems(1) by auto
  define data where "data = take d (drop off payload)"
  have pl: "length payload = in_dlen" using p(4) by (auto simp: rd_def split: if_splits)
  have rdat: "rd p (hh + off) d = Inr data"
    using p(4) d'(2) chunk_chunk [of off d in_dlen hh "p_buf p"]
    by (auto simp: rd_def data_def chunk_def split: if_splits)
  define h' where "h' = FG_next_header had_mf in_dlen (20 + length c) off d h"
  let ?bs = "enc_ip (summed h' c) @ c @ data"
  obtain q where q: "FG_one (mem off) hroom p had_mf in_dlen c off d = Inr [Push 0 q]" "holds_dgram q ?bs" "dgram_valid ?bs"
    using FG_one_fragment [where mem = "mem off" and hroom = hroom and had_mf = had_mf and in_dlen = in_dlen, OF p(1-3) rdat c mem v] fits(2) d'(2) c(2) unfolding h'_def by auto
  have hl: "4 * unat (ip_hl h') = 20 + length c" unfolding h'_def by (rule FG_next_header_hl [OF c])
  note b = dgram_built(1,2) [OF hl c(2), of data]
  have qb: "pkt_bytes q = ?bs" using q(2) by (simp add: holds_dgram_def)
  have ok: "fragment_ok (unat mtu) h q"
    using q(2,3) d'(2,3) D(3) pl b(1) less.prems(1)
    by (simp add: fragment_ok_def qb length_enc_ip data_def same_stream_def h'_def FG_next_header_fields)
  have o13: "dgram_off ?bs = base + off" "dgram_mf ?bs \<longleftrightarrow> (in_dlen \<le> d + off \<longrightarrow> had_mf)"
    using FG_next_header_off [OF less.prems(2), of h had_mf in_dlen "20 + length c" d, folded h'_def] fits(1) less.prems(1) mf
    by (simp_all add: dgram_off_def dgram_mf_def b base)
  have step: "FG_rest mem mtu hroom p had_mf in_dlen c off =
      Option.bind (FG_rest mem mtu hroom p had_mf in_dlen c (off + d)) (\<lambda>r. Some (res_bind r (\<lambda>outs. Inr ([Push 0 q] @ outs))))"
    using less.prems(1) q(1) by (subst FG_rest.simps) (simp add: sizeof_ip_def d_def)
  show ?case
  proof (cases "off + d = in_dlen")
    case True
    then have "FG_rest mem mtu hroom p had_mf in_dlen c (off + d) = Some (Inr [])" by (subst FG_rest.simps) simp
    moreover have "data = drop off payload" using True pl by (simp add: data_def)
    ultimately show ?thesis
      using True step ok o13 b qb by (intro exI [of _ "[q]"]) (simp add: add.commute)
  next
    case False
    then have dD: "d = D" "off + d < in_dlen" using d d'(2) by (auto split: if_splits)
    have "8 dvd off + d" "in_dlen - (off + d) < in_dlen - off" using less.prems D(2) d'(1) dD by auto
    then obtain qs where qs: "FG_rest mem mtu hroom p had_mf in_dlen c (off + d) = Some (Inr (map (Push 0) qs))"
      "\<forall>q \<in> set qs. fragment_ok (unat mtu) h q"
      "reassemble (base + (off + d)) (map pkt_bytes qs) = Some (drop (off + d) payload, had_mf)"
      using less.hyps [of "off + d"] dD(2) by blast
    have "qs \<noteq> []" "length data = d" using qs(3) pl d'(2) by (auto simp: data_def)
    moreover have "data @ drop (off + d) payload = drop off payload"
      by (simp add: data_def) (metis add.commute append_take_drop_id drop_drop)
    ultimately show ?thesis
      using step ok o13 qs False d'(2) by (intro exI [of _ "q # qs"]) (simp add: qb b add.assoc)
  qed
qed
section \<open>The first fragment\<close>

lemma FG_first_header_fields:
  "ip_v (FG_first_header r hl d h) = ip_v h" "ip_hl (FG_first_header r hl d h) = ip_hl h"
  "ip_len (FG_first_header r hl d h) = htons (of_nat (hl + d))"
  "ip_src (FG_first_header r hl d h) = ip_src h" "ip_dst (FG_first_header r hl d h) = ip_dst h"
  "ip_p (FG_first_header r hl d h) = ip_p h" "ip_tos (FG_first_header r hl d h) = ip_tos h"
  "ip_ttl (FG_first_header r hl d h) = ip_ttl h"
  "ip_off h AND htons IP_DF = 0 \<Longrightarrow> ip_id (FG_first_header r hl d h) = ip_id h"
  by (simp_all add: FG_first_header_def Let_def)

lemma FG_first_header_off:
  "take_bit 13 (ntohs (ip_off (FG_first_header r hl d h))) = take_bit 13 (ntohs (ip_off h))"
  "bit (ntohs (ip_off (FG_first_header r hl d h))) 13"
proof -
  have v: "ntohs (ip_off (FG_first_header r hl d h)) =
      (if ip_off h AND htons IP_DF \<noteq> 0 then ntohs (ip_off h) AND NOT IP_DF else ntohs (ip_off h)) OR IP_MF"
    by (simp add: FG_first_header_def Let_def htons_logic)
  show "take_bit 13 (ntohs (ip_off (FG_first_header r hl d h))) = take_bit 13 (ntohs (ip_off h))"
    unfolding v by (rule bit_word_eqI) (auto simp: bit_simps MF_DF_bits)
  show "bit (ntohs (ip_off (FG_first_header r hl d h))) 13" unfolding v by (simp add: bit_simps MF_DF_bits)
qed

text \<open>What \<open>fragment\<close> computes on a datagram it may cut, up to the loop.\<close>

lemma FG_fragment_first:
  fixes p :: packet and st :: IPFragmenter and random :: u32
  assumes p: "holds_dgram p bs" "\<not> shared p" and bs: "bs = enc_ip h @ opts @ payload" "dgram_valid bs" "dgram_hdr bs = h"
    "dgram_hlen bs = 20 + length opts"
    and mtu: "unat (fg_mtu st) < 2147483648" "28 + length opts \<le> unat (fg_mtu st)" "unat (fg_mtu st) < length bs"
    and df: "ip_off h AND htons IP_DF = 0 \<or> \<not> fg_honor_df st"
  defines "F \<equiv> (unat (fg_mtu st) - (20 + length opts)) div 8 * 8"
  defines "h1 \<equiv> FG_first_header random (20 + length opts) F h"
  defines "p1 \<equiv> p\<lparr>p_buf := patch (p_data p) (enc_ip (summed h1 opts)) (p_buf p)\<rparr>"
  shows "FG_push mem random p st =
    map_option (\<lambda>r. res_bind r (\<lambda>outs.
        Inr (st\<lparr>fg_fragments := fg_fragments st + 1 + of_nat (length outs)\<rparr>,
             Push 0 ((fst (pkt_clone p1))\<lparr>p_len := 20 + length opts + F\<rparr>) # outs @ [Kill (snd (pkt_clone p1))])))
      (FG_rest mem (fg_mtu st) (fg_headroom st) (snd (pkt_clone p1)) (dgram_mf bs) (length payload) (optcopy opts) F)"
proof -
  define nh where "nh = p_data p"
  have wf: "wf_pkt p" and pb: "pkt_bytes p = bs" and nh: "p_nh p = Some nh" using p(1) by (simp_all add: holds_dgram_def nh_def)
  have lp: "p_len p = length bs" using length_pkt_bytes [OF wf] pb by simp
  have len: "length bs = 20 + length opts + length payload" by (simp add: bs(1) length_enc_ip)
  have buf: "nh + length bs \<le> length (p_buf p)" using wf lp by (simp add: wf_pkt_def nh_def)
  have r20: "rd p nh 20 = Inr (enc_ip h)"
    using rd_data [OF wf, of 0 20] len lp pb by (simp add: nh_def chunk_def bs(1) length_enc_ip)
  have "chunk (nh + 20) (length opts) (p_buf p) = opts"
    using rd_data [OF wf, of 20 "length opts"] len lp pb
    by (simp add: rd_def nh_def chunk_def bs(1) length_enc_ip split: if_splits)
  then have st1: "store_ip_sum nh (20 + length opts) h1 p = Inr p1"
    using store_ip_sum_eq [of nh opts p h1] buf len by (simp add: p1_def nh_def)
  have ropts: "rd p1 (nh + 20) (length opts) = Inr opts"
    using \<open>chunk (nh + 20) (length opts) (p_buf p) = opts\<close> buf len
    by (simp add: rd_def p1_def nh_def chunk_patch_after length_enc_ip)
  have hl: "4 * unat (ip_hl h) = 20 + length opts" using bs(3,4) by (simp add: dgram_hlen_def)
  have F: "sint ((fg_mtu st - of_nat (20 + length opts)) AND NOT 7) = int F" "8 \<le> F" "F \<le> length payload"
    using round_to_8 [OF mtu(1), of "20 + length opts"] mtu len
      div_times_less_eq_dividend [of "unat (fg_mtu st) - (20 + length opts)" 8] by (simp_all add: F_def del: of_nat_add)
  have il: "unat (ntohs (ip_len h)) = length bs" using bs(2,3) by (simp add: dgram_valid_def)
  then have small: "length bs < 65536" using unat_lt_65536 [of "ntohs (ip_len h)"] by simp
  have cut: "unat (of_nat (length bs) - of_int (network_header_offset (snd (pkt_clone p1)) nh) - of_nat (20 + length opts)
      - of_int (int F) :: u32) = length bs - (20 + length opts) - F"
  proof -
    have "network_header_offset (snd (pkt_clone p1)) nh = 0" by (simp add: network_header_offset_def pkt_clone_def p1_def nh_def)
    moreover have "of_nat (length bs) - of_nat (20 + length opts) - of_nat F = (of_nat (length bs - (20 + length opts) - F) :: u32)"
      using len F(3) by (simp add: of_nat_diff)
    ultimately show ?thesis
      using small by (simp add: unat_of_nat take_bit_nat_eq_self del: of_nat_diff of_nat_add)
  qed
  have push: "FG_push mem random p st = FG_fragment mem random p st"
  proof -
    define m where "m = unat (fg_mtu st)"
    have "sint (fg_mtu st) = int m" "m < length bs" using sint_of_unat [of "fg_mtu st" m] mtu(1,3) by (simp_all add: m_def)
    then show ?thesis using lp nh by (simp add: FG_push_def network_length_def nh_def)
  qed
  have start: "res_bind (deref (p_nh p)) (\<lambda>nh. rd p nh sizeof_ip) = Inr (enc_ip h)"
    using nh r20 by (simp add: sizeof_ip_def)
  have first: "res_bind (deref (p_nh p)) (\<lambda>nh. res_bind (rd p nh sizeof_ip) (\<lambda>bs.
      res_bind (store_ip_sum nh (20 + length opts) (FG_first_header random (20 + length opts) F (dec_ip bs)) p) (\<lambda>p.
      res_bind (rd p (nh + sizeof_ip) (20 + length opts - sizeof_ip)) (\<lambda>opts.
      Inr (nh, ip_off (dec_ip bs) AND htons IP_MF \<noteq> 0, p, opts))))) = Inr (nh, dgram_mf bs, p1, opts)"
    using nh r20 st1 ropts
    by (simp add: sizeof_ip_def ip.dec_enc [simplified] h1_def [symmetric] and_MF dgram_mf_def bs(3))
  have cond: "((ip_off h AND htons IP_DF \<noteq> 0 \<and> fg_honor_df st) \<or> int F < 8) = False" using df F(2) by auto
  have uniq: "uniqueify (mem 0) p = Some p" using p(2) by (simp add: uniqueify_def)
  have dl: "nat (int (length bs) - int (20 + length opts)) = length payload" using len by simp
  have clone: "p_len (snd (pkt_clone p1)) = length bs" "p_len (fst (pkt_clone p1)) = length bs"
    by (simp_all add: pkt_clone_def p1_def lp)
  have take: "pkt_take (length bs - (20 + length opts) - F) (fst (pkt_clone p1)) =
      (fst (pkt_clone p1))\<lparr>p_len := 20 + length opts + F\<rparr>"
    using clone(2) len F(3) by (simp add: pkt_take_def)
  show ?thesis
    unfolding push FG_fragment_def start sum.case Let_def ip.dec_enc [simplified] hl F(1) il dl nat_int cond if_False uniq
      option.case first prod.case case_prod_beta fst_conv snd_conv clone cut take ..
qed
section \<open>Properties\<close>

lemma holds_dgram_first:
  assumes p: "holds_dgram p (enc_ip h @ opts @ payload)" and hl: "4 * unat (ip_hl h1) = 20 + length opts" "length opts \<le> 40"
    "dgram_hlen (enc_ip h @ opts @ payload) = 20 + length opts" and F: "F \<le> length payload"
  defines "p1 \<equiv> p\<lparr>p_buf := patch (p_data p) (enc_ip (summed h1 opts)) (p_buf p)\<rparr>"
  shows "holds_dgram ((fst (pkt_clone p1))\<lparr>p_len := 20 + length opts + F\<rparr>) (enc_ip (summed h1 opts) @ opts @ take F payload)"
    and "rd (snd (pkt_clone p1)) (p_data p) 20 = Inr (enc_ip (summed h1 opts))"
    and "rd (snd (pkt_clone p1)) (p_data p + (20 + length opts)) (length payload) = Inr payload"
proof -
  let ?bs = "enc_ip h @ opts @ payload" and ?b = "patch (p_data p) (enc_ip (summed h1 opts)) (p_buf p)"
  have wf: "wf_pkt p" and pb: "pkt_bytes p = ?bs" and ptr: "p_nh p = Some (p_data p)" "p_h p = Some (p_data p + (20 + length opts))"
    using p hl(3) by (simp_all add: holds_dgram_def)
  have lp: "p_len p = 20 + length opts + length payload" using length_pkt_bytes [OF wf] pb by (simp add: length_enc_ip)
  have buf: "p_data p + (20 + length opts + length payload) \<le> length (p_buf p)" using wf lp by (simp add: wf_pkt_def)
  have tail: "chunk (p_data p + 20 + i) n ?b = chunk i n (opts @ payload)" if "i + n \<le> length opts + length payload" for i n
  proof -
    have "chunk (p_data p + 20 + i) n ?b = chunk (p_data p + (20 + i)) n (p_buf p)"
      using buf by (subst chunk_patch_after) (simp_all add: length_enc_ip add.assoc)
    also have "\<dots> = chunk (20 + i) n ?bs"
      using rd_data [OF wf, of "20 + i" n] that lp pb buf by (simp add: rd_def split: if_splits)
    also have "\<dots> = chunk i n (opts @ payload)" by (simp add: chunk_append_right length_enc_ip)
    finally show ?thesis .
  qed
  have head: "chunk (p_data p) 20 ?b = enc_ip (summed h1 opts)"
    using chunk_patch_same [of "p_data p" "enc_ip (summed h1 opts)" "p_buf p"] buf by (simp add: length_enc_ip)
  have lb: "length ?b = length (p_buf p)" using buf by (simp add: length_enc_ip)
  have "chunk (p_data p) (20 + (length opts + F)) ?b = enc_ip (summed h1 opts) @ opts @ take F payload"
    unfolding chunk_split [of _ 20] head using tail [of 0 "length opts + F"] F by (simp add: chunk_def)
  moreover have "dgram_hlen (enc_ip (summed h1 opts) @ opts @ take F payload) = 20 + length opts"
    using dgram_built(1) [OF hl(1,2), of "take F payload"] hl(1) by (simp add: dgram_hlen_def)
  ultimately show "holds_dgram ((fst (pkt_clone p1))\<lparr>p_len := 20 + length opts + F\<rparr>) (enc_ip (summed h1 opts) @ opts @ take F payload)"
    using ptr buf lb F by (simp add: holds_dgram_def wf_pkt_def pkt_bytes_def pkt_clone_def p1_def add.assoc)
  show "rd (snd (pkt_clone p1)) (p_data p) 20 = Inr (enc_ip (summed h1 opts))"
    using head buf lb by (simp add: rd_def pkt_clone_def p1_def)
  show "rd (snd (pkt_clone p1)) (p_data p + (20 + length opts)) (length payload) = Inr payload"
    using tail [of "length opts" "length payload"] buf lb
    by (simp add: rd_def pkt_clone_def p1_def add.assoc) (simp add: chunk_def)
qed

text \<open>The loop on a packet whose header has been rewritten for the first fragment.\<close>

lemma FG_further:
  assumes p: "holds_dgram p (enc_ip h @ opts @ payload)" and hl: "4 * unat (ip_hl h1) = 20 + length opts"
    and opts: "4 dvd length opts" "length opts \<le> 40" "dgram_hlen (enc_ip h @ opts @ payload) = 20 + length opts"
    and p1: "p1 = p\<lparr>p_buf := patch (p_data p) (enc_ip (summed h1 opts)) (p_buf p)\<rparr>"
    and off1: "bit (ntohs (ip_off (summed h1 opts))) 13" "base = 8 * unat (take_bit 13 (ntohs (ip_off (summed h1 opts))))"
    and mem: "\<And>k n. mem k n \<noteq> None" and v: "ip_v h1 = 4"
    and fits: "base + length payload \<le> 65536" "20 + length opts + length payload < 65536"
    and mtu: "unat mtu < 2147483648" "28 + length opts \<le> unat mtu" and F: "F < length payload" "8 dvd F"
  obtains qs where "FG_rest mem mtu hroom (snd (pkt_clone p1)) had_mf (length payload) (optcopy opts) F = Some (Inr (map (Push 0) qs))"
    "\<forall>q \<in> set qs. fragment_ok (unat mtu) (summed h1 opts) q"
    "reassemble (base + F) (map pkt_bytes qs) = Some (drop F payload, had_mf)"
proof -
  note c = optcopy_header [OF opts(1)]
  have ptr: "p_nh (snd (pkt_clone p1)) = Some (p_data p)" "p_h (snd (pkt_clone p1)) = Some (p_data p + (20 + length opts))"
    using p opts(3) by (simp_all add: holds_dgram_def pkt_clone_def p1)
  note rds = holds_dgram_first(2,3) [OF p hl opts(2,3) less_imp_le [OF F(1)], folded p1]
  have "\<exists>qs. FG_rest mem mtu hroom (snd (pkt_clone p1)) had_mf (length payload) (optcopy opts) F = Some (Inr (map (Push 0) qs)) \<and>
      (\<forall>q \<in> set qs. fragment_ok (unat mtu) (summed h1 opts) q) \<and>
      reassemble (base + F) (map pkt_bytes qs) = Some (drop F payload, had_mf)"
    by (rule FG_rest_fragments [OF ptr rds c(2) _ _ _ off1]) (use c(1) opts mem v fits mtu F in auto)
  then show thesis using that by blast
qed

lemma FG_fragments:
  assumes p: "holds_dgram p bs" "\<not> shared p" and bs: "dgram_valid bs" "dgram_off bs + length (dgram_payload bs) \<le> 65536"
    and mtu: "unat (fg_mtu st) < length bs" "dgram_hlen bs + 8 \<le> unat (fg_mtu st)"
    and df: "ip_off (dgram_hdr bs) AND htons IP_DF = 0 \<or> \<not> fg_honor_df st"
    and mem: "\<forall>k n. mem k n \<noteq> None"
  shows "\<exists>qs p' id. FG_push mem random p st =
      Some (Inr (st\<lparr>fg_fragments := fg_fragments st + of_nat (length qs)\<rparr>, map (Push 0) qs @ [Kill p'])) \<and>
    (\<forall>q \<in> set qs. fragment_ok (unat (fg_mtu st)) ((dgram_hdr bs)\<lparr>ip_id := id\<rparr>) q) \<and>
    (ip_off (dgram_hdr bs) AND htons IP_DF = 0 \<longrightarrow> id = ip_id (dgram_hdr bs)) \<and>
    reassemble (dgram_off bs) (map pkt_bytes qs) = Some (dgram_payload bs, dgram_mf bs)"
proof -
  define h where "h = dgram_hdr bs"
  define payload where "payload = dgram_payload bs"
  obtain opts where o: "bs = enc_ip h @ opts @ payload" "dgram_hlen bs = 20 + length opts" "4 dvd length opts" "length opts \<le> 40"
    using dgram_split [OF bs(1)] by (metis h_def payload_def)
  define F where "F = (unat (fg_mtu st) - (20 + length opts)) div 8 * 8"
  define h1 where "h1 = FG_first_header random (20 + length opts) F h"
  define p1 where "p1 = p\<lparr>p_buf := patch (p_data p) (enc_ip (summed h1 opts)) (p_buf p)\<rparr>"
  define q0 where "q0 = (fst (pkt_clone p1))\<lparr>p_len := 20 + length opts + F\<rparr>"
  have len: "length bs = 20 + length opts + length payload" by (simp add: o(1) length_enc_ip)
  have il: "unat (ntohs (ip_len h)) = length bs" and v: "ip_v h = 4" using bs(1) by (simp_all add: dgram_valid_def h_def)
  have small: "length bs < 65536" using il unat_lt_65536 [of "ntohs (ip_len h)"] by simp
  have F: "8 \<le> F" "8 dvd F" "20 + length opts + F \<le> unat (fg_mtu st)" "F < length payload"
    using mtu len o(2) div_times_less_eq_dividend [of "unat (fg_mtu st) - (20 + length opts)" 8] by (auto simp: F_def)
  have hl: "4 * unat (ip_hl h1) = 20 + length opts"
    using o(2) by (simp add: h1_def FG_first_header_fields dgram_hlen_def h_def)
  note first = holds_dgram_first [OF p(1) [unfolded o(1)] hl o(4) o(2) [unfolded o(1)] less_imp_le [OF F(4)], folded p1_def, folded q0_def]
  note b = dgram_built [OF hl o(4), of "take F payload"]
  have off1: "8 * unat (take_bit 13 (ntohs (ip_off (summed h1 opts)))) = dgram_off bs" "bit (ntohs (ip_off (summed h1 opts))) 13"
    using FG_first_header_off [of random "20 + length opts" F h] by (simp_all add: h1_def dgram_off_def h_def)
  obtain qs where qs: "FG_rest mem (fg_mtu st) (fg_headroom st) (snd (pkt_clone p1)) (dgram_mf bs) (length payload) (optcopy opts) F
      = Some (Inr (map (Push 0) qs))" "\<forall>q \<in> set qs. fragment_ok (unat (fg_mtu st)) (summed h1 opts) q"
    "reassemble (dgram_off bs + F) (map pkt_bytes qs) = Some (drop F payload, dgram_mf bs)"
    by (rule FG_further [where mem = mem and mtu = "fg_mtu st" and hroom = "fg_headroom st" and had_mf = "dgram_mf bs" and F = F, OF p(1) [unfolded o(1)] hl o(3,4) o(2) [unfolded o(1)] p1_def off1(2) off1(1) [symmetric]])
       (use mem v bs(2) small len mtu F o(2) in \<open>auto simp: h1_def FG_first_header_fields payload_def\<close>)
  have ok0: "fragment_ok (unat (fg_mtu st)) (summed h1 opts) q0"
    using first(1) b(1) b(3) v F small len
    by (auto simp: fragment_ok_def same_stream_def holds_dgram_def length_enc_ip h1_def FG_first_header_fields
          unat_of_nat take_bit_nat_eq_self simp del: of_nat_add)
  have qb: "pkt_bytes q0 = enc_ip (summed h1 opts) @ opts @ take F payload" using first(1) by (simp add: holds_dgram_def)
  have "dgram_off (pkt_bytes q0) = dgram_off bs" "dgram_mf (pkt_bytes q0)" "dgram_payload (pkt_bytes q0) = take F payload"
    using off1 b(1,2) by (simp_all add: qb dgram_off_def dgram_mf_def)
  moreover have "qs \<noteq> []" using qs(3) by auto
  ultimately have re: "reassemble (dgram_off bs) (map pkt_bytes (q0 # qs)) = Some (payload, dgram_mf bs)"
    using qs(3) F(4) by simp
  have stream: "fragment_ok m (h\<lparr>ip_id := ip_id h1\<rparr>) q" if "fragment_ok m (summed h1 opts) q" for m q
    using that by (simp add: fragment_ok_def same_stream_def h1_def FG_first_header_fields)
  have "FG_push mem random p st = Some (Inr (st\<lparr>fg_fragments := fg_fragments st + of_nat (length (q0 # qs))\<rparr>,
      map (Push 0) (q0 # qs) @ [Kill (snd (pkt_clone p1))]))"
    using FG_fragment_first [OF p o(1) bs(1) h_def [symmetric] o(2), where st = st and random = random and mem = mem,
        folded F_def, folded h1_def, folded p1_def, folded q0_def] mtu small len o(2) df qs(1)
    by (simp add: h_def [symmetric] add.assoc)
  then show ?thesis
    using qs(2) ok0 stream re FG_first_header_fields(9) [of h random "20 + length opts" F]
    by (intro exI [of _ "q0 # qs"] exI [of _ "snd (pkt_clone p1)"] exI [of _ "ip_id h1"])
       (simp add: h_def [symmetric] payload_def [symmetric] h1_def)
qed

text \<open>
  C24: A valid datagram longer than the MTU of the link, which may be fragmented, leaves the fragmenter as
  fragments that are themselves valid datagrams, fit the MTU, carry addresses, protocol,
  type of service, TTL and one identification (that of the datagram unless its DF bit is overruled), and that
  put together give its payload, with the last one announcing more only if the datagram did. The loop
  ends, no access is out of bounds, and the packet itself is freed.
\<close>

theorem FG_fragments_reassemble:
  assumes p: "holds_dgram p bs" "\<not> shared p" and bs: "dgram_valid bs" "dgram_off bs + length (dgram_payload bs) \<le> 65536"
    and mtu: "unat (fg_mtu st) < length bs" "dgram_hlen bs + 8 \<le> unat (fg_mtu st)"
    and df: "ip_off (dgram_hdr bs) AND htons IP_DF = 0 \<or> \<not> fg_honor_df st"
    and mem: "\<forall>k n. mem k n \<noteq> None"
  shows "\<exists>qs p' id. FG_push mem random p st =
      Some (Inr (st\<lparr>fg_fragments := fg_fragments st + of_nat (length qs)\<rparr>, map (Push 0) qs @ [Kill p'])) \<and>
    (\<forall>q \<in> set qs. fragment_ok (unat (fg_mtu st)) ((dgram_hdr bs)\<lparr>ip_id := id\<rparr>) q) \<and>
    (ip_off (dgram_hdr bs) AND htons IP_DF = 0 \<longrightarrow> id = ip_id (dgram_hdr bs)) \<and>
    reassemble (dgram_off bs) (map pkt_bytes qs) = Some (dgram_payload bs, dgram_mf bs)"
  by (rule FG_fragments [OF assms])
text \<open>The other ways through the element: short packets pass untouched, and what must or can not be cut is refused.\<close>

lemma FG_passes_short:
  assumes "holds_dgram p bs" and "unat (fg_mtu st) < 2147483648" and "length bs \<le> unat (fg_mtu st)"
  shows "FG_push mem random p st = Some (Inr (st, [Push 0 p]))"
proof -
  have "p_len p = length bs" using assms(1) length_pkt_bytes [of p] by (auto simp: holds_dgram_def)
  moreover define m where "m = unat (fg_mtu st)"
  then have "sint (fg_mtu st) = int m" "length bs \<le> m" using sint_of_unat [of "fg_mtu st" m] assms(2,3) by simp_all
  ultimately show ?thesis using assms(1) by (simp add: FG_push_def network_length_def holds_dgram_def)
qed

lemma FG_refuses_df:
  assumes p: "holds_dgram p bs" and bs: "dgram_valid bs" and mtu: "unat (fg_mtu st) < length bs" "unat (fg_mtu st) < 2147483648"
    and df: "ip_off (dgram_hdr bs) AND htons IP_DF \<noteq> 0" "fg_honor_df st"
  shows "FG_push mem random p st =
    Some (Inr (st\<lparr>fg_drops := fg_drops st + 1\<rparr>, [checked_output_push (fg_noutputs st) 1 p]))"
proof -
  have wf: "wf_pkt p" and pb: "pkt_bytes p = bs" and nh: "p_nh p = Some (p_data p)" using p by (simp_all add: holds_dgram_def)
  have lp: "p_len p = length bs" using length_pkt_bytes [OF wf] pb by simp
  define m where "m = unat (fg_mtu st)"
  have "sint (fg_mtu st) = int m" "m < length bs" using sint_of_unat [of "fg_mtu st" m] mtu by (simp_all add: m_def)
  then have push: "FG_push mem random p st = FG_fragment mem random p st"
    using lp nh by (simp add: FG_push_def network_length_def)
  have "rd p (p_data p) 20 = Inr (take 20 bs)"
    using rd_data [OF wf, of 0 20] bs lp pb by (simp add: dgram_valid_def chunk_def)
  with df nh show ?thesis
    unfolding push by (simp add: FG_fragment_def sizeof_ip_def dgram_hdr_def Let_def)
qed

text \<open>An MTU of 28 cuts 20 bytes of payload into three fragments.\<close>

theorem FG_fragments_reassemble_witness:
  "\<exists>qs p' id. FG_push (\<lambda>_ _. Some (\<lambda>_. 0)) 5 sample_long_packet ((new_IPFragmenter 2)\<lparr>fg_mtu := 28\<rparr>) =
      Some (Inr ((new_IPFragmenter 2)\<lparr>fg_mtu := 28, fg_fragments := of_nat (length qs)\<rparr>, map (Push 0) qs @ [Kill p'])) \<and>
    (\<forall>q \<in> set qs. fragment_ok 28 ((dgram_hdr sample_long)\<lparr>ip_id := id\<rparr>) q) \<and> id = ip_id (dgram_hdr sample_long) \<and>
    reassemble 0 (map pkt_bytes qs) = Some (replicate 20 7, False)"
proof -
  let ?st = "(new_IPFragmenter 2)\<lparr>fg_mtu := 28\<rparr>"
  have zero: "ip_off (dgram_hdr sample_long) = 0" by (simp add: sample_long_facts(2) base_ip_def)
  have o: "dgram_off sample_long = 0" "\<not> dgram_mf sample_long" by (simp_all add: dgram_off_def dgram_mf_def zero htons_def le16_def)
  show ?thesis
    using FG_fragments_reassemble [OF sample_long_held sample_long_facts(1), of ?st "\<lambda>_ _. Some (\<lambda>_. 0)" 5]
    by (simp add: o zero sample_long_facts(3-5) new_IPFragmenter_def)
qed

end
