(* ===== verification/ICMP_Error.thy ===== *)
theory ICMP_Error
  imports IP_Datagram
begin

text \<open>
  \<^verbatim>\<open>click/elements/icmp/icmperror.{hh,cc}\<close>: the element behind every error output of the router
  configurations, which answers a datagram that could not be forwarded. Shown: it stays silent in the
  cases in which a router has to, and what it sends is a valid datagram with a valid ICMP
  message that quotes the start of the datagram in question.
\<close>

unbundle bit_operations_syntax

section \<open>Configuration\<close>

definition ICMP_UNREACH :: int where "ICMP_UNREACH = 3"

definition ICMP_UNREACH_NEEDFRAG :: int where "ICMP_UNREACH_NEEDFRAG = 4"

definition ICMP_SOURCEQUENCH :: int where "ICMP_SOURCEQUENCH = 4"

definition ICMP_REDIRECT :: int where "ICMP_REDIRECT = 5"

definition ICMP_TIMXCEED :: int where "ICMP_TIMXCEED = 11"

definition ICMP_PARAMPROB :: int where "ICMP_PARAMPROB = 12"

definition ICMP_PARAMPROB_ERRATPTR :: int where "ICMP_PARAMPROB_ERRATPTR = 0"

definition IP_OFFMASK :: u16 where "IP_OFFMASK = 0x1FFF"

record ICMPError =
  ie_src_ip :: ipaddr
  ie_type :: int
  ie_code :: int
  ie_bad_addrs :: "ipaddr list"
  ie_mtu :: u32
  ie_pmtu :: u32
  ie_use_fix_anno :: bool

definition is_error_type :: "int \<Rightarrow> bool" where
  "is_error_type type \<longleftrightarrow> type = ICMP_UNREACH \<or> type = ICMP_SOURCEQUENCH \<or> type = ICMP_REDIRECT \<or>
     type = ICMP_TIMXCEED \<or> type = ICMP_PARAMPROB"

text \<open>\<open>query_int\<close> gives the code that the word of the argument \<open>CODE\<close> (or \<open>"0"\<close>) names for an ICMP type.\<close>

definition IE_configure ::
  "ipaddr arg \<Rightarrow> int arg \<Rightarrow> (int \<Rightarrow> int option) \<Rightarrow> ipaddr list arg \<Rightarrow> u32 arg \<Rightarrow> u32 arg \<Rightarrow> bool arg \<Rightarrow> bool
     \<Rightarrow> ICMPError \<Rightarrow> int \<times> ICMPError" where
  "IE_configure SRC TYPE_arg query_int BADADDRS MTU PMTU SET_FIX_ANNO unread st =
     (case (Args_read_m SRC, Args_read_m TYPE_arg, Args_read BADADDRS [], Args_read MTU 576, Args_read PMTU 0,
            Args_read SET_FIX_ANNO True) of
        (Some src_ip, Some type, Some bad_addrs, Some mtu, Some pmtu, Some use_fix_anno) \<Rightarrow>
          if unread then (-1, st)
          else if type < 0 \<or> type > 255 then (- EINVAL, st)
          else if \<not> is_error_type type then (- EINVAL, st)
          else
          (case query_int type of
             None \<Rightarrow> (- EINVAL, st)
           | Some code \<Rightarrow>
               if code < 0 \<or> code > 255 then (- EINVAL, st)
               else (0, \<lparr>ie_src_ip = src_ip, ie_type = type, ie_code = code, ie_bad_addrs = bad_addrs,
                         ie_mtu = mtu, ie_pmtu = pmtu, ie_use_fix_anno = use_fix_anno\<rparr>))
      | _ \<Rightarrow> (-1, st))"

section \<open>Whom to answer\<close>

definition IE_unicast :: "ipaddr \<Rightarrow> ICMPError \<Rightarrow> bool" where
  "IE_unicast a st \<longleftrightarrow>
     (let ha = ntohl a in ha \<noteq> 0xffffffff \<and> ha AND 0xf0000000 \<noteq> 0xe0000000 \<and> a \<notin> set (ie_bad_addrs st))"

definition IE_valid_source :: "ipaddr \<Rightarrow> ICMPError \<Rightarrow> bool" where
  "IE_valid_source a st \<longleftrightarrow>
     (let net = drop_bit 24 (ntohl a) AND 0xff in
      IE_unicast a st \<and> net \<noteq> 0 \<and> net \<noteq> 127 \<and> net AND 0xf0 \<noteq> 0xf0)"

text \<open>The offset of the first usable source route option in the header at \<open>nh\<close>.\<close>

function IE_source_route :: "packet \<Rightarrow> nat \<Rightarrow> nat \<Rightarrow> nat \<Rightarrow> nat option res" where
  "IE_source_route p nh hlen oi =
     (if \<not> oi < hlen then Inr None
      else
      res_bind (rd8 p (nh + oi)) (\<lambda>type.
      if type = IPOPT_NOP then IE_source_route p nh hlen (oi + 1)
      else if type = IPOPT_EOL then Inr None
      else
      res_bind (rd8 p (nh + oi + 1)) (\<lambda>x.
      let xlen = unat x in
      if xlen < 2 \<or> oi + xlen > hlen then Inr None
      else if type = IPOPT_LSRR \<or> type = IPOPT_SSRR then
        res_bind (rd8 p (nh + oi + 2)) (\<lambda>ptr.
        if unat ptr \<ge> 4 \<and> unat ptr mod 4 = 0 \<and> unat ptr \<le> xlen + 1 then Inr (Some oi)
        else IE_source_route p nh hlen (oi + xlen))
      else IE_source_route p nh hlen (oi + xlen))))"
  by pat_completeness auto
termination
  by (relation "measure (\<lambda>(p, nh, hlen, oi). hlen - oi)") auto

declare IE_source_route.simps [simp del]

text \<open>The tests up to that for a source route.\<close>

definition IE_ignores :: "annos \<Rightarrow> packet \<Rightarrow> click_ip \<Rightarrow> ICMPError \<Rightarrow> bool res" where
  "IE_ignores an p ipp st =
     res_bind (if ip_p ipp = IP_PROTO_ICMP then
                 (if 4 * unat (ip_hl ipp) + 4 > p_len p then Inr True
                  else res_bind (deref (p_h p)) (\<lambda>h.
                       res_bind (rd8 p h) (\<lambda>icmp_type. Inr (is_error_type (uint icmp_type)))))
               else Inr False) (\<lambda>icmp_error.
     Inr (icmp_error \<or> \<not> IE_unicast (ip_dst ipp) st \<or> packet_type an \<in> {BROADCAST, MULTICAST} \<or>
          \<not> IE_valid_source (ip_src ipp) st \<or> ip_off ipp AND htons IP_OFFMASK \<noteq> 0))"

section \<open>The message\<close>

text \<open>The reversed source route behind the new header, from the option at \<open>sr\<close>; its length is that of the pointer.\<close>

definition IE_reversed_route :: "packet \<Rightarrow> nat \<Rightarrow> byte list res" where
  "IE_reversed_route p sr =
     res_bind (rd8 p sr) (\<lambda>type.
     res_bind (rd8 p (sr + 2)) (\<lambda>ptr.
     let olen = unat ptr - 1; n = (unat ptr - 4) div 4 in
     res_bind (rd p (sr + 3) (4 * n)) (\<lambda>route.
     Inr ([type, of_nat olen, 4] @ concat (map (\<lambda>k. chunk (4 * k) 4 route) (rev [0..<n])) @ [IPOPT_EOL]))))"

text \<open>The options of the answer: none when the problem it reports concerns the source route itself.\<close>

definition IE_options :: "annos \<Rightarrow> packet \<Rightarrow> nat \<Rightarrow> nat option \<Rightarrow> ICMPError \<Rightarrow> byte list res" where
  "IE_options an p nh source_route st =
     (case source_route of
        None \<Rightarrow> Inr []
      | Some sr \<Rightarrow>
          res_bind (rd8 p (nh + sr + 1)) (\<lambda>x.
          if ie_type st = ICMP_PARAMPROB \<and> ie_code st = ICMP_PARAMPROB_ERRATPTR \<and>
             sr \<le> unat (ICMP_PARAMPROB_ANNO an) \<and> unat (ICMP_PARAMPROB_ANNO an) < sr + unat x
          then Inr [] else IE_reversed_route p (nh + sr)))"

text \<open>The last four bytes of the ICMP header.\<close>

definition IE_particulars :: "annos \<Rightarrow> packet \<Rightarrow> ICMPError \<Rightarrow> byte list" where
  "IE_particulars an p st =
     (if ie_type st = ICMP_PARAMPROB \<and> ie_code st = ICMP_PARAMPROB_ERRATPTR then [ICMP_PARAMPROB_ANNO an, 0, 0, 0]
      else if ie_type st = ICMP_REDIRECT then u32_bytes (p_dst_ip_anno p)
      else if ie_type st = ICMP_UNREACH \<and> ie_code st = ICMP_UNREACH_NEEDFRAG
      then [0, 0] @ u16_bytes (htons (ucast (ie_pmtu st)))
      else [0, 0, 0, 0])"

definition IE_message ::
  "annos \<Rightarrow> u32 \<Rightarrow> packet \<Rightarrow> nat \<Rightarrow> click_ip \<Rightarrow> byte list \<Rightarrow> packet \<Rightarrow> ICMPError \<Rightarrow> packet res" where
  "IE_message an ident p nh ipp opts q st =
     (let hl = sizeof_ip + length opts; nip = p_data q; icp = nip + hl in
      res_bind (wr q (nip + sizeof_ip) opts) (\<lambda>q.
      res_bind (set_ip_header nip hl q) (\<lambda>q.
      let xlen = of_nat (p_len q) - of_nat (hl + 8) :: u32;
          (q, xlen) = (if sint xlen > network_length p nh
                       then (pkt_take (unat (xlen - of_int (network_length p nh))) q,
                             of_int (network_length p nh))
                       else (q, xlen)) in
      res_bind (rd p nh (unat xlen)) (\<lambda>quoted.
      let message = [of_int (ie_type st), of_int (ie_code st)] @ u16_bytes 0 @ IE_particulars an p st @ quoted;
          message = take 2 message @ u16_bytes (click_in_cksum message) @ drop 4 message in
      res_bind (wr q icp message) (\<lambda>q.
      let ip = \<lparr>ip_v = 4, ip_hl = of_nat (hl div 4), ip_tos = 0, ip_len = htons (of_int (network_length q nip)),
                ip_id = htons (ucast ident), ip_off = 0, ip_ttl = 200, ip_p = IP_PROTO_ICMP, ip_sum = 0,
                ip_src = ie_src_ip st, ip_dst = ip_src ipp\<rparr> in
      res_bind (store_ip_sum nip hl ip q) (\<lambda>q. Inr (set_dst_ip_anno (ip_src ipp) q)))))))"

text \<open>
  \<open>simple_action\<close>, with the counter \<open>ident\<close> (\<open>id\<close> in the code), which all ICMPError elements share. The packet is always
  freed; the answer comes with fresh annotations, that for \<^verbatim>\<open>FixIPSrc\<close> set.
\<close>

definition IE_simple_action ::
  "allocator \<Rightarrow> annos \<Rightarrow> u32 \<Rightarrow> packet \<Rightarrow> ICMPError \<Rightarrow> (u32 \<times> effect list \<times> (packet \<times> annos) option) res" where
  "IE_simple_action mem an ident p st =
     (case p_nh p of
        None \<Rightarrow> Inr (ident, [Kill p], None)
      | Some nh \<Rightarrow>
          res_bind (rd p nh sizeof_ip) (\<lambda>bs.
          let ipp = dec_ip bs in
          res_bind (IE_ignores an p ipp st) (\<lambda>ignored.
          if ignored then Inr (ident, [Kill p], None)
          else
          res_bind (IE_source_route p nh (4 * unat (ip_hl ipp)) sizeof_ip) (\<lambda>source_route.
          if source_route \<noteq> None \<and> ie_type st = ICMP_REDIRECT then Inr (ident, [Kill p], None)
          else
          res_bind (IE_options an p nh source_route st) (\<lambda>opts.
          case Packet_make mem (unat default_headroom) None (unat (ie_mtu st)) 0 of
            None \<Rightarrow> Inr (ident, [Kill p], None)
          | Some q \<Rightarrow>
              res_bind (IE_message an ident p nh ipp opts q st) (\<lambda>q.
              Inr (ident + 1, [Kill p], Some (q, if ie_use_fix_anno st then set_anno_u8 FIX_IP_SRC_ANNO_OFFSET 1 new_annos else new_annos))))))))"
section \<open>Reading the datagram in question\<close>

text \<open>A usable source route option at \<open>s\<close>: it lies within the header and its pointer within the option.\<close>

definition route_option :: "byte list \<Rightarrow> nat \<Rightarrow> nat \<Rightarrow> bool" where
  "route_option bs hlen s \<longleftrightarrow> 20 \<le> s \<and> s + unat (bs ! (s + 1)) \<le> hlen \<and> 4 \<le> unat (bs ! (s + 2)) \<and>
     4 dvd unat (bs ! (s + 2)) \<and> unat (bs ! (s + 2)) \<le> unat (bs ! (s + 1)) + 1"

text \<open>
  The options of a datagram hold a usable source route: walking them up to an end-of-list or a
  malformed option, one is a loose or strict source route whose pointer is in its place.
\<close>

function usable_route :: "byte list \<Rightarrow> bool" where
  "usable_route os =
     (if os = [] \<or> os ! 0 = IPOPT_EOL then False
      else if os ! 0 = IPOPT_NOP then usable_route (drop 1 os)
      else if length os < 2 \<or> unat (os ! 1) < 2 \<or> length os < unat (os ! 1) then False
      else (os ! 0 = IPOPT_LSRR \<or> os ! 0 = IPOPT_SSRR) \<and> 3 \<le> unat (os ! 1) \<and>
             4 \<le> unat (os ! 2) \<and> 4 dvd unat (os ! 2) \<and> unat (os ! 2) \<le> unat (os ! 1) + 1
           \<or> usable_route (drop (unat (os ! 1)) os))"
  by pat_completeness auto
termination
  by (relation "measure length") auto

declare usable_route.simps [simp del]

definition source_routed :: "byte list \<Rightarrow> bool" where
  "source_routed bs \<longleftrightarrow> usable_route (drop 20 (take (dgram_hlen bs) bs))"

definition finds_route :: "byte list \<Rightarrow> nat \<Rightarrow> nat \<Rightarrow> nat option \<Rightarrow> bool" where
  "finds_route bs hlen oi sr \<longleftrightarrow> (sr \<noteq> None \<longleftrightarrow> usable_route (drop oi (take hlen bs))) \<and>
     (\<forall>s. sr = Some s \<longrightarrow> route_option bs hlen s)"

lemma IE_source_route_safe:
  assumes p: "holds_dgram p bs" and hlen: "hlen < length bs" and oi: "20 \<le> oi"
  shows "\<exists>sr. IE_source_route p (p_data p) hlen oi = Inr sr \<and> finds_route bs hlen oi sr"
  using oi
proof (induction "hlen - oi" arbitrary: oi rule: less_induct)
  case less
  let ?os = "drop oi (take hlen bs)"
  show ?case
  proof (cases "oi < hlen")
    case False
    then show ?thesis
      by (subst IE_source_route.simps) (simp add: finds_route_def usable_route.simps [of "[]"])
  next
    case True
    define ty xlen where "ty = bs ! oi" and "xlen = unat (bs ! (oi + 1))"
    have r: "rd8 p (p_data p + oi) = Inr ty" "rd8 p (p_data p + oi + 1) = Inr (bs ! (oi + 1))"
      using holds_dgram_rd8 [OF p, of oi] holds_dgram_rd8 [OF p, of "oi + 1"] True hlen by (simp_all add: ty_def)
    have os: "?os \<noteq> []" "?os ! 0 = ty" "length ?os = hlen - oi" "\<And>k. oi + k < hlen \<Longrightarrow> ?os ! k = bs ! (oi + k)"
      using True hlen by (simp_all add: ty_def)
    have rec: "\<exists>sr. IE_source_route p (p_data p) hlen (oi + k) = Inr sr \<and> finds_route bs hlen (oi + k) sr"
      if "0 < k" for k
      using less.hyps [of "oi + k"] less.prems True that by simp
    have later: "drop (oi + k) (take hlen bs) = drop k ?os" for k by (simp add: add.commute)
    consider "ty = IPOPT_NOP" | "ty = IPOPT_EOL" | "ty \<noteq> IPOPT_NOP" "ty \<noteq> IPOPT_EOL" "xlen < 2 \<or> oi + xlen > hlen"
      | "ty \<noteq> IPOPT_NOP" "ty \<noteq> IPOPT_EOL" "2 \<le> xlen" "oi + xlen \<le> hlen" by linarith
    then show ?thesis
    proof cases
      case 1
      then have "usable_route ?os = usable_route (drop 1 ?os)"
        using os(1,2) by (subst usable_route.simps) (simp add: IPOPT_NOP_def IPOPT_EOL_def)
      then show ?thesis using rec [of 1] True r(1) 1 later [of 1]
        by (subst IE_source_route.simps) (simp add: finds_route_def)
    next
      case 2
      then have "\<not> usable_route ?os" using os(2) by (subst usable_route.simps) simp
      then show ?thesis using True r(1) 2
        by (subst IE_source_route.simps) (simp add: IPOPT_NOP_def IPOPT_EOL_def finds_route_def)
    next
      case 3
      have "length ?os < 2 \<or> ?os ! 1 = bs ! (oi + 1)" using os(3) os(4) [of 1] by linarith
      then have "length ?os < 2 \<or> unat (?os ! 1) < 2 \<or> length ?os < unat (?os ! 1)"
        using 3(3) os(3) unfolding xlen_def by (elim disjE) (simp_all, linarith)
      then have "\<not> usable_route ?os" using os(1,2) 3(1,2) by (subst usable_route.simps) (simp only: if_False if_True simp_thms)
      then show ?thesis using True r 3 by (subst IE_source_route.simps) (auto simp: xlen_def finds_route_def)
    next
      case 4
      have r2: "rd8 p (p_data p + oi + 2) = Inr (bs ! (oi + 2))"
        using holds_dgram_rd8 [OF p, of "oi + 2"] 4 hlen by (simp add: add.assoc)
      let ?good = "(ty = IPOPT_LSRR \<or> ty = IPOPT_SSRR) \<and> 4 \<le> unat (bs ! (oi + 2)) \<and> 4 dvd unat (bs ! (oi + 2)) \<and>
        unat (bs ! (oi + 2)) \<le> xlen + 1"
      have x1: "unat (?os ! 1) = xlen" using 4 os(4) [of 1] by (simp add: xlen_def)
      have "\<not> (length ?os < 2 \<or> xlen < 2 \<or> length ?os < xlen)" using 4 os(3) by linarith
      moreover have "?good \<longleftrightarrow> (ty = IPOPT_LSRR \<or> ty = IPOPT_SSRR) \<and> 3 \<le> xlen \<and>
        4 \<le> unat (?os ! 2) \<and> 4 dvd unat (?os ! 2) \<and> unat (?os ! 2) \<le> xlen + 1"
      proof (cases "3 \<le> xlen")
        case True
        then show ?thesis using 4(4) os(4) [of 2] by simp
      qed auto
      ultimately have u: "usable_route ?os = (?good \<or> usable_route (drop xlen ?os))"
        using 4(1,2) os(1) by (subst usable_route.simps) (simp only: os(2) x1 if_False simp_thms)
      have s: "IE_source_route p (p_data p) hlen oi =
          (if ?good then Inr (Some oi) else IE_source_route p (p_data p) hlen (oi + xlen))"
        using 4 True r r2 by (subst IE_source_route.simps) (auto simp: xlen_def Let_def mod_eq_0_iff_dvd)
      have "route_option bs hlen oi" if ?good
        using that 4(4) less.prems by (simp add: route_option_def xlen_def)
      then show ?thesis using rec [of xlen] 4(3) unfolding s u finds_route_def later by auto
    qed
  qed
qed

lemma length_concat_chunks:
  "length route = 4 * n \<Longrightarrow> length (concat (map (\<lambda>k. chunk (4 * k) 4 route) (rev [0..<n]))) = 4 * n"
proof -
  assume l: "length route = 4 * n"
  have "sum_list (map (\<lambda>k. length (chunk (4 * k) 4 route)) [0..<m]) = 4 * m" if "m \<le> n" for m
    using that by (induction m) (simp_all add: l)
  then show ?thesis by (simp add: length_concat comp_def rev_map [symmetric] sum_list_rev del: length_chunk)
qed

lemma IE_reversed_route_length:
  assumes p: "holds_dgram p bs" and hlen: "hlen < length bs" "hlen \<le> 60" and s: "route_option bs hlen s"
  shows "\<exists>opts. IE_reversed_route p (p_data p + s) = Inr opts \<and> 4 dvd length opts \<and> length opts \<le> 40"
proof -
  define ptr where "ptr = unat (bs ! (s + 2))"
  obtain k where k: "ptr = 4 * k" using s by (auto simp: route_option_def ptr_def)
  have b: "20 \<le> s" "1 \<le> k" "ptr \<le> unat (bs ! (s + 1)) + 1" "s + unat (bs ! (s + 1)) \<le> hlen"
    using s k by (auto simp: route_option_def ptr_def)
  have n: "(4 * k - 4) div 4 = k - Suc 0" and ptr: "unat (bs ! Suc (Suc s)) = 4 * k"
    using k by (cases k; simp add: ptr_def)+
  have "rd p (p_data p + (s + 3)) (4 * (k - 1)) = Inr (chunk (s + 3) (4 * (k - 1)) bs)"
    by (rule holds_dgram_rd [OF p]) (use b k hlen in linarith)
  moreover have "rd8 p (p_data p + s) = Inr (bs ! s)" "rd8 p (p_data p + (s + 2)) = Inr (bs ! (s + 2))"
    using holds_dgram_rd8 [OF p, of s] holds_dgram_rd8 [OF p, of "s + 2"] b k hlen(1) by (auto simp del: add_2_eq_Suc')
  moreover have "length (chunk (s + 3) (4 * (k - 1)) bs) = 4 * (k - 1)" using b k hlen(1) by simp
  from length_concat_chunks [OF this]
  have "Suc (Suc (Suc (Suc (length (concat (map (\<lambda>i. chunk (4 * i) 4 (chunk (s + 3) (4 * (k - 1)) bs)) (rev [0..<k - 1]))))))) = 4 * k"
    using b(2) by (simp del: length_concat)
  moreover have "4 * k \<le> 41" using b k hlen(2) by linarith
  then have "4 * k \<le> 40" by presburger
  ultimately show ?thesis
    by (simp add: IE_reversed_route_def Let_def ptr n add.assoc)
qed

lemma IE_options_length:
  assumes p: "holds_dgram p bs" and hlen: "hlen < length bs" "hlen \<le> 60" and sr: "\<forall>s. sr = Some s \<longrightarrow> route_option bs hlen s"
  shows "\<exists>opts. IE_options an p (p_data p) sr st = Inr opts \<and> 4 dvd length opts \<and> length opts \<le> 40"
proof (cases sr)
  case (Some s)
  then have ro: "route_option bs hlen s" using sr by simp
  then have "rd8 p (p_data p + s + 1) = Inr (bs ! (s + 1))"
    using holds_dgram_rd8 [OF p, of "s + 1"] hlen(1) by (simp add: route_option_def)
  then show ?thesis
    using IE_reversed_route_length [OF p hlen ro] by (auto simp: IE_options_def Some)
qed (simp add: IE_options_def)
section \<open>The message that is sent\<close>

lemma length_IE_particulars [simp]: "length (IE_particulars an p st) = 4"
  by (simp add: IE_particulars_def)

definition icmp_message :: "byte \<Rightarrow> byte \<Rightarrow> byte list \<Rightarrow> byte list" where
  "icmp_message ty code rest = [ty, code] @ u16_bytes (click_in_cksum ([ty, code, 0, 0] @ rest)) @ rest"

lemma length_icmp_message [simp]: "length (icmp_message ty code rest) = 4 + length rest"
  by (simp add: icmp_message_def)

lemma icmp_message_verifies:
  assumes "length rest \<le> 65531"
  shows "click_in_cksum (icmp_message ty code rest) = 0"
proof -
  define c where "c = click_in_cksum ([ty, code, 0, 0] @ rest)"
  define S where "S = word_sum ([ty, code, 0, 0] @ rest)"
  have len: "length ([ty, code, 0, 0] @ rest) \<le> 65535" "length (icmp_message ty code rest) \<le> 65535"
    using assms by simp_all
  have "S < 4294967296" unfolding S_def by (rule word_sum_lt) (rule len)
  moreover have "unat c = 65535 - ones_fold S" unfolding S_def c_def by (rule unat_click_in_cksum) (rule len)
  moreover have "word_sum (icmp_message ty code rest) = S + unat c"
    unfolding icmp_message_def c_def [symmetric] S_def by (simp add: u16_bytes_def) (simp add: le16_def)
  ultimately have "0 < word_sum (icmp_message ty code rest) \<and> 65535 dvd word_sum (icmp_message ty code rest)"
    using ones_fold_complement [of S] by simp
  then show ?thesis by (simp only: click_in_cksum_zero_iff [OF len(2)])
qed

definition ie_header :: "u32 \<Rightarrow> ipaddr \<Rightarrow> nat \<Rightarrow> nat \<Rightarrow> ICMPError \<Rightarrow> click_ip" where
  "ie_header ident dst hl len st =
     \<lparr>ip_v = 4, ip_hl = of_nat (hl div 4), ip_tos = 0, ip_len = htons (of_nat len), ip_id = htons (ucast ident),
      ip_off = 0, ip_ttl = 200, ip_p = IP_PROTO_ICMP, ip_sum = 0, ip_src = ie_src_ip st, ip_dst = dst\<rparr>"

text \<open>The quotation ends where the datagram or the new packet does.\<close>

lemma IE_cut:
  fixes hl M n :: nat and q :: packet
  assumes "hl + 8 \<le> M" and "M < 65536" and "p_len q = M"
  defines "xl \<equiv> of_nat M - of_nat (hl + 8) :: u32" and "x \<equiv> min (M - (hl + 8)) n"
  shows "(if sint xl > int n then (pkt_take (unat (xl - of_int (int n))) q, of_int (int n)) else (q, xl)) =
    (q\<lparr>p_len := hl + 8 + x\<rparr>, of_nat x)"
proof -
  have xl: "xl = of_nat (M - (hl + 8))" using assms(1) by (simp add: xl_def of_nat_diff)
  then have s: "sint xl = int (M - (hl + 8))" using plen_word [of "M - (hl + 8)"] assms(2) by simp
  show ?thesis
  proof (cases "n < M - (hl + 8)")
    case True
    then have "xl - of_int (int n) = (of_nat (M - (hl + 8) - n) :: u32)" by (simp add: xl of_nat_diff)
    then have "unat (xl - of_int (int n)) = M - (hl + 8) - n"
      using plen_word(2) [of "M - (hl + 8) - n"] assms(2) by simp
    moreover have "M - (M - (hl + 8) - n) = hl + 8 + n" "sint xl > int n" using True assms(1) s by simp_all
    ultimately show ?thesis using True assms(3) by (simp add: pkt_take_def x_def)
  next
    case False
    then have "x = M - (hl + 8)" "hl + 8 + x = M" "\<not> sint xl > int n" using assms(1) s by (simp_all add: x_def)
    then show ?thesis using assms(3) by (simp add: xl)
  qed
qed

lemma IE_message_sent:
  fixes an :: annos and ident :: u32 and ipp :: click_ip
  assumes p: "holds_dgram p bs" "length bs < 65536"
    and q: "Packet_make mem (unat default_headroom) None (unat (ie_mtu st)) 0 = Some q"
    and opts: "4 dvd length opts" "length opts \<le> 40"
    and mtu: "28 + length opts \<le> unat (ie_mtu st)" "unat (ie_mtu st) < 65536"
  defines "x \<equiv> min (unat (ie_mtu st) - (28 + length opts)) (length bs)"
  defines "m \<equiv> icmp_message (of_int (ie_type st)) (of_int (ie_code st)) (IE_particulars an p st @ take x bs)"
  defines "rs \<equiv> enc_ip (summed (ie_header ident (ip_src ipp) (20 + length opts) (28 + length opts + x) st) opts) @ opts @ m"
  shows "\<exists>q'. IE_message an ident p (p_data p) ipp opts q st = Inr q' \<and> holds_dgram q' rs \<and> dgram_valid rs"
proof -
  define hr M hl where "hr = unat default_headroom" and "M = unat (ie_mtu st)" and "hl = 20 + length opts"
  have q: "p_data q = hr" "p_len q = M" "hr + M \<le> length (p_buf q)"
    using Packet_make_SomeD [OF q] by (simp_all add: hr_def M_def)
  have M: "hl + 8 \<le> M" "M < 65536" and x: "x = min (M - (hl + 8)) (length bs)"
    using mtu by (simp_all add: M_def hl_def x_def)
  have lm: "length m = 8 + x" by (simp add: m_def x_def)
  have room: "hr + 20 + length opts + length m \<le> length (p_buf q)" using q(3) M(1) by (simp add: lm x hl_def)
  have nl: "network_length p (p_data p) = int (length bs)"
    using p(1) length_pkt_bytes [of p] by (auto simp: holds_dgram_def network_length_def)
  have quoted: "rd p (p_data p) x = Inr (take x bs)"
    using holds_dgram_rd [OF p(1), of 0 x] by (simp add: x_def chunk_def)
  have msg: "take 2 msg0 @ u16_bytes (click_in_cksum msg0) @ drop 4 msg0 = m"
    if "msg0 = [of_int (ie_type st), of_int (ie_code st)] @ u16_bytes 0 @ IE_particulars an p st @ take x bs" for msg0
    using that by (simp add: m_def icmp_message_def u16_bytes_def)
  have ux: "unat (of_nat x :: u32) = x" using plen_word(2) [of x] mtu(2) by (simp add: x_def)
  let ?h = "ie_header ident (ip_src ipp) hl (hl + 8 + x) st"
  define b1 where "b1 = patch (hr + 20 + length opts) m (patch (hr + 20) opts (p_buf q))"
  define q1 where "q1 = q\<lparr>p_buf := patch (hr + 20) opts (p_buf q), p_nh := Some hr, p_h := Some (hr + hl)\<rparr>"
  define q2 where "q2 = q1\<lparr>p_len := hl + 8 + x\<rparr>"
  define q3 where "q3 = q2\<lparr>p_buf := b1\<rparr>"
  define q4 where "q4 = set_dst_ip_anno (ip_src ipp) (q3\<lparr>p_buf := patch hr (enc_ip (summed ?h opts)) b1\<rparr>)"
  have lb: "length b1 = length (p_buf q)" using room by (simp add: b1_def)
  note layout = chunk_three_patches [OF _ room, folded b1_def]
  have w1: "wr q (hr + sizeof_ip) opts = Inr (q\<lparr>p_buf := patch (hr + 20) opts (p_buf q)\<rparr>)"
    using room by (simp add: wr_def sizeof_ip_def)
  have w2: "set_ip_header hr hl (q\<lparr>p_buf := patch (hr + 20) opts (p_buf q)\<rparr>) = Inr q1"
    using room by (simp add: set_ip_header_def set_network_header_def q1_def hl_def)
  have w3: "wr q2 (hr + hl) m = Inr q3"
    using room by (simp add: wr_def q1_def q2_def q3_def b1_def hl_def add.assoc)
  have w4: "store_ip_sum hr hl ?h q3 = Inr (q3\<lparr>p_buf := patch hr (enc_ip (summed ?h opts)) b1\<rparr>)"
    using store_ip_sum_eq [of hr opts q3 ?h] layout(1) [of "replicate 20 0"] lb room by (simp add: q3_def hl_def)
  have hh: "?h = \<lparr>ip_v = 4, ip_hl = of_nat (hl div 4), ip_tos = 0, ip_len = htons (of_int (network_length q3 hr)),
      ip_id = htons (ucast ident), ip_off = 0, ip_ttl = 200, ip_p = IP_PROTO_ICMP, ip_sum = 0,
      ip_src = ie_src_ip st, ip_dst = ip_src ipp\<rparr>"
    by (simp add: ie_header_def network_length_def q1_def q2_def q3_def q(1))
  have "p_len q1 = M" by (simp add: q1_def q(2))
  note cut = IE_cut [OF M this, of "length bs", folded x, folded q2_def]
  have hlE: "sizeof_ip + length opts = hl" by (simp add: sizeof_ip_def hl_def)
  have "IE_message an ident p (p_data p) ipp opts q st = Inr q4"
    unfolding IE_message_def Let_def hlE q(1) w1 res_bind_Inr w2 nl \<open>p_len q1 = M\<close>
    by (simp only: cut prod.case ux quoted res_bind_Inr msg [OF refl] w3 hh [symmetric] w4 q4_def)
  moreover have rs: "rs = enc_ip (summed ?h opts) @ opts @ m" by (simp add: rs_def hl_def add.commute add.left_commute)
  have "4 * unat (ip_hl ?h) = 20 + length opts" using header_length [OF opts] by (simp add: ie_header_def hl_def)
  note b = dgram_built [OF this opts(2), of m, folded rs]
  have "dgram_valid rs"
    using b(3) M lm by (simp add: ie_header_def hl_def x unat_of_nat take_bit_nat_eq_self del: of_nat_add)
  moreover have "holds_dgram q4 rs"
    using lb q(1) b(1) header_length [OF opts] room lm layout(2) [of "enc_ip (summed ?h opts)"]
    by (simp add: holds_dgram_def wf_pkt_def pkt_bytes_def set_dst_ip_anno_def q4_def q3_def q2_def q1_def length_enc_ip
          dgram_hlen_def ie_header_def hl_def rs add.assoc)
  ultimately show ?thesis by blast
qed
section \<open>Properties\<close>

text \<open>When a router has to stay silent about a datagram: ICMP errors, broadcasts, bad sources, later fragments.\<close>

definition ie_ignored :: "annos \<Rightarrow> byte list \<Rightarrow> ICMPError \<Rightarrow> bool" where
  "ie_ignored an bs st \<longleftrightarrow>
     (let h = dgram_hdr bs in
      (ip_p h = IP_PROTO_ICMP \<and> (length bs < dgram_hlen bs + 4 \<or> is_error_type (uint (bs ! dgram_hlen bs)))) \<or>
      \<not> IE_unicast (ip_dst h) st \<or> packet_type an \<in> {BROADCAST, MULTICAST} \<or>
      \<not> IE_valid_source (ip_src h) st \<or> ip_off h AND htons IP_OFFMASK \<noteq> 0)"

text \<open>The answer to a datagram \<open>bs\<close>: addresses, a valid ICMP message of the configured type, and what it quotes.\<close>

definition ie_answer :: "byte list \<Rightarrow> ICMPError \<Rightarrow> packet \<Rightarrow> bool" where
  "ie_answer bs st q \<longleftrightarrow>
     (\<exists>rs. holds_dgram q rs \<and> dgram_valid rs \<and> length rs \<le> unat (ie_mtu st) \<and>
        ip_p (dgram_hdr rs) = IP_PROTO_ICMP \<and> ip_src (dgram_hdr rs) = ie_src_ip st \<and>
        ip_dst (dgram_hdr rs) = ip_src (dgram_hdr bs) \<and> p_dst_ip_anno q = ip_src (dgram_hdr bs) \<and>
        click_in_cksum (dgram_payload rs) = 0 \<and>
        (\<exists>c rest n. dgram_payload rs = [of_int (ie_type st), of_int (ie_code st)] @ u16_bytes c @ rest @ take n bs \<and>
           length rest = 4 \<and> (n = length bs \<or> length rs = unat (ie_mtu st))))"

lemma IE_ignores_eq:
  assumes "holds_dgram p bs" and "dgram_valid bs"
  shows "IE_ignores an p (dgram_hdr bs) st = Inr (ie_ignored an bs st)"
proof -
  have "p_len p = length bs" "p_h p = Some (p_data p + dgram_hlen bs)"
    using assms(1) length_pkt_bytes [of p] by (auto simp: holds_dgram_def)
  moreover have "rd8 p (p_data p + dgram_hlen bs) = Inr (bs ! dgram_hlen bs)" if "dgram_hlen bs + 4 \<le> length bs"
    using holds_dgram_rd8 [OF assms(1), of "dgram_hlen bs"] that by simp
  ultimately show ?thesis
    by (auto simp: IE_ignores_def ie_ignored_def Let_def dgram_hlen_def [symmetric] not_less)
qed

lemma IE_message_answers:
  assumes p: "holds_dgram p bs" "dgram_valid bs"
    and q: "Packet_make mem (unat default_headroom) None (unat (ie_mtu st)) 0 = Some q"
    and opts: "4 dvd length opts" "length opts \<le> 40" and mtu: "68 \<le> unat (ie_mtu st)" "unat (ie_mtu st) < 65536"
  shows "\<exists>q'. IE_message an ident p (p_data p) (dgram_hdr bs) opts q st = Inr q' \<and> ie_answer bs st q'"
proof -
  define x where "x = min (unat (ie_mtu st) - (28 + length opts)) (length bs)"
  define rest where "rest = IE_particulars an p st @ take x bs"
  define m where "m = icmp_message (of_int (ie_type st)) (of_int (ie_code st)) rest"
  define h where "h = ie_header ident (ip_src (dgram_hdr bs)) (20 + length opts) (28 + length opts + x) st"
  let ?rs = "enc_ip (summed h opts) @ opts @ m"
  have "unat (ntohs (ip_len (dgram_hdr bs))) = length bs" using p(2) by (simp add: dgram_valid_def)
  then have small: "length bs < 65536" using unat_lt_65536 [of "ntohs (ip_len (dgram_hdr bs))"] by simp
  have mtu': "28 + length opts \<le> unat (ie_mtu st)" using mtu(1) opts(2) by simp
  obtain q' where q': "IE_message an ident p (p_data p) (dgram_hdr bs) opts q st = Inr q'" "holds_dgram q' ?rs" "dgram_valid ?rs"
    using IE_message_sent [OF p(1) small q opts mtu' mtu(2), of an ident "dgram_hdr bs"]
    unfolding x_def [symmetric] rest_def [symmetric] m_def [symmetric] h_def [symmetric] by blast
  have anno: "p_dst_ip_anno q' = ip_src (dgram_hdr bs)"
    using q'(1) by (auto simp: IE_message_def Let_def res_bind_eq_Inr_iff set_dst_ip_anno_def split: if_splits)
  have "4 * unat (ip_hl h) = 20 + length opts" using header_length [OF opts] by (simp add: h_def ie_header_def)
  note b = dgram_built(1,2) [OF this opts(2), of m]
  have "length rest \<le> 65531" using mtu(2) mtu' by (simp add: rest_def x_def)
  then have "click_in_cksum m = 0" unfolding m_def by (rule icmp_message_verifies)
  moreover have "m = [of_int (ie_type st), of_int (ie_code st)] @
      u16_bytes (click_in_cksum ([of_int (ie_type st), of_int (ie_code st), 0, 0] @ rest)) @ IE_particulars an p st @ take x bs"
    by (simp add: m_def icmp_message_def rest_def)
  moreover have "length ?rs \<le> unat (ie_mtu st)" "x = length bs \<or> length ?rs = unat (ie_mtu st)"
    using mtu' by (auto simp: length_enc_ip m_def rest_def x_def)
  ultimately have "ie_answer bs st q'"
    unfolding ie_answer_def using q'(2,3) anno b
    by (intro exI [of _ ?rs]) (auto simp: h_def ie_header_def intro!: exI [of _ "IE_particulars an p st"])
  with q'(1) show ?thesis by blast
qed

definition ie_silent :: "annos \<Rightarrow> byte list \<Rightarrow> ICMPError \<Rightarrow> bool" where
  "ie_silent an bs st \<longleftrightarrow> ie_ignored an bs st \<or> ie_type st = ICMP_REDIRECT \<and> source_routed bs"

definition ie_outcome :: "annos \<Rightarrow> u32 \<Rightarrow> packet \<Rightarrow> byte list \<Rightarrow> ICMPError
    \<Rightarrow> (u32 \<times> effect list \<times> (packet \<times> annos) option) res \<Rightarrow> bool" where
  "ie_outcome an ident p bs st r \<longleftrightarrow>
     (if ie_silent an bs st then r = Inr (ident, [Kill p], None)
      else \<exists>q. r = Inr (ident + 1, [Kill p], Some (q, if ie_use_fix_anno st then set_anno_u8 FIX_IP_SRC_ANNO_OFFSET 1 new_annos
               else new_annos)) \<and> ie_answer bs st q)"

lemma IE_simple_action_outcome:
  assumes p: "holds_dgram p bs" "dgram_valid bs" "dgram_hlen bs < length bs"
    and mtu: "68 \<le> unat (ie_mtu st)" "unat (ie_mtu st) < 65536" and mem: "\<forall>n. mem n \<noteq> None"
  shows "ie_outcome an ident p bs st (IE_simple_action mem an ident p st)"
proof -
  define h where "h = dgram_hdr bs"
  have hl: "4 * unat (ip_hl h) = dgram_hlen bs" by (simp add: h_def dgram_hlen_def)
  have "unat (ip_hl h) < 16" using unsigned_less [of "ip_hl h", where 'a = nat] by simp
  then have hl60: "dgram_hlen bs \<le> 60" using hl by simp
  have nh: "p_nh p = Some (p_data p)" using p(1) by (simp add: holds_dgram_def)
  have "20 \<le> length bs" using p(2) by (simp add: dgram_valid_def)
  then have r20: "rd p (p_data p) sizeof_ip = Inr (take 20 bs)" "dec_ip (take 20 bs) = h"
    using holds_dgram_rd [OF p(1), of 0 20] by (simp_all add: sizeof_ip_def chunk_def h_def dgram_hdr_def)
  note ign = IE_ignores_eq [OF p(1,2), of an st, folded h_def]
  obtain q0 where q0: "Packet_make mem (unat default_headroom) None (unat (ie_mtu st)) 0 = Some q0"
    using Packet_make_has_memory [OF mem] by blast
  obtain sr where sr: "IE_source_route p (p_data p) (dgram_hlen bs) sizeof_ip = Inr sr"
    "\<And>s. sr = Some s \<Longrightarrow> route_option bs (dgram_hlen bs) s" "sr \<noteq> None \<longleftrightarrow> source_routed bs"
    using IE_source_route_safe [OF p(1,3), of 20] by (auto simp: sizeof_ip_def finds_route_def source_routed_def)
  obtain opts where opts: "IE_options an p (p_data p) sr st = Inr opts" "4 dvd length opts" "length opts \<le> 40"
    using IE_options_length [OF p(1,3) hl60] sr(2) by blast
  obtain q where q: "IE_message an ident p (p_data p) h opts q0 st = Inr q" "ie_answer bs st q"
    using IE_message_answers [OF p(1,2) q0 opts(2,3) mtu] unfolding h_def by blast
  have "IE_simple_action mem an ident p st =
      (if ie_ignored an bs st then Inr (ident, [Kill p], None)
       else if sr \<noteq> None \<and> ie_type st = ICMP_REDIRECT then Inr (ident, [Kill p], None)
       else Inr (ident + 1, [Kill p], Some (q, if ie_use_fix_anno st then set_anno_u8 FIX_IP_SRC_ANNO_OFFSET 1 new_annos else new_annos)))"
    unfolding IE_simple_action_def nh option.case r20 res_bind_Inr Let_def ign hl sr(1) opts(1) q0 q(1) ..
  with q(2) sr(3) show ?thesis by (auto simp: ie_outcome_def ie_silent_def)
qed

text \<open>
  C35: For a valid datagram with a payload, ICMPError (with an MTU from 68 to 65535 and memory) sends nothing
  exactly when a router has to be silent about the datagram (ICMP errors, broadcasts, bad sources, later fragments) or
  when it is to send a redirect and the datagram carries a usable source route. In all other cases it sends a valid datagram to
  its source with a verifying ICMP message of the configured type and code that quotes the datagram from its start,
  completely or up to the MTU. The datagram is freed in both cases and no access is out of bounds.
\<close>

theorem IE_answers_as_allowed:
  assumes p: "holds_dgram p bs" "dgram_valid bs" "dgram_hlen bs < length bs"
    and mtu: "68 \<le> unat (ie_mtu st)" "unat (ie_mtu st) < 65536" and mem: "\<forall>n. mem n \<noteq> None"
  shows "if ie_ignored an bs st \<or> (ie_type st = ICMP_REDIRECT \<and> source_routed bs)
    then IE_simple_action mem an ident p st = Inr (ident, [Kill p], None)
    else \<exists>q. IE_simple_action mem an ident p st = Inr (ident + 1, [Kill p],
           Some (q, if ie_use_fix_anno st then set_anno_u8 FIX_IP_SRC_ANNO_OFFSET 1 new_annos else new_annos)) \<and>
         ie_answer bs st q"
  using IE_simple_action_outcome [OF assms, of an ident] unfolding ie_outcome_def ie_silent_def .

text \<open>A redirect is sent about a datagram without options.\<close>

lemma sample_long_plain: "\<not> source_routed sample_long"
  by (simp add: source_routed_def sample_long_facts(4) usable_route.simps [of "[]"])

theorem IE_answers_as_allowed_witness:
  "\<exists>q. IE_simple_action (\<lambda>_. Some (\<lambda>_. 0)) new_annos 1
      sample_long_packet \<lparr>ie_src_ip = 0x0100A8C0, ie_type = ICMP_REDIRECT, ie_code = 1, ie_bad_addrs = [],
        ie_mtu = 576, ie_pmtu = 0, ie_use_fix_anno = True\<rparr> = Inr (2, [Kill sample_long_packet], Some (q, set_anno_u8 FIX_IP_SRC_ANNO_OFFSET 1 new_annos)) \<and>
    ie_answer sample_long \<lparr>ie_src_ip = 0x0100A8C0, ie_type = ICMP_REDIRECT, ie_code = 1, ie_bad_addrs = [],
        ie_mtu = 576, ie_pmtu = 0, ie_use_fix_anno = True\<rparr> q"
proof -
  let ?st = "\<lparr>ie_src_ip = 0x0100A8C0, ie_type = ICMP_REDIRECT, ie_code = 1, ie_bad_addrs = [],
        ie_mtu = 576, ie_pmtu = 0, ie_use_fix_anno = True\<rparr>"
  let ?an = "new_annos"
  have "\<not> ie_ignored ?an sample_long ?st"
    by (simp add: ie_ignored_def new_annos_def Let_def sample_long_facts(2) base_ip_def IP_PROTO_ICMP_def IE_unicast_def IE_valid_source_def
          htonl_def le32_def)
  then show ?thesis
    using IE_answers_as_allowed [OF sample_long_held(1) sample_long_facts(1), of ?st "\<lambda>_. Some (\<lambda>_. 0)" ?an 1]
    by (simp add: sample_long_facts(4,5) sample_long_plain)
qed

end
