(* ===== verification/ARP_Table.thy ===== *)
theory ARP_Table
  imports Element_Model "HOL-Library.Multiset"
begin

text \<open>
  \<^verbatim>\<open>click/elements/ethernet/arptable.{hh,cc}\<close>: the table of Ethernet addresses behind every \<^verbatim>\<open>ARPQuerier\<close>,
  with the packets that wait for an answer. Shown: after any sequence of operations in which the capacities are given room for
  what the table holds, the counters are exact, the capacities hold and no loop runs off the list of entries; waiting packets keep their order, only the oldest are given up, and
  none is lost.
\<close>

section \<open>Entries\<close>

definition CLICK_HZ :: u32 where "CLICK_HZ = 1000"

definition click_jiffies_less :: "u32 \<Rightarrow> u32 \<Rightarrow> bool" where
  "click_jiffies_less a b \<longleftrightarrow> sint (a - b) < 0"

definition ether_broadcast :: ethaddr where "ether_broadcast = replicate 6 0xFF"

record ARPEntry =
  ae_ip :: ipaddr
  ae_eth :: ethaddr
  ae_known :: bool
  ae_num_polls :: byte
  ae_live_at_j :: u32
  ae_polled_at_j :: u32
  ae_packets :: "packet list"
  ae_packet_count :: u32

definition new_ARPEntry :: "ipaddr \<Rightarrow> u32 \<Rightarrow> ARPEntry" where
  "new_ARPEntry ip now =
     \<lparr>ae_ip = ip, ae_eth = ether_broadcast, ae_known = False, ae_num_polls = 0, ae_live_at_j = now,
      ae_polled_at_j = now - CLICK_HZ, ae_packets = [], ae_packet_count = 0\<rparr>"

definition AE_expired :: "u32 \<Rightarrow> u32 \<Rightarrow> ARPEntry \<Rightarrow> bool" where
  "AE_expired now timeout_j e \<longleftrightarrow> click_jiffies_less (ae_live_at_j e + timeout_j) now \<and> timeout_j \<noteq> 0"

definition AE_known :: "u32 \<Rightarrow> u32 \<Rightarrow> ARPEntry \<Rightarrow> bool" where
  "AE_known now timeout_j e \<longleftrightarrow> ae_known e \<and> \<not> AE_expired now timeout_j e"

definition AE_allow_poll :: "u32 \<Rightarrow> ARPEntry \<Rightarrow> bool" where
  "AE_allow_poll now e \<longleftrightarrow>
     \<not> click_jiffies_less now (ae_polled_at_j e + (if ae_num_polls e \<ge> 10 then CLICK_HZ * 2 else CLICK_HZ div 10))"

definition AE_mark_poll :: "u32 \<Rightarrow> ARPEntry \<Rightarrow> ARPEntry" where
  "AE_mark_poll now e =
     e\<lparr>ae_polled_at_j := now, ae_num_polls := (if ae_num_polls e < 255 then ae_num_polls e + 1 else ae_num_polls e)\<rparr>"

section \<open>The table\<close>

text \<open>
  The entries in the order of the age list; the hash table holds the same entries, by their address, and is not represented:
  \<open>_table.find\<close> is \<open>AT_find\<close>, and a write through an entry's pointer is \<open>AT_put\<close>. The locks are left out.
\<close>

record ARPTable =
  at_age :: "ARPEntry list"
  at_entry_count :: u32
  at_packet_count :: u32
  at_entry_capacity :: u32
  at_packet_capacity :: u32
  at_entry_packet_capacity :: u32
  at_slim_factor :: u32
  at_timeout_j :: u32
  at_drops :: u32
  at_timer :: timer

text \<open>The constructor leaves \<open>_timeout_j\<close> uninitialised.\<close>

definition new_ARPTable :: "u32 \<Rightarrow> ARPTable" where
  "new_ARPTable undef =
     \<lparr>at_age = [], at_entry_count = 0, at_packet_count = 0, at_entry_capacity = 0, at_packet_capacity = 2048,
      at_entry_packet_capacity = 0, at_slim_factor = 2, at_timeout_j = undef, at_drops = 0, at_timer = Unscheduled\<rparr>"

text \<open>A time is given by its seconds and milliseconds.\<close>

definition AT_set_timeout :: "nat \<times> nat \<Rightarrow> ARPTable \<Rightarrow> ARPTable" where
  "AT_set_timeout timeout st =
     st\<lparr>at_timeout_j := (if (of_nat (fst timeout) :: u32) \<ge> 0xFFFFFFFF div CLICK_HZ then 0
                        else of_nat (fst timeout * 1000 + snd timeout))\<rparr>"

definition AT_set_capacity :: "u32 \<Rightarrow> ARPTable \<Rightarrow> ARPTable" where
  "AT_set_capacity capacity st = st\<lparr>at_packet_capacity := capacity\<rparr>"

definition AT_set_entry_capacity :: "u32 \<Rightarrow> ARPTable \<Rightarrow> ARPTable" where
  "AT_set_entry_capacity entry_capacity st = st\<lparr>at_entry_capacity := entry_capacity\<rparr>"

definition AT_set_entry_packet_capacity :: "u32 \<Rightarrow> ARPTable \<Rightarrow> ARPTable" where
  "AT_set_entry_packet_capacity entry_packet_capacity st = st\<lparr>at_entry_packet_capacity := entry_packet_capacity\<rparr>"

definition AT_set_capacity_slim_factor :: "u32 \<Rightarrow> ARPTable \<Rightarrow> ARPTable res" where
  "AT_set_capacity_slim_factor capacity_slim_factor st =
     (if capacity_slim_factor \<noteq> 0 then Inr (st\<lparr>at_slim_factor := capacity_slim_factor\<rparr>) else Inl AssertionFailure)"

definition AT_configure ::
  "u32 arg \<Rightarrow> u32 arg \<Rightarrow> u32 arg \<Rightarrow> u32 arg \<Rightarrow> (nat \<times> nat) arg \<Rightarrow> bool \<Rightarrow> ARPTable \<Rightarrow> int \<times> ARPTable" where
  "AT_configure CAPACITY ENTRY_CAPACITY ENTRY_PACKET_CAPACITY CAPACITY_SLIM_FACTOR TIMEOUT unread st =
     (case (Args_read CAPACITY (at_packet_capacity st), Args_read ENTRY_CAPACITY (at_entry_capacity st),
            Args_read ENTRY_PACKET_CAPACITY (at_entry_packet_capacity st),
            Args_read CAPACITY_SLIM_FACTOR (at_slim_factor st), Args_read TIMEOUT (300, 0)) of
        (Some pc, Some ec, Some epc, Some sf, Some timeout) \<Rightarrow>
          if unread then (-1, st)
          else
          let st = st\<lparr>at_packet_capacity := pc, at_entry_capacity := ec, at_entry_packet_capacity := epc,
                      at_slim_factor := sf\<rparr> in
          if sf = 0 then (- EINVAL, st)
          else
          let st = AT_set_timeout timeout st in
          (0, if at_timeout_j st \<noteq> 0
              then st\<lparr>at_timer := After_msec (1000 * uint (at_timeout_j st div CLICK_HZ))\<rparr> else st)
      | _ \<Rightarrow> (-1, st))"

text \<open>The entries are cleared in the order of the hash table, which decides only the order in which the packets are freed.\<close>

definition AT_clear :: "ARPTable \<Rightarrow> ARPTable \<times> effect list" where
  "AT_clear st =
     (let ps = concat (map ae_packets (at_age st)) in
      (st\<lparr>at_age := [], at_entry_count := 0, at_packet_count := 0, at_drops := at_drops st + of_nat (length ps)\<rparr>,
       map Kill ps))"

definition AT_take_state :: "ARPTable \<Rightarrow> ARPTable \<Rightarrow> ARPTable \<times> ARPTable" where
  "AT_take_state st arpt =
     (if at_age st \<noteq> [] then (st, arpt)
      else (st\<lparr>at_age := at_age arpt, at_entry_count := at_entry_count arpt,
               at_packet_count := at_packet_count arpt, at_drops := at_drops arpt\<rparr>,
            arpt\<lparr>at_age := [], at_entry_count := 0, at_packet_count := 0\<rparr>))"

section \<open>Making space\<close>

text \<open>The first loop of \<open>slim\<close>, on the entries still in the list.\<close>

fun AT_slim_entries :: "u32 \<Rightarrow> ARPEntry list \<Rightarrow> ARPTable \<Rightarrow> ARPTable \<times> effect list" where
  "AT_slim_entries now [] st = (st\<lparr>at_age := []\<rparr>, [])"
| "AT_slim_entries now (ae # aes) st =
     (if AE_expired now (at_timeout_j st) ae \<or> at_entry_capacity st \<noteq> 0 \<and> at_entry_count st > at_entry_capacity st
      then
        let n = of_nat (length (ae_packets ae));
            (st, es) = AT_slim_entries now aes
              (st\<lparr>at_packet_count := at_packet_count st - n, at_drops := at_drops st + n,
                  at_entry_count := at_entry_count st - 1\<rparr>) in
        (st, map Kill (ae_packets ae) @ es)
      else (st\<lparr>at_age := ae # aes\<rparr>, []))"

text \<open>The second one: packets from the oldest entries, until \<open>cap\<close> are left.\<close>

fun AE_drop :: "u32 \<Rightarrow> u32 \<Rightarrow> packet list \<Rightarrow> packet list \<times> packet list" where
  "AE_drop cap n [] = ([], [])"
| "AE_drop cap n (p # ps) =
     (if n > cap then (let (dropped, left) = AE_drop cap (n - 1) ps in (p # dropped, left)) else ([], p # ps))"

fun AT_slim_packets :: "u32 \<Rightarrow> ARPEntry list \<Rightarrow> u32 \<Rightarrow> (ARPEntry list \<times> packet list) res" where
  "AT_slim_packets cap [] n = (if n > cap then Inl NullPointer else Inr ([], []))"
| "AT_slim_packets cap (ae # aes) n =
     (if n > cap then
        let (dropped, left) = AE_drop cap n (ae_packets ae); k = of_nat (length dropped) in
        res_bind (AT_slim_packets cap aes (n - k)) (\<lambda>(aes, more).
        Inr (ae\<lparr>ae_packets := left, ae_packet_count := ae_packet_count ae - k\<rparr> # aes, dropped @ more))
      else Inr (ae # aes, []))"

definition AT_slim :: "u32 \<Rightarrow> ARPTable \<Rightarrow> (ARPTable \<times> effect list) res" where
  "AT_slim now st =
     (let (st, es) = AT_slim_entries now (at_age st) st in
      if at_packet_capacity st \<noteq> 0 \<and> at_packet_count st > at_packet_capacity st then
        if at_slim_factor st = 0 then Inl DivisionByZero
        else
        let cap = at_packet_capacity st - at_packet_capacity st div at_slim_factor st;
            cap = (if cap = 0 then 1 else cap) in
        res_bind (AT_slim_packets cap (at_age st) (at_packet_count st)) (\<lambda>(aes, dropped).
        let k = of_nat (length dropped) in
        Inr (st\<lparr>at_age := aes, at_packet_count := at_packet_count st - k, at_drops := at_drops st + k\<rparr>,
             es @ map Kill dropped))
      else Inr (st, es))"

definition AT_run_timer :: "u32 \<Rightarrow> ARPTable \<Rightarrow> (ARPTable \<times> effect list) res" where
  "AT_run_timer now st =
     res_bind (AT_slim now st) (\<lambda>(st, es).
     Inr (if at_timeout_j st \<noteq> 0 then st\<lparr>at_timer := After_msec (1000 * uint (at_timeout_j st div CLICK_HZ + 1))\<rparr> else st, es))"

section \<open>Lookup, insertion and waiting packets\<close>

definition AT_find :: "ipaddr \<Rightarrow> ARPTable \<Rightarrow> ARPEntry option" where
  "AT_find ip st = find (\<lambda>e. ae_ip e = ip) (at_age st)"

definition AT_put :: "ARPEntry \<Rightarrow> ARPTable \<Rightarrow> ARPTable" where
  "AT_put ae st = st\<lparr>at_age := map (\<lambda>e. if ae_ip e = ae_ip ae then ae else e) (at_age st)\<rparr>"

text \<open>\<open>lookup\<close>: the return value and what is stored through \<open>eth\<close>.\<close>

definition AT_lookup :: "u32 \<Rightarrow> ipaddr \<Rightarrow> u32 \<Rightarrow> ARPTable \<Rightarrow> (int \<times> ethaddr option) \<times> ARPTable" where
  "AT_lookup now ip poll_timeout_j st =
     (case AT_find ip st of
        None \<Rightarrow> ((-1, None), st)
      | Some ae \<Rightarrow>
          if AE_known now (at_timeout_j st) ae then
            if poll_timeout_j \<noteq> 0 \<and> \<not> click_jiffies_less now (ae_live_at_j ae + poll_timeout_j) \<and> AE_allow_poll now ae
            then ((1, Some (ae_eth ae)), AT_put (AE_mark_poll now ae) st)
            else ((0, Some (ae_eth ae)), st)
          else ((-1, None), st))"

text \<open>\<open>ensure\<close>, where \<open>alloc\<close> says whether there is memory for an entry; \<open>None\<close> is the null pointer.\<close>

definition AT_ensure :: "bool \<Rightarrow> ipaddr \<Rightarrow> u32 \<Rightarrow> ARPTable \<Rightarrow> (ARPEntry option \<times> ARPTable \<times> effect list) res" where
  "AT_ensure alloc ip now st =
     (case AT_find ip st of
        Some ae \<Rightarrow> Inr (Some ae, st, [])
      | None \<Rightarrow>
          if \<not> alloc then Inr (None, st, [])
          else
          let st = st\<lparr>at_entry_count := at_entry_count st + 1\<rparr> in
          res_bind (if at_entry_capacity st \<noteq> 0 \<and> at_entry_count st > at_entry_capacity st then AT_slim now st
                    else Inr (st, [])) (\<lambda>(st, es).
          let ae = new_ARPEntry ip now in
          Inr (Some ae, st\<lparr>at_age := at_age st @ [ae]\<rparr>, es)))"

definition ENOMEM :: int where "ENOMEM = 12"

definition EAGAIN :: int where "EAGAIN = 11"

text \<open>\<open>insert\<close>; with \<open>head\<close> the packets that waited are handed to the caller.\<close>

definition AT_insert ::
  "bool \<Rightarrow> u32 \<Rightarrow> ipaddr \<Rightarrow> ethaddr \<Rightarrow> bool \<Rightarrow> ARPTable \<Rightarrow> (int \<times> packet list \<times> ARPTable \<times> effect list) res" where
  "AT_insert alloc now ip eth head st =
     res_bind (AT_ensure alloc ip now st) (\<lambda>(r, st, es).
     case r of
       None \<Rightarrow> Inr (- ENOMEM, [], st, es)
     | Some ae \<Rightarrow>
         let ae = ae\<lparr>ae_eth := eth, ae_known := (eth \<noteq> ether_broadcast), ae_live_at_j := now, ae_num_polls := 0,
                     ae_polled_at_j := now - CLICK_HZ\<rparr>;
             waiting = (if head then ae_packets ae else []);
             n = (if head then ae_packet_count ae else 0);
             ae = (if head then ae\<lparr>ae_packets := [], ae_packet_count := 0\<rparr> else ae);
             st = st\<lparr>at_packet_count := at_packet_count st - n\<rparr> in
         Inr (0, waiting,
              if ae_ip (last (at_age st)) \<noteq> ip
              then st\<lparr>at_age := filter (\<lambda>e. ae_ip e \<noteq> ip) (at_age st) @ [ae]\<rparr> else AT_put ae st, es))"

text \<open>An entry that is about to expire is kept, and moved behind those that expire before it.\<close>

definition AT_keep_alive :: "u32 \<Rightarrow> ARPEntry \<Rightarrow> ARPTable \<Rightarrow> ARPEntry \<times> ARPTable" where
  "AT_keep_alive now ae st =
     (let live_at_j_min = now - at_timeout_j st in
      if at_timeout_j st \<noteq> 0 \<and> click_jiffies_less (ae_live_at_j ae) live_at_j_min then
        let ae = ae\<lparr>ae_live_at_j := live_at_j_min\<rparr>;
            before = takeWhile (\<lambda>e. ae_ip e \<noteq> ae_ip ae) (at_age st);
            behind = tl (dropWhile (\<lambda>e. ae_ip e \<noteq> ae_ip ae) (at_age st));
            older = takeWhile (\<lambda>e. click_jiffies_less (ae_live_at_j e) (ae_live_at_j ae)) behind in
        (ae, st\<lparr>at_age := before @ older @ ae # drop (length older) behind\<rparr>)
      else (ae, st))"

text \<open>The packet enters the queue of its entry; using an entry that \<open>slim\<close> has freed would be a fault.\<close>

definition AT_enqueue :: "u32 \<Rightarrow> ipaddr \<Rightarrow> packet \<Rightarrow> ARPTable \<Rightarrow> (int \<times> ARPTable \<times> effect list) res" where
  "AT_enqueue now ip p st =
     (let st = st\<lparr>at_packet_count := at_packet_count st + 1\<rparr> in
      res_bind (if at_packet_capacity st \<noteq> 0 \<and> at_packet_count st > at_packet_capacity st then AT_slim now st
                else Inr (st, [])) (\<lambda>(st, es).
      case AT_find ip st of
        None \<Rightarrow> Inl NullPointer
      | Some ae \<Rightarrow>
          let ae = ae\<lparr>ae_packets := ae_packets ae @ [p], ae_packet_count := ae_packet_count ae + 1\<rparr>;
              poll = AE_allow_poll now ae;
              ae = (if poll then AE_mark_poll now ae else ae) in
          Inr (if poll then 1 else 0, AT_put ae st, es)))"

definition AT_append_query ::
  "bool \<Rightarrow> u32 \<Rightarrow> ipaddr \<Rightarrow> packet \<Rightarrow> ARPTable \<Rightarrow> (int \<times> ARPTable \<times> effect list) res" where
  "AT_append_query alloc now ip p st =
     res_bind (AT_ensure alloc ip now st) (\<lambda>(r, st, es).
     case r of
       None \<Rightarrow> Inr (- ENOMEM, st, es)
     | Some ae \<Rightarrow>
         if AE_known now (at_timeout_j st) ae then Inr (- EAGAIN, st, es)
         else
         let (ae, st) = AT_keep_alive now ae st in
         if at_entry_packet_capacity st \<noteq> 0 \<and> ae_packet_count ae \<ge> at_entry_packet_capacity st
         then Inr (- ENOMEM, st\<lparr>at_drops := at_drops st + 1\<rparr>, es)
         else res_bind (AT_enqueue now ip p st) (\<lambda>(r, st, es'). Inr (r, st, es @ es')))"

section \<open>Handlers\<close>

datatype arp_write = AW_insert "ipaddr arg" "ethaddr arg" bool | AW_delete "ipaddr arg" bool | AW_clear

text \<open>The last argument of the first two constructors: are there words left over?\<close>

fun AT_write_handler :: "bool \<Rightarrow> u32 \<Rightarrow> arp_write \<Rightarrow> ARPTable \<Rightarrow> (int \<times> ARPTable \<times> effect list) res" where
  "AT_write_handler alloc now (AW_insert IP ETH unread) st =
     (case (Args_read_m IP, Args_read_m ETH) of
        (Some ip, Some eth) \<Rightarrow>
          if unread then Inr (-1, st, [])
          else res_bind (AT_insert alloc now ip eth False st) (\<lambda>(_, _, st, es). Inr (0, st, es))
      | _ \<Rightarrow> Inr (-1, st, []))"
| "AT_write_handler alloc now (AW_delete IP unread) st =
     (case Args_read_m IP of
        Some ip \<Rightarrow>
          if unread then Inr (-1, st, [])
          else res_bind (AT_insert alloc now ip ether_broadcast False st) (\<lambda>(_, _, st, es). Inr (0, st, es))
      | None \<Rightarrow> Inr (-1, st, []))"
| "AT_write_handler alloc now AW_clear st = (let (st, es) = AT_clear st in Inr (0, st, es))"
section \<open>Invariant\<close>

definition queued :: "ARPEntry list \<Rightarrow> packet list" where
  "queued aes = concat (map ae_packets aes)"

lemma queued_simps [simp]:
  "queued [] = []" "queued (e # aes) = ae_packets e @ queued aes" "queued (aes @ aes') = queued aes @ queued aes'"
  by (simp_all add: queued_def)

text \<open>
  Every entry counts its packets, of which there are at most \<open>epc\<close> (0 means no limit), and has six bytes of address, not all ones if
  it is known.
\<close>

definition entry_ok :: "u32 \<Rightarrow> ARPEntry \<Rightarrow> bool" where
  "entry_ok epc e \<longleftrightarrow> ae_packet_count e = of_nat (length (ae_packets e)) \<and> (epc \<noteq> 0 \<longrightarrow> length (ae_packets e) \<le> unat epc) \<and>
     length (ae_eth e) = 6 \<and> (ae_known e \<longrightarrow> ae_eth e \<noteq> ether_broadcast)"

text \<open>
  The state of the table while \<open>d\<close> packets and \<open>d'\<close> entries are counted but not yet entered. The two capacities below the
  largest word keep the counters from wrapping.
\<close>

definition at_counts :: "nat \<Rightarrow> nat \<Rightarrow> ARPTable \<Rightarrow> bool" where
  "at_counts d d' st \<longleftrightarrow>
     distinct (map ae_ip (at_age st)) \<and> (\<forall>e \<in> set (at_age st). entry_ok (at_entry_packet_capacity st) e) \<and>
     at_entry_count st = of_nat (length (at_age st) + d') \<and> at_packet_count st = of_nat (length (queued (at_age st)) + d) \<and>
     at_entry_capacity st \<noteq> 0xFFFFFFFF \<and> at_packet_capacity st \<noteq> 0xFFFFFFFF \<and> at_slim_factor st \<noteq> 0"

definition at_bounds :: "ARPTable \<Rightarrow> bool" where
  "at_bounds st \<longleftrightarrow>
     (at_entry_capacity st \<noteq> 0 \<longrightarrow> length (at_age st) \<le> unat (at_entry_capacity st)) \<and>
     (at_packet_capacity st \<noteq> 0 \<longrightarrow> length (queued (at_age st)) \<le> unat (at_packet_capacity st))"

definition at_inv :: "ARPTable \<Rightarrow> bool" where
  "at_inv st \<longleftrightarrow> at_counts 0 0 st \<and> at_bounds st"

section \<open>Slimming\<close>

lemma AT_slim_entries_drop:
  "\<exists>k \<le> length aes. AT_slim_entries now aes st =
      (st\<lparr>at_age := drop k aes, at_packet_count := at_packet_count st - of_nat (length (queued (take k aes))),
          at_drops := at_drops st + of_nat (length (queued (take k aes))), at_entry_count := at_entry_count st - of_nat k\<rparr>,
       map Kill (queued (take k aes))) \<and>
    (\<forall>j < k. AE_expired now (at_timeout_j st) (aes ! j) \<or>
       at_entry_capacity st \<noteq> 0 \<and> at_entry_count st - of_nat j > at_entry_capacity st) \<and>
    (k < length aes \<longrightarrow> at_entry_capacity st = 0 \<or> at_entry_count st - of_nat k \<le> at_entry_capacity st)"
proof (induction aes arbitrary: st)
  case Nil
  then show ?case by simp
next
  case (Cons ae aes)
  define over where "over = (AE_expired now (at_timeout_j st) ae \<or> at_entry_capacity st \<noteq> 0 \<and> at_entry_count st > at_entry_capacity st)"
  show ?case
  proof (cases over)
    case False
    then show ?thesis by (intro exI [of _ 0]) (auto simp: over_def not_less)
  next
    case True
    let ?n = "of_nat (length (ae_packets ae)) :: u32"
    let ?st = "st\<lparr>at_packet_count := at_packet_count st - ?n, at_drops := at_drops st + ?n, at_entry_count := at_entry_count st - 1\<rparr>"
    obtain k where k: "k \<le> length aes" "AT_slim_entries now aes ?st =
        (?st\<lparr>at_age := drop k aes, at_packet_count := at_packet_count ?st - of_nat (length (queued (take k aes))),
          at_drops := at_drops ?st + of_nat (length (queued (take k aes))), at_entry_count := at_entry_count ?st - of_nat k\<rparr>,
       map Kill (queued (take k aes)))"
      "\<forall>j < k. AE_expired now (at_timeout_j ?st) (aes ! j) \<or>
        at_entry_capacity ?st \<noteq> 0 \<and> at_entry_count ?st - of_nat j > at_entry_capacity ?st"
      "k < length aes \<longrightarrow> at_entry_capacity ?st = 0 \<or> at_entry_count ?st - of_nat k \<le> at_entry_capacity ?st"
      using Cons.IH [of ?st] by blast
    have "AE_expired now (at_timeout_j st) ((ae # aes) ! j) \<or> at_entry_capacity st \<noteq> 0 \<and> at_entry_count st - of_nat j > at_entry_capacity st"
      if "j < Suc k" for j
      using that True k(3) by (cases j) (auto simp: over_def algebra_simps)
    then show ?thesis
      using True k by (intro exI [of _ "Suc k"]) (simp add: over_def Let_def algebra_simps)
  qed
qed

lemma unat_sub_of_nat: "n < 4294967296 \<Longrightarrow> j \<le> n \<Longrightarrow> unat (of_nat n - of_nat j :: u32) = n - j"
  by (simp add: of_nat_diff [symmetric] unat_of_nat take_bit_nat_eq_self del: of_nat_diff)

lemma of_nat_gt_iff: "n < 4294967296 \<Longrightarrow> (of_nat n :: u32) > c \<longleftrightarrow> n > unat c"
  by (simp add: word_less_nat_alt unat_of_nat take_bit_nat_eq_self)

lemma AE_drop_eq:
  "n < 4294967296 \<Longrightarrow> AE_drop cap (of_nat n) ps = (take (n - unat cap) ps, drop (n - unat cap) ps)"
proof (induction ps arbitrary: n)
  case (Cons p ps)
  show ?case
  proof (cases "n > unat cap")
    case True
    then have "(of_nat n :: u32) - 1 = of_nat (n - 1)" "n - unat cap = Suc (n - 1 - unat cap)" by (simp_all add: of_nat_diff)
    then show ?thesis using True Cons.IH [of "n - 1"] Cons.prems by (simp add: of_nat_gt_iff)
  next
    case False
    then show ?thesis using Cons.prems by (simp add: of_nat_gt_iff)
  qed
qed simp

text \<open>An entry that lost its oldest packets.\<close>

definition trimmed :: "ARPEntry \<Rightarrow> ARPEntry \<Rightarrow> bool" where
  "trimmed e e' \<longleftrightarrow> (\<exists>k \<le> length (ae_packets e).
     e' = e\<lparr>ae_packets := drop k (ae_packets e), ae_packet_count := ae_packet_count e - of_nat k\<rparr>)"

lemma trimmed_refl [simp]: "trimmed e e"
  by (auto simp: trimmed_def intro!: exI [of _ 0])

lemma trimmed_ok: "trimmed e e' \<Longrightarrow> entry_ok epc e \<Longrightarrow> entry_ok epc e'"
  by (auto simp: trimmed_def entry_ok_def of_nat_diff)

lemma AT_slim_packets_drop:
  assumes "n < 4294967296" and "n \<le> length (queued aes) + unat cap"
  shows "\<exists>aes' dropped. AT_slim_packets cap aes (of_nat n) = Inr (aes', dropped) \<and> list_all2 trimmed aes aes' \<and>
    length dropped = n - unat cap \<and> mset (queued aes) = mset dropped + mset (queued aes')"
  using assms
proof (induction aes arbitrary: n)
  case Nil
  then show ?case by (simp add: of_nat_gt_iff)
next
  case (Cons e aes)
  show ?case
  proof (cases "n > unat cap")
    case False
    then show ?thesis using Cons.prems(1) by (simp add: of_nat_gt_iff list_all2_refl)
  next
    case True
    define k where "k = min (n - unat cap) (length (ae_packets e))"
    have drop: "take (n - unat cap) (ae_packets e) = take k (ae_packets e)" "drop (n - unat cap) (ae_packets e) = drop k (ae_packets e)"
      "min (length (ae_packets e)) k = k" by (simp_all add: k_def min_def)
    have "(of_nat n :: u32) - of_nat k = of_nat (n - k)" by (simp add: of_nat_diff k_def)
    moreover have le: "n - k < 4294967296" "n - k \<le> length (queued aes) + unat cap"
      using Cons.prems by (auto simp: k_def min_def)
    then obtain aes' dropped where r: "AT_slim_packets cap aes (of_nat (n - k)) = Inr (aes', dropped)"
        "list_all2 trimmed aes aes'" "length dropped = n - k - unat cap" "mset (queued aes) = mset dropped + mset (queued aes')"
      using Cons.IH [OF le] by blast
    ultimately have "AT_slim_packets cap (e # aes) (of_nat n) =
        Inr (e\<lparr>ae_packets := drop k (ae_packets e), ae_packet_count := ae_packet_count e - of_nat k\<rparr> # aes',
             take k (ae_packets e) @ dropped)"
      using True Cons.prems(1) by (simp add: AE_drop_eq of_nat_gt_iff drop Let_def)
    moreover have "trimmed e (e\<lparr>ae_packets := drop k (ae_packets e), ae_packet_count := ae_packet_count e - of_nat k\<rparr>)"
      unfolding trimmed_def by (rule exI [of _ k]) (simp add: k_def)
    moreover have "mset (ae_packets e) = mset (take k (ae_packets e)) + mset (drop k (ae_packets e))"
      by (metis append_take_drop_id mset_append)
    ultimately show ?thesis using r(2-4) True by (simp add: k_def)
  qed
qed
definition same_conf :: "ARPTable \<Rightarrow> ARPTable \<Rightarrow> bool" where
  "same_conf st st' \<longleftrightarrow> at_entry_capacity st' = at_entry_capacity st \<and> at_packet_capacity st' = at_packet_capacity st \<and>
     at_entry_packet_capacity st' = at_entry_packet_capacity st \<and> at_slim_factor st' = at_slim_factor st \<and>
     at_timeout_j st' = at_timeout_j st"

text \<open>
  What \<open>slim\<close> does to the list: entries go from the front, each expired or too many, others lose their oldest packets, and
  what is given up is freed.
\<close>

definition slimmed :: "u32 \<Rightarrow> nat \<Rightarrow> ARPTable \<Rightarrow> ARPTable \<Rightarrow> effect list \<Rightarrow> bool" where
  "slimmed now d' st st' es \<longleftrightarrow>
     (\<exists>k ps. k \<le> length (at_age st) \<and> list_all2 trimmed (drop k (at_age st)) (at_age st') \<and> es = map Kill ps \<and>
        mset (queued (at_age st)) = mset ps + mset (queued (at_age st')) \<and>
        (\<forall>j < k. AE_expired now (at_timeout_j st) (at_age st ! j) \<or>
           at_entry_capacity st \<noteq> 0 \<and> length (at_age st) + d' - j > unat (at_entry_capacity st)))"

lemma trimmed_ips: "list_all2 trimmed aes aes' \<Longrightarrow> map ae_ip aes' = map ae_ip aes"
  by (induction rule: list_all2_induct) (auto simp: trimmed_def)

lemma trimmed_entries_ok:
  "list_all2 trimmed aes aes' \<Longrightarrow> \<forall>e \<in> set aes. entry_ok epc e \<Longrightarrow> \<forall>e \<in> set aes'. entry_ok epc e"
  by (induction rule: list_all2_induct) (auto intro: trimmed_ok)

lemma mset_queued_take_drop: "mset (queued aes) = mset (queued (take k aes)) + mset (queued (drop k aes))"
  by (metis append_take_drop_id mset_append queued_simps(3))

lemma length_queued_take_drop: "length (queued aes) = length (queued (take k aes)) + length (queued (drop k aes))"
  by (metis append_take_drop_id length_append queued_simps(3))

lemma at_counts_drop:
  assumes "at_counts d d' st" and "k \<le> length (at_age st)"
  defines "st' \<equiv> st\<lparr>at_age := drop k (at_age st),
      at_packet_count := at_packet_count st - of_nat (length (queued (take k (at_age st)))),
      at_drops := at_drops st + of_nat (length (queued (take k (at_age st)))), at_entry_count := at_entry_count st - of_nat k\<rparr>"
  shows "at_counts d d' st'"
  using assms(1,2) length_queued_take_drop [of "at_age st" k]
  by (auto simp: at_counts_def st'_def drop_map [symmetric] of_nat_diff dest: in_set_dropD)

lemma slim_capacity:
  fixes pc sf :: u32
  assumes "pc \<noteq> 0"
  defines "c \<equiv> pc - pc div sf"
  shows "1 \<le> unat (if c = 0 then 1 else c)" "unat (if c = 0 then 1 else c) \<le> unat pc"
proof -
  have "pc div sf \<le> pc" by (simp add: word_le_nat_alt unat_div)
  then have "unat c \<le> unat pc" by (simp add: c_def unat_sub)
  moreover have "0 < unat pc" using assms(1) by (simp add: unat_gt_0)
  moreover have "c \<noteq> 0 \<Longrightarrow> 0 < unat c" by (simp add: unat_gt_0)
  ultimately show "1 \<le> unat (if c = 0 then 1 else c)" "unat (if c = 0 then 1 else c) \<le> unat pc" by auto
qed

lemma AT_slim_packets_stage:
  assumes c: "at_counts d d' st" and d: "d \<le> 1" and pc: "at_packet_capacity st \<noteq> 0"
    and n: "length (queued (at_age st)) + d < 4294967296"
  defines "n \<equiv> length (queued (at_age st)) + d"
  defines "cap \<equiv> (if at_packet_capacity st - at_packet_capacity st div at_slim_factor st = 0 then 1
      else at_packet_capacity st - at_packet_capacity st div at_slim_factor st)"
  obtains aes dropped where "AT_slim_packets cap (at_age st) (at_packet_count st) = Inr (aes, dropped)"
    "list_all2 trimmed (at_age st) aes" "mset (queued (at_age st)) = mset dropped + mset (queued aes)"
    "length (queued aes) + d \<le> unat (at_packet_capacity st)" "length (queued (at_age st)) = length dropped + length (queued aes)"
proof -
  note cap = slim_capacity [OF pc, of "at_slim_factor st", folded cap_def]
  obtain aes dropped where r: "AT_slim_packets cap (at_age st) (of_nat n) = Inr (aes, dropped)" "list_all2 trimmed (at_age st) aes"
      "length dropped = n - unat cap" "mset (queued (at_age st)) = mset dropped + mset (queued aes)"
    using AT_slim_packets_drop [of n "at_age st" cap] assms(4) d cap(1) by (auto simp: n_def)
  have l: "length (queued (at_age st)) = length dropped + length (queued aes)"
    using arg_cong [OF r(4), of size] by simp
  have "length (queued aes) + d \<le> unat cap" using r(3) l d cap(1) by (simp add: n_def)
  moreover have "at_packet_count st = of_nat n" using c by (simp add: at_counts_def n_def)
  ultimately show thesis using that r l cap(2) by auto
qed

lemma below_max: "c \<noteq> 0xFFFFFFFF \<Longrightarrow> unat (c :: u32) + 1 < 4294967296"
proof -
  assume "c \<noteq> 0xFFFFFFFF"
  then have "unat c \<noteq> unat (0xFFFFFFFF :: u32)" unfolding word_unat_eq_iff .
  then show ?thesis using unat_lt_2_32 [of c] by (simp del: unat_lt_2_32)
qed

lemma AT_slim_entries_stage:
  assumes c: "at_counts d d' st" and d: "d' \<le> 1" and b: "at_bounds st"
  obtains k st1 where "k \<le> length (at_age st)" "AT_slim_entries now (at_age st) st = (st1, map Kill (queued (take k (at_age st))))"
    "at_counts d d' st1" "at_age st1 = drop k (at_age st)" "same_conf st st1"
    "\<forall>j < k. AE_expired now (at_timeout_j st) (at_age st ! j) \<or>
      at_entry_capacity st \<noteq> 0 \<and> length (at_age st) + d' - j > unat (at_entry_capacity st)"
    "at_entry_capacity st \<noteq> 0 \<longrightarrow> length (at_age st1) + d' \<le> unat (at_entry_capacity st)"
proof -
  let ?aes = "at_age st"
  obtain k where k: "k \<le> length ?aes" "AT_slim_entries now ?aes st =
      (st\<lparr>at_age := drop k ?aes, at_packet_count := at_packet_count st - of_nat (length (queued (take k ?aes))),
          at_drops := at_drops st + of_nat (length (queued (take k ?aes))), at_entry_count := at_entry_count st - of_nat k\<rparr>,
       map Kill (queued (take k ?aes)))"
    "\<forall>j < k. AE_expired now (at_timeout_j st) (?aes ! j) \<or>
       at_entry_capacity st \<noteq> 0 \<and> at_entry_count st - of_nat j > at_entry_capacity st"
    "k < length ?aes \<longrightarrow> at_entry_capacity st = 0 \<or> at_entry_count st - of_nat k \<le> at_entry_capacity st"
    using AT_slim_entries_drop [of ?aes now st] by blast
  define st1 where "st1 = st\<lparr>at_age := drop k ?aes, at_packet_count := at_packet_count st - of_nat (length (queued (take k ?aes))),
      at_drops := at_drops st + of_nat (length (queued (take k ?aes))), at_entry_count := at_entry_count st - of_nat k\<rparr>"
  have s1: "AT_slim_entries now ?aes st = (st1, map Kill (queued (take k ?aes)))" using k(2) by (simp add: st1_def)
  have c1: "at_counts d d' st1" using at_counts_drop [OF c k(1)] by (simp add: st1_def)
  have sel: "at_age st1 = drop k ?aes" "same_conf st st1"
    by (simp_all add: st1_def same_conf_def)
  have small: "length ?aes + d' < 4294967296" if "at_entry_capacity st \<noteq> 0"
    using that b d below_max [of "at_entry_capacity st"] c by (simp add: at_bounds_def at_counts_def)
  have ec: "at_entry_count st - of_nat j = of_nat (length ?aes + d' - j)" if "j \<le> length ?aes" for j
    using c that by (simp add: at_counts_def of_nat_diff)
  have over: "\<forall>j < k. AE_expired now (at_timeout_j st) (?aes ! j) \<or>
      at_entry_capacity st \<noteq> 0 \<and> length ?aes + d' - j > unat (at_entry_capacity st)"
  proof (intro allI impI)
    fix j assume j: "j < k"
    have "at_entry_capacity st \<noteq> 0 \<Longrightarrow> at_entry_count st - of_nat j > at_entry_capacity st \<longleftrightarrow>
        length ?aes + d' - j > unat (at_entry_capacity st)"
      using ec [of j] k(1) j small of_nat_gt_iff [of "length ?aes + d' - j" "at_entry_capacity st"] by simp
    then show "AE_expired now (at_timeout_j st) (?aes ! j) \<or>
        at_entry_capacity st \<noteq> 0 \<and> length ?aes + d' - j > unat (at_entry_capacity st)"
      using k(3) j by blast
  qed
  have entries: "length (drop k ?aes) + d' \<le> unat (at_entry_capacity st)" if e: "at_entry_capacity st \<noteq> 0"
  proof (cases "k < length ?aes")
    case True
    then have "\<not> (of_nat (length ?aes + d' - k) :: u32) > at_entry_capacity st" using k(4) e by (simp add: ec not_less)
    moreover have "length ?aes + d' - k < 4294967296" using small [OF e] by simp
    ultimately have "length ?aes + d' - k \<le> unat (at_entry_capacity st)" by (simp only: of_nat_gt_iff not_less)
    then show ?thesis using True by simp
  next
    case False
    moreover have "0 < unat (at_entry_capacity st)" using e by (simp add: unat_gt_0)
    ultimately show ?thesis using d by simp
  qed
  show thesis using that [OF k(1) s1 c1 sel over] entries sel(1) by simp
qed

lemma AT_slim_ok:
  assumes c: "at_counts d d' st" and d: "d \<le> 1" "d' \<le> 1" and b: "at_bounds st"
  shows "\<exists>st' es. AT_slim now st = Inr (st', es) \<and> at_counts d d' st' \<and> same_conf st st' \<and> slimmed now d' st st' es \<and>
    (at_entry_capacity st \<noteq> 0 \<longrightarrow> length (at_age st') + d' \<le> unat (at_entry_capacity st)) \<and>
    (at_packet_capacity st \<noteq> 0 \<longrightarrow> length (queued (at_age st')) + d \<le> unat (at_packet_capacity st))"
proof -
  let ?aes = "at_age st"
  obtain k st1 where k: "k \<le> length ?aes" and s1: "AT_slim_entries now ?aes st = (st1, map Kill (queued (take k ?aes)))"
    and c1: "at_counts d d' st1" and sel': "at_age st1 = drop k ?aes" "same_conf st st1"
    and over: "\<forall>j < k. AE_expired now (at_timeout_j st) (?aes ! j) \<or>
      at_entry_capacity st \<noteq> 0 \<and> length ?aes + d' - j > unat (at_entry_capacity st)"
    and entries: "at_entry_capacity st \<noteq> 0 \<longrightarrow> length (at_age st1) + d' \<le> unat (at_entry_capacity st)"
    using AT_slim_entries_stage [OF c d(2) b, of now] .
  note sel = sel'(1) sel'(2) [unfolded same_conf_def, THEN conjunct2, THEN conjunct1] sel'(2)
  have lq: "length (queued (drop k ?aes)) \<le> length (queued ?aes)" using length_queued_take_drop [of ?aes k] by simp
  show ?thesis
  proof (cases "at_packet_capacity st1 \<noteq> 0 \<and> at_packet_count st1 > at_packet_capacity st1")
    case True
    then have pc: "at_packet_capacity st1 \<noteq> 0" by simp
    have n: "length (queued (at_age st1)) + d < 4294967296"
      using True b c d(1) lq below_max [of "at_packet_capacity st"] by (auto simp: at_bounds_def at_counts_def sel)
    obtain aes dropped where r: "AT_slim_packets
          (if at_packet_capacity st1 - at_packet_capacity st1 div at_slim_factor st1 = 0 then 1
           else at_packet_capacity st1 - at_packet_capacity st1 div at_slim_factor st1) (at_age st1) (at_packet_count st1) =
          Inr (aes, dropped)"
        "list_all2 trimmed (at_age st1) aes" "mset (queued (at_age st1)) = mset dropped + mset (queued aes)"
        "length (queued aes) + d \<le> unat (at_packet_capacity st1)"
        "length (queued (at_age st1)) = length dropped + length (queued aes)"
      using AT_slim_packets_stage [OF c1 d(1) pc n] .
    let ?st2 = "st1\<lparr>at_age := aes, at_packet_count := at_packet_count st1 - of_nat (length dropped),
      at_drops := at_drops st1 + of_nat (length dropped)\<rparr>"
    have "AT_slim now st = Inr (?st2, map Kill (queued (take k ?aes) @ dropped))"
      using True r(1) c1 by (simp add: AT_slim_def s1 Let_def at_counts_def)
    moreover have "at_counts d d' ?st2"
      using c1 r(2,5) trimmed_ips [OF r(2)] trimmed_entries_ok [OF r(2)] list_all2_lengthD [OF r(2)]
      by (simp add: at_counts_def of_nat_diff)
    moreover have "slimmed now d' st ?st2 (map Kill (queued (take k ?aes) @ dropped))"
      unfolding slimmed_def
      by (rule exI [of _ k], rule exI [of _ "queued (take k ?aes) @ dropped"])
        (use k r(2,3) over mset_queued_take_drop [of ?aes k] in \<open>simp add: sel\<close>)
    ultimately show ?thesis
      using entries list_all2_lengthD [OF r(2)] r(4) sel by (auto simp: same_conf_def)
  next
    case False
    then have "AT_slim now st = Inr (st1, map Kill (queued (take k ?aes)))" by (auto simp: AT_slim_def s1 Let_def)
    moreover have "slimmed now d' st st1 (map Kill (queued (take k ?aes)))"
      unfolding slimmed_def
      by (rule exI [of _ k], rule exI [of _ "queued (take k ?aes)"])
        (use k over mset_queued_take_drop [of ?aes k] in \<open>simp add: list_all2_refl sel\<close>)
    moreover have "length (queued (drop k ?aes)) + d \<le> unat (at_packet_capacity st)" if "at_packet_capacity st \<noteq> 0"
    proof -
      have n: "length (queued (drop k ?aes)) + d < 4294967296"
        using that b c d(1) lq below_max [of "at_packet_capacity st"] by (auto simp: at_bounds_def at_counts_def)
      moreover have "at_packet_count st1 = of_nat (length (queued (drop k ?aes)) + d)" using c1 by (simp add: at_counts_def sel)
      ultimately have "\<not> (of_nat (length (queued (drop k ?aes)) + d) :: u32) > at_packet_capacity st"
        using False that unfolding sel(2) by metis
      then show ?thesis by (simp only: of_nat_gt_iff [OF n] not_less)
    qed
    ultimately show ?thesis using c1 entries sel by auto
  qed
qed
section \<open>Waiting packets\<close>

definition queue :: "ipaddr \<Rightarrow> ARPTable \<Rightarrow> packet list" where
  "queue ip st = (case AT_find ip st of None \<Rightarrow> [] | Some e \<Rightarrow> ae_packets e)"

text \<open>From \<open>st\<close> to \<open>st'\<close> only oldest packets of queues are given up, and these are freed.\<close>

definition gives_up :: "ARPTable \<Rightarrow> ARPTable \<Rightarrow> effect list \<Rightarrow> bool" where
  "gives_up st st' es \<longleftrightarrow>
     (\<exists>ps. es = map Kill ps \<and> mset (queued (at_age st)) = mset ps + mset (queued (at_age st'))) \<and>
     (\<forall>ip. \<exists>k. queue ip st' = drop k (queue ip st))"

lemma gives_up_refl: "at_age st' = at_age st \<Longrightarrow> gives_up st st' []"
  by (auto simp: gives_up_def queue_def AT_find_def intro!: exI [of _ 0])

lemma gives_up_trans:
  assumes "gives_up a b es" and "gives_up b c es'"
  shows "gives_up a c (es @ es')"
proof -
  obtain ps ps' where p: "es = map Kill ps" "mset (queued (at_age a)) = mset ps + mset (queued (at_age b))"
    "es' = map Kill ps'" "mset (queued (at_age b)) = mset ps' + mset (queued (at_age c))"
    using assms unfolding gives_up_def by blast
  have "\<exists>k. queue ip c = drop k (queue ip a)" for ip
  proof -
    obtain j k where "queue ip b = drop j (queue ip a)" "queue ip c = drop k (queue ip b)"
      using assms unfolding gives_up_def by blast
    then show ?thesis by auto
  qed
  moreover have "es @ es' = map Kill (ps @ ps')" "mset (queued (at_age a)) = mset (ps @ ps') + mset (queued (at_age c))"
    using p by simp_all
  ultimately show ?thesis unfolding gives_up_def by blast
qed

lemma find_trimmed:
  "list_all2 trimmed aes aes' \<Longrightarrow>
    rel_option trimmed (find (\<lambda>e. ae_ip e = ip) aes) (find (\<lambda>e. ae_ip e = ip) aes')"
  by (induction rule: list_all2_induct) (auto simp: trimmed_def)

lemma find_drop:
  assumes "distinct (map ae_ip aes)"
  shows "find (\<lambda>e. ae_ip e = ip) (drop k aes) =
    (if \<exists>i < k. i < length aes \<and> ae_ip (aes ! i) = ip then None else find (\<lambda>e. ae_ip e = ip) aes)"
  using assms
proof (induction aes arbitrary: k)
  case (Cons e aes)
  show ?case
  proof (cases k)
    case (Suc j)
    have "find (\<lambda>e. ae_ip e = ip) aes = None" if "ae_ip e = ip"
      using that Cons.prems by (simp add: find_None_iff) (metis image_eqI)
    then show ?thesis using Cons.IH [of j] Cons.prems by (auto simp: Suc less_Suc_eq_0_disj)
  qed simp
qed simp

lemma slimmed_gives_up:
  assumes "slimmed now d' st st' es" and "distinct (map ae_ip (at_age st))"
  shows "gives_up st st' es"
proof -
  obtain k ps where k: "list_all2 trimmed (drop k (at_age st)) (at_age st')" "es = map Kill ps"
      "mset (queued (at_age st)) = mset ps + mset (queued (at_age st'))"
    using assms(1) unfolding slimmed_def by blast
  have "\<exists>n. queue ip st' = drop n (queue ip st)" for ip
  proof (cases "\<exists>i < k. i < length (at_age st) \<and> ae_ip (at_age st ! i) = ip")
    case True
    then have "queue ip st' = []"
      using find_trimmed [OF k(1), of ip] find_drop [OF assms(2), of ip k] by (auto simp: queue_def AT_find_def)
    then show ?thesis by (intro exI [of _ "length (queue ip st)"]) simp
  next
    case False
    then have "find (\<lambda>e. ae_ip e = ip) (drop k (at_age st)) = AT_find ip st"
      using find_drop [OF assms(2), of ip k] by (simp only: AT_find_def if_False)
    then have "rel_option trimmed (AT_find ip st) (AT_find ip st')"
      using find_trimmed [OF k(1), of ip] by (simp add: AT_find_def)
    then show ?thesis
      by (cases "AT_find ip st"; cases "AT_find ip st'") (auto simp: queue_def trimmed_def)
  qed
  with k(2,3) show ?thesis by (auto simp: gives_up_def)
qed

section \<open>The operations keep the invariant\<close>

lemma find_ip_Some: "AT_find ip st = Some ae \<Longrightarrow> ae \<in> set (at_age st) \<and> ae_ip ae = ip"
  by (auto simp: AT_find_def find_Some_iff)

lemma find_ip_None: "AT_find ip st = None \<longleftrightarrow> ip \<notin> ae_ip ` set (at_age st)"
  by (auto simp: AT_find_def find_None_iff)

lemma entry_ok_new: "entry_ok epc (new_ARPEntry ip now)"
  by (simp add: entry_ok_def new_ARPEntry_def ether_broadcast_def)

lemma queue_append_new:
  assumes "AT_find ip st = None"
  shows "queue ip' (st\<lparr>at_age := at_age st @ [new_ARPEntry ip now]\<rparr>) = queue ip' st"
proof -
  have "find P (xs @ ys) = (case find P xs of None \<Rightarrow> find P ys | Some x \<Rightarrow> Some x)" for P and xs ys :: "ARPEntry list"
    by (induction xs) auto
  then show ?thesis using assms by (auto simp: queue_def AT_find_def new_ARPEntry_def split: option.split)
qed

lemma at_inv_enter:
  fixes now :: u32
  assumes c: "at_counts 0 1 st" and f: "AT_find ip st = None"
    and b: "at_entry_capacity st \<noteq> 0 \<longrightarrow> length (at_age st) + 1 \<le> unat (at_entry_capacity st)"
      "at_packet_capacity st \<noteq> 0 \<longrightarrow> length (queued (at_age st)) \<le> unat (at_packet_capacity st)"
  defines "st' \<equiv> st\<lparr>at_age := at_age st @ [new_ARPEntry ip now]\<rparr>"
  shows "at_inv st'" "AT_find ip st' = Some (new_ARPEntry ip now)"
proof -
  have ni: "ip \<notin> ae_ip ` set (at_age st)" using f by (simp add: find_ip_None)
  have [simp]: "ae_ip (new_ARPEntry ip now) = ip" "ae_packets (new_ARPEntry ip now) = []" by (simp_all add: new_ARPEntry_def)
  show "at_inv st'" using c b ni entry_ok_new by (auto simp: at_inv_def at_counts_def at_bounds_def st'_def)
  have "find (\<lambda>e. ae_ip e = ip) (aes @ [new_ARPEntry ip now]) = Some (new_ARPEntry ip now)"
    if "ip \<notin> ae_ip ` set aes" for aes using that by (induction aes) auto
  then show "AT_find ip st' = Some (new_ARPEntry ip now)" using ni by (simp add: AT_find_def st'_def)
qed

lemma slimmed_ips: "slimmed now d' st st' es \<Longrightarrow> ae_ip ` set (at_age st') \<subseteq> ae_ip ` set (at_age st)"
proof -
  assume "slimmed now d' st st' es"
  then obtain k where "list_all2 trimmed (drop k (at_age st)) (at_age st')" by (auto simp: slimmed_def)
  from trimmed_ips [OF this] have "set (map ae_ip (at_age st')) \<subseteq> set (map ae_ip (at_age st))"
    by (metis drop_map set_drop_subset)
  then show ?thesis by simp
qed

text \<open>The space \<open>ensure\<close> makes for an entry already counted.\<close>

lemma AT_room:
  assumes c: "at_counts 0 1 st" "at_bounds st"
  shows "\<exists>st' es. (if at_entry_capacity st \<noteq> 0 \<and> at_entry_count st > at_entry_capacity st then AT_slim now st else Inr (st, [])) =
      Inr (st', es) \<and> at_counts 0 1 st' \<and> same_conf st st' \<and> gives_up st st' es \<and>
    ae_ip ` set (at_age st') \<subseteq> ae_ip ` set (at_age st) \<and>
    (at_entry_capacity st \<noteq> 0 \<longrightarrow> length (at_age st') + 1 \<le> unat (at_entry_capacity st)) \<and>
    (at_packet_capacity st \<noteq> 0 \<longrightarrow> length (queued (at_age st')) \<le> unat (at_packet_capacity st))"
proof (cases "at_entry_capacity st \<noteq> 0 \<and> at_entry_count st > at_entry_capacity st")
  case True
  obtain st' es where "AT_slim now st = Inr (st', es)" "at_counts 0 1 st'" "same_conf st st'" and s: "slimmed now 1 st st' es"
      and "at_entry_capacity st \<noteq> 0 \<longrightarrow> length (at_age st') + 1 \<le> unat (at_entry_capacity st)"
      "at_packet_capacity st \<noteq> 0 \<longrightarrow> length (queued (at_age st')) + 0 \<le> unat (at_packet_capacity st)"
    using AT_slim_ok [OF c(1) _ _ c(2), of now] by auto
  moreover have "gives_up st st' es" using slimmed_gives_up [OF s] c(1) by (simp add: at_counts_def)
  ultimately show ?thesis using True slimmed_ips [OF s] by auto
next
  case False
  have "length (at_age st) + 1 \<le> unat (at_entry_capacity st)" if e: "at_entry_capacity st \<noteq> 0"
  proof -
    have n: "length (at_age st) + 1 < 4294967296"
      using e c below_max [of "at_entry_capacity st"] by (simp add: at_bounds_def at_counts_def)
    have "\<not> (of_nat (length (at_age st) + 1) :: u32) > at_entry_capacity st"
      using False e c(1) unfolding at_counts_def by metis
    then show ?thesis by (simp only: of_nat_gt_iff [OF n] not_less)
  qed
  moreover have "(if at_entry_capacity st \<noteq> 0 \<and> at_entry_count st > at_entry_capacity st then AT_slim now st else Inr (st, [])) =
      Inr (st, [])" using False by (simp only: if_False)
  ultimately show ?thesis using c gives_up_refl [of st st] unfolding at_bounds_def same_conf_def by blast
qed

lemma AT_ensure_ok:
  assumes i: "at_inv st"
  shows "\<exists>r st' es. AT_ensure alloc ip now st = Inr (r, st', es) \<and> at_inv st' \<and> same_conf st st' \<and> gives_up st st' es \<and>
    queue ip st' = queue ip st \<and> (r = None \<or> r = AT_find ip st') \<and>
    r = (if AT_find ip st = None \<and> alloc then Some (new_ARPEntry ip now) else AT_find ip st)"
proof (cases "AT_find ip st")
  case (Some ae)
  then show ?thesis using i by (auto simp: AT_ensure_def same_conf_def gives_up_refl)
next
  case None
  show ?thesis
  proof (cases alloc)
    case False
    then show ?thesis using i None by (auto simp: AT_ensure_def same_conf_def gives_up_refl)
  next
    case True
    define st0 where "st0 = st\<lparr>at_entry_count := at_entry_count st + 1\<rparr>"
    have c0: "at_counts 0 1 st0" "at_bounds st0" "same_conf st st0" "at_age st0 = at_age st"
      using i by (simp_all add: at_inv_def at_counts_def at_bounds_def st0_def same_conf_def)
    obtain st1 es where s: "(if at_entry_capacity st0 \<noteq> 0 \<and> at_entry_count st0 > at_entry_capacity st0 then AT_slim now st0
          else Inr (st0, [])) = Inr (st1, es)" "at_counts 0 1 st1" "same_conf st0 st1" "gives_up st0 st1 es"
        "ae_ip ` set (at_age st1) \<subseteq> ae_ip ` set (at_age st0)"
        "at_entry_capacity st0 \<noteq> 0 \<longrightarrow> length (at_age st1) + 1 \<le> unat (at_entry_capacity st0)"
        "at_packet_capacity st0 \<noteq> 0 \<longrightarrow> length (queued (at_age st1)) \<le> unat (at_packet_capacity st0)"
      using AT_room [OF c0(1,2), of now] by blast
    let ?ae = "new_ARPEntry ip now"
    let ?st = "st1\<lparr>at_age := at_age st1 @ [?ae]\<rparr>"
    have n1: "AT_find ip st1 = None" using None s(5) c0(4) unfolding find_ip_None by auto
    have "AT_ensure alloc ip now st = Inr (Some ?ae, ?st, es)"
      using True None s(1) by (simp add: AT_ensure_def st0_def [symmetric] Let_def)
    moreover have "at_inv ?st" "AT_find ip ?st = Some ?ae"
      using at_inv_enter [OF s(2) n1, of now] s(3,6,7) by (simp_all add: same_conf_def)
    moreover have q: "queue ip' ?st = queue ip' st1" for ip' by (rule queue_append_new [OF n1])
    moreover have "gives_up st ?st es"
      using s(4) c0(4) q by (simp add: gives_up_def queue_def AT_find_def new_ARPEntry_def)
    moreover have "queue ip st1 = queue ip st" using n1 None by (simp add: queue_def)
    moreover have "same_conf st ?st" using c0(3) s(3) by (simp add: same_conf_def)
    ultimately show ?thesis using True None by auto
  qed
qed
text \<open>One entry is replaced by another for the same address, which may stand elsewhere in the list.\<close>

definition replaced :: "ARPEntry \<Rightarrow> ARPEntry \<Rightarrow> ARPEntry list \<Rightarrow> ARPEntry list \<Rightarrow> bool" where
  "replaced old new aes aes' \<longleftrightarrow>
     old \<in> set aes \<and> ae_ip new = ae_ip old \<and> mset aes' = add_mset new (mset aes - {#old#})"

lemma entry_split:
  assumes "distinct (map ae_ip aes)" and "old \<in> set aes"
  obtains xs ys where "aes = xs @ old # ys" "\<forall>e \<in> set xs. ae_ip e \<noteq> ae_ip old" "\<forall>e \<in> set ys. ae_ip e \<noteq> ae_ip old"
proof -
  obtain xs ys where s: "aes = xs @ old # ys" using split_list [OF assms(2)] by blast
  then have "ae_ip old \<notin> set (map ae_ip xs)" "ae_ip old \<notin> set (map ae_ip ys)" using assms(1) by auto
  then have "\<forall>e \<in> set xs. ae_ip e \<noteq> ae_ip old" "\<forall>e \<in> set ys. ae_ip e \<noteq> ae_ip old"
    by (metis image_eqI list.set_map)+
  with s that show thesis by blast
qed

lemma mset_queued: "mset (queued aes) = (\<Sum>e \<in># mset aes. mset (ae_packets e))"
  by (induction aes) simp_all

lemma find_ip_iff:
  assumes "distinct (map ae_ip aes)"
  shows "find (\<lambda>e. ae_ip e = ip) aes = Some e \<longleftrightarrow> e \<in> set aes \<and> ae_ip e = ip"
  using assms by (induction aes) (auto simp: image_iff)

lemma replaced_facts:
  assumes r: "replaced old new aes aes'" and d: "distinct (map ae_ip aes)"
  shows "distinct (map ae_ip aes')" "length aes' = length aes" "set aes' = insert new (set aes - {old})"
    "mset (queued aes') + mset (ae_packets old) = mset (queued aes) + mset (ae_packets new)"
    "find (\<lambda>e. ae_ip e = ip) aes' = (if ip = ae_ip new then Some new else find (\<lambda>e. ae_ip e = ip) aes)"
proof -
  have o: "old \<in># mset aes" and m: "mset aes' = add_mset new (mset aes - {#old#})" and ip: "ae_ip new = ae_ip old"
    using r by (simp_all add: replaced_def)
  obtain M where M: "mset aes = add_mset old M" using o by (metis mset_add)
  have "mset (map ae_ip aes') = mset (map ae_ip aes)" by (simp add: m M ip)
  then show d': "distinct (map ae_ip aes')" "length aes' = length aes"
    using d mset_eq_imp_distinct_iff mset_eq_length by (blast, fastforce)
  have "distinct aes" using d by (simp add: distinct_map)
  then have "count (mset aes) old = 1" using r by (simp add: distinct_count_atmost_1 replaced_def)
  then have "old \<notin># M" by (simp add: M not_in_iff)
  moreover have "set aes = insert old (set_mset M)" by (metis M set_mset_add_mset_insert set_mset_mset)
  moreover have "set aes' = insert new (set_mset M)" by (metis M add_mset_remove_trivial m set_mset_add_mset_insert set_mset_mset)
  ultimately show s: "set aes' = insert new (set aes - {old})" by auto
  show "mset (queued aes') + mset (ae_packets old) = mset (queued aes) + mset (ae_packets new)"
    by (simp add: mset_queued m M)
  have "find (\<lambda>e. ae_ip e = ip) aes' = Some e \<longleftrightarrow>
      (if ip = ae_ip new then Some new else find (\<lambda>e. ae_ip e = ip) aes) = Some e" for e
    using r d by (auto simp: find_ip_iff [OF d'(1)] find_ip_iff [OF d] s replaced_def distinct_map inj_on_def)
  then show "find (\<lambda>e. ae_ip e = ip) aes' = (if ip = ae_ip new then Some new else find (\<lambda>e. ae_ip e = ip) aes)"
    by (metis not_None_eq)
qed

lemma replaced_put:
  assumes "distinct (map ae_ip (at_age st))" and "old \<in> set (at_age st)" and "ae_ip new = ae_ip old"
  shows "replaced old new (at_age st) (at_age (AT_put new st))"
proof -
  obtain xs ys where s: "at_age st = xs @ old # ys" "\<forall>e \<in> set xs. ae_ip e \<noteq> ae_ip old" "\<forall>e \<in> set ys. ae_ip e \<noteq> ae_ip old"
    using entry_split [OF assms(1,2)] .
  then have "map (\<lambda>e. if ae_ip e = ae_ip new then new else e) zs = zs" if "zs = xs \<or> zs = ys" for zs
    using that assms(3) by (auto intro!: map_idI)
  then show ?thesis using s(1) assms(3) by (simp add: replaced_def AT_put_def)
qed

lemma replaced_moved:
  assumes "distinct (map ae_ip aes)" and "old \<in> set aes" and "ae_ip new = ae_ip old"
  shows "replaced old new aes (filter (\<lambda>e. ae_ip e \<noteq> ae_ip old) aes @ [new])"
proof -
  obtain xs ys where s: "aes = xs @ old # ys" "\<forall>e \<in> set xs. ae_ip e \<noteq> ae_ip old" "\<forall>e \<in> set ys. ae_ip e \<noteq> ae_ip old"
    using entry_split [OF assms(1,2)] .
  then have "filter (\<lambda>e. ae_ip e \<noteq> ae_ip old) aes = xs @ ys" by (auto simp: filter_id_conv)
  then show ?thesis using s(1) assms(3) by (simp add: replaced_def)
qed

lemma AT_keep_alive_replaced:
  assumes d: "distinct (map ae_ip (at_age st))" and o: "old \<in> set (at_age st)" and k: "AT_keep_alive now old st = (new, st')"
  shows "replaced old new (at_age st) (at_age st')" "st' = st\<lparr>at_age := at_age st'\<rparr>"
    "new = old\<lparr>ae_live_at_j := ae_live_at_j new\<rparr>" "\<not> AE_expired now (at_timeout_j st) new"
proof -
  define c where "c = (at_timeout_j st \<noteq> 0 \<and> click_jiffies_less (ae_live_at_j old) (now - at_timeout_j st))"
  obtain xs ys where s: "at_age st = xs @ old # ys" "\<forall>e \<in> set xs. ae_ip e \<noteq> ae_ip old" "\<forall>e \<in> set ys. ae_ip e \<noteq> ae_ip old"
    using entry_split [OF d o] .
  have t: "takeWhile (\<lambda>e. ae_ip e \<noteq> ae_ip old) (at_age st) = xs" "dropWhile (\<lambda>e. ae_ip e \<noteq> ae_ip old) (at_age st) = old # ys"
    using s by (simp_all add: takeWhile_append2 dropWhile_append2)
  define older where "older = takeWhile (\<lambda>e. click_jiffies_less (ae_live_at_j e) (now - at_timeout_j st)) ys"
  have ys: "mset ys = mset older + mset (drop (length older) ys)"
    by (metis append_take_drop_id mset_append older_def takeWhile_eq_take)
  have e: "(new, st') = (if c then (old\<lparr>ae_live_at_j := now - at_timeout_j st\<rparr>,
        st\<lparr>at_age := xs @ older @ old\<lparr>ae_live_at_j := now - at_timeout_j st\<rparr> # drop (length older) ys\<rparr>) else (old, st))"
    using k t by (cases c) (auto simp: AT_keep_alive_def Let_def c_def older_def)
  have m: "mset xs + mset ys = mset xs + mset older + mset (drop (length older) ys)" by (simp add: ys)
  show "replaced old new (at_age st) (at_age st')"
    using e s(1) m o by (cases c) (auto simp: replaced_def)
  show "st' = st\<lparr>at_age := at_age st'\<rparr>" "new = old\<lparr>ae_live_at_j := ae_live_at_j new\<rparr>" using e by (cases c; simp)+
  show "\<not> AE_expired now (at_timeout_j st) new"
    using e by (cases c) (auto simp: AE_expired_def click_jiffies_less_def c_def algebra_simps)
qed
lemma at_counts_replaced:
  assumes c: "at_counts d d' st" and r: "replaced old new (at_age st) aes'" and ok: "entry_ok (at_entry_packet_capacity st) new"
    and n: "length (ae_packets old) + d = length (ae_packets new) + d2"
  shows "at_counts d2 d' (st\<lparr>at_age := aes'\<rparr>)"
proof -
  have d: "distinct (map ae_ip (at_age st))" using c by (simp add: at_counts_def)
  note f = replaced_facts [OF r d]
  have "length (queued aes') + length (ae_packets old) = length (queued (at_age st)) + length (ae_packets new)"
    using arg_cong [OF f(4), of size] by simp
  then have "length (queued aes') + d2 = length (queued (at_age st)) + d" using n by linarith
  then show ?thesis using c ok f(1-3) by (simp add: at_counts_def)
qed

lemma at_counts_sub: "at_counts (d + n) d' st \<Longrightarrow> at_counts d d' (st\<lparr>at_packet_count := at_packet_count st - of_nat n\<rparr>)"
  by (simp add: at_counts_def)

lemma queue_replaced:
  assumes "replaced old new (at_age st) (at_age st')" and "distinct (map ae_ip (at_age st))"
  shows "queue ip st' = (if ip = ae_ip new then ae_packets new else queue ip st)"
  using replaced_facts(5) [OF assms] by (simp add: queue_def AT_find_def)

lemma AT_insert_entry:
  fixes eth :: ethaddr and now :: u32 and head :: bool
  assumes i: "at_inv st" and f: "AT_find ip st = Some ae" and l: "length eth = 6"
  defines "new \<equiv> ae\<lparr>ae_eth := eth, ae_known := (eth \<noteq> ether_broadcast), ae_live_at_j := now, ae_num_polls := 0,
      ae_polled_at_j := now - CLICK_HZ, ae_packets := (if head then [] else ae_packets ae),
      ae_packet_count := (if head then 0 else ae_packet_count ae)\<rparr>"
  defines "st1 \<equiv> st\<lparr>at_packet_count := at_packet_count st - (if head then ae_packet_count ae else 0)\<rparr>"
  defines "st' \<equiv> (if ae_ip (last (at_age st1)) \<noteq> ip
      then st1\<lparr>at_age := filter (\<lambda>e. ae_ip e \<noteq> ip) (at_age st1) @ [new]\<rparr> else AT_put new st1)"
  shows "replaced ae new (at_age st) (at_age st')" "at_inv st'" "same_conf st st'"
proof -
  have a: "ae \<in> set (at_age st)" "ae_ip ae = ip" using find_ip_Some [OF f] by simp_all
  have c: "at_counts 0 0 st" "distinct (map ae_ip (at_age st))" "entry_ok (at_entry_packet_capacity st) ae"
    using i a by (auto simp: at_inv_def at_counts_def)
  define aes' where "aes' = (if ae_ip (last (at_age st)) \<noteq> ip then filter (\<lambda>e. ae_ip e \<noteq> ip) (at_age st) @ [new] else at_age (AT_put new st))"
  have st': "st' = st1\<lparr>at_age := aes'\<rparr>" by (simp add: st'_def st1_def aes'_def AT_put_def)
  have r: "replaced ae new (at_age st) aes'"
    using replaced_put [OF c(2) a(1), of new] replaced_moved [OF c(2) a(1), of new] a(2) by (auto simp: aes'_def new_def)
  then show "replaced ae new (at_age st) (at_age st')" by (simp add: st')
  have "entry_ok (at_entry_packet_capacity st) new" using c(3) l by (simp add: entry_ok_def new_def)
  then have "at_counts (if head then length (ae_packets ae) else 0) 0 (st\<lparr>at_age := aes'\<rparr>)"
    by (rule at_counts_replaced [OF c(1) r]) (simp add: new_def)
  then have "at_counts (0 + (if head then length (ae_packets ae) else 0)) 0 (st\<lparr>at_age := aes'\<rparr>)" by simp
  from at_counts_sub [OF this] have "at_counts 0 0 st'" using c(3) by (cases head) (simp_all add: st' st1_def entry_ok_def at_counts_def)
  moreover have "length (queued aes') \<le> length (queued (at_age st))"
    using arg_cong [OF replaced_facts(4) [OF r c(2)], of size] by (simp add: new_def split: if_splits)
  then have "at_bounds st'"
    using i replaced_facts(2) [OF r c(2)] by (auto simp: at_inv_def at_bounds_def st' st1_def)
  ultimately show "at_inv st'" by (simp add: at_inv_def)
  show "same_conf st st'" by (simp add: same_conf_def st' st1_def)
qed

text \<open>What an operation leaves of the packets: freed, handed out or refused, or in the queues.\<close>

definition conserves :: "ARPTable \<Rightarrow> packet list \<Rightarrow> packet list \<Rightarrow> ARPTable \<Rightarrow> effect list \<Rightarrow> bool" where
  "conserves st given taken st' es \<longleftrightarrow>
     (\<exists>ps. es = map Kill ps \<and>
        mset (queued (at_age st)) + mset given = mset ps + mset taken + mset (queued (at_age st')))"

lemma AT_insert_ok:
  assumes i: "at_inv st" and l: "length eth = 6"
  shows "\<exists>r waiting st' es. AT_insert alloc now ip eth head st = Inr (r, waiting, st', es) \<and> at_inv st' \<and> same_conf st st' \<and>
    conserves st [] waiting st' es \<and> (\<forall>ip'. ip' \<noteq> ip \<longrightarrow> (\<exists>k. queue ip' st' = drop k (queue ip' st))) \<and>
    (r = - ENOMEM \<and> waiting = [] \<and> \<not> alloc \<and> queue ip st' = queue ip st \<or>
     r = 0 \<and> waiting = (if head then queue ip st else []) \<and> queue ip st' = (if head then [] else queue ip st) \<and>
     (\<exists>ae. AT_find ip st' = Some ae \<and> ae_eth ae = eth \<and> ae_known ae = (eth \<noteq> ether_broadcast) \<and> ae_live_at_j ae = now))"
proof -
  obtain r st1 es where e: "AT_ensure alloc ip now st = Inr (r, st1, es)" "at_inv st1" "same_conf st st1" "gives_up st st1 es"
      "queue ip st1 = queue ip st" "r = None \<or> r = AT_find ip st1"
    using AT_ensure_ok [OF i] by blast
  obtain ps where ps: "es = map Kill ps" "mset (queued (at_age st)) = mset ps + mset (queued (at_age st1))"
    using e(4) by (auto simp: gives_up_def)
  show ?thesis
  proof (cases r)
    case None
    then have "\<not> alloc" using e(1) by (auto simp: AT_ensure_def Let_def res_bind_eq_Inr_iff split: option.splits if_splits)
    then show ?thesis using None e ps by (auto simp: AT_insert_def conserves_def gives_up_def)
  next
    case (Some ae)
    then have f: "AT_find ip st1 = Some ae" using e(6) by simp
    define new where "new = ae\<lparr>ae_eth := eth, ae_known := (eth \<noteq> ether_broadcast), ae_live_at_j := now, ae_num_polls := 0,
      ae_polled_at_j := now - CLICK_HZ, ae_packets := (if head then [] else ae_packets ae),
      ae_packet_count := (if head then 0 else ae_packet_count ae)\<rparr>"
    define st2 where "st2 = st1\<lparr>at_packet_count := at_packet_count st1 - (if head then ae_packet_count ae else 0)\<rparr>"
    define st' where "st' = (if ae_ip (last (at_age st2)) \<noteq> ip
      then st2\<lparr>at_age := filter (\<lambda>e. ae_ip e \<noteq> ip) (at_age st2) @ [new]\<rparr> else AT_put new st2)"
    note g = AT_insert_entry [OF e(2) f l, where now = now and head = head, folded new_def st2_def, folded st'_def]
    have d: "distinct (map ae_ip (at_age st1))" using e(2) by (simp add: at_inv_def at_counts_def)
    have q: "queue ip st1 = ae_packets ae" using f by (simp add: queue_def)
    have "AT_insert alloc now ip eth head st = Inr (0, if head then ae_packets ae else [], st', es)"
      by (cases head) (simp_all add: AT_insert_def e(1) Some Let_def st'_def st2_def new_def)
    moreover have "ae_ip new = ip" using find_ip_Some [OF f] by (simp add: new_def)
    then have "AT_find ip st' = Some new" using replaced_facts(5) [OF g(1) d, of ip] by (simp add: AT_find_def)
    moreover from this have "queue ip st' = (if head then [] else queue ip st)" using q e(5) by (simp add: queue_def new_def)
    moreover have "conserves st [] (if head then ae_packets ae else []) st' es"
      unfolding conserves_def using ps replaced_facts(4) [OF g(1) d]
      by (intro exI [of _ ps]) (auto simp: new_def ac_simps split: if_splits)
    moreover have "\<exists>k. queue ip' st' = drop k (queue ip' st)" if "ip' \<noteq> ip" for ip'
      using queue_replaced [OF g(1) d, of ip'] e(4) that \<open>ae_ip new = ip\<close> by (simp add: gives_up_def)
    moreover have "same_conf st st'" using e(3) g(3) by (simp add: same_conf_def)
    ultimately show ?thesis using g(2) q e(5) by (auto simp: new_def)
  qed
qed
lemma slimmed_keeps:
  assumes s: "slimmed now 0 st st' es" and d: "distinct (map ae_ip (at_age st))" and b: "at_bounds st"
    and f: "AT_find ip st = Some ae" "\<not> AE_expired now (at_timeout_j st) ae"
  shows "\<exists>ae'. AT_find ip st' = Some ae' \<and> trimmed ae ae'"
proof -
  obtain k where k: "k \<le> length (at_age st)" "list_all2 trimmed (drop k (at_age st)) (at_age st')"
      "\<forall>j < k. AE_expired now (at_timeout_j st) (at_age st ! j) \<or>
        at_entry_capacity st \<noteq> 0 \<and> length (at_age st) + 0 - j > unat (at_entry_capacity st)"
    using s unfolding slimmed_def by blast
  have "\<not> (\<exists>i < k. i < length (at_age st) \<and> ae_ip (at_age st ! i) = ip)"
  proof
    assume "\<exists>i < k. i < length (at_age st) \<and> ae_ip (at_age st ! i) = ip"
    then obtain i where i: "i < k" "i < length (at_age st)" "ae_ip (at_age st ! i) = ip" by blast
    then have "at_age st ! i = ae"
      using find_ip_iff [OF d, of ip "at_age st ! i"] f(1) by (simp add: AT_find_def)
    then show False using k(3) i(1) f(2) b by (force simp: at_bounds_def)
  qed
  then have "find (\<lambda>e. ae_ip e = ip) (drop k (at_age st)) = Some ae"
    using find_drop [OF d, of ip k] f(1) by (simp only: AT_find_def if_False)
  then show ?thesis using find_trimmed [OF k(2), of ip] by (auto simp: AT_find_def elim: option.rel_cases)
qed

text \<open>The space \<open>append_query\<close> makes for a packet already counted; the entry of the packet stays.\<close>

lemma AT_packet_room:
  assumes c: "at_counts 1 0 st" "at_bounds st" and f: "AT_find ip st = Some ae" "\<not> AE_expired now (at_timeout_j st) ae"
  shows "\<exists>st' es ae'. (if at_packet_capacity st \<noteq> 0 \<and> at_packet_count st > at_packet_capacity st then AT_slim now st
        else Inr (st, [])) = Inr (st', es) \<and> at_counts 1 0 st' \<and> same_conf st st' \<and> gives_up st st' es \<and>
    AT_find ip st' = Some ae' \<and> trimmed ae ae' \<and>
    (at_entry_capacity st \<noteq> 0 \<longrightarrow> length (at_age st') \<le> unat (at_entry_capacity st)) \<and>
    (at_packet_capacity st \<noteq> 0 \<longrightarrow> length (queued (at_age st')) + 1 \<le> unat (at_packet_capacity st))"
proof (cases "at_packet_capacity st \<noteq> 0 \<and> at_packet_count st > at_packet_capacity st")
  case True
  have d: "distinct (map ae_ip (at_age st))" using c(1) by (simp add: at_counts_def)
  obtain st' es where s: "AT_slim now st = Inr (st', es)" "at_counts 1 0 st'" "same_conf st st'" "slimmed now 0 st st' es"
      "at_entry_capacity st \<noteq> 0 \<longrightarrow> length (at_age st') + 0 \<le> unat (at_entry_capacity st)"
      "at_packet_capacity st \<noteq> 0 \<longrightarrow> length (queued (at_age st')) + 1 \<le> unat (at_packet_capacity st)"
    using AT_slim_ok [OF c(1) _ _ c(2), of now] by auto
  then show ?thesis
    using True slimmed_gives_up [OF s(4) d] slimmed_keeps [OF s(4) d c(2) f] by auto
next
  case False
  have "length (queued (at_age st)) + 1 \<le> unat (at_packet_capacity st)" if e: "at_packet_capacity st \<noteq> 0"
  proof -
    have n: "length (queued (at_age st)) + 1 < 4294967296"
      using e c below_max [of "at_packet_capacity st"] by (simp add: at_bounds_def at_counts_def)
    have "\<not> (of_nat (length (queued (at_age st)) + 1) :: u32) > at_packet_capacity st"
      using False e c(1) unfolding at_counts_def by metis
    then show ?thesis by (simp only: of_nat_gt_iff [OF n] not_less)
  qed
  moreover have "(if at_packet_capacity st \<noteq> 0 \<and> at_packet_count st > at_packet_capacity st then AT_slim now st
      else Inr (st, [])) = Inr (st, [])" using False by (simp only: if_False)
  ultimately show ?thesis
    using c f(1) gives_up_refl [of st st] trimmed_refl unfolding at_bounds_def same_conf_def by blast
qed

lemma AT_append_entry:
  assumes c: "at_counts 1 0 st" and f: "AT_find ip st = Some ae" and new: "ae_ip new = ip" "ae_packets new = ae_packets ae @ [p]"
      "ae_packet_count new = ae_packet_count ae + 1" "ae_eth new = ae_eth ae" "ae_known new = ae_known ae"
    and b: "at_entry_capacity st \<noteq> 0 \<longrightarrow> length (at_age st) \<le> unat (at_entry_capacity st)"
      "at_packet_capacity st \<noteq> 0 \<longrightarrow> length (queued (at_age st)) + 1 \<le> unat (at_packet_capacity st)"
      "at_entry_packet_capacity st \<noteq> 0 \<longrightarrow> length (ae_packets ae) < unat (at_entry_packet_capacity st)"
  shows "at_inv (AT_put new st)" "queue ip (AT_put new st) = queue ip st @ [p]" "ip' \<noteq> ip \<Longrightarrow> queue ip' (AT_put new st) = queue ip' st"
    "mset (queued (at_age (AT_put new st))) = add_mset p (mset (queued (at_age st)))"
proof -
  have a: "ae \<in> set (at_age st)" "ae_ip ae = ip" using find_ip_Some [OF f] by simp_all
  have d: "distinct (map ae_ip (at_age st))" and ok: "entry_ok (at_entry_packet_capacity st) ae"
    using c a by (auto simp: at_counts_def)
  have r: "replaced ae new (at_age st) (at_age (AT_put new st))" using replaced_put [OF d a(1)] new(1) a(2) by simp
  show q: "mset (queued (at_age (AT_put new st))) = add_mset p (mset (queued (at_age st)))"
    using replaced_facts(4) [OF r d] new(2) by simp
  have "entry_ok (at_entry_packet_capacity st) new" using ok new(2-5) b(3) by (auto simp: entry_ok_def)
  from at_counts_replaced [OF c r this, of 0] have "at_counts 0 0 (AT_put new st)"
    using new(2) by (simp add: AT_put_def)
  moreover have "length (queued (at_age (AT_put new st))) = length (queued (at_age st)) + 1" using arg_cong [OF q, of size] by simp
  then have "at_bounds (AT_put new st)" using b(1,2) by (simp add: at_bounds_def AT_put_def)
  ultimately show "at_inv (AT_put new st)" by (simp add: at_inv_def)
  show "queue ip (AT_put new st) = queue ip st @ [p]" "ip' \<noteq> ip \<Longrightarrow> queue ip' (AT_put new st) = queue ip' st"
    using queue_replaced [OF r d] new(1,2) f by (simp_all add: queue_def [of ip st])
qed
lemma keep_alive_inv:
  assumes i: "at_inv st" and f: "AT_find ip st = Some ae" and k: "AT_keep_alive now ae st = (ae', st')"
  shows "at_inv st'" "same_conf st st'" "AT_find ip st' = Some ae'" "gives_up st st' []" "queue ip' st' = queue ip' st"
    "ae_packets ae' = ae_packets ae" "ae_packet_count ae' = ae_packet_count ae" "\<not> AE_expired now (at_timeout_j st') ae'"
    "AE_allow_poll now' ae' = AE_allow_poll now' ae"
proof -
  have a: "ae \<in> set (at_age st)" "ae_ip ae = ip" using find_ip_Some [OF f] by simp_all
  have c: "at_counts 0 0 st" "distinct (map ae_ip (at_age st))" "entry_ok (at_entry_packet_capacity st) ae"
    using i a by (auto simp: at_inv_def at_counts_def)
  note r = AT_keep_alive_replaced [OF c(2) a(1) k]
  obtain t where t: "ae' = ae\<lparr>ae_live_at_j := t\<rparr>" using r(3) by metis
  show p: "ae_packets ae' = ae_packets ae" "ae_packet_count ae' = ae_packet_count ae" by (simp_all add: t)
  show "AE_allow_poll now' ae' = AE_allow_poll now' ae" by (simp add: t AE_allow_poll_def)
  have ip: "ae_ip ae' = ip" using a(2) by (simp add: t)
  have "at_counts 0 0 (st\<lparr>at_age := at_age st'\<rparr>)"
    by (rule at_counts_replaced [OF c(1) r(1)]) (use c(3) in \<open>simp_all add: entry_ok_def t\<close>)
  then have "at_counts 0 0 st'" using r(2) by simp
  moreover have m: "mset (queued (at_age st')) = mset (queued (at_age st))" using replaced_facts(4) [OF r(1) c(2)] p by simp
  have "at_bounds st'"
    using i r(2) replaced_facts(2) [OF r(1) c(2)] mset_eq_length [OF m]
    by (metis ARPTable.select_convs(4,5) ARPTable.surjective ARPTable.update_convs(1) at_bounds_def at_inv_def)
  ultimately show "at_inv st'" by (simp add: at_inv_def)
  show sc: "same_conf st st'" by (subst r(2)) (simp add: same_conf_def)
  show "AT_find ip st' = Some ae'" using replaced_facts(5) [OF r(1) c(2), of ip] ip by (simp add: AT_find_def)
  show q: "queue ip' st' = queue ip' st" for ip'
    using queue_replaced [OF r(1) c(2), of ip'] ip p f by (simp add: queue_def [of ip'])
  show "gives_up st st' []" using q m by (auto simp: gives_up_def intro!: exI [of _ 0])
  show "\<not> AE_expired now (at_timeout_j st') ae'" using r(4) sc by (simp add: same_conf_def)
qed

text \<open>A packet is either refused, with an error, or becomes the last one of its queue.\<close>

definition appended :: "ipaddr \<Rightarrow> packet \<Rightarrow> ARPTable \<Rightarrow> int \<Rightarrow> ARPTable \<Rightarrow> effect list \<Rightarrow> bool" where
  "appended ip p st r st' es \<longleftrightarrow>
     (if r < 0 then conserves st [] [] st' es \<and> queue ip st' = queue ip st
      else conserves st [p] [] st' es \<and> (\<exists>k. queue ip st' = drop k (queue ip st) @ [p])) \<and>
     (\<forall>ip'. ip' \<noteq> ip \<longrightarrow> (\<exists>k. queue ip' st' = drop k (queue ip' st)))"

lemma gives_up_conserves: "gives_up st st' es \<Longrightarrow> conserves st [] [] st' es"
  by (auto simp: gives_up_def conserves_def)

lemma appended_refused: "gives_up st st' es \<Longrightarrow> queue ip st' = queue ip st \<Longrightarrow> r < 0 \<Longrightarrow> appended ip p st r st' es"
  by (simp add: appended_def gives_up_conserves) (simp add: gives_up_def)

lemma AT_enqueue_ok:
  assumes i: "at_inv st" and f: "AT_find ip st = Some ae" "\<not> AE_expired now (at_timeout_j st) ae"
    and room: "\<not> (at_entry_packet_capacity st \<noteq> 0 \<and> ae_packet_count ae \<ge> at_entry_packet_capacity st)"
  shows "\<exists>r st' es. AT_enqueue now ip p st = Inr (r, st', es) \<and> r = of_bool (AE_allow_poll now ae) \<and> at_inv st' \<and> same_conf st st' \<and>
    appended ip p st r st' es"
proof -
  define st3 where "st3 = st\<lparr>at_packet_count := at_packet_count st + 1\<rparr>"
  have c3: "at_counts 1 0 st3" "at_bounds st3" "same_conf st st3" "AT_find ip st3 = Some ae" "at_age st3 = at_age st"
      "at_timeout_j st3 = at_timeout_j st"
    using i f(1) by (simp_all add: st3_def at_inv_def at_counts_def at_bounds_def same_conf_def AT_find_def)
  have exp: "\<not> AE_expired now (at_timeout_j st3) ae" using f(2) c3(6) by simp
  obtain st4 es ae4 where s: "(if at_packet_capacity st3 \<noteq> 0 \<and> at_packet_count st3 > at_packet_capacity st3
        then AT_slim now st3 else Inr (st3, [])) = Inr (st4, es)" "at_counts 1 0 st4" "same_conf st3 st4"
      "gives_up st3 st4 es" "AT_find ip st4 = Some ae4" "trimmed ae ae4"
      "at_entry_capacity st3 \<noteq> 0 \<longrightarrow> length (at_age st4) \<le> unat (at_entry_capacity st3)"
      "at_packet_capacity st3 \<noteq> 0 \<longrightarrow> length (queued (at_age st4)) + 1 \<le> unat (at_packet_capacity st3)"
    using AT_packet_room [OF c3(1,2,4) exp] by blast
  define ae5 where "ae5 = ae4\<lparr>ae_packets := ae_packets ae4 @ [p], ae_packet_count := ae_packet_count ae4 + 1\<rparr>"
  define new where "new = (if AE_allow_poll now ae5 then AE_mark_poll now ae5 else ae5)"
  have new: "ae_ip new = ip" "ae_packets new = ae_packets ae4 @ [p]" "ae_packet_count new = ae_packet_count ae4 + 1"
      "ae_eth new = ae_eth ae4" "ae_known new = ae_known ae4"
    using find_ip_Some [OF s(5)] by (simp_all add: new_def ae5_def AE_mark_poll_def)
  have ok: "entry_ok (at_entry_packet_capacity st) ae" using i find_ip_Some [OF f(1)] by (auto simp: at_inv_def at_counts_def)
  have cap: "length (ae_packets ae4) < unat (at_entry_packet_capacity st4)" if e: "at_entry_packet_capacity st4 \<noteq> 0"
  proof -
    have "at_entry_packet_capacity st4 = at_entry_packet_capacity st" using c3(3) s(3) by (simp add: same_conf_def)
    then have "ae_packet_count ae < at_entry_packet_capacity st" and n: "length (ae_packets ae) \<le> unat (at_entry_packet_capacity st)"
      using room e ok by (auto simp: entry_ok_def not_le)
    moreover have "unat (ae_packet_count ae) = length (ae_packets ae)"
      using ok n unat_lt_2_32 [of "at_entry_packet_capacity st"]
      by (simp add: entry_ok_def unat_of_nat take_bit_nat_eq_self del: unat_lt_2_32)
    moreover have "length (ae_packets ae4) \<le> length (ae_packets ae)" using s(6) by (auto simp: trimmed_def)
    ultimately show ?thesis using c3(3) s(3) by (simp add: same_conf_def word_less_nat_alt)
  qed
  note A = AT_append_entry [OF s(2,5) new _ _ impI [OF cap]]
  have b4: "at_entry_capacity st4 \<noteq> 0 \<longrightarrow> length (at_age st4) \<le> unat (at_entry_capacity st4)"
      "at_packet_capacity st4 \<noteq> 0 \<longrightarrow> length (queued (at_age st4)) + 1 \<le> unat (at_packet_capacity st4)"
    using s(3,7,8) by (simp_all add: same_conf_def)
  have poll: "AE_allow_poll now ae5 = AE_allow_poll now ae" using s(6) by (auto simp: AE_allow_poll_def ae5_def trimmed_def)
  have run: "AT_enqueue now ip p st = Inr (of_bool (AE_allow_poll now ae), AT_put new st4, es)"
    by (simp add: AT_enqueue_def st3_def [symmetric] s(1,5) Let_def ae5_def [symmetric] new_def poll)
  obtain ps where ps: "es = map Kill ps" "mset (queued (at_age st)) = mset ps + mset (queued (at_age st4))"
    and q: "\<And>ip'. \<exists>k. queue ip' st4 = drop k (queue ip' st)"
    using s(4) c3(5) by (auto simp: gives_up_def queue_def [of _ st3] queue_def [of _ st] AT_find_def [of _ st3] AT_find_def [of _ st])
  have "conserves st [p] [] (AT_put new st4) es"
    unfolding conserves_def using ps A(4) [OF b4] by (intro exI [of _ ps]) simp
  then have "appended ip p st (of_bool (AE_allow_poll now ae)) (AT_put new st4) es"
    using q A(2,3) [OF b4] by (auto simp: appended_def)
  moreover have "same_conf st (AT_put new st4)" using c3(3) s(3) by (simp add: same_conf_def AT_put_def)
  ultimately show ?thesis using run A(1) [OF b4] by simp
qed

lemma appended_after:
  assumes "gives_up st st2 es" and "\<And>ip'. ip' = ip \<Longrightarrow> queue ip' st2 = queue ip' st" and "appended ip p st2 r st' es'" and "0 \<le> r"
  shows "appended ip p st r st' (es @ es')"
proof -
  obtain ps ps' where "es = map Kill ps" "mset (queued (at_age st)) = mset ps + mset (queued (at_age st2))"
      "es' = map Kill ps'" "mset (queued (at_age st2)) + {#p#} = mset ps' + mset (queued (at_age st'))"
    using assms(1,3,4) by (auto simp: gives_up_def appended_def conserves_def)
  then have "conserves st [p] [] st' (es @ es')"
    unfolding conserves_def by (intro exI [of _ "ps @ ps'"]) simp
  moreover have "\<exists>k. queue ip' st' = drop k (queue ip' st)" if "ip' \<noteq> ip" for ip'
  proof -
    have "\<exists>j. queue ip' st2 = drop j (queue ip' st)" "\<exists>k. queue ip' st' = drop k (queue ip' st2)"
      using assms(1,3) that unfolding gives_up_def appended_def by (iprover, iprover)
    then show ?thesis by auto
  qed
  ultimately show ?thesis using assms(2-4) by (auto simp: appended_def)
qed

lemma AT_append_query_ok:
  assumes i: "at_inv st"
  shows "\<exists>r st' es. AT_append_query alloc now ip p st = Inr (r, st', es) \<and> at_inv st' \<and> same_conf st st' \<and>
    appended ip p st r st' es \<and> (r = - EAGAIN \<longrightarrow> (\<exists>ae. AT_find ip st = Some ae \<and> AE_known now (at_timeout_j st) ae)) \<and>
    (AT_find ip st = None \<and> alloc \<longrightarrow> r = 1)"
proof -
  obtain r st1 es where e: "AT_ensure alloc ip now st = Inr (r, st1, es)" "at_inv st1" "same_conf st st1" "gives_up st st1 es"
      "queue ip st1 = queue ip st" "r = None \<or> r = AT_find ip st1"
      "r = (if AT_find ip st = None \<and> alloc then Some (new_ARPEntry ip now) else AT_find ip st)"
    using AT_ensure_ok [OF i] by blast
  show ?thesis
  proof (cases r)
    case None
    then have "\<not> (AT_find ip st = None \<and> alloc)" using e(7) by auto
    then show ?thesis using None e(1-5) appended_refused [OF e(4,5)] by (auto simp: AT_append_query_def ENOMEM_def EAGAIN_def)
  next
    case (Some ae)
    then have f: "AT_find ip st1 = Some ae" using e(6) by simp
    show ?thesis
    proof (cases "AE_known now (at_timeout_j st1) ae")
      case True
      then have "AT_append_query alloc now ip p st = Inr (- EAGAIN, st1, es)" by (simp add: AT_append_query_def e(1) Some)
      moreover have "AT_find ip st = Some ae" "AE_known now (at_timeout_j st) ae"
        using True e(3,7) Some by (auto simp: AE_known_def new_ARPEntry_def same_conf_def split: if_splits)
      ultimately show ?thesis using e(2,3) appended_refused [OF e(4,5)] by (simp add: EAGAIN_def)
    next
      case unknown: False
      obtain ae2 st2 where k: "AT_keep_alive now ae st1 = (ae2, st2)" by fastforce
      note K = keep_alive_inv [OF e(2) f k]
      have g2: "gives_up st st2 es" using gives_up_trans [OF e(4) K(4)] by simp
      have q2: "queue ip st2 = queue ip st" using K(5) e(5) by simp
      have sc2: "same_conf st st2" using e(3) K(2) by (simp add: same_conf_def)
      show ?thesis
      proof (cases "at_entry_packet_capacity st2 \<noteq> 0 \<and> ae_packet_count ae2 \<ge> at_entry_packet_capacity st2")
        case True
        let ?st = "st2\<lparr>at_drops := at_drops st2 + 1\<rparr>"
        have "AT_append_query alloc now ip p st = Inr (- ENOMEM, ?st, es)"
          using True unknown by (simp add: AT_append_query_def e(1) Some k)
        moreover have "at_inv ?st" using K(1) by (simp add: at_inv_def at_counts_def at_bounds_def)
        moreover have "\<not> (AT_find ip st = None \<and> alloc)"
          using True K(7) e(7) Some by (auto simp: new_ARPEntry_def)
        moreover have "gives_up st ?st es" "queue ip ?st = queue ip st"
          using g2 q2 by (simp_all add: gives_up_def queue_def AT_find_def)
        ultimately show ?thesis using appended_refused [of st ?st es ip] sc2 by (auto simp: same_conf_def ENOMEM_def EAGAIN_def)
      next
        case False
        obtain r st' es' where x: "AT_enqueue now ip p st2 = Inr (r, st', es')" "r = of_bool (AE_allow_poll now ae2)" "at_inv st'" "same_conf st2 st'"
            "appended ip p st2 r st' es'"
          using AT_enqueue_ok [OF K(1,3,8) False] by blast
        have "AT_append_query alloc now ip p st = Inr (r, st', es @ es')"
          using False unknown x(1) by (auto simp: AT_append_query_def e(1) Some k)
        moreover have "appended ip p st r st' (es @ es')" using appended_after [OF g2 _ x(5)] q2 x(2) by simp
        moreover have "AE_allow_poll now ae2" if "AT_find ip st = None \<and> alloc"
          using that K(9) e(7) Some
          by (auto simp: new_ARPEntry_def AE_allow_poll_def CLICK_HZ_def click_jiffies_less_def)
        ultimately show ?thesis using x(2-4) sc2 by (auto simp: same_conf_def EAGAIN_def)
      qed
    qed
  qed
qed
text \<open>
  When a packet is refused (no memory for a new entry, or as many packets wait already as may), and when the caller is to ask:
  the first time, and later after a tenth of a second, or after two seconds once ten questions have had no answer.
\<close>

definition at_refuses :: "bool \<Rightarrow> ipaddr \<Rightarrow> ARPTable \<Rightarrow> bool" where
  "at_refuses alloc ip st \<longleftrightarrow>
     (case AT_find ip st of
        None \<Rightarrow> \<not> alloc
      | Some ae \<Rightarrow> at_entry_packet_capacity st \<noteq> 0 \<and> unat (at_entry_packet_capacity st) \<le> length (queue ip st))"

definition ae_may_ask :: "u32 \<Rightarrow> ARPEntry \<Rightarrow> bool" where
  "ae_may_ask now ae \<longleftrightarrow> 0 \<le> sint (now - (ae_polled_at_j ae + (if 10 \<le> ae_num_polls ae then 2000 else 100)))"

definition at_may_ask :: "u32 \<Rightarrow> ipaddr \<Rightarrow> ARPTable \<Rightarrow> bool" where
  "at_may_ask now ip st \<longleftrightarrow> (case AT_find ip st of None \<Rightarrow> True | Some ae \<Rightarrow> ae_may_ask now ae)"

lemma ae_may_ask_iff: "AE_allow_poll now ae = ae_may_ask now ae"
  by (simp add: AE_allow_poll_def ae_may_ask_def click_jiffies_less_def CLICK_HZ_def not_less)

lemma at_full_iff:
  assumes "at_inv st" and "AT_find ip st = Some ae"
  shows "at_entry_packet_capacity st \<noteq> 0 \<and> at_entry_packet_capacity st \<le> ae_packet_count ae \<longleftrightarrow>
    at_entry_packet_capacity st \<noteq> 0 \<and> unat (at_entry_packet_capacity st) \<le> length (queue ip st)"
proof (cases "at_entry_packet_capacity st = 0")
  case False
  have ok: "entry_ok (at_entry_packet_capacity st) ae"
    using assms find_ip_Some [OF assms(2)] by (auto simp: at_inv_def at_counts_def)
  then have "unat (ae_packet_count ae) = length (ae_packets ae)"
    using False unat_lt_2_32 [of "at_entry_packet_capacity st"]
    by (simp add: entry_ok_def unat_of_nat take_bit_nat_eq_self del: unat_lt_2_32)
  then show ?thesis using False assms(2) by (simp add: queue_def word_le_nat_alt)
qed simp

lemma AT_append_query_decides:
  assumes i: "at_inv st" and a: "AT_append_query alloc now ip p st = Inr (r, st', es)"
  shows "if \<exists>ae. AT_find ip st = Some ae \<and> AE_known now (at_timeout_j st) ae then r = - EAGAIN \<and> st' = st \<and> es = []
    else r = (if at_refuses alloc ip st then - ENOMEM else of_bool (at_may_ask now ip st))"
proof (cases "AT_find ip st")
  case None
  then show ?thesis
    using AT_append_query_ok [OF i, of alloc now ip p] a
    by (cases alloc) (auto simp: at_refuses_def at_may_ask_def AT_append_query_def AT_ensure_def)
next
  case (Some ae)
  show ?thesis
  proof (cases "AE_known now (at_timeout_j st) ae")
    case True
    then show ?thesis using a Some by (simp add: AT_append_query_def AT_ensure_def)
  next
    case unknown: False
    obtain ae2 st2 where k: "AT_keep_alive now ae st = (ae2, st2)" by fastforce
    note K = keep_alive_inv [OF i Some k]
    have full: "at_entry_packet_capacity st2 \<noteq> 0 \<and> at_entry_packet_capacity st2 \<le> ae_packet_count ae2 \<longleftrightarrow> at_refuses alloc ip st"
      using at_full_iff [OF i Some] K(2,7) Some by (simp add: at_refuses_def same_conf_def)
    show ?thesis
    proof (cases "at_refuses alloc ip st")
      case True
      then show ?thesis using a Some unknown k full by (auto simp: AT_append_query_def AT_ensure_def)
    next
      case False
      have "\<exists>st' es. AT_enqueue now ip p st2 = Inr (of_bool (AE_allow_poll now ae2), st', es)"
        using AT_enqueue_ok [OF K(1,3,8)] False full by blast
      then show ?thesis using a Some unknown k full False K(9)
        by (auto simp: AT_append_query_def AT_ensure_def at_may_ask_def ae_may_ask_iff)
    qed
  qed
qed

lemma AT_put_same:
  assumes i: "at_inv st" and f: "AT_find ip st = Some ae" and new: "ae_ip new = ip" "ae_packets new = ae_packets ae"
    "ae_packet_count new = ae_packet_count ae" "ae_eth new = ae_eth ae" "ae_known new = ae_known ae"
  shows "at_inv (AT_put new st)" "mset (queued (at_age (AT_put new st))) = mset (queued (at_age st))" "same_conf st (AT_put new st)"
    "queue ip' (AT_put new st) = queue ip' st"
proof -
  have a: "ae \<in> set (at_age st)" "ae_ip ae = ip" using find_ip_Some [OF f] by simp_all
  have c: "at_counts 0 0 st" "distinct (map ae_ip (at_age st))" "entry_ok (at_entry_packet_capacity st) ae"
    using i a by (auto simp: at_inv_def at_counts_def)
  have r: "replaced ae new (at_age st) (at_age (AT_put new st))" using replaced_put [OF c(2) a(1)] new(1) a(2) by simp
  show m: "mset (queued (at_age (AT_put new st))) = mset (queued (at_age st))"
    using replaced_facts(4) [OF r c(2)] new(2) by simp
  have "entry_ok (at_entry_packet_capacity st) new" using c(3) new(2-5) by (simp add: entry_ok_def)
  from at_counts_replaced [OF c(1) r this, of 0] have "at_counts 0 0 (AT_put new st)" using new(2) by (simp add: AT_put_def)
  moreover have "at_bounds (AT_put new st)"
    using i mset_eq_length [OF m] by (simp add: at_inv_def at_bounds_def AT_put_def)
  ultimately show "at_inv (AT_put new st)" by (simp add: at_inv_def)
  show "same_conf st (AT_put new st)" by (simp add: same_conf_def AT_put_def)
  show "queue ip' (AT_put new st) = queue ip' st"
    using queue_replaced [OF r c(2), of ip'] new(1,2) f by (simp add: queue_def [of _ st])
qed

lemma AT_lookup_ok:
  assumes i: "at_inv st" and l: "AT_lookup now ip poll_timeout_j st = (r, st')"
  shows "at_inv st' \<and> same_conf st st' \<and> conserves st [] [] st' [] \<and> (\<forall>ip'. queue ip' st' = queue ip' st)"
proof (cases "st' = st")
  case True
  then show ?thesis using i by (simp add: same_conf_def conserves_def)
next
  case False
  then obtain ae where f: "AT_find ip st = Some ae" "st' = AT_put (AE_mark_poll now ae) st"
    using l by (auto simp: AT_lookup_def split: option.splits if_splits)
  have "ae_ip (AE_mark_poll now ae) = ip" using find_ip_Some [OF f(1)] by (simp add: AE_mark_poll_def)
  from AT_put_same [OF i f(1) this] show ?thesis by (simp add: f(2) conserves_def AE_mark_poll_def)
qed

lemma AT_run_timer_ok:
  assumes i: "at_inv st"
  shows "\<exists>st' es. AT_run_timer now st = Inr (st', es) \<and> at_inv st' \<and> same_conf st st' \<and> gives_up st st' es"
proof -
  have c: "at_counts 0 0 st" "at_bounds st" using i by (simp_all add: at_inv_def)
  obtain st1 es where s: "AT_slim now st = Inr (st1, es)" "at_counts 0 0 st1" "same_conf st st1" "slimmed now 0 st st1 es"
      "at_entry_capacity st \<noteq> 0 \<longrightarrow> length (at_age st1) \<le> unat (at_entry_capacity st)"
      "at_packet_capacity st \<noteq> 0 \<longrightarrow> length (queued (at_age st1)) \<le> unat (at_packet_capacity st)"
    using AT_slim_ok [OF c(1) _ _ c(2), of now] by auto
  have i1: "at_inv st1" using s(2,3,5,6) by (simp add: at_inv_def at_bounds_def same_conf_def)
  have g: "gives_up st st1 es" using slimmed_gives_up [OF s(4)] c(1) by (simp add: at_counts_def)
  have t: "at_inv (st1\<lparr>at_timer := t\<rparr>) \<and> same_conf st (st1\<lparr>at_timer := t\<rparr>) \<and> gives_up st (st1\<lparr>at_timer := t\<rparr>) es" for t
    using i1 s(3) g by (simp add: at_inv_def at_counts_def at_bounds_def same_conf_def gives_up_def queue_def AT_find_def)
  show ?thesis using t i1 s(3) g by (auto simp: AT_run_timer_def s(1))
qed

lemma AT_clear_ok:
  assumes i: "at_inv st" and c: "AT_clear st = (st', es)"
  shows "at_inv st' \<and> same_conf st st' \<and> conserves st [] [] st' es \<and> queue ip st' = []"
  using assms by (auto simp: queue_def AT_find_def AT_clear_def Let_def at_inv_def at_counts_def at_bounds_def same_conf_def conserves_def queued_def)

text \<open>An Ethernet address has six bytes.\<close>

fun wf_write :: "arp_write \<Rightarrow> bool" where
  "wf_write (AW_insert IP (Given eth) unread) \<longleftrightarrow> length eth = 6"
| "wf_write _ \<longleftrightarrow> True"

lemma AT_write_handler_ok:
  assumes i: "at_inv st" and w: "wf_write w"
  shows "\<exists>r st' es. AT_write_handler alloc now w st = Inr (r, st', es) \<and> at_inv st' \<and> same_conf st st' \<and>
    conserves st [] [] st' es \<and> (\<forall>ip. \<exists>k. queue ip st' = drop k (queue ip st))"
proof -
  have q0: "\<exists>k. queue ip st = drop k (queue ip st)" for ip by (rule exI [of _ 0]) simp
  have refl: "conserves st [] [] st []" "same_conf st st" by (simp_all add: conserves_def same_conf_def)
  have ins: "\<exists>r st' es. res_bind (AT_insert alloc now ip eth False st) (\<lambda>(_, _, st, es). Inr (0, st, es)) = Inr (r, st', es) \<and>
      at_inv st' \<and> same_conf st st' \<and> conserves st [] [] st' es \<and> (\<forall>ip. \<exists>k. queue ip st' = drop k (queue ip st))"
    if l: "length eth = 6" for ip eth
  proof -
    obtain r ps st' es where a: "AT_insert alloc now ip eth False st = Inr (r, ps, st', es)" "at_inv st'" "same_conf st st'"
        "conserves st [] ps st' es" "ps = []" "queue ip st' = queue ip st"
        "\<And>ip'. ip' \<noteq> ip \<Longrightarrow> \<exists>k. queue ip' st' = drop k (queue ip' st)"
      using AT_insert_ok [OF i l, of alloc now ip False] by auto
    then have "\<exists>k. queue ip' st' = drop k (queue ip' st)" for ip' using q0 [of ip'] by (cases "ip' = ip") auto
    with a show ?thesis by simp
  qed
  show ?thesis
  proof (cases w)
    case (AW_insert IP ETH unread)
    then show ?thesis using ins i w refl q0 by (cases IP; cases ETH; cases unread) (simp_all add: Args_read_m_def)
  next
    case (AW_delete IP unread)
    then show ?thesis using ins [of ether_broadcast] i refl q0 by (cases IP; cases unread) (simp_all add: Args_read_m_def ether_broadcast_def)
  next
    case AW_clear
    obtain st' es where c: "AT_clear st = (st', es)" by fastforce
    have "\<exists>k. queue ip st' = drop k (queue ip st)" for ip
      using AT_clear_ok [OF i c, of ip] by (intro exI [of _ "length (queue ip st)"]) simp
    then show ?thesis using AW_clear AT_clear_ok [OF i c] by (simp add: c)
  qed
qed

section \<open>Runs of the table\<close>

text \<open>
  The calls an element makes on the table, with the outcome of the allocation and the clock; of a packet becomes known whether it
  was freed, handed to the caller or refused (and stays with the caller).
\<close>

datatype arp_event =
    Lookup u32 ipaddr u32
  | Insert bool u32 ipaddr ethaddr bool
  | Append bool u32 ipaddr packet
  | Expire u32
  | Handler bool u32 arp_write

datatype arp_out = Freed effect | Handed packet | Refused packet

fun AT_step :: "arp_event \<Rightarrow> ARPTable \<Rightarrow> (ARPTable \<times> arp_out list) res" where
  "AT_step (Lookup now ip poll_timeout_j) st = Inr (snd (AT_lookup now ip poll_timeout_j st), [])"
| "AT_step (Insert alloc now ip eth head) st =
     res_bind (AT_insert alloc now ip eth head st) (\<lambda>(r, waiting, st, es). Inr (st, map Freed es @ map Handed waiting))"
| "AT_step (Append alloc now ip p) st =
     res_bind (AT_append_query alloc now ip p st) (\<lambda>(r, st, es). Inr (st, map Freed es @ (if r < 0 then [Refused p] else [])))"
| "AT_step (Expire now) st = res_bind (AT_run_timer now st) (\<lambda>(st, es). Inr (st, map Freed es))"
| "AT_step (Handler alloc now w) st = res_bind (AT_write_handler alloc now w st) (\<lambda>(r, st, es). Inr (st, map Freed es))"

fun given :: "arp_event \<Rightarrow> packet multiset" where
  "given (Append alloc now ip p) = {#p#}"
| "given _ = {#}"

fun gone :: "arp_out \<Rightarrow> packet multiset" where
  "gone (Freed (Kill p)) = {#p#}"
| "gone (Freed (Push n p)) = {#}"
| "gone (Handed p) = {#p#}"
| "gone (Refused p) = {#p#}"

text \<open>
  An element that never faults and keeps account of what it is given: every item is held or has left it.
\<close>

locale ledger_element =
  fixes step :: "'ev \<Rightarrow> 's \<Rightarrow> ('s \<times> 'o list) res" and inv :: "'s \<Rightarrow> bool" and ok :: "'ev \<Rightarrow> bool"
    and conf :: "'s \<Rightarrow> 'c" and held :: "'s \<Rightarrow> 'p multiset" and received :: "'ev \<Rightarrow> 'p multiset" and left :: "'o \<Rightarrow> 'p multiset"
  assumes step_ledger: "inv s \<Longrightarrow> ok ev \<Longrightarrow> \<exists>s' out. step ev s = Inr (s', out) \<and> inv s' \<and> conf s' = conf s \<and>
    held s + received ev = sum_list (map left out) + held s'"
begin

lemma run_ledger:
  "inv s \<Longrightarrow> \<forall>ev \<in> set evs. ok ev \<Longrightarrow> \<exists>s' out. run step evs s = Inr (s', out) \<and> inv s' \<and> conf s' = conf s \<and>
    held s + sum_list (map received evs) = sum_list (map left out) + held s'"
proof (induction evs arbitrary: s)
  case (Cons ev evs)
  obtain s1 o1 where 1: "step ev s = Inr (s1, o1)" "inv s1" "conf s1 = conf s"
      "held s + received ev = sum_list (map left o1) + held s1"
    using step_ledger [OF Cons.prems(1), of ev] Cons.prems(2) by auto
  obtain s2 o2 where 2: "run step evs s1 = Inr (s2, o2)" "inv s2" "conf s2 = conf s1"
      "held s1 + sum_list (map received evs) = sum_list (map left o2) + held s2"
    using Cons.IH [OF 1(2)] Cons.prems(2) by auto
  have "held s + (received ev + sum_list (map received evs)) = sum_list (map left o1) + (held s1 + sum_list (map received evs))"
    using 1(4) by (simp add: add.assoc [symmetric])
  then show ?case using 1 2 by (simp add: add.assoc)
qed simp

end

definition at_conf :: "ARPTable \<Rightarrow> u32 \<times> u32 \<times> u32 \<times> u32 \<times> u32" where
  "at_conf st = (at_entry_capacity st, at_packet_capacity st, at_entry_packet_capacity st, at_slim_factor st, at_timeout_j st)"

lemma same_conf_iff: "same_conf st st' \<longleftrightarrow> at_conf st' = at_conf st"
  by (simp add: same_conf_def at_conf_def)

definition waiting :: "ARPTable \<Rightarrow> packet multiset" where
  "waiting st = mset (queued (at_age st))"

lemma gone_mset [simp]:
  "sum_list (map (gone \<circ> (Freed \<circ> Kill)) ps) = mset ps" "sum_list (map (gone \<circ> Freed \<circ> Kill) ps) = mset ps" "sum_list (map (gone \<circ> Handed) ps) = mset ps"
  by (induction ps) simp_all

fun wf_event :: "arp_event \<Rightarrow> bool" where
  "wf_event (Insert alloc now ip eth head) \<longleftrightarrow> length eth = 6"
| "wf_event (Handler alloc now w) \<longleftrightarrow> wf_write w"
| "wf_event _ \<longleftrightarrow> True"

lemma AT_step_ok:
  assumes i: "at_inv st" and w: "wf_event ev"
  shows "\<exists>st' out. AT_step ev st = Inr (st', out) \<and> at_inv st' \<and> same_conf st st' \<and>
    waiting st + given ev = sum_list (map gone out) + waiting st'"
proof (cases ev)
  case (Lookup now ip t)
  then show ?thesis
    using AT_lookup_ok [OF i, of now ip t] by (cases "AT_lookup now ip t st") (auto simp: conserves_def waiting_def)
next
  case (Insert alloc now ip eth head)
  obtain r ps st' es where a: "AT_insert alloc now ip eth head st = Inr (r, ps, st', es)" "at_inv st'" "same_conf st st'"
      "conserves st [] ps st' es" using AT_insert_ok [OF i, of eth alloc now ip head] w Insert by auto
  then show ?thesis using Insert by (auto simp: conserves_def waiting_def)
next
  case (Append alloc now ip p)
  obtain r st' es where a: "AT_append_query alloc now ip p st = Inr (r, st', es)" "at_inv st'" "same_conf st st'"
      "appended ip p st r st' es" using AT_append_query_ok [OF i] by blast
  then show ?thesis using Append by (auto simp: appended_def conserves_def waiting_def split: if_splits)
next
  case (Expire now)
  then show ?thesis using AT_run_timer_ok [OF i, of now] by (auto simp: gives_up_def waiting_def)
next
  case (Handler alloc now w)
  then show ?thesis using AT_write_handler_ok [OF i, of w alloc now] \<open>wf_event ev\<close> by (auto simp: conserves_def waiting_def)
qed

interpretation arp: ledger_element AT_step at_inv wf_event at_conf waiting given gone
  by unfold_locales (use AT_step_ok in \<open>auto simp: same_conf_iff\<close>)
section \<open>Configuration\<close>

lemma AT_configure_ok:
  assumes c: "AT_configure CAPACITY ENTRY_CAPACITY ENTRY_PACKET_CAPACITY CAPACITY_SLIM_FACTOR TIMEOUT unread (new_ARPTable undef) = (0, st)"
    and "CAPACITY \<noteq> Given 0xFFFFFFFF" "ENTRY_CAPACITY \<noteq> Given 0xFFFFFFFF"
  shows "at_inv st" "waiting st = {#}" "Args_read CAPACITY 2048 = Some (at_packet_capacity st)"
    "Args_read ENTRY_CAPACITY 0 = Some (at_entry_capacity st)" "Args_read ENTRY_PACKET_CAPACITY 0 = Some (at_entry_packet_capacity st)"
proof -
  define t where "t = Args_read TIMEOUT (300, 0 :: nat)"
  note d = c [unfolded AT_configure_def t_def [symmetric]]
  obtain pc ec epc sf timeout where r: "Args_read CAPACITY 2048 = Some pc" "Args_read ENTRY_CAPACITY 0 = Some ec"
      "Args_read ENTRY_PACKET_CAPACITY 0 = Some epc" "Args_read CAPACITY_SLIM_FACTOR 2 = Some sf" "t = Some timeout"
    using d by (auto simp: new_ARPTable_def split: option.splits)
  then have s: "st = AT_set_timeout timeout (new_ARPTable undef\<lparr>at_packet_capacity := pc, at_entry_capacity := ec,
      at_entry_packet_capacity := epc, at_slim_factor := sf\<rparr>)\<lparr>at_timer := at_timer st\<rparr>" and "sf \<noteq> 0"
    using d by (auto simp: new_ARPTable_def EINVAL_def AT_set_timeout_def Let_def split: if_splits)
  have pc: "pc \<noteq> 0xFFFFFFFF" "ec \<noteq> 0xFFFFFFFF" using r(1,2) assms(2,3) by (auto simp: Args_read_def split: arg.splits)
  show "at_inv st" "waiting st = {#}" by (subst s, use \<open>sf \<noteq> 0\<close> pc in
    \<open>simp add: at_inv_def at_counts_def at_bounds_def waiting_def AT_set_timeout_def new_ARPTable_def\<close>)+
  show "Args_read CAPACITY 2048 = Some (at_packet_capacity st)"
    "Args_read ENTRY_CAPACITY 0 = Some (at_entry_capacity st)" "Args_read ENTRY_PACKET_CAPACITY 0 = Some (at_entry_packet_capacity st)"
    by (subst s, simp add: r AT_set_timeout_def)+
qed

text \<open>Packets for the examples.\<close>

definition sample_waiting :: "byte \<Rightarrow> packet" where
  "sample_waiting n = \<lparr>p_buf = [n], p_data = 0, p_len = 1, p_mac = None, p_nh = None, p_h = None, p_dst_ip_anno = 0,
     p_use_count = 1, p_data_packet = False\<rparr>"

section \<open>Properties of the table\<close>

text \<open>
  The other calls that change the table: the setters, through which \<^verbatim>\<open>ARPQuerier\<close> reconfigures it, and \<open>take_state\<close> from the
  table of an earlier configuration.
\<close>

datatype arp_op =
    Call arp_event
  | Set_timeout "nat \<times> nat"
  | Set_capacity u32
  | Set_entry_capacity u32
  | Set_entry_packet_capacity u32
  | Set_capacity_slim_factor u32
  | Take_state ARPTable

fun AT_op :: "arp_op \<Rightarrow> ARPTable \<Rightarrow> (ARPTable \<times> arp_out list) res" where
  "AT_op (Call ev) st = AT_step ev st"
| "AT_op (Set_timeout t) st = Inr (AT_set_timeout t st, [])"
| "AT_op (Set_capacity c) st = Inr (AT_set_capacity c st, [])"
| "AT_op (Set_entry_capacity c) st = Inr (AT_set_entry_capacity c st, [])"
| "AT_op (Set_entry_packet_capacity c) st = Inr (AT_set_entry_packet_capacity c st, [])"
| "AT_op (Set_capacity_slim_factor f) st = res_bind (AT_set_capacity_slim_factor f st) (\<lambda>st. Inr (st, []))"
| "AT_op (Take_state old) st = Inr (fst (AT_take_state st old), [])"

text \<open>
  What is asked of such a call: the capacities have room for the entries and packets held, and the slim factor is not
  zero. The examples at the end show that less is not enough.
\<close>

definition at_room :: "ARPEntry list \<Rightarrow> ARPTable \<Rightarrow> bool" where
  "at_room aes st \<longleftrightarrow>
     (at_entry_capacity st = 0 \<or> length aes \<le> unat (at_entry_capacity st)) \<and>
     (at_packet_capacity st = 0 \<or> length (queued aes) \<le> unat (at_packet_capacity st)) \<and>
     (at_entry_packet_capacity st = 0 \<or> list_all (\<lambda>e. length (ae_packets e) \<le> unat (at_entry_packet_capacity st)) aes)"

fun at_fits :: "arp_op \<Rightarrow> ARPTable \<Rightarrow> bool" where
  "at_fits (Call ev) st \<longleftrightarrow> wf_event ev"
| "at_fits (Set_timeout t) st \<longleftrightarrow> True"
| "at_fits (Set_capacity c) st \<longleftrightarrow> c \<noteq> 0xFFFFFFFF \<and> at_room (at_age st) (AT_set_capacity c st)"
| "at_fits (Set_entry_capacity c) st \<longleftrightarrow> c \<noteq> 0xFFFFFFFF \<and> at_room (at_age st) (AT_set_entry_capacity c st)"
| "at_fits (Set_entry_packet_capacity c) st \<longleftrightarrow> at_room (at_age st) (AT_set_entry_packet_capacity c st)"
| "at_fits (Set_capacity_slim_factor f) st \<longleftrightarrow> f \<noteq> 0"
| "at_fits (Take_state old) st \<longleftrightarrow> at_inv old \<and> at_room (at_age old) st"

lemma at_inv_room:
  assumes "at_inv old" and "at_room (at_age old) st" and "at_age st = at_age old" "at_entry_count st = at_entry_count old"
    "at_packet_count st = at_packet_count old" and "at_entry_capacity st \<noteq> 0xFFFFFFFF" "at_packet_capacity st \<noteq> 0xFFFFFFFF"
    "at_slim_factor st \<noteq> 0"
  shows "at_inv st"
proof -
  have "entry_ok (at_entry_packet_capacity st) e" if "e \<in> set (at_age old)" for e
    using assms(1,2) that by (auto simp: at_inv_def at_counts_def entry_ok_def at_room_def list_all_iff)
  with assms show ?thesis by (auto simp: at_inv_def at_counts_def at_bounds_def at_room_def)
qed

lemma AT_op_ok:
  assumes i: "at_inv st" and f: "at_fits op st"
  shows "\<exists>st' out. AT_op op st = Inr (st', out) \<and> at_inv st'"
proof -
  have c: "at_entry_capacity st \<noteq> 0xFFFFFFFF" "at_packet_capacity st \<noteq> 0xFFFFFFFF" "at_slim_factor st \<noteq> 0"
    using i by (simp_all add: at_inv_def at_counts_def)
  show ?thesis
  proof (cases op)
    case (Call ev)
    then show ?thesis using AT_step_ok [OF i, of ev] f by auto
  next
    case (Set_timeout t)
    then show ?thesis using i by (simp add: AT_set_timeout_def at_inv_def at_counts_def at_bounds_def)
  next
    case (Set_capacity n)
    then show ?thesis using at_inv_room [OF i, of "AT_set_capacity n st"] f c by (simp add: AT_set_capacity_def)
  next
    case (Set_entry_capacity n)
    then show ?thesis using at_inv_room [OF i, of "AT_set_entry_capacity n st"] f c by (simp add: AT_set_entry_capacity_def)
  next
    case (Set_entry_packet_capacity n)
    then show ?thesis using at_inv_room [OF i, of "AT_set_entry_packet_capacity n st"] f c
      by (simp add: AT_set_entry_packet_capacity_def)
  next
    case (Set_capacity_slim_factor n)
    then show ?thesis using i f by (simp add: AT_set_capacity_slim_factor_def at_inv_def at_counts_def at_bounds_def)
  next
    case (Take_state old)
    then show ?thesis using i at_inv_room [of old "fst (AT_take_state st old)"] f c
      by (auto simp: AT_take_state_def at_room_def)
  qed
qed

text \<open>A run in which every step is asked for in a state in which it may be.\<close>

fun allowed :: "('ev \<Rightarrow> 's \<Rightarrow> bool) \<Rightarrow> ('ev \<Rightarrow> 's \<Rightarrow> ('s \<times> 'o list) res) \<Rightarrow> 'ev list \<Rightarrow> 's \<Rightarrow> bool" where
  "allowed ok step [] s \<longleftrightarrow> True"
| "allowed ok step (ev # evs) s \<longleftrightarrow>
     ok ev s \<and> (case step ev s of Inl e \<Rightarrow> True | Inr (s', out) \<Rightarrow> allowed ok step evs s')"

locale safe_element =
  fixes step :: "'ev \<Rightarrow> 's \<Rightarrow> ('s \<times> 'o list) res" and inv :: "'s \<Rightarrow> bool" and ok :: "'ev \<Rightarrow> 's \<Rightarrow> bool"
  assumes step_safe: "inv s \<Longrightarrow> ok ev s \<Longrightarrow> \<exists>s' out. step ev s = Inr (s', out) \<and> inv s'"
begin

lemma run_safe: "inv s \<Longrightarrow> allowed ok step evs s \<Longrightarrow> \<exists>s' out. run step evs s = Inr (s', out) \<and> inv s'"
proof (induction evs arbitrary: s)
  case (Cons ev evs)
  obtain s1 o1 where 1: "step ev s = Inr (s1, o1)" "inv s1" using step_safe [OF Cons.prems(1), of ev] Cons.prems(2) by auto
  then show ?case using Cons.IH [OF 1(2)] Cons.prems(2) by auto
qed simp

end

interpretation at: safe_element AT_op at_inv at_fits
  by unfold_locales (rule AT_op_ok)

text \<open>
  C31: Take a table configured with a packet and an entry capacity other than \<open>2 ^ 32 - 1\<close>, and any sequence of lookups,
  insertions, queued packets, timer calls, handler writes, setter calls and \<open>take_state\<close> calls, with whatever clock
  readings and failures of the allocator, in which the setters and \<open>take_state\<close> leave the capacities room for what the table
  holds at that moment. Then no loop runs off the list of entries and no freed entry is used; and afterwards the two counters
  are exact, there is one entry per address, and the capacities now in force for entries, packets and packets per entry hold
  (a capacity of 0 means no limit).
\<close>

theorem arp_table_safe:
  assumes "AT_configure CAPACITY ENTRY_CAPACITY ENTRY_PACKET_CAPACITY CAPACITY_SLIM_FACTOR TIMEOUT unread (new_ARPTable undef) = (0, st)"
    and "CAPACITY \<noteq> Given 0xFFFFFFFF" and "ENTRY_CAPACITY \<noteq> Given 0xFFFFFFFF" and "allowed at_fits AT_op ops st"
  shows "\<exists>st' out. run AT_op ops st = Inr (st', out) \<and> distinct (map ae_ip (at_age st')) \<and>
    at_entry_count st' = of_nat (length (at_age st')) \<and> at_packet_count st' = of_nat (length (queued (at_age st'))) \<and>
    (at_entry_capacity st' \<noteq> 0 \<longrightarrow> length (at_age st') \<le> unat (at_entry_capacity st')) \<and>
    (at_packet_capacity st' \<noteq> 0 \<longrightarrow> length (queued (at_age st')) \<le> unat (at_packet_capacity st')) \<and>
    (\<forall>e \<in> set (at_age st'). ae_packet_count e = of_nat (length (ae_packets e)) \<and>
       (at_entry_packet_capacity st' \<noteq> 0 \<longrightarrow> length (ae_packets e) \<le> unat (at_entry_packet_capacity st')))"
proof -
  obtain st' out where r: "run AT_op ops st = Inr (st', out)" "at_inv st'"
    using at.run_safe [OF AT_configure_ok(1) [OF assms(1-3)] assms(4)] by blast
  then show ?thesis by (simp add: at_inv_def at_counts_def at_bounds_def entry_ok_def)
qed

text \<open>A packet too many for a capacity of one, a second entry, and then a larger capacity.\<close>

definition sample_arp_ops :: "arp_op list" where
  "sample_arp_ops =
     [Call (Append True 7 0x0100A8C0 (sample_waiting 1)), Call (Append True 7 0x0200A8C0 (sample_waiting 2)),
      Set_capacity 2, Set_entry_capacity 2, Call (Append True 7 0x0200A8C0 (sample_waiting 3))]"

theorem arp_table_safe_witness:
  "\<exists>st' out. run AT_op sample_arp_ops
       (snd (AT_configure (Given 1) Absent Absent Absent Absent False (new_ARPTable 0))) = Inr (st', out) \<and>
     at_entry_count st' = of_nat (length (at_age st')) \<and>
     (at_packet_capacity st' \<noteq> 0 \<longrightarrow> length (queued (at_age st')) \<le> unat (at_packet_capacity st'))"
proof -
  let ?st = "snd (AT_configure (Given 1) Absent Absent Absent Absent False (new_ARPTable 0))"
  have "AT_configure (Given 1) Absent Absent Absent Absent False (new_ARPTable 0) = (0, ?st)"
    by (simp add: AT_configure_def Args_read_def new_ARPTable_def AT_set_timeout_def CLICK_HZ_def Let_def)
  moreover have "?st = (new_ARPTable 0)\<lparr>at_packet_capacity := 1, at_timeout_j := 300000, at_timer := After_msec 300000\<rparr>"
    by (simp add: AT_configure_def Args_read_def new_ARPTable_def AT_set_timeout_def CLICK_HZ_def Let_def)
  moreover have "allowed at_fits AT_op sample_arp_ops
      ((new_ARPTable 0)\<lparr>at_packet_capacity := 1, at_timeout_j := 300000, at_timer := After_msec 300000\<rparr>)" by code_simp
  ultimately show ?thesis using arp_table_safe [of "Given 1" Absent Absent Absent Absent False 0 ?st sample_arp_ops] by simp blast
qed

text \<open>
  C32: No packet is lost in the table and none is doubled: after any sequence of calls the packets given to
  \<open>append_query\<close> are those still waiting, those freed, those handed out by \<open>insert\<close> and those refused to the caller.
\<close>

theorem arp_table_conserves:
  assumes "AT_configure CAPACITY ENTRY_CAPACITY ENTRY_PACKET_CAPACITY CAPACITY_SLIM_FACTOR TIMEOUT unread (new_ARPTable undef) = (0, st)"
    and "CAPACITY \<noteq> Given 0xFFFFFFFF" and "ENTRY_CAPACITY \<noteq> Given 0xFFFFFFFF" and "\<forall>ev \<in> set evs. wf_event ev"
  shows "\<exists>st' out. run AT_step evs st = Inr (st', out) \<and>
    sum_list (map given evs) = sum_list (map gone out) + mset (queued (at_age st'))"
  using arp.run_ledger [OF AT_configure_ok(1) [OF assms(1-3)] assms(4)] AT_configure_ok(2) [OF assms(1-3)]
  by (auto simp: waiting_def)

theorem arp_table_conserves_witness:
  "\<exists>st' out. run AT_step [Append True 7 0x0100A8C0 (sample_waiting 1), Insert True 9 0x0100A8C0 [1, 2, 3, 4, 5, 6] True]
     (snd (AT_configure Absent Absent Absent Absent Absent False (new_ARPTable 0))) = Inr (st', out) \<and>
     {#sample_waiting 1#} = sum_list (map gone out) + mset (queued (at_age st'))"
proof -
  let ?st = "snd (AT_configure Absent Absent Absent Absent Absent False (new_ARPTable 0))"
  have "AT_configure Absent Absent Absent Absent Absent False (new_ARPTable 0) = (0, ?st)"
    by (simp add: AT_configure_def Args_read_def new_ARPTable_def AT_set_timeout_def CLICK_HZ_def Let_def)
  from arp_table_conserves [OF this, of "[Append True 7 0x0100A8C0 (sample_waiting 1), Insert True 9 0x0100A8C0 [1, 2, 3, 4, 5, 6] True]"]
  show ?thesis by simp
qed

text \<open>
  The waiting packets of an address form a queue: \<open>append_query\<close> either refuses the packet with an error and leaves the
  queue as it was, or puts it last and gives up at most the oldest ones; of other addresses too only the oldest packets are given
  up.
\<close>

theorem arp_append_fifo:
  assumes "at_inv st"
  shows "\<exists>r st' es. AT_append_query alloc now ip p st = Inr (r, st', es) \<and>
    (if r < 0 then queue ip st' = queue ip st else \<exists>k. queue ip st' = drop k (queue ip st) @ [p]) \<and>
    (\<forall>ip'. ip' \<noteq> ip \<longrightarrow> (\<exists>k. queue ip' st' = drop k (queue ip' st)))"
  using AT_append_query_ok [OF assms, of alloc now ip p] by (auto simp: appended_def split: if_splits)

theorem arp_append_fifo_witness:
  "\<exists>r st' es. AT_append_query True 7 0x0100A8C0 (sample_waiting 1) (new_ARPTable 0) = Inr (r, st', es) \<and>
     (if r < 0 then queue 0x0100A8C0 st' = [] else queue 0x0100A8C0 st' = [sample_waiting 1])"
proof -
  have "at_inv (new_ARPTable 0)" by (simp add: at_inv_def at_counts_def at_bounds_def new_ARPTable_def)
  moreover have "queue 0x0100A8C0 (new_ARPTable 0) = []" by (simp add: queue_def AT_find_def new_ARPTable_def)
  ultimately show ?thesis using arp_append_fifo [of "new_ARPTable 0" True 7 "0x0100A8C0" "sample_waiting 1"] by (auto split: if_splits)
qed

text \<open>
  An answer ends the wait: \<open>insert\<close> hands out exactly the packets that waited for the address, in their order, and a later
  \<open>lookup\<close> finds the Ethernet address until the entry expires; with the broadcast address, by which the \<open>delete\<close> handler
  deletes, it finds nothing.
\<close>

theorem arp_insert_lookup:
  assumes "at_inv st" and "length eth = 6" and "\<not> (click_jiffies_less (now + at_timeout_j st) now' \<and> at_timeout_j st \<noteq> 0)"
  shows "\<exists>st' es. AT_insert True now ip eth True st = Inr (0, queue ip st, st', es) \<and> queue ip st' = [] \<and>
    snd (fst (AT_lookup now' ip poll_timeout_j st')) = (if eth = ether_broadcast then None else Some eth) \<and>
    (0 \<le> fst (fst (AT_lookup now' ip poll_timeout_j st')) \<longleftrightarrow> eth \<noteq> ether_broadcast)"
proof -
  obtain st' es ae where r: "AT_insert True now ip eth True st = Inr (0, queue ip st, st', es)" "same_conf st st'" "queue ip st' = []"
      "AT_find ip st' = Some ae" "ae_eth ae = eth" "ae_known ae = (eth \<noteq> ether_broadcast)" "ae_live_at_j ae = now"
    using AT_insert_ok [OF assms(1,2), of True now ip True] by auto
  have "AE_known now' (at_timeout_j st') ae \<longleftrightarrow> eth \<noteq> ether_broadcast"
    using assms(3) r(2,6,7) by (auto simp: AE_known_def AE_expired_def same_conf_def)
  then show ?thesis using r by (auto simp: AT_lookup_def)
qed

theorem arp_insert_lookup_witness:
  "\<exists>st' es. AT_insert True 7 0x0100A8C0 [1, 2, 3, 4, 5, 6] True (new_ARPTable 0) = Inr (0, [], st', es) \<and>
     snd (fst (AT_lookup 9 0x0100A8C0 0 st')) = Some [1, 2, 3, 4, 5, 6]"
proof -
  have "at_inv (new_ARPTable 0)" by (simp add: at_inv_def at_counts_def at_bounds_def new_ARPTable_def)
  moreover have "queue 0x0100A8C0 (new_ARPTable 0) = []" "at_timeout_j (new_ARPTable 0) = 0" by (simp_all add: queue_def AT_find_def new_ARPTable_def)
  moreover have "[1, 2, 3, 4, 5, 6] \<noteq> ether_broadcast" by code_simp
  ultimately show ?thesis
    using arp_insert_lookup [of "new_ARPTable 0" "[1, 2, 3, 4, 5, 6]" 7 9 "0x0100A8C0" 0] by auto
qed

section \<open>Where the table fails\<close>

text \<open>
  \<open>take_state\<close> does not enforce the capacities of the new table, and neither does \<open>set_entry_capacity\<close>. With a smaller one, the entry that \<open>append_query\<close> works on can
  be freed by \<open>slim\<close> before the packet is put into its queue.
\<close>

definition swapped_in :: "ARPTable \<Rightarrow> ARPTable" where
  "swapped_in old = fst (AT_take_state ((new_ARPTable 0)\<lparr>at_entry_capacity := 1, at_packet_capacity := 1\<rparr>) old)"

lemma arp_take_state_fault:
  "case run AT_step [Append True 7 0x0100A8C0 (sample_waiting 1), Append True 8 0x0200A8C0 (sample_waiting 2)] (new_ARPTable 0) of
     Inl e \<Rightarrow> False
   | Inr (old, out) \<Rightarrow> AT_append_query True 9 0x0100A8C0 (sample_waiting 3) (swapped_in old) = Inl NullPointer"
  by code_simp

lemma arp_entry_capacity_fault:
  "run AT_op [Call (Append True 7 0x0100A8C0 (sample_waiting 1)), Call (Append True 8 0x0200A8C0 (sample_waiting 2)),
      Set_entry_capacity 1, Set_capacity 2, Call (Append True 9 0x0100A8C0 (sample_waiting 3))] (new_ARPTable 0) = Inl NullPointer"
  by code_simp

text \<open>An entry with a timeout of \<open>2 ^ 31\<close> milliseconds or more has expired as soon as it is made.\<close>

lemma arp_long_timeout_expires:
  assumes "sint t < 0" "ae_live_at_j e = now"
  shows "AE_expired now t e"
  using assms by (auto simp: AE_expired_def click_jiffies_less_def)

end
