(* ===== verification/ARP_Querier.thy ===== *)
theory ARP_Querier
  imports ARP_Table IP_Datagram
begin

text \<open>
  \<^verbatim>\<open>click/elements/ethernet/arpquerier.{hh,cc}\<close>, the last element before the link of every router: it puts the Ethernet header
  before a datagram, asks for the address of the next hop and keeps datagrams until the answer arrives.
  Shown: it does not fault, what each datagram leaves as, and that an answer releases what waits for it.
\<close>

unbundle bit_operations_syntax

section \<open>ARP messages\<close>

definition ETHERTYPE_ARP :: u16 where "ETHERTYPE_ARP = 0x0806"

definition ARPHRD_ETHER :: u16 where "ARPHRD_ETHER = 1"

definition ARPOP_REQUEST :: u16 where "ARPOP_REQUEST = 1"

definition ARPOP_REPLY :: u16 where "ARPOP_REPLY = 2"

record click_ether_arp =
  ar_hrd :: u16
  ar_pro :: u16
  ar_hln :: byte
  ar_pln :: byte
  ar_op :: u16
  arp_sha :: ethaddr
  arp_spa :: ipaddr
  arp_tha :: ethaddr
  arp_tpa :: ipaddr

definition enc_arp :: "click_ether_arp \<Rightarrow> byte list" where
  "enc_arp a =
     u16_bytes (ar_hrd a) @ u16_bytes (ar_pro a) @ [ar_hln a, ar_pln a] @ u16_bytes (ar_op a) @
     arp_sha a @ u32_bytes (arp_spa a) @ arp_tha a @ u32_bytes (arp_tpa a)"

definition dec_arp :: "byte list \<Rightarrow> click_ether_arp" where
  "dec_arp bs =
     \<lparr>ar_hrd = le16 (bs ! 0) (bs ! 1), ar_pro = le16 (bs ! 2) (bs ! 3), ar_hln = bs ! 4, ar_pln = bs ! 5,
      ar_op = le16 (bs ! 6) (bs ! 7), arp_sha = chunk 8 6 bs,
      arp_spa = le32 (bs ! 14) (bs ! 15) (bs ! 16) (bs ! 17), arp_tha = chunk 18 6 bs,
      arp_tpa = le32 (bs ! 24) (bs ! 25) (bs ! 26) (bs ! 27)\<rparr>"

definition sizeof_ether_arp :: nat where "sizeof_ether_arp = 28"

definition default_headroom :: nat where "default_headroom = 28"

definition push_mac_header :: "allocator \<Rightarrow> nat \<Rightarrow> packet \<Rightarrow> packet res option" where
  "push_mac_header mem len p = map_option (\<lambda>q. set_mac_header (p_data q) len q) (pkt_push mem len p)"

definition is_group :: "ethaddr \<Rightarrow> bool" where
  "is_group a \<longleftrightarrow> a ! 0 AND 1 \<noteq> 0"

section \<open>The querier\<close>

text \<open>\<open>aq_table\<close> is the state of the table \<open>_arpt\<close> points to, which is the element's own if \<open>aq_my_arpt\<close> is set.\<close>

record ARPQuerier =
  aq_table :: ARPTable
  aq_my_en :: ethaddr
  aq_my_ip :: ipaddr
  aq_my_bcast_ip :: ipaddr
  aq_poll_timeout_j :: u32
  aq_broadcast_poll :: bool
  aq_arp_queries :: u32
  aq_drops :: u32
  aq_arp_responses :: u32
  aq_my_arpt :: bool
  aq_zero_warned :: bool
  aq_noutputs :: nat

subsection \<open>Configuration\<close>

definition AQ_poll_timeout :: "nat \<times> nat \<Rightarrow> u32" where
  "AQ_poll_timeout t =
     (if (of_nat (fst t) :: u32) \<ge> 0xFFFFFFFF div CLICK_HZ then 0 else of_nat (fst t * 1000 + snd t))"

definition AQ_broadcast_ip :: "ipaddr \<Rightarrow> ipaddr \<Rightarrow> ipaddr" where
  "AQ_broadcast_ip my_ip my_mask =
     (let bcast = my_ip OR NOT my_mask in if bcast = my_ip then 0xFFFFFFFF else bcast)"

text \<open>
  The keyword arguments and those for address and Ethernet address. \<open>TABLE\<close> names a table of another element; \<open>undef\<close> is what
  the constructor of an own table leaves in \<open>_timeout_j\<close>. \<open>unread\<close> says that arguments are left over.
\<close>

record arpq_args =
  a_capacity :: "u32 arg"
  a_entry_capacity :: "u32 arg"
  a_entry_packet_capacity :: "u32 arg"
  a_slim_factor :: "u32 arg"
  a_timeout :: "(nat \<times> nat) arg"
  a_broadcast :: "ipaddr arg"
  a_poll_timeout :: "(nat \<times> nat) arg"
  a_broadcast_poll :: "bool arg"
  a_ip :: "(ipaddr \<times> ipaddr) arg"
  a_eth :: "ethaddr arg"
  a_unread :: bool

definition given_arg :: "'a arg \<Rightarrow> 'a option" where
  "given_arg a = (case a of Given x \<Rightarrow> Some x | _ \<Rightarrow> None)"

definition arpq_keywords_ok :: "arpq_args \<Rightarrow> bool" where
  "arpq_keywords_ok a \<longleftrightarrow>
     a_capacity a \<noteq> Malformed \<and> a_entry_capacity a \<noteq> Malformed \<and> a_entry_packet_capacity a \<noteq> Malformed \<and>
     a_slim_factor a \<noteq> Malformed \<and> a_timeout a \<noteq> Malformed \<and> a_broadcast a \<noteq> Malformed \<and>
     a_poll_timeout a \<noteq> Malformed \<and> a_broadcast_poll a \<noteq> Malformed"

definition AQ_configure :: "u32 \<Rightarrow> arpq_args \<Rightarrow> ARPTable arg \<Rightarrow> ARPQuerier \<Rightarrow> int \<times> ARPQuerier" where
  "AQ_configure undef a TABLE st =
     (if \<not> arpq_keywords_ok a \<or> TABLE = Malformed then (-1, st)
      else
      let st = (case given_arg (a_broadcast a) of Some b \<Rightarrow> st\<lparr>aq_my_bcast_ip := b\<rparr> | None \<Rightarrow> st);
          st = (case given_arg TABLE of
                  Some t \<Rightarrow> st\<lparr>aq_table := t\<rparr>
                | None \<Rightarrow>
                    st\<lparr>aq_table := snd (AT_configure (a_capacity a) (a_entry_capacity a) (a_entry_packet_capacity a)
                         (a_slim_factor a) (a_timeout a) False (new_ARPTable undef)), aq_my_arpt := True\<rparr>) in
      case (Args_read_m (a_ip a), Args_read_m (a_eth a)) of
        (Some (my_ip, my_mask), Some my_en) \<Rightarrow>
          if a_unread a then (-1, st)
          else
          (0, st\<lparr>aq_my_ip := my_ip, aq_my_en := my_en,
                 aq_my_bcast_ip := (case given_arg (a_broadcast a) of Some b \<Rightarrow> b | None \<Rightarrow> AQ_broadcast_ip my_ip my_mask),
                 aq_broadcast_poll := (case given_arg (a_broadcast_poll a) of Some b \<Rightarrow> b | None \<Rightarrow> False),
                 aq_poll_timeout_j :=
                   AQ_poll_timeout (case given_arg (a_poll_timeout a) of Some t \<Rightarrow> t | None \<Rightarrow> (60, 0))\<rparr>)
      | _ \<Rightarrow> (-1, st))"

definition AQ_reconfigure_table :: "arpq_args \<Rightarrow> ARPTable \<Rightarrow> ARPTable res" where
  "AQ_reconfigure_table a t =
     (let t = (case given_arg (a_capacity a) of Some c \<Rightarrow> AT_set_capacity c t | None \<Rightarrow> t);
          t = (case given_arg (a_entry_capacity a) of Some c \<Rightarrow> AT_set_entry_capacity c t | None \<Rightarrow> t);
          t = (case given_arg (a_entry_packet_capacity a) of Some c \<Rightarrow> AT_set_entry_packet_capacity c t | None \<Rightarrow> t) in
      res_bind (case given_arg (a_slim_factor a) of Some f \<Rightarrow> AT_set_capacity_slim_factor f t | None \<Rightarrow> Inr t) (\<lambda>t.
      Inr (case given_arg (a_timeout a) of Some x \<Rightarrow> AT_set_timeout x t | None \<Rightarrow> t)))"

definition AQ_live_reconfigure :: "arpq_args \<Rightarrow> ARPQuerier \<Rightarrow> (int \<times> ARPQuerier \<times> effect list) res" where
  "AQ_live_reconfigure a st =
     (if \<not> arpq_keywords_ok a then Inr (-1, st, [])
      else
      case (Args_read_m (a_ip a), Args_read_m (a_eth a)) of
        (Some (my_ip, my_mask), Some my_en) \<Rightarrow>
          if a_unread a then Inr (-1, st, [])
          else if given_arg (a_slim_factor a) = Some 0 then Inr (- EINVAL, st, [])
          else
          let (table, es) =
                (if (my_ip \<noteq> aq_my_ip st \<or> my_en \<noteq> aq_my_en st) \<and> aq_my_arpt st then AT_clear (aq_table st)
                 else (aq_table st, [])) in
          res_bind (if aq_my_arpt st then AQ_reconfigure_table a table else Inr table) (\<lambda>table.
          Inr (0, st\<lparr>aq_table := table, aq_my_ip := my_ip, aq_my_en := my_en,
                     aq_my_bcast_ip := (case given_arg (a_broadcast a) of Some b \<Rightarrow> b | None \<Rightarrow> AQ_broadcast_ip my_ip my_mask),
                     aq_broadcast_poll :=
                       (case given_arg (a_broadcast_poll a) of Some b \<Rightarrow> b | None \<Rightarrow> aq_broadcast_poll st),
                     aq_poll_timeout_j :=
                       AQ_poll_timeout (case given_arg (a_poll_timeout a) of Some t \<Rightarrow> t
                         | None \<Rightarrow> (unat (aq_poll_timeout_j st div CLICK_HZ), unat (aq_poll_timeout_j st mod CLICK_HZ)))\<rparr>, es))
      | _ \<Rightarrow> Inr (-1, st, []))"

definition AQ_initialize :: "ARPQuerier \<Rightarrow> ARPQuerier" where
  "AQ_initialize st = st\<lparr>aq_arp_queries := 0, aq_drops := 0, aq_arp_responses := 0\<rparr>"

definition AQ_cleanup :: "ARPQuerier \<Rightarrow> effect list" where
  "AQ_cleanup st = (if aq_my_arpt st then snd (AT_clear (aq_table st)) else [])"

definition AQ_take_state :: "ARPQuerier \<Rightarrow> ARPQuerier \<Rightarrow> ARPQuerier \<times> ARPQuerier" where
  "AQ_take_state st arpq =
     (if aq_my_ip st \<noteq> aq_my_ip arpq \<or> aq_my_en st \<noteq> aq_my_en arpq \<or> aq_my_bcast_ip st \<noteq> aq_my_bcast_ip arpq
      then (st, arpq)
      else
      let (t, t') = (if aq_my_arpt st \<and> aq_my_arpt arpq then AT_take_state (aq_table st) (aq_table arpq)
                     else (aq_table st, aq_table arpq)) in
      (st\<lparr>aq_table := t, aq_arp_queries := aq_arp_queries arpq, aq_drops := aq_drops arpq,
          aq_arp_responses := aq_arp_responses arpq\<rparr>, arpq\<lparr>aq_table := t'\<rparr>))"

subsection \<open>Questions\<close>

text \<open>\<open>send_query_for\<close>: the packet that is asked for only lends its annotation and its Ethernet destination.\<close>

definition AQ_send_query_for :: "allocator \<Rightarrow> packet \<Rightarrow> bool \<Rightarrow> ARPQuerier \<Rightarrow> (effect list \<times> ARPQuerier) res" where
  "AQ_send_query_for mem p ether_dhost_valid st =
     (case Packet_make mem (default_headroom - sizeof_ether) None (sizeof_ether + sizeof_ether_arp) 0 of
        None \<Rightarrow> Inr ([], st)
      | Some q \<Rightarrow>
          res_bind (set_ether_header (p_data q) q) (\<lambda>q.
          res_bind (if ether_dhost_valid \<and> \<not> aq_broadcast_poll st then res_bind (deref (p_mac p)) (\<lambda>m. rd p m 6)
                    else Inr (replicate 6 0xFF)) (\<lambda>dhost.
          res_bind (wr q (p_data q)
             (enc_ether \<lparr>ether_dhost = dhost, ether_shost = aq_my_en st, ether_type = htons ETHERTYPE_ARP\<rparr> @
              enc_arp \<lparr>ar_hrd = htons ARPHRD_ETHER, ar_pro = htons ETHERTYPE_IP, ar_hln = 6, ar_pln = 4,
                       ar_op = htons ARPOP_REQUEST, arp_sha = aq_my_en st, arp_spa = aq_my_ip st,
                       arp_tha = replicate 6 0, arp_tpa = p_dst_ip_anno p\<rparr>)) (\<lambda>q.
          Inr ([Push (aq_noutputs st - 1) q], st\<lparr>aq_arp_queries := aq_arp_queries st + 1\<rparr>)))))"

subsection \<open>Datagrams\<close>

definition AQ_emit :: "packet \<Rightarrow> ARPQuerier \<Rightarrow> effect list res" where
  "AQ_emit q st =
     res_bind (deref (p_mac q)) (\<lambda>m.
     res_bind (wr q (m + 6) (aq_my_en st)) (\<lambda>q.
     Inr [Push 0 q]))"

text \<open>The Ethernet destination is written and the packet sent.\<close>

definition AQ_emit_to :: "ethaddr \<Rightarrow> packet \<Rightarrow> ARPQuerier \<Rightarrow> (effect list \<times> ARPQuerier) res" where
  "AQ_emit_to dst_eth q st =
     res_bind (deref (p_mac q)) (\<lambda>m.
     res_bind (wr q m dst_eth) (\<lambda>q.
     res_bind (AQ_emit q st) (\<lambda>es.
     Inr (es, st))))"

definition AQ_emit_known :: "allocator \<Rightarrow> int \<Rightarrow> ethaddr \<Rightarrow> packet \<Rightarrow> ARPQuerier \<Rightarrow> (effect list \<times> ARPQuerier) res" where
  "AQ_emit_known mem r dst_eth q st =
     res_bind (deref (p_mac q)) (\<lambda>m.
     res_bind (wr q m dst_eth) (\<lambda>q.
     if dst_eth = ether_broadcast then Inl AssertionFailure
     else
     res_bind (if r > 0 then AQ_send_query_for mem q True st else Inr ([], st)) (\<lambda>(queries, st).
     res_bind (AQ_emit q st) (\<lambda>es.
     Inr (queries @ es, st)))))"

definition multicast_ether :: "ipaddr \<Rightarrow> ethaddr" where
  "multicast_ether dst_ip =
     (let addr = htonl dst_ip in
      [0x01, 0x00, 0x5E, ucast (drop_bit 16 addr) AND 0x7F, ucast (drop_bit 8 addr), ucast addr])"

text \<open>
  The body of \<open>handle_ip\<close> from the label \<open>retry_read_lock\<close> on: a loop that need not end. Its \<open>n\<close>-th iteration looks up at
  \<open>clk (2 * n)\<close> and queues at \<open>clk (2 * n + 1)\<close>; \<open>acc\<close> holds the packets given up in earlier ones. \<open>alloc\<close> says whether there is memory for a
  table entry.
\<close>

partial_function (option) AQ_resolve ::
  "allocator \<Rightarrow> bool \<Rightarrow> (nat \<Rightarrow> u32) \<Rightarrow> nat \<Rightarrow> effect list \<Rightarrow> packet \<Rightarrow> ARPQuerier \<Rightarrow> (effect list \<times> ARPQuerier) res option" where
  "AQ_resolve mem alloc clk n acc q st =
     (let dst_ip = p_dst_ip_anno q;
          ((r, eth), table) = AT_lookup (clk (2 * n)) dst_ip (aq_poll_timeout_j st) (aq_table st);
          st = st\<lparr>aq_table := table\<rparr>;
          out = (\<lambda>m. Some (res_bind m (\<lambda>(es, st). Inr (acc @ es, st)))) in
      case eth of
        Some dst_eth \<Rightarrow> out (AQ_emit_known mem r dst_eth q st)
      | None \<Rightarrow>
          if dst_ip = 0xFFFFFFFF \<or> dst_ip = aq_my_bcast_ip st then out (AQ_emit_to (replicate 6 0xFF) q st)
          else if is_multicast dst_ip then out (AQ_emit_to (multicast_ether dst_ip) q st)
          else if dst_ip = 0 then out (Inr ([Kill q], st\<lparr>aq_zero_warned := True, aq_drops := aq_drops st + 1\<rparr>))
          else
          case AT_append_query alloc (clk (2 * n + 1)) dst_ip q (aq_table st) of
            Inl e \<Rightarrow> Some (Inl e)
          | Inr (r, table, es) \<Rightarrow>
              if r = - EAGAIN then AQ_resolve mem alloc clk (n + 1) (acc @ es) q (st\<lparr>aq_table := table\<rparr>)
              else out (if r < 0 then Inr (es @ [Kill q], st\<lparr>aq_table := table\<rparr>)
                        else if r > 0 then
                          res_bind (AQ_send_query_for mem q False (st\<lparr>aq_table := table\<rparr>)) (\<lambda>(queries, st).
                          Inr (es @ queries, st))
                        else Inr (es, st\<lparr>aq_table := table\<rparr>)))"

definition AQ_handle_ip ::
  "allocator \<Rightarrow> bool \<Rightarrow> (nat \<Rightarrow> u32) \<Rightarrow> packet \<Rightarrow> bool \<Rightarrow> ARPQuerier \<Rightarrow> (effect list \<times> ARPQuerier) res option" where
  "AQ_handle_ip mem alloc clk p response st =
     (if aq_my_ip st = 0 then Some (Inr ([Kill p], st\<lparr>aq_drops := aq_drops st + 1\<rparr>))
      else if response then
        if shared p then Some (Inl AssertionFailure)
        else
        case uniqueify mem p of
          None \<Rightarrow> Some (Inl NullPointer)
        | Some q \<Rightarrow> AQ_resolve mem alloc clk 0 [] q st
      else
        case push_mac_header mem sizeof_ether p of
          None \<Rightarrow> Some (Inr ([], st\<lparr>aq_drops := aq_drops st + 1\<rparr>))
        | Some r \<Rightarrow>
            (case res_bind r (\<lambda>q. res_bind (deref (p_mac q)) (\<lambda>m. wr q (m + 12) (u16_bytes (htons ETHERTYPE_IP)))) of
               Inl e \<Rightarrow> Some (Inl e)
             | Inr q \<Rightarrow> AQ_resolve mem alloc clk 0 [] q st))"

subsection \<open>Answers\<close>

text \<open>The packets an answer releases, in order; packet \<open>i\<close> reads the clock \<open>clk i\<close>.\<close>

fun AQ_release ::
  "allocator \<Rightarrow> bool \<Rightarrow> (nat \<Rightarrow> nat \<Rightarrow> u32) \<Rightarrow> packet list \<Rightarrow> ARPQuerier \<Rightarrow> (effect list \<times> ARPQuerier) res option" where
  "AQ_release mem alloc clk [] st = Some (Inr ([], st))"
| "AQ_release mem alloc clk (p # ps) st =
     (case AQ_handle_ip mem alloc (clk 0) p True st of
        None \<Rightarrow> None
      | Some (Inl e) \<Rightarrow> Some (Inl e)
      | Some (Inr (es, st)) \<Rightarrow>
          map_option (\<lambda>r. res_bind r (\<lambda>(es', st). Inr (es @ es', st))) (AQ_release mem alloc (\<lambda>i. clk (Suc i)) ps st))"

text \<open>
  When there is no memory for an entry, \<open>insert\<close> does not set \<open>cached_packet\<close>, and the loop starts from an uninitialised
  pointer.
\<close>

definition AQ_handle_response ::
  "allocator \<Rightarrow> bool \<Rightarrow> u32 \<Rightarrow> (nat \<Rightarrow> nat \<Rightarrow> u32) \<Rightarrow> packet \<Rightarrow> ARPQuerier \<Rightarrow> (effect list \<times> ARPQuerier) res option" where
  "AQ_handle_response mem alloc now clk p st =
     (if p_len p < sizeof_ether + sizeof_ether_arp then Some (Inr ([], st))
      else
      let st = st\<lparr>aq_arp_responses := aq_arp_responses st + 1\<rparr> in
      case rd p (p_data p) (sizeof_ether + sizeof_ether_arp) of
        Inl e \<Rightarrow> Some (Inl e)
      | Inr bs \<Rightarrow>
          let ethh = dec_ether bs; arph = dec_arp (drop sizeof_ether bs); ena = arp_sha arph in
          if htons (ether_type ethh) = ETHERTYPE_ARP \<and> htons (ar_hrd arph) = ARPHRD_ETHER \<and>
             htons (ar_pro arph) = ETHERTYPE_IP \<and> htons (ar_op arph) = ARPOP_REPLY \<and> \<not> is_group ena
          then
            case AT_insert alloc now (arp_spa arph) ena True (aq_table st) of
              Inl e \<Rightarrow> Some (Inl e)
            | Inr (r, cached, table, es) \<Rightarrow>
                if r < 0 then Some (Inl NullPointer)
                else map_option (\<lambda>r. res_bind r (\<lambda>(es', st). Inr (es @ es', st)))
                       (AQ_release mem alloc clk cached (st\<lparr>aq_table := table\<rparr>))
          else Some (Inr ([], st)))"

definition AQ_push ::
  "allocator \<Rightarrow> bool \<Rightarrow> u32 \<Rightarrow> (nat \<Rightarrow> nat \<Rightarrow> u32) \<Rightarrow> nat \<Rightarrow> packet \<Rightarrow> ARPQuerier \<Rightarrow> (effect list \<times> ARPQuerier) res option" where
  "AQ_push mem alloc now clk port p st =
     (if port = 0 then AQ_handle_ip mem alloc (clk 0) p False st
      else map_option (\<lambda>r. res_bind r (\<lambda>(es, st). Inr (es @ [Kill p], st)))
             (AQ_handle_response mem alloc now clk p st))"

definition AQ_write_handler :: "bool \<Rightarrow> u32 \<Rightarrow> arp_write \<Rightarrow> ARPQuerier \<Rightarrow> (int \<times> ARPQuerier \<times> effect list) res" where
  "AQ_write_handler alloc now w st =
     res_bind (AT_write_handler alloc now w (aq_table st)) (\<lambda>(r, table, es).
     let st = (if w = AW_clear then st\<lparr>aq_arp_queries := 0, aq_drops := 0, aq_arp_responses := 0\<rparr> else st) in
     Inr (r, st\<lparr>aq_table := table\<rparr>, es))"
section \<open>Frames\<close>

lemma length_enc_arp: "length (arp_sha a) = 6 \<Longrightarrow> length (arp_tha a) = 6 \<Longrightarrow> length (enc_arp a) = 28"
  by (simp add: enc_arp_def)

lemma dec_enc_arp: "length (arp_sha a) = 6 \<Longrightarrow> length (arp_tha a) = 6 \<Longrightarrow> dec_arp (enc_arp a @ bs) = a"
  by (cases a) (simp add: dec_arp_def enc_arp_def u16_bytes_def u32_bytes_def nth_append chunk_def)

lemma length_enc_ether: "length (ether_dhost e) = 6 \<Longrightarrow> length (ether_shost e) = 6 \<Longrightarrow> length (enc_ether e) = 14"
  by (simp add: enc_ether_def)

lemma dec_enc_ether: "length (ether_dhost e) = 6 \<Longrightarrow> length (ether_shost e) = 6 \<Longrightarrow> dec_ether (enc_ether e @ bs) = e"
  by (cases e) (simp add: dec_ether_def enc_ether_def u16_bytes_def nth_append chunk_def)

definition ether_frame :: "ethaddr \<Rightarrow> ethaddr \<Rightarrow> byte list \<Rightarrow> byte list" where
  "ether_frame dhost shost d = enc_ether \<lparr>ether_dhost = dhost, ether_shost = shost, ether_type = htons ETHERTYPE_IP\<rparr> @ d"

lemma ether_frame_bytes: "ether_frame dhost shost d = dhost @ shost @ [8, 0] @ d"
  by (simp add: ether_frame_def enc_ether_def u16_bytes_def htons_def ETHERTYPE_IP_def le16_def)

text \<open>A datagram \<open>d\<close> for the next hop \<open>ip\<close> in a packet with an Ethernet header, in which the two addresses are still open.\<close>

definition framed :: "ipaddr \<Rightarrow> byte list \<Rightarrow> packet \<Rightarrow> bool" where
  "framed ip d q \<longleftrightarrow> wf_pkt q \<and> p_mac q = Some (p_data q) \<and> \<not> shared q \<and> p_dst_ip_anno q = ip \<and>
     (\<exists>dhost shost. length dhost = 6 \<and> length shost = 6 \<and> pkt_bytes q = ether_frame dhost shost d)"

definition frame_sent :: "byte list \<Rightarrow> packet \<Rightarrow> bool" where
  "frame_sent bs f \<longleftrightarrow> wf_pkt f \<and> \<not> shared f \<and> pkt_bytes f = bs"

lemma framed_len: "framed ip d q \<Longrightarrow> p_len q = 14 + length d"
  using length_pkt_bytes [of q] by (auto simp: framed_def ether_frame_bytes)

lemma framed_dhost:
  assumes f: "framed ip d q" and l: "length e = 6"
  obtains q' shost where "wr q (p_data q) e = Inr q'" "framed ip d q'" "p_data q' = p_data q" "length shost = 6"
    "pkt_bytes q' = ether_frame e shost d"
proof -
  obtain dhost shost where b: "length dhost = 6" "length shost = 6" "pkt_bytes q = ether_frame dhost shost d"
    using f by (auto simp: framed_def)
  have w: "wf_pkt q" "0 + length e \<le> p_len q" using f framed_len [OF f] l by (simp_all add: framed_def)
  note s = wr_window [OF w] pkt_bytes_store [OF w]
  have "pkt_bytes (store (p_data q) e q) = ether_frame e shost d"
    using s(3) b l by (simp add: ether_frame_bytes patch_prefix)
  moreover from this have "framed ip d (store (p_data q) e q)" using f s(2) l b(2) by (auto simp: framed_def)
  ultimately show thesis using that [of "store (p_data q) e q" shost] s(1) b(2) by simp
qed

lemma AQ_emit_ok:
  assumes f: "framed ip d q" and b: "pkt_bytes q = ether_frame dhost shost d" "length dhost = 6" "length shost = 6"
    and l: "length (aq_my_en st) = 6"
  shows "\<exists>f. AQ_emit q st = Inr [Push 0 f] \<and> frame_sent (ether_frame dhost (aq_my_en st) d) f"
proof -
  have w: "wf_pkt q" "6 + length (aq_my_en st) \<le> p_len q" and m: "p_mac q = Some (p_data q)" "\<not> shared q"
    using f framed_len [OF f] l by (simp_all add: framed_def)
  note s = wr_window [OF w] pkt_bytes_store [OF w]
  have "patch 6 (aq_my_en st) (dhost @ shost @ [8, 0] @ d) = dhost @ aq_my_en st @ [8, 0] @ d"
    using patch_middle [of shost "aq_my_en st" dhost "[8, 0] @ d"] b(2,3) l by simp
  then show ?thesis using s m b(1) by (auto simp: AQ_emit_def frame_sent_def ether_frame_bytes)
qed

lemma AQ_emit_to_ok:
  assumes f: "framed ip d q" and l: "length e = 6" "length (aq_my_en st) = 6"
  shows "\<exists>f. AQ_emit_to e q st = Inr ([Push 0 f], st) \<and> frame_sent (ether_frame e (aq_my_en st) d) f"
proof -
  have m: "p_mac q = Some (p_data q)" using f by (simp add: framed_def)
  obtain q' shost where q: "wr q (p_data q) e = Inr q'" "framed ip d q'" "length shost = 6" "pkt_bytes q' = ether_frame e shost d"
    using framed_dhost [OF f l(1)] by blast
  then show ?thesis using AQ_emit_ok [OF q(2,4) l(1) q(3) l(2)] m by (auto simp: AQ_emit_to_def)
qed

section \<open>Questions\<close>

definition arp_query :: "ethaddr \<Rightarrow> ethaddr \<Rightarrow> ipaddr \<Rightarrow> ipaddr \<Rightarrow> byte list" where
  "arp_query dhost my_en my_ip ip =
     enc_ether \<lparr>ether_dhost = dhost, ether_shost = my_en, ether_type = htons ETHERTYPE_ARP\<rparr> @
     enc_arp \<lparr>ar_hrd = htons ARPHRD_ETHER, ar_pro = htons ETHERTYPE_IP, ar_hln = 6, ar_pln = 4,
              ar_op = htons ARPOP_REQUEST, arp_sha = my_en, arp_spa = my_ip, arp_tha = replicate 6 0, arp_tpa = ip\<rparr>"

lemma length_arp_query: "length dhost = 6 \<Longrightarrow> length my_en = 6 \<Longrightarrow> length (arp_query dhost my_en my_ip ip) = 42"
  by (simp add: arp_query_def length_enc_ether length_enc_arp)

text \<open>One question leaves at the last output, or none if there is no memory for it.\<close>

definition question :: "ethaddr \<Rightarrow> ipaddr \<Rightarrow> ARPQuerier \<Rightarrow> effect list \<Rightarrow> bool" where
  "question dhost ip st es \<longleftrightarrow>
     (\<exists>f. es = [Push (aq_noutputs st - 1) f] \<and> frame_sent (arp_query dhost (aq_my_en st) (aq_my_ip st) ip) f)"

text \<open>Whom a question goes to: the host whose address is to be confirmed, or all.\<close>

definition query_to :: "bool \<Rightarrow> ethaddr \<Rightarrow> ARPQuerier \<Rightarrow> ethaddr" where
  "query_to ether_dhost_valid e st = (if ether_dhost_valid \<and> \<not> aq_broadcast_poll st then e else replicate 6 0xFF)"

definition asked :: "allocator \<Rightarrow> ethaddr \<Rightarrow> ipaddr \<Rightarrow> ARPQuerier \<Rightarrow> effect list \<Rightarrow> ARPQuerier \<Rightarrow> bool" where
  "asked mem dhost ip st es st' \<longleftrightarrow>
     (if mem 64 = None then es = [] \<and> st' = st
      else st' = st\<lparr>aq_arp_queries := aq_arp_queries st + 1\<rparr> \<and> question dhost ip st es)"

lemma AQ_send_query_for_ok:
  assumes l: "length (aq_my_en st) = 6"
    and d: "v \<Longrightarrow> framed (p_dst_ip_anno p) d p \<and> pkt_bytes p = ether_frame e shost d \<and> length e = 6"
  defines "dhost \<equiv> query_to v e st"
  shows "\<exists>es st'. AQ_send_query_for mem p v st = Inr (es, st') \<and> asked mem dhost (p_dst_ip_anno p) st es st'"
proof (cases "Packet_make mem 14 None 42 0")
  case None
  then have "mem 64 = None" by (auto simp: Packet_make_def alloc_data_def min_buffer_length_def split: option.splits)
  then show ?thesis using None
    by (simp add: AQ_send_query_for_def default_headroom_def sizeof_ether_def sizeof_ether_arp_def asked_def)
next
  case (Some q)
  then have mem: "mem 64 \<noteq> None" by (auto simp: Packet_make_def alloc_data_def min_buffer_length_def split: option.splits)
  note m = Packet_make_SomeD [OF Some]
  let ?q = "q\<lparr>p_mac := Some 14, p_nh := Some 28\<rparr>"
  have sq: "set_ether_header (p_data q) q = Inr ?q" using m by (simp add: set_ether_header_def set_mac_header_def)
  have dh: "(if v \<and> \<not> aq_broadcast_poll st then res_bind (deref (p_mac p)) (\<lambda>m. rd p m 6) else Inr (replicate 6 0xFF)) =
      Inr dhost" "length dhost = 6"
  proof -
    show "length dhost = 6" using d by (simp only: dhost_def query_to_def length_replicate split: if_split) blast
    have "rd p (p_data p + 0) 6 = Inr e" "p_mac p = Some (p_data p)" if v
    proof -
      have f: "framed (p_dst_ip_anno p) d p" using d that by simp
      have "rd p (p_data p + 0) 6 = Inr (chunk 0 6 (pkt_bytes p))"
        by (rule rd_data) (use f framed_len [OF f] in \<open>simp_all add: framed_def\<close>)
      then show "rd p (p_data p + 0) 6 = Inr e" using d that by (simp add: ether_frame_bytes chunk_def)
      show "p_mac p = Some (p_data p)" using f by (simp add: framed_def)
    qed
    then show "(if v \<and> \<not> aq_broadcast_poll st then res_bind (deref (p_mac p)) (\<lambda>m. rd p m 6) else Inr (replicate 6 0xFF)) =
      Inr dhost" by (simp add: dhost_def query_to_def)
  qed
  let ?bs = "arp_query dhost (aq_my_en st) (aq_my_ip st) (p_dst_ip_anno p)"
  have lb: "length ?bs = 42" using length_arp_query [OF dh(2) l] .
  have mk: "Packet_make mem 14 None (length ?bs) 0 = Some q" using Some lb by simp
  note fs = fresh_store [OF mk]
  let ?f = "store (p_data q) ?bs ?q"
  have eq: "?f = (store (p_data q) ?bs q)\<lparr>p_mac := Some 14, p_nh := Some 28\<rparr>" by (simp add: store_def)
  have "frame_sent ?bs ?f"
    unfolding eq frame_sent_def using fs by (simp add: wf_pkt_def pkt_bytes_def shared_def)
  moreover have "wr ?q (p_data q) ?bs = Inr ?f" using m lb by (simp add: wr_def store_def)
  then have "AQ_send_query_for mem p v st =
      Inr ([Push (aq_noutputs st - 1) ?f], st\<lparr>aq_arp_queries := aq_arp_queries st + 1\<rparr>)"
    by (simp add: AQ_send_query_for_def default_headroom_def sizeof_ether_def sizeof_ether_arp_def Some sq dh(1)
        arp_query_def [symmetric])
  ultimately show ?thesis using mem by (auto simp: asked_def question_def)
qed
section \<open>Invariant\<close>

text \<open>Every packet that waits is framed and waits for its own next hop.\<close>

definition aq_queues :: "ARPTable \<Rightarrow> bool" where
  "aq_queues t \<longleftrightarrow> (\<forall>ip. \<forall>p \<in> set (queue ip t). \<exists>d. framed ip d p)"

definition aq_inv :: "ARPQuerier \<Rightarrow> bool" where
  "aq_inv st \<longleftrightarrow> at_inv (aq_table st) \<and> aq_queues (aq_table st) \<and> length (aq_my_en st) = 6"

lemma aq_queues_shrink:
  assumes "aq_queues t" and "\<And>ip. \<exists>k. queue ip t' = drop k (queue ip t)"
  shows "aq_queues t'"
  unfolding aq_queues_def
proof (intro allI ballI)
  fix ip p assume "p \<in> set (queue ip t')"
  then have "p \<in> set (queue ip t)" using assms(2) [of ip] by (metis in_set_dropD)
  then show "\<exists>d. framed ip d p" using assms(1) by (simp add: aq_queues_def)
qed

lemma aq_queues_appended:
  assumes "aq_queues t" and "appended ip p t r t' es" and "framed ip d p"
  shows "aq_queues t'"
  unfolding aq_queues_def
proof (intro allI ballI)
  fix ip' x assume x: "x \<in> set (queue ip' t')"
  have "x \<in> set (queue ip' t) \<or> ip' = ip \<and> x = p"
  proof (cases "ip' = ip")
    case True
    then show ?thesis using x assms(2) by (auto simp: appended_def split: if_splits dest: in_set_dropD)
  next
    case False
    then obtain k where "queue ip' t' = drop k (queue ip' t)" using assms(2) by (auto simp: appended_def)
    then show ?thesis using x by (metis in_set_dropD)
  qed
  then show "\<exists>d. framed ip' d x" using assms(1,3) by (auto simp: aq_queues_def)
qed

section \<open>Next hops\<close>

definition at_known :: "u32 \<Rightarrow> ipaddr \<Rightarrow> ARPTable \<Rightarrow> ethaddr option" where
  "at_known now ip t =
     (case AT_find ip t of Some ae \<Rightarrow> if AE_known now (at_timeout_j t) ae then Some (ae_eth ae) else None | None \<Rightarrow> None)"

definition aq_hop :: "u32 \<Rightarrow> ipaddr \<Rightarrow> ARPQuerier \<Rightarrow> ethaddr option" where
  "aq_hop now ip st =
     (case at_known now ip (aq_table st) of
        Some e \<Rightarrow> Some e
      | None \<Rightarrow>
          if ip = 0xFFFFFFFF \<or> ip = aq_my_bcast_ip st then Some (replicate 6 0xFF)
          else if is_multicast ip then Some (multicast_ether ip) else None)"

lemma AT_lookup_known:
  assumes i: "at_inv t" and l: "AT_lookup now ip poll t = ((r, eth), t')"
  shows "eth = at_known now ip t" "at_known now' ip' t' = at_known now' ip' t" "eth = None \<Longrightarrow> t' = t"
    "eth = Some e \<Longrightarrow> length e = 6 \<and> e \<noteq> ether_broadcast"
proof -
  show "eth = at_known now ip t" using l by (auto simp: AT_lookup_def at_known_def split: option.splits if_splits)
  show "eth = None \<Longrightarrow> t' = t" using l by (auto simp: AT_lookup_def split: option.splits if_splits)
  show "length e = 6 \<and> e \<noteq> ether_broadcast" if es: "eth = Some e"
  proof -
    obtain ae where f: "AT_find ip t = Some ae" "AE_known now (at_timeout_j t) ae" "e = ae_eth ae"
      using l es by (auto simp: AT_lookup_def split: option.splits if_splits)
    then have "entry_ok (at_entry_packet_capacity t) ae" using i find_ip_Some [OF f(1)] by (simp add: at_inv_def at_counts_def)
    then show ?thesis using f(2,3) by (simp add: entry_ok_def AE_known_def)
  qed
  show "at_known now' ip' t' = at_known now' ip' t"
  proof (cases "t' = t")
    case False
    then obtain ae where f: "AT_find ip t = Some ae" "t' = AT_put (AE_mark_poll now ae) t"
      using l by (auto simp: AT_lookup_def split: option.splits if_splits)
    have d: "distinct (map ae_ip (at_age t))" using i by (simp add: at_inv_def at_counts_def)
    have a: "ae \<in> set (at_age t)" "ae_ip ae = ip" using find_ip_Some [OF f(1)] by simp_all
    have "replaced ae (AE_mark_poll now ae) (at_age t) (at_age t')"
      unfolding f(2) by (rule replaced_put [OF d a(1)]) (simp add: AE_mark_poll_def)
    from replaced_facts(5) [OF this d, of ip'] have "AT_find ip' t' = (if ip' = ip then Some (AE_mark_poll now ae) else AT_find ip' t)"
      using a(2) by (simp add: AT_find_def AE_mark_poll_def)
    moreover have "at_timeout_j t' = at_timeout_j t" by (simp add: f(2) AT_put_def)
    moreover have "AE_known now' (at_timeout_j t) (AE_mark_poll now ae) = AE_known now' (at_timeout_j t) ae"
      "ae_eth (AE_mark_poll now ae) = ae_eth ae" by (simp_all add: AE_known_def AE_expired_def AE_mark_poll_def)
    ultimately show ?thesis using f(1) by (cases "ip' = ip") (simp_all add: at_known_def split: option.split)
  qed simp
qed

section \<open>What becomes of a datagram\<close>

definition questions :: "ipaddr \<Rightarrow> ARPQuerier \<Rightarrow> effect list \<Rightarrow> bool" where
  "questions ip st es \<longleftrightarrow> es = [] \<or>
     (\<exists>f dhost. es = [Push (aq_noutputs st - 1) f] \<and> length dhost = 6 \<and>
        frame_sent (arp_query dhost (aq_my_en st) (aq_my_ip st) ip) f)"

lemma question_questions: "question dhost ip st es \<Longrightarrow> length dhost = 6 \<Longrightarrow> questions ip st es"
  by (auto simp: question_def questions_def)

text \<open>When a known address is asked for again: it has been known for the polling time, and the entry may ask.\<close>

definition at_refreshes :: "u32 \<Rightarrow> ipaddr \<Rightarrow> u32 \<Rightarrow> ARPTable \<Rightarrow> bool" where
  "at_refreshes now ip poll t \<longleftrightarrow>
     (case AT_find ip t of
        None \<Rightarrow> False
      | Some ae \<Rightarrow> poll \<noteq> 0 \<and> 0 \<le> sint (now - (ae_live_at_j ae + poll)) \<and> ae_may_ask now ae)"

lemma AT_lookup_refreshes:
  "AT_lookup now ip poll t = ((r, Some e), t') \<Longrightarrow> 0 < r \<longleftrightarrow> at_refreshes now ip poll t"
  by (auto simp: AT_lookup_def at_refreshes_def ae_may_ask_iff click_jiffies_less_def split: option.splits if_splits)

text \<open>
  The datagram \<open>d\<close> in the framed packet \<open>q\<close>, looked up at \<open>now\<close> and queued at \<open>later\<close>: it is sent if the next hop's Ethernet address is
  known or can be computed, after a question if a known address is due for one; it is freed if there is no next hop, or if the
  table refuses it; otherwise it becomes the last one that waits for its next hop, and a question is broadcast when one is due. Others may
  be given up for it, the oldest of each queue first, and what is freed is no longer held.
\<close>

definition served ::
  "allocator \<Rightarrow> bool \<Rightarrow> u32 \<Rightarrow> u32 \<Rightarrow> ipaddr \<Rightarrow> byte list \<Rightarrow> packet \<Rightarrow> ARPQuerier \<Rightarrow> effect list \<Rightarrow> ARPQuerier \<Rightarrow> bool" where
  "served mem alloc now later ip d q st es st' \<longleftrightarrow>
     (case aq_hop now ip st of
        Some e \<Rightarrow>
          (\<exists>qs f. es = qs @ [Push 0 f] \<and> frame_sent (ether_frame e (aq_my_en st) d) f \<and>
             (if at_known now ip (aq_table st) \<noteq> None \<and> at_refreshes now ip (aq_poll_timeout_j st) (aq_table st) \<and> mem 64 \<noteq> None
              then question (query_to True e st) ip st qs else qs = [])) \<and>
          (\<forall>ip'. queue ip' (aq_table st') = queue ip' (aq_table st)) \<and>
          (\<forall>now' ip'. at_known now' ip' (aq_table st') = at_known now' ip' (aq_table st))
      | None \<Rightarrow>
          if ip = 0 then es = [Kill q] \<and> aq_table st' = aq_table st
          else if at_refuses alloc ip (aq_table st) then
            (\<exists>ps. es = map Kill ps @ [Kill q] \<and> conserves (aq_table st) [] [] (aq_table st') (map Kill ps)) \<and>
            queue ip (aq_table st') = queue ip (aq_table st) \<and>
            (\<forall>ip'. ip' \<noteq> ip \<longrightarrow> (\<exists>k. queue ip' (aq_table st') = drop k (queue ip' (aq_table st))))
          else
            (\<exists>ps qs. es = map Kill ps @ qs \<and> conserves (aq_table st) [q] [] (aq_table st') (map Kill ps) \<and>
               (if at_may_ask later ip (aq_table st) \<and> mem 64 \<noteq> None then question (replicate 6 0xFF) ip st qs else qs = [])) \<and>
            (\<exists>k. queue ip (aq_table st') = drop k (queue ip (aq_table st)) @ [q]) \<and>
            (\<forall>ip'. ip' \<noteq> ip \<longrightarrow> (\<exists>k. queue ip' (aq_table st') = drop k (queue ip' (aq_table st)))))"

definition same_aq :: "ARPQuerier \<Rightarrow> ARPQuerier \<Rightarrow> bool" where
  "same_aq st st' \<longleftrightarrow> aq_my_en st' = aq_my_en st \<and> aq_my_ip st' = aq_my_ip st \<and> aq_my_bcast_ip st' = aq_my_bcast_ip st \<and>
     aq_poll_timeout_j st' = aq_poll_timeout_j st \<and> aq_broadcast_poll st' = aq_broadcast_poll st \<and> aq_my_arpt st' = aq_my_arpt st \<and>
     aq_noutputs st' = aq_noutputs st \<and> same_conf (aq_table st) (aq_table st')"

lemma asked_facts:
  assumes "asked mem dhost ip st es st'"
  shows "if mem 64 \<noteq> None then question dhost ip st es else es = []" "aq_table st' = aq_table st"
    "aq_my_en st' = aq_my_en st" "same_aq st st'"
  using assms by (auto simp: asked_def same_aq_def same_conf_def split: if_splits)

lemma question_same: "same_aq st st' \<Longrightarrow> question dhost ip st' es = question dhost ip st es"
  by (simp add: question_def same_aq_def)

lemma res_bind_Inr_right: "res_bind m Inr = m"
  by (cases m) simp_all

lemma AQ_emit_known_ok:
  assumes f: "framed ip d q" and e: "length e = 6" "e \<noteq> ether_broadcast" and l: "length (aq_my_en st) = 6"
  shows "\<exists>qs fr st'. AQ_emit_known mem r e q st = Inr (qs @ [Push 0 fr], st') \<and>
    (if r > 0 \<and> mem 64 \<noteq> None then question (query_to True e st) ip st qs else qs = []) \<and>
    frame_sent (ether_frame e (aq_my_en st) d) fr \<and> aq_table st' = aq_table st \<and> same_aq st st'"
proof -
  have m: "p_mac q = Some (p_data q)" "p_dst_ip_anno q = ip" using f by (simp_all add: framed_def)
  obtain q' shost where q: "wr q (p_data q) e = Inr q'" "framed ip d q'" "length shost = 6" "pkt_bytes q' = ether_frame e shost d"
    using framed_dhost [OF f e(1)] by blast
  have ip: "p_dst_ip_anno q' = ip" using q(2) by (simp add: framed_def)
  obtain qs st' where s: "(if r > 0 then AQ_send_query_for mem q' True st else Inr ([], st)) = Inr (qs, st')"
      "if r > 0 \<and> mem 64 \<noteq> None then question (query_to True e st) ip st qs else qs = []" "aq_table st' = aq_table st"
      "aq_my_en st' = aq_my_en st" "same_aq st st'"
  proof (cases "r > 0")
    case True
    obtain es st' where "AQ_send_query_for mem q' True st = Inr (es, st')" "asked mem (query_to True e st) ip st es st'"
      using AQ_send_query_for_ok [OF l, of True q' d e shost mem] q ip e(1) by auto
    then show thesis using that True asked_facts by simp
  next
    case False
    then show thesis using that [of "[]" st] by (simp add: same_aq_def same_conf_def)
  qed
  obtain fr where "AQ_emit q' st' = Inr [Push 0 fr]" "frame_sent (ether_frame e (aq_my_en st') d) fr"
    using AQ_emit_ok [OF q(2,4) e(1) q(3), of st'] l s(4) by auto
  then show ?thesis using s q(1) m e(2) by (simp add: AQ_emit_known_def)
qed

lemma length_multicast_ether: "length (multicast_ether ip) = 6"
  by (simp add: multicast_ether_def Let_def)

text \<open>What is shown of a framed packet.\<close>

definition resolved ::
  "allocator \<Rightarrow> bool \<Rightarrow> u32 \<Rightarrow> u32 \<Rightarrow> ipaddr \<Rightarrow> byte list \<Rightarrow> packet \<Rightarrow> ARPQuerier \<Rightarrow> (effect list \<times> ARPQuerier) res option \<Rightarrow> bool" where
  "resolved mem alloc now later ip d q st r \<longleftrightarrow>
     (\<exists>es st'. r = Some (Inr (es, st')) \<and> aq_inv st' \<and> same_aq st st' \<and> served mem alloc now later ip d q st es st')"

lemma AQ_resolve_hit:
  assumes i: "aq_inv st" and f: "framed ip d q" and k: "at_known (clk (2 * n)) ip (aq_table st) = Some e"
  shows "resolved mem alloc (clk (2 * n)) later ip d q st (AQ_resolve mem alloc clk n [] q st)"
proof -
  let ?now = "clk (2 * n)"
  have a: "at_inv (aq_table st)" "aq_queues (aq_table st)" "length (aq_my_en st) = 6" "p_dst_ip_anno q = ip"
    using i f by (simp_all add: aq_inv_def framed_def)
  obtain r eth t where l: "AT_lookup ?now ip (aq_poll_timeout_j st) (aq_table st) = ((r, eth), t)" by (metis prod.exhaust)
  note lk = AT_lookup_known [OF a(1) l] and lo = AT_lookup_ok [OF a(1) l]
  let ?st = "st\<lparr>aq_table := t\<rparr>"
  have eth: "eth = Some e" using lk(1) k by simp
  have e: "length e = 6" "e \<noteq> ether_broadcast" "aq_hop ?now ip st = Some e" using lk(4) [OF eth] k by (simp_all add: aq_hop_def)
  have sm: "same_aq st ?st" using lo by (simp add: same_aq_def)
  obtain qs fr st' where x: "AQ_emit_known mem r e q ?st = Inr (qs @ [Push 0 fr], st')"
      "if r > 0 \<and> mem 64 \<noteq> None then question (query_to True e ?st) ip ?st qs else qs = []"
      "frame_sent (ether_frame e (aq_my_en st) d) fr" "aq_table st' = t" "same_aq ?st st'"
    using AQ_emit_known_ok [OF f e(1,2), of ?st mem r] a(3) by auto
  have "AQ_resolve mem alloc clk n [] q st = Some (Inr (qs @ [Push 0 fr], st'))"
    by (subst AQ_resolve.simps) (simp add: a(4) l eth x(1) Let_def)
  moreover have "aq_inv st'" "same_aq st st'"
    using x(4,5) lo a by (auto simp: aq_inv_def same_aq_def same_conf_def aq_queues_def)
  moreover have "query_to True e ?st = query_to True e st" by (simp add: query_to_def)
  note asks = x(2) [unfolded this question_same [OF sm] AT_lookup_refreshes [OF l [unfolded eth]]]
  have "served mem alloc ?now later ip d q st (qs @ [Push 0 fr]) st'"
    using e(3) x(3,4) lo lk(2) k asks by (simp add: served_def)
  ultimately show ?thesis by (auto simp: resolved_def)
qed

lemma AQ_resolve_miss:
  assumes i: "aq_inv st" and ip: "p_dst_ip_anno q = ip" and k: "at_known (clk 0) ip (aq_table st) = None"
  shows "AQ_resolve mem alloc clk 0 [] q st =
    (case aq_hop (clk 0) ip st of
       Some e \<Rightarrow> Some (AQ_emit_to e q st)
     | None \<Rightarrow>
         if ip = 0 then Some (Inr ([Kill q], st\<lparr>aq_zero_warned := True, aq_drops := aq_drops st + 1\<rparr>))
         else
         case AT_append_query alloc (clk 1) ip q (aq_table st) of
           Inl e \<Rightarrow> Some (Inl e)
         | Inr (r, table, es) \<Rightarrow>
             if r = - EAGAIN then AQ_resolve mem alloc clk 1 es q (st\<lparr>aq_table := table\<rparr>)
             else Some (if r < 0 then Inr (es @ [Kill q], st\<lparr>aq_table := table\<rparr>)
                        else if r > 0 then res_bind (AQ_send_query_for mem q False (st\<lparr>aq_table := table\<rparr>)) (\<lambda>(qs, st). Inr (es @ qs, st))
                        else Inr (es, st\<lparr>aq_table := table\<rparr>)))"
proof -
  have a: "at_inv (aq_table st)" using i by (simp add: aq_inv_def)
  obtain r eth t where l: "AT_lookup (clk 0) ip (aq_poll_timeout_j st) (aq_table st) = ((r, eth), t)" by (metis prod.exhaust)
  have "eth = None" using AT_lookup_known(1) [OF a l] k by simp
  then have l': "AT_lookup (clk 0) ip (aq_poll_timeout_j st) (aq_table st) = ((r, None), aq_table st)"
    using l AT_lookup_known(3) [OF a l] by simp
  show ?thesis
    by (subst AQ_resolve.simps) (simp add: ip l' Let_def aq_hop_def k res_bind_Inr_right split: sum.split)
qed

lemma length_hop: "at_known now ip (aq_table st) = None \<Longrightarrow> aq_hop now ip st = Some e \<Longrightarrow> length e = 6"
  by (auto simp: aq_hop_def length_multicast_ether split: if_splits)

text \<open>
  The clock readings of one call: they do not go back, and the call takes less than \<open>2 ^ 31\<close> milliseconds. Between a failing
  lookup and the queueing an entry can become known again only by the wrap-around of the signed comparison; the lookup that is
  then tried again finds it, so there is at most one retry.
\<close>

definition ticking :: "(nat \<Rightarrow> u32) \<Rightarrow> bool" where
  "ticking clk \<longleftrightarrow> (\<exists>d. mono d \<and> (\<forall>n. d n < 2 ^ 31 \<and> clk n = clk 0 + of_nat (d n)))"

lemma ticking_const: "\<forall>n. clk n = now \<Longrightarrow> ticking clk"
  unfolding ticking_def by (intro exI [of _ "\<lambda>n. 0"]) (auto simp: mono_def)

lemma sint_neg_iff: "sint (u :: u32) < 0 \<longleftrightarrow> 2 ^ 31 \<le> unat u"
proof (cases "unat u < 2 ^ 31")
  case True
  then show ?thesis using sint_of_unat [of u "unat u"] by simp
next
  case False
  moreover have "unat u < 2 ^ 32" using unsigned_less [of u, where 'a = nat] by simp
  ultimately have "unat u div 2 ^ 31 = 1" by (intro div_nat_eqI) simp_all
  then have "bit (unat u) 31" by (simp add: bit_iff_odd)
  then have "bit u 31" by (simp add: bit_unsigned_iff)
  then show ?thesis using False by (simp add: sint_uint bit_uint_iff)
qed

lemma ticking_known:
  assumes t: "ticking clk" and k0: "at_known (clk 0) ip t = None" and k1: "at_known (clk 1) ip t = Some e"
  shows "at_known (clk 2) ip t = Some e"
proof -
  obtain d where d: "mono d" "\<And>n. d n < 2 ^ 31" "\<And>n. clk n = clk 0 + of_nat (d n)" using t by (auto simp: ticking_def)
  obtain ae where ae: "AT_find ip t = Some ae" "ae_known ae" "e = ae_eth ae" "\<not> AE_expired (clk 1) (at_timeout_j t) ae"
    using k1 by (auto simp: at_known_def AE_known_def split: option.splits if_splits)
  define u where "u = ae_live_at_j ae + at_timeout_j t - clk 0"
  have less: "click_jiffies_less (ae_live_at_j ae + at_timeout_j t) (clk n) \<longleftrightarrow> 2 ^ 31 \<le> unat (u - of_nat (d n))" for n
  proof -
    have "ae_live_at_j ae + at_timeout_j t - clk n = u - of_nat (d n)" by (subst d(3)) (simp add: u_def)
    then show ?thesis by (simp add: click_jiffies_less_def sint_neg_iff)
  qed
  have ex: "AE_expired (clk 0) (at_timeout_j t) ae" "at_timeout_j t \<noteq> 0"
    using k0 ae(1,2) by (auto simp: at_known_def AE_known_def AE_expired_def split: if_splits)
  have "click_jiffies_less (ae_live_at_j ae + at_timeout_j t) (clk 0)" using ex by (simp add: AE_expired_def)
  then have u: "2 ^ 31 \<le> unat u" by (simp add: click_jiffies_less_def sint_neg_iff u_def)
  have sub: "unat (u - of_nat (d n)) = unat u - d n" for n
  proof -
    have "unat (of_nat (d n) :: u32) = d n" using d(2) [of n] by (simp add: unat_of_nat take_bit_nat_eq_self)
    moreover from this have "of_nat (d n) \<le> u" using u d(2) [of n] by (simp add: word_le_nat_alt)
    ultimately show ?thesis by (simp add: unat_sub)
  qed
  have "\<not> 2 ^ 31 \<le> unat u - d 1" using ae(4) ex(2) less [of 1] sub [of 1] by (simp add: AE_expired_def)
  moreover have "d 1 \<le> d 2" using d(1) by (simp add: monoD)
  ultimately have "\<not> 2 ^ 31 \<le> unat (u - of_nat (d 2))" using sub [of 2] by linarith
  then have "\<not> AE_expired (clk 2) (at_timeout_j t) ae" using less [of 2] by (simp add: AE_expired_def)
  then show ?thesis using ae(1-3) by (simp add: at_known_def AE_known_def)
qed

text \<open>The time of the lookup that decides: the first one, or that of the retry.\<close>

definition aq_time :: "(nat \<Rightarrow> u32) \<Rightarrow> ipaddr \<Rightarrow> ARPQuerier \<Rightarrow> u32" where
  "aq_time clk ip st =
     (if aq_hop (clk 0) ip st = None \<and> ip \<noteq> 0 \<and> at_known (clk 1) ip (aq_table st) \<noteq> None then clk 2 else clk 0)"

lemma aq_time_const: "\<forall>n. clk n = now \<Longrightarrow> aq_time clk ip st = now"
  by (simp add: aq_time_def)

lemma aq_hop_None: "aq_hop now ip st = None \<Longrightarrow> at_known now ip (aq_table st) = None"
  by (auto simp: aq_hop_def split: option.splits)

lemma at_known_iff:
  "at_known now ip t \<noteq> None \<longleftrightarrow> (\<exists>ae. AT_find ip t = Some ae \<and> AE_known now (at_timeout_j t) ae)"
  by (auto simp: at_known_def split: option.splits)

lemma AQ_resolve_queued:
  assumes i: "aq_inv st" and f: "framed ip d q" and k: "at_known (clk 1) ip (aq_table st) = None"
    and hop: "aq_hop (clk 0) ip st = None" "ip \<noteq> 0"
  shows "resolved mem alloc (clk 0) (clk 1) ip d q st (AQ_resolve mem alloc clk 0 [] q st)"
proof -
  have a: "at_inv (aq_table st)" "aq_queues (aq_table st)" "length (aq_my_en st) = 6" "p_dst_ip_anno q = ip"
    using i f by (simp_all add: aq_inv_def framed_def)
  obtain r t' es where p: "AT_append_query alloc (clk 1) ip q (aq_table st) = Inr (r, t', es)" "at_inv t'"
      "same_conf (aq_table st) t'" "appended ip q (aq_table st) r t' es"
    using AT_append_query_ok [OF a(1), of alloc "clk 1" ip q] by blast
  have r: "r = (if at_refuses alloc ip (aq_table st) then - ENOMEM else of_bool (at_may_ask (clk 1) ip (aq_table st)))"
    using AT_append_query_decides [OF a(1) p(1)] k at_known_iff [of "clk 1" ip "aq_table st"] by auto
  then have again: "r \<noteq> - EAGAIN" by (auto simp: EAGAIN_def ENOMEM_def split: if_splits)
  obtain ps where ps: "es = map Kill ps" using p(4) by (auto simp: appended_def conserves_def split: if_splits)
  let ?st' = "st\<lparr>aq_table := t'\<rparr>"
  have i': "aq_inv ?st'" "same_aq st ?st'"
    using aq_queues_appended [OF a(2) p(4) f] p(2,3) a(3) by (simp_all add: aq_inv_def same_aq_def)
  have run: "AQ_resolve mem alloc clk 0 [] q st =
      Some (if r < 0 then Inr (es @ [Kill q], ?st')
            else if r > 0 then res_bind (AQ_send_query_for mem q False ?st') (\<lambda>(qs, st). Inr (es @ qs, st)) else Inr (es, ?st'))"
    using AQ_resolve_miss [where clk = clk, OF i a(4) aq_hop_None [OF hop(1)], of mem alloc] hop again p(1) by simp
  show ?thesis
  proof (cases "r > 0")
    case True
    then have ask: "\<not> at_refuses alloc ip (aq_table st)" "at_may_ask (clk 1) ip (aq_table st)"
      using r by (auto simp: ENOMEM_def split: if_splits)
    obtain qs st'' where s: "AQ_send_query_for mem q False ?st' = Inr (qs, st'')" "asked mem (query_to False [] ?st') ip ?st' qs st''"
      using AQ_send_query_for_ok [of ?st' False q d "[]" _ mem] a(3,4) by auto
    note s' = asked_facts [OF s(2)]
    have "AQ_resolve mem alloc clk 0 [] q st = Some (Inr (es @ qs, st''))" using run True s(1) by simp
    moreover have "aq_inv st''" "same_aq st st''" using i' s' by (auto simp: aq_inv_def same_aq_def same_conf_def)
    moreover have "query_to False [] ?st' = replicate 6 0xFF" by (simp add: query_to_def)
    note asks = s'(1) [unfolded this question_same [OF i'(2)]]
    have c: "conserves (aq_table st) [q] [] (aq_table st'') (map Kill ps)"
      using p(4) True s'(2) by (simp add: appended_def ps)
    have "\<exists>ps' qs'. es @ qs = map Kill ps' @ qs' \<and> conserves (aq_table st) [q] [] (aq_table st'') (map Kill ps') \<and>
        (if at_may_ask (clk 1) ip (aq_table st) \<and> mem 64 \<noteq> None then question (replicate 6 0xFF) ip st qs' else qs' = [])"
      unfolding ps by (intro exI [of _ ps] exI [of _ qs] conjI refl c) (use ask(2) asks in \<open>simp only: simp_thms\<close>)
    then have "served mem alloc (clk 0) (clk 1) ip d q st (es @ qs) st''"
      using hop ask(1) p(4) True s'(2) by (simp add: served_def appended_def)
    ultimately show ?thesis unfolding resolved_def by blast
  next
    case False
    show ?thesis
    proof (cases "at_refuses alloc ip (aq_table st)")
      case True
      then have "r < 0" using r by (simp add: ENOMEM_def)
      moreover have "served mem alloc (clk 0) (clk 1) ip d q st (map Kill ps @ [Kill q]) ?st'"
        using True hop p(4) \<open>r < 0\<close> unfolding ps appended_def by (auto simp: served_def)
      ultimately show ?thesis using run i' ps unfolding resolved_def by auto
    next
      case keep: False
      then have "r = 0" "\<not> at_may_ask (clk 1) ip (aq_table st)" using r False by (auto split: if_splits)
      moreover from this have "served mem alloc (clk 0) (clk 1) ip d q st (map Kill ps @ []) ?st'"
        using keep hop p(4) unfolding ps appended_def by (auto simp: served_def simp del: append_Nil2)
      ultimately show ?thesis using run i' ps unfolding resolved_def by auto
    qed
  qed
qed

lemma AQ_resolve_retries:
  assumes i: "aq_inv st" and f: "framed ip d q" and t: "ticking clk" and k: "at_known (clk 1) ip (aq_table st) \<noteq> None"
    and hop: "aq_hop (clk 0) ip st = None" "ip \<noteq> 0"
  shows "resolved mem alloc (clk 2) (clk 1) ip d q st (AQ_resolve mem alloc clk 0 [] q st)"
proof -
  have a: "at_inv (aq_table st)" "p_dst_ip_anno q = ip" using i f by (simp_all add: aq_inv_def framed_def)
  obtain r t' es where p: "AT_append_query alloc (clk 1) ip q (aq_table st) = Inr (r, t', es)"
    using AT_append_query_ok [OF a(1), of alloc "clk 1" ip q] by blast
  have "r = - EAGAIN \<and> t' = aq_table st \<and> es = []"
    using AT_append_query_decides [OF a(1) p] k at_known_iff [of "clk 1" ip "aq_table st"] by auto
  then have "AQ_resolve mem alloc clk 0 [] q st = AQ_resolve mem alloc clk 1 [] q st"
    using AQ_resolve_miss [where clk = clk, OF i a(2) aq_hop_None [OF hop(1)], of mem alloc] hop p by simp
  moreover obtain e where "at_known (clk (2 * 1)) ip (aq_table st) = Some e"
    using ticking_known [OF t aq_hop_None [OF hop(1)]] k by auto
  from AQ_resolve_hit [where clk = clk and n = 1, OF i f this, of mem alloc "clk 1"]
  have "resolved mem alloc (clk 2) (clk 1) ip d q st (AQ_resolve mem alloc clk 1 [] q st)" by simp
  ultimately show ?thesis by simp
qed

lemma AQ_resolve_ok:
  assumes i: "aq_inv st" and f: "framed ip d q" and t: "ticking clk"
  shows "resolved mem alloc (aq_time clk ip st) (clk 1) ip d q st (AQ_resolve mem alloc clk 0 [] q st)"
proof (cases "at_known (clk 0) ip (aq_table st)")
  case (Some e)
  then have "at_known (clk (2 * 0)) ip (aq_table st) = Some e" "aq_time clk ip st = clk 0"
    by (simp_all add: aq_time_def aq_hop_def)
  then show ?thesis using AQ_resolve_hit [where clk = clk and n = 0, OF i f, of e mem alloc "clk 1"] by simp
next
  case None
  have l: "length (aq_my_en st) = 6" "p_dst_ip_anno q = ip" using i f by (simp_all add: aq_inv_def framed_def)
  note run = AQ_resolve_miss [where clk = clk, OF i l(2) None, of mem alloc]
  show ?thesis
  proof (cases "aq_hop (clk 0) ip st")
    case (Some e)
    then show ?thesis
      using run AQ_emit_to_ok [OF f length_hop [OF None Some] l(1)] i None
      by (auto simp: resolved_def served_def same_aq_def same_conf_def aq_time_def)
  next
    case hop: None
    show ?thesis
    proof (cases "ip = 0")
      case True
      then have "AQ_resolve mem alloc clk 0 [] q st =
          Some (Inr ([Kill q], st\<lparr>aq_zero_warned := True, aq_drops := aq_drops st + 1\<rparr>))" using run hop by simp
      then show ?thesis using hop True i by (simp add: resolved_def served_def aq_inv_def same_aq_def same_conf_def aq_time_def)
    next
      case False
      then show ?thesis
        using AQ_resolve_queued [where clk = clk, OF i f _ hop False] AQ_resolve_retries [OF i f t _ hop False] hop
        by (auto simp: aq_time_def)
    qed
  qed
qed

lemma at_known_length: "at_inv t \<Longrightarrow> at_known now ip t = Some e \<Longrightarrow> length e = 6"
  using AT_lookup_known(1,4) [of t now ip 0] by (metis prod.exhaust)

lemma resolved_sent:
  assumes "resolved mem alloc now later ip d q st r" and "aq_inv st" and "aq_hop now ip st = Some e"
  shows "\<exists>qs f st'. r = Some (Inr (qs @ [Push 0 f], st')) \<and> aq_inv st' \<and> same_aq st st' \<and> questions ip st qs \<and>
    frame_sent (ether_frame e (aq_my_en st) d) f \<and> (\<forall>ip'. queue ip' (aq_table st') = queue ip' (aq_table st)) \<and>
    (\<forall>now' ip'. at_known now' ip' (aq_table st') = at_known now' ip' (aq_table st))"
proof -
  obtain qs f st' where x: "r = Some (Inr (qs @ [Push 0 f], st'))" "aq_inv st'" "same_aq st st'"
      "frame_sent (ether_frame e (aq_my_en st) d) f"
      "if at_known now ip (aq_table st) \<noteq> None \<and> at_refreshes now ip (aq_poll_timeout_j st) (aq_table st) \<and> mem 64 \<noteq> None
       then question (query_to True e st) ip st qs else qs = []"
      "\<forall>ip'. queue ip' (aq_table st') = queue ip' (aq_table st)"
      "\<forall>now' ip'. at_known now' ip' (aq_table st') = at_known now' ip' (aq_table st)"
    using assms(1,3) by (auto simp: resolved_def served_def)
  have "length (query_to True e st) = 6" if "at_known now ip (aq_table st) \<noteq> None"
  proof -
    have "at_known now ip (aq_table st) = Some e" using that assms(3) by (auto simp: aq_hop_def)
    then show ?thesis using at_known_length assms(2) by (auto simp: query_to_def aq_inv_def)
  qed
  then have "questions ip st qs" using x(5) question_questions by (auto simp: questions_def split: if_splits)
  with x show ?thesis by blast
qed

text \<open>The first packet for a next hop of which nothing is known waits for it, and the question leaves.\<close>

lemma resolved_first:
  assumes "resolved mem True now later ip d q st r" and "AT_find ip (aq_table st) = None" and "aq_hop now ip st = None"
    and "ip \<noteq> 0" and "mem 64 \<noteq> None"
  shows "\<exists>ps fr st'. r = Some (Inr (map Kill ps @ [Push (aq_noutputs st - 1) fr], st')) \<and> aq_inv st' \<and> same_aq st st' \<and>
    queue ip (aq_table st') = [q] \<and> frame_sent (arp_query (replicate 6 0xFF) (aq_my_en st) (aq_my_ip st) ip) fr"
  using assms by (auto simp: resolved_def served_def at_refuses_def at_may_ask_def question_def queue_def [of _ "aq_table st"])

lemma resolvedD:
  "resolved mem alloc now later ip d q st r \<Longrightarrow> \<exists>es st'. r = Some (Inr (es, st')) \<and> aq_inv st' \<and> same_aq st st'"
  unfolding resolved_def by blast

section \<open>Arrivals\<close>

text \<open>A datagram gets room for its Ethernet header, by a copy if it must.\<close>

lemma push_mac_framed:
  assumes w: "wf_pkt p" and mem: "\<forall>n. mem n \<noteq> None"
  obtains q0 q where "push_mac_header mem 14 p = Some (Inr q0)" "p_mac q0 = Some (p_data q0)"
    "wr q0 (p_data q0 + 12) (u16_bytes (htons ETHERTYPE_IP)) = Inr q" "framed (p_dst_ip_anno p) (pkt_bytes p) q"
proof -
  have "\<exists>b. alloc_data mem h l t = Some b" for h l t using mem by (auto simp: alloc_data_def Let_def)
  then obtain b where "alloc_data mem (headroom p + (14 + 128) div 4 * 4) (p_len p) (tailroom p) = Some b" by blast
  then obtain x where x: "pkt_push mem 14 p = Some x"
    by (cases "14 \<le> headroom p \<and> \<not> shared p") (simp_all add: pkt_push_def expensive_uniqueify_def)
  have wx: "wf_pkt x" "pkt_bytes (pkt_pull 14 x) = pkt_bytes p" using pkt_pull_push [OF x w] by simp_all
  have sel: "p_len x = p_len p + 14" "\<not> shared x" "p_dst_ip_anno x = p_dst_ip_anno p"
    using x by (auto simp: pkt_push_def expensive_uniqueify_def shared_def split: if_splits option.splits)
  define q0 where "q0 = x\<lparr>p_mac := Some (p_data x), p_nh := Some (p_data x + 14)\<rparr>"
  have q0: "push_mac_header mem 14 p = Some (Inr q0)" "p_mac q0 = Some (p_data q0)"
    using x wx(1) sel(1) by (simp_all add: push_mac_header_def set_mac_header_def q0_def wf_pkt_def)
  have w0: "wf_pkt q0" "12 + length (u16_bytes (htons ETHERTYPE_IP)) \<le> p_len q0" and b0: "pkt_bytes q0 = pkt_bytes x"
    using wx(1) sel(1) by (simp_all add: q0_def wf_pkt_def pkt_bytes_def)
  note s = wr_window [OF w0] pkt_bytes_store [OF w0]
  let ?q = "store (p_data q0 + 12) (u16_bytes (htons ETHERTYPE_IP)) q0"
  have "length (pkt_bytes x) = p_len p + 14" "drop 14 (pkt_bytes x) = pkt_bytes p"
    using wx sel(1) by (simp_all add: pkt_bytes_pull length_pkt_bytes)
  then have "pkt_bytes ?q = ether_frame (take 6 (pkt_bytes x)) (take 6 (drop 6 (pkt_bytes x))) (pkt_bytes p)"
    using s(3) b0
    by (simp add: ether_frame_def enc_ether_def patch_def take_add [of 6 6, simplified] numeral_eq_Suc [of "num.Bit0 x" for x, THEN sym])
  moreover have "length (take 6 (pkt_bytes x)) = 6" "length (take 6 (drop 6 (pkt_bytes x))) = 6"
    using \<open>length (pkt_bytes x) = p_len p + 14\<close> by simp_all
  moreover have "\<not> shared q0" "p_dst_ip_anno q0 = p_dst_ip_anno p" using sel(2,3) by (simp_all add: q0_def shared_def)
  ultimately have "framed (p_dst_ip_anno p) (pkt_bytes p) ?q"
    unfolding framed_def using s(2) q0(2) by (metis store_sel(1,5,6,7))
  then show thesis using that [OF q0 s(1)] by blast
qed

lemma AQ_handle_ip_ok:
  assumes i: "aq_inv st" "aq_my_ip st \<noteq> 0" and w: "wf_pkt p" and mem: "\<forall>n. mem n \<noteq> None" and c: "ticking clk"
  obtains q where "framed (p_dst_ip_anno p) (pkt_bytes p) q"
    "resolved mem alloc (aq_time clk (p_dst_ip_anno p) st) (clk 1) (p_dst_ip_anno p) (pkt_bytes p) q st
       (AQ_handle_ip mem alloc clk p False st)"
proof -
  obtain q0 q where q: "push_mac_header mem 14 p = Some (Inr q0)" "p_mac q0 = Some (p_data q0)"
      "wr q0 (p_data q0 + 12) (u16_bytes (htons ETHERTYPE_IP)) = Inr q" "framed (p_dst_ip_anno p) (pkt_bytes p) q"
    using push_mac_framed [OF w mem] .
  have "AQ_handle_ip mem alloc clk p False st = AQ_resolve mem alloc clk 0 [] q st"
    using i(2) q(1-3) by (simp add: AQ_handle_ip_def sizeof_ether_def)
  then show thesis using that [OF q(4)] AQ_resolve_ok [OF i(1) q(4) c] by simp
qed

lemma AQ_handle_waiting_ok:
  assumes i: "aq_inv st" "aq_my_ip st \<noteq> 0" and f: "framed ip d q" and c: "ticking clk"
  shows "resolved mem alloc (aq_time clk ip st) (clk 1) ip d q st (AQ_handle_ip mem alloc clk q True st)"
proof -
  have "\<not> shared q" using f by (simp add: framed_def)
  then have "AQ_handle_ip mem alloc clk q True st = AQ_resolve mem alloc clk 0 [] q st"
    using i(2) by (simp add: AQ_handle_ip_def uniqueify_def)
  then show ?thesis using AQ_resolve_ok [OF i(1) f c] by simp
qed

section \<open>Answers\<close>

text \<open>The packets that waited for a next hop that is now known leave in their order, each with its address.\<close>

fun released :: "ethaddr \<Rightarrow> ipaddr \<Rightarrow> ARPQuerier \<Rightarrow> packet list \<Rightarrow> effect list \<Rightarrow> bool" where
  "released e ip st [] es \<longleftrightarrow> es = []"
| "released e ip st (p # ps) es \<longleftrightarrow>
     (\<exists>qs f rest. es = qs @ Push 0 f # rest \<and> questions ip st qs \<and>
        frame_sent (ether_frame e (aq_my_en st) (drop 14 (pkt_bytes p))) f \<and> released e ip st ps rest)"

lemma released_same: "same_aq st st' \<Longrightarrow> released e ip st' ps es = released e ip st ps es"
  by (induction ps arbitrary: es) (auto simp: same_aq_def questions_def)

lemma framed_drop: "framed ip d p \<Longrightarrow> d = drop 14 (pkt_bytes p)"
  by (auto simp: framed_def ether_frame_bytes)

lemma AQ_release_ok:
  assumes "aq_inv st" and "aq_my_ip st \<noteq> 0" and "\<forall>p \<in> set ps. \<exists>d. framed ip d p" and "\<forall>i j. clk i j = now"
    and "at_known now ip (aq_table st) = Some e"
  shows "\<exists>es st'. AQ_release mem alloc clk ps st = Some (Inr (es, st')) \<and> aq_inv st' \<and> same_aq st st' \<and>
    released e ip st ps es \<and> (\<forall>ip'. queue ip' (aq_table st') = queue ip' (aq_table st)) \<and>
    (\<forall>now' ip'. at_known now' ip' (aq_table st') = at_known now' ip' (aq_table st))"
  using assms
proof (induction ps arbitrary: st clk)
  case Nil
  then show ?case by (simp add: same_aq_def same_conf_def)
next
  case (Cons p ps)
  obtain d where f: "framed ip d p" using Cons.prems(3) by auto
  have hop: "aq_hop now ip st = Some e" using Cons.prems(5) by (simp add: aq_hop_def)
  have c: "\<forall>n. clk 0 n = now" using Cons.prems(4) by blast
  have "resolved mem alloc now (clk 0 1) ip d p st (AQ_handle_ip mem alloc (clk 0) p True st)"
    using AQ_handle_waiting_ok [OF Cons.prems(1,2) f ticking_const [OF c], of mem alloc] aq_time_const [OF c] by simp
  from resolved_sent [OF this Cons.prems(1) hop] obtain qs fr st1 where
    r: "AQ_handle_ip mem alloc (clk 0) p True st = Some (Inr (qs @ [Push 0 fr], st1))" "aq_inv st1" "same_aq st st1"
    and h: "questions ip st qs" "frame_sent (ether_frame e (aq_my_en st) d) fr"
      "\<forall>ip'. queue ip' (aq_table st1) = queue ip' (aq_table st)"
      "\<forall>now' ip'. at_known now' ip' (aq_table st1) = at_known now' ip' (aq_table st)" by blast
  have k: "\<forall>i j. clk (Suc i) j = now" "at_known now ip (aq_table st1) = Some e" using Cons.prems(4,5) h(4) by simp_all
  have m: "aq_my_ip st1 \<noteq> 0" using Cons.prems(2) r(3) by (simp add: same_aq_def)
  obtain es' st' where t: "AQ_release mem alloc (\<lambda>i. clk (Suc i)) ps st1 = Some (Inr (es', st'))" "aq_inv st'" "same_aq st1 st'"
      "released e ip st1 ps es'" "\<forall>ip'. queue ip' (aq_table st') = queue ip' (aq_table st1)"
      "\<forall>now' ip'. at_known now' ip' (aq_table st') = at_known now' ip' (aq_table st1)"
    using Cons.IH [OF r(2) m Cons.prems(3) [unfolded list.set ball_simps, THEN conjunct2] k] by blast
  have "released e ip st (p # ps) ((qs @ [Push 0 fr]) @ es')"
    using h(1,2) t(4) released_same [OF r(3)] framed_drop [OF f] by auto
  moreover have "same_aq st st'" using r(3) t(3) by (simp add: same_aq_def same_conf_def)
  ultimately show ?case using r(1) t h(3,4) by simp
qed
definition arp_reply :: "ethaddr \<Rightarrow> ipaddr \<Rightarrow> ethaddr \<Rightarrow> ipaddr \<Rightarrow> byte list" where
  "arp_reply target_eth target_ip src_eth src_ip =
     enc_ether \<lparr>ether_dhost = target_eth, ether_shost = src_eth, ether_type = htons ETHERTYPE_ARP\<rparr> @
     enc_arp \<lparr>ar_hrd = htons ARPHRD_ETHER, ar_pro = htons ETHERTYPE_IP, ar_hln = 6, ar_pln = 4,
              ar_op = htons ARPOP_REPLY, arp_sha = src_eth, arp_spa = src_ip, arp_tha = target_eth, arp_tpa = target_ip\<rparr>"

lemma length_arp_reply: "length target_eth = 6 \<Longrightarrow> length src_eth = 6 \<Longrightarrow> length (arp_reply target_eth ti src_eth si) = 42"
  by (simp add: arp_reply_def length_enc_ether length_enc_arp)

lemma dec_arp_frame:
  assumes "length (ether_dhost e) = 6" "length (ether_shost e) = 6" "length (arp_sha a) = 6" "length (arp_tha a) = 6"
    and "wf_pkt p" "pkt_bytes p = enc_ether e @ enc_arp a"
  shows "p_len p = 42" "rd p (p_data p) 42 = Inr (enc_ether e @ enc_arp a)" "dec_ether (enc_ether e @ enc_arp a) = e"
    "dec_arp (drop 14 (enc_ether e @ enc_arp a)) = a"
proof -
  have l: "length (enc_ether e) = 14" "length (enc_arp a) = 28" using assms(1-4) by (simp_all add: length_enc_ether length_enc_arp)
  show len: "p_len p = 42" using length_pkt_bytes [OF assms(5)] assms(6) l by simp
  show "rd p (p_data p) 42 = Inr (enc_ether e @ enc_arp a)"
    using rd_data [OF assms(5), of 0 42] len assms(6) l by (simp add: chunk_def)
  show "dec_ether (enc_ether e @ enc_arp a) = e" "dec_arp (drop 14 (enc_ether e @ enc_arp a)) = a"
    using dec_enc_ether [OF assms(1,2)] dec_enc_arp [OF assms(3,4), of "[]"] l(1) by simp_all
qed

lemma not_group_not_broadcast: "\<not> is_group e \<Longrightarrow> e \<noteq> ether_broadcast"
  by (auto simp: is_group_def ether_broadcast_def)

lemma aq_queues_insert:
  assumes "aq_queues t" and "queue ip t' = []" and "\<forall>ip'. ip' \<noteq> ip \<longrightarrow> (\<exists>k. queue ip' t' = drop k (queue ip' t))"
  shows "aq_queues t'"
proof (rule aq_queues_shrink [OF assms(1)])
  fix ip' show "\<exists>k. queue ip' t' = drop k (queue ip' t)"
    using assms(2,3) by (cases "ip' = ip") (auto intro: exI [of _ "length (queue ip t)"])
qed

text \<open>An answer is entered, and what waited for it is released; other packets may be given up for the new entry.\<close>

lemma AQ_reply_ok:
  assumes i: "aq_inv st" "aq_my_ip st \<noteq> 0" and a: "length te = 6" "length e = 6" "\<not> is_group e"
    and p: "wf_pkt p" "pkt_bytes p = arp_reply te ti e ip" and c: "\<forall>i j. clk i j = now"
    and t: "\<not> (sint (at_timeout_j (aq_table st)) < 0)"
  shows "\<exists>ps es st'. AQ_handle_response mem True now clk p st = Some (Inr (map Kill ps @ es, st')) \<and> aq_inv st' \<and> same_aq st st' \<and>
    released e ip st (queue ip (aq_table st)) es \<and> queue ip (aq_table st') = [] \<and> at_known now ip (aq_table st') = Some e"
proof -
  note dec = dec_arp_frame [OF _ _ _ _ p [unfolded arp_reply_def], simplified, OF a(1,2)]
  let ?st = "st\<lparr>aq_arp_responses := aq_arp_responses st + 1\<rparr>"
  obtain t' es ae where ins: "AT_insert True now ip e True (aq_table st) = Inr (0, queue ip (aq_table st), t', es)" "at_inv t'"
      "same_conf (aq_table st) t'" "conserves (aq_table st) [] (queue ip (aq_table st)) t' es" "queue ip t' = []"
      "\<forall>ip'. ip' \<noteq> ip \<longrightarrow> (\<exists>k. queue ip' t' = drop k (queue ip' (aq_table st)))"
      "AT_find ip t' = Some ae" "ae_eth ae = e" "ae_known ae = (e \<noteq> ether_broadcast)" "ae_live_at_j ae = now"
    using AT_insert_ok [of "aq_table st" e True now ip True] i a(2) by (auto simp: aq_inv_def)
  let ?st1 = "?st\<lparr>aq_table := t'\<rparr>"
  have k: "at_known now ip t' = Some e"
    using ins(3,7-10) t not_group_not_broadcast [OF a(3)]
    by (auto simp: at_known_def AE_known_def AE_expired_def click_jiffies_less_def same_conf_def)
  have i1: "aq_inv ?st1" using i(1) ins(2) aq_queues_insert [OF _ ins(5,6)] by (simp add: aq_inv_def)
  have q: "\<forall>p \<in> set (queue ip (aq_table st)). \<exists>d. framed ip d p" using i(1) by (simp add: aq_inv_def aq_queues_def)
  obtain es' st' where r: "AQ_release mem True clk (queue ip (aq_table st)) ?st1 = Some (Inr (es', st'))" "aq_inv st'" "same_aq ?st1 st'"
      "released e ip ?st1 (queue ip (aq_table st)) es'" "\<forall>ip'. queue ip' (aq_table st') = queue ip' t'"
      "\<forall>now' ip'. at_known now' ip' (aq_table st') = at_known now' ip' t'"
    using AQ_release_ok [OF i1 _ q c, of e mem True] i(2) k by auto
  have sm: "same_aq st ?st1" using ins(3) by (simp add: same_aq_def)
  obtain ps where ps: "es = map Kill ps" using ins(4) by (auto simp: conserves_def)
  have "AQ_handle_response mem True now clk p st = Some (Inr (es @ es', st'))"
    using dec a(3) ins(1) r(1) by (simp add: AQ_handle_response_def sizeof_ether_def sizeof_ether_arp_def Let_def)
  moreover have "same_aq st st'" using sm r(3) by (simp add: same_aq_def same_conf_def)
  ultimately show ?thesis using r released_same [OF sm] ps k ins(5) by auto
qed
lemma AQ_release_safe:
  assumes "aq_inv st" and "\<forall>p \<in> set ps. \<exists>ip d. framed ip d p" and "\<forall>i. ticking (clk i)"
  shows "\<exists>es st'. AQ_release mem alloc clk ps st = Some (Inr (es, st')) \<and> aq_inv st' \<and> same_aq st st'"
  using assms
proof (induction ps arbitrary: st clk)
  case Nil
  then show ?case by (simp add: same_aq_def same_conf_def)
next
  case (Cons p ps)
  obtain ip d where f: "framed ip d p" using Cons.prems(2) by auto
  obtain es st1 where r: "AQ_handle_ip mem alloc (clk 0) p True st = Some (Inr (es, st1))" "aq_inv st1" "same_aq st st1"
  proof (cases "aq_my_ip st = 0")
    case True
    then show thesis using that Cons.prems(1) by (simp add: AQ_handle_ip_def aq_inv_def same_aq_def same_conf_def)
  next
    case False
    have "ticking (clk 0)" using Cons.prems(3) by blast
    from resolvedD [OF AQ_handle_waiting_ok [OF Cons.prems(1) False f this, of mem alloc]]
    show thesis using that by blast
  qed
  have "\<forall>i. ticking (clk (Suc i))" "\<forall>p \<in> set ps. \<exists>ip d. framed ip d p" using Cons.prems(2,3) by auto
  from Cons.IH [OF r(2) this(2,1)] obtain es' st' where t: "AQ_release mem alloc (\<lambda>i. clk (Suc i)) ps st1 = Some (Inr (es', st'))"
      "aq_inv st'" "same_aq st1 st'" by blast
  then show ?case using r by (simp add: same_aq_def same_conf_def)
qed

lemma AQ_handle_response_safe:
  assumes i: "aq_inv st" and p: "wf_pkt p" and c: "\<forall>i. ticking (clk i)"
  shows "\<exists>es st'. AQ_handle_response mem True now clk p st = Some (Inr (es, st')) \<and> aq_inv st' \<and> same_aq st st'"
proof (cases "p_len p < 42")
  case True
  then show ?thesis using i by (simp add: AQ_handle_response_def sizeof_ether_def sizeof_ether_arp_def same_aq_def same_conf_def)
next
  case False
  let ?st = "st\<lparr>aq_arp_responses := aq_arp_responses st + 1\<rparr>"
  have ist: "aq_inv ?st" "same_aq st ?st" using i by (simp_all add: aq_inv_def same_aq_def same_conf_def)
  obtain bs where bs: "rd p (p_data p) 42 = Inr bs" "length bs = 42"
    using rd_data [OF p, of 0 42] False length_pkt_bytes [OF p] by auto
  define a where "a = dec_arp (drop 14 bs)"
  have la: "length (arp_sha a) = 6" using bs(2) by (simp add: a_def dec_arp_def)
  obtain r ps t' es where ins: "AT_insert True now (arp_spa a) (arp_sha a) True (aq_table st) = Inr (r, ps, t', es)" "at_inv t'"
      "same_conf (aq_table st) t'" "r = 0" "ps = queue (arp_spa a) (aq_table st)" "queue (arp_spa a) t' = []"
      "\<forall>ip'. ip' \<noteq> arp_spa a \<longrightarrow> (\<exists>k. queue ip' t' = drop k (queue ip' (aq_table st)))"
    using AT_insert_ok [of "aq_table st" "arp_sha a" True now "arp_spa a" True] i la by (auto simp: aq_inv_def)
  let ?st1 = "?st\<lparr>aq_table := t'\<rparr>"
  have i1: "aq_inv ?st1" "same_aq st ?st1"
    using i ins(2,3) aq_queues_insert [OF _ ins(6,7)] by (simp_all add: aq_inv_def same_aq_def)
  have q: "\<forall>p \<in> set ps. \<exists>ip d. framed ip d p" using i unfolding ins(5) aq_inv_def aq_queues_def by blast
  obtain es' st' where rel: "AQ_release mem True clk ps ?st1 = Some (Inr (es', st'))" "aq_inv st'" "same_aq ?st1 st'"
    using AQ_release_safe [OF i1(1) q c] by blast
  have "same_aq st st'" using rel(3) i1(2) by (simp add: same_aq_def same_conf_def)
  then show ?thesis
    using False bs(1) ins(1,4) rel(1,2) ist
    by (auto simp: AQ_handle_response_def sizeof_ether_def sizeof_ether_arp_def Let_def a_def [symmetric])
qed

text \<open>The other ways to change the state.\<close>

lemma AQ_write_handler_safe:
  assumes "aq_inv st" and "wf_write w"
  shows "\<exists>r es st'. AQ_write_handler alloc now w st = Inr (r, st', es) \<and> aq_inv st' \<and> same_aq st st'"
proof -
  obtain r t es where t: "AT_write_handler alloc now w (aq_table st) = Inr (r, t, es)" "at_inv t" "same_conf (aq_table st) t"
      "\<forall>ip. \<exists>k. queue ip t = drop k (queue ip (aq_table st))"
    using AT_write_handler_ok [OF _ assms(2), of "aq_table st" alloc now] assms(1) by (auto simp: aq_inv_def)
  moreover have "aq_queues t" using aq_queues_shrink [of "aq_table st" t] t(4) assms(1) by (simp add: aq_inv_def)
  ultimately show ?thesis using assms(1) by (simp add: AQ_write_handler_def Let_def aq_inv_def same_aq_def)
qed

lemma AQ_timer_safe:
  assumes "aq_inv st"
  shows "\<exists>t es. AT_run_timer now (aq_table st) = Inr (t, es) \<and> aq_inv (st\<lparr>aq_table := t\<rparr>)"
proof -
  obtain t es where t: "AT_run_timer now (aq_table st) = Inr (t, es)" "at_inv t" "gives_up (aq_table st) t es"
    using AT_run_timer_ok [of "aq_table st" now] assms by (auto simp: aq_inv_def)
  moreover have "aq_queues t" using aq_queues_shrink [of "aq_table st" t] t(3) assms by (auto simp: aq_inv_def gives_up_def)
  ultimately show ?thesis using assms by (simp add: aq_inv_def)
qed

text \<open>A configured querier with its own table.\<close>

lemma AQ_configure_ok:
  assumes c: "AQ_configure undef a Absent st = (0, st')" and s: "a_slim_factor a \<noteq> Given 0"
    and l: "\<And>e. a_eth a = Given e \<Longrightarrow> length e = 6" "a_capacity a \<noteq> Given 0xFFFFFFFF" "a_entry_capacity a \<noteq> Given 0xFFFFFFFF"
  shows "aq_inv st'"
proof -
  let ?c = "AT_configure (a_capacity a) (a_entry_capacity a) (a_entry_packet_capacity a) (a_slim_factor a) (a_timeout a) False (new_ARPTable undef)"
  have k: "arpq_keywords_ok a" and f: "aq_table st' = snd ?c" "\<exists>e. a_eth a = Given e \<and> aq_my_en st' = e"
    using c by (auto simp: AQ_configure_def Let_def given_arg_def split: if_splits option.splits)
  have "fst ?c = 0"
    using k s by (auto simp: AT_configure_def arpq_keywords_ok_def Args_read_def Let_def new_ARPTable_def split: arg.splits)
  then have "?c = (0, aq_table st')" using f(1) by (metis prod.collapse)
  from AT_configure_ok(1,2) [OF this l(2,3)] have t: "at_inv (aq_table st')" "waiting (aq_table st') = {#}" .
  have "aq_queues (aq_table st')"
  proof -
    have "queue ip (aq_table st') = []" for ip
    proof (cases "AT_find ip (aq_table st')")
      case (Some ae)
      then have "set (ae_packets ae) \<subseteq> set (queued (at_age (aq_table st')))"
        using find_ip_Some [OF Some] by (auto simp: queued_def)
      then show ?thesis using t(2) Some by (simp add: waiting_def queue_def)
    qed (simp add: queue_def)
    then show ?thesis by (simp add: aq_queues_def)
  qed
  then show ?thesis using t(1) f(2) l(1) by (auto simp: aq_inv_def)
qed
section \<open>Examples\<close>

definition sample_arpq_args :: arpq_args where
  "sample_arpq_args =
     \<lparr>a_capacity = Absent, a_entry_capacity = Absent, a_entry_packet_capacity = Absent, a_slim_factor = Absent,
      a_timeout = Absent, a_broadcast = Absent, a_poll_timeout = Absent, a_broadcast_poll = Absent,
      a_ip = Given (0x0100A8C0, 0x00FFFFFF), a_eth = Given [2, 0, 0, 0, 0, 1], a_unread = False\<rparr>"

definition sample_AQ :: ARPQuerier where
  "sample_AQ =
     \<lparr>aq_table = (new_ARPTable 0)\<lparr>at_timeout_j := 300000\<rparr>, aq_my_en = [2, 0, 0, 0, 0, 1], aq_my_ip = 0x0100A8C0,
      aq_my_bcast_ip = 0xFF00A8C0, aq_poll_timeout_j = 60000, aq_broadcast_poll = False, aq_arp_queries = 0, aq_drops = 0,
      aq_arp_responses = 0, aq_my_arpt = True, aq_zero_warned = False, aq_noutputs = 1\<rparr>"

definition sample_datagram :: packet where
  "sample_datagram = \<lparr>p_buf = replicate 28 0 @ [0x45, 0, 0, 1], p_data = 28, p_len = 4, p_mac = None, p_nh = Some 28, p_h = None,
     p_dst_ip_anno = 0x0200A8C0, p_use_count = 1, p_data_packet = False\<rparr>"

lemma sample_AQ_facts:
  "aq_inv sample_AQ" "aq_my_ip sample_AQ \<noteq> 0" "AT_find ip (aq_table sample_AQ) = None" "queue ip (aq_table sample_AQ) = []"
  by (simp_all add: aq_inv_def at_inv_def at_counts_def at_bounds_def aq_queues_def queue_def AT_find_def sample_AQ_def new_ARPTable_def)

lemma sample_datagram_facts:
  "wf_pkt sample_datagram" "pkt_bytes sample_datagram = [0x45, 0, 0, 1]" "p_dst_ip_anno sample_datagram = 0x0200A8C0"
  by (simp_all add: sample_datagram_def wf_pkt_def pkt_bytes_def chunk_def)

lemma sample_hop: "aq_hop now 0x0200A8C0 sample_AQ = None"
  by (simp add: aq_hop_def at_known_def sample_AQ_facts is_multicast_def) (simp add: sample_AQ_def)

text \<open>
  A querier that learned the address of 192.168.0.2 at time 0, and the clock of a call during which that entry, expired long
  ago, becomes known again.
\<close>

definition sample_stale_AQ :: ARPQuerier where
  "sample_stale_AQ = sample_AQ\<lparr>aq_table := (aq_table sample_AQ)\<lparr>at_entry_count := 1, at_age :=
     [\<lparr>ae_ip = 0x0200A8C0, ae_eth = [2, 0, 0, 0, 0, 2], ae_known = True, ae_num_polls = 0, ae_live_at_j = 0,
       ae_polled_at_j = 0xFFFFFC18, ae_packets = [], ae_packet_count = 0\<rparr>]\<rparr>\<rparr>"

definition sample_clk :: "nat \<Rightarrow> u32" where
  "sample_clk n = 2147783648 + (if n = 0 then 0 else 1)"

lemma sample_clk_ticking: "ticking sample_clk"
  unfolding ticking_def
  by (intro exI [of _ "\<lambda>n. if n = 0 then 0 else 1"]) (auto simp: mono_def sample_clk_def)

lemma sample_stale_facts:
  "aq_inv sample_stale_AQ" "aq_my_ip sample_stale_AQ \<noteq> 0" "aq_my_en sample_stale_AQ = [2, 0, 0, 0, 0, 1]"
proof -
  have "AT_find ip (aq_table sample_stale_AQ) = Some ae \<Longrightarrow> ae_packets ae = []" for ip ae
    by (auto simp: AT_find_def sample_stale_AQ_def split: if_splits)
  then have "queue ip (aq_table sample_stale_AQ) = []" for ip by (auto simp: queue_def split: option.splits)
  moreover have "[2, 0, 0, 0, 0, 2] \<noteq> ether_broadcast" by code_simp
  ultimately show "aq_inv sample_stale_AQ"
    by (simp add: aq_inv_def aq_queues_def)
      (simp add: at_inv_def at_counts_def at_bounds_def entry_ok_def sample_stale_AQ_def sample_AQ_def new_ARPTable_def)
qed (simp_all add: sample_stale_AQ_def sample_AQ_def)

lemma sample_stale_known:
  "at_known (sample_clk 0) 0x0200A8C0 (aq_table sample_stale_AQ) = None"
  "n \<noteq> 0 \<Longrightarrow> at_known (sample_clk n) 0x0200A8C0 (aq_table sample_stale_AQ) = Some [2, 0, 0, 0, 0, 2]"
  by (simp_all add: at_known_def AT_find_def sample_stale_AQ_def sample_AQ_def AE_known_def AE_expired_def click_jiffies_less_def
        sample_clk_def sint_neg_iff)

lemma sample_stale_time:
  "aq_time sample_clk 0x0200A8C0 sample_stale_AQ = sample_clk 2"
  "aq_hop (sample_clk 2) 0x0200A8C0 sample_stale_AQ = Some [2, 0, 0, 0, 0, 2]"
proof -
  have "aq_hop (sample_clk 0) 0x0200A8C0 sample_stale_AQ = None"
    using sample_stale_known(1) by (simp add: aq_hop_def is_multicast_def) (simp add: sample_stale_AQ_def sample_AQ_def)
  then show "aq_time sample_clk 0x0200A8C0 sample_stale_AQ = sample_clk 2"
    using sample_stale_known(2) [of 1] by (simp add: aq_time_def)
  show "aq_hop (sample_clk 2) 0x0200A8C0 sample_stale_AQ = Some [2, 0, 0, 0, 0, 2]"
    using sample_stale_known(2) [of 2] by (simp add: aq_hop_def)
qed

section \<open>Properties of the querier\<close>

text \<open>
  C29: A querier whose table is in order (\<open>aq_inv\<close>: as configured with its own table, and kept so here), on whatever packet at either
  input, with memory for packets and table entries: it does not fault, that is, every packet access is in bounds and its assertions (a known
  address is no broadcast address, waiting packets are not shared) hold; its retry loop ends, also when the clock ticks between the
  lookup and the queueing (no call takes \<open>2 ^ 31\<close> milliseconds); and its table is in order afterwards.
\<close>

theorem AQ_push_safe:
  assumes "aq_inv st" and "wf_pkt p" and "\<forall>n. mem n \<noteq> None" and "\<forall>i. ticking (clk i)"
  shows "\<exists>es st'. AQ_push mem True now clk port p st = Some (Inr (es, st')) \<and> aq_inv st'"
proof (cases "port = 0")
  case False
  then show ?thesis using AQ_handle_response_safe [OF assms(1,2,4), of mem now] by (auto simp: AQ_push_def)
next
  case True
  show ?thesis
  proof (cases "aq_my_ip st = 0")
    case zero: True
    then show ?thesis using True assms(1) by (simp add: AQ_push_def AQ_handle_ip_def aq_inv_def)
  next
    case False
    have "ticking (clk 0)" using assms(4) by blast
    from AQ_handle_ip_ok [OF assms(1) False assms(2,3) this] resolvedD True show ?thesis
      unfolding AQ_push_def by metis
  qed
qed

text \<open>The datagram for the host with the stale entry: the lookup fails, the queueing finds the entry known, and the loop goes round.\<close>

theorem AQ_push_safe_witness:
  "at_known (sample_clk 0) (p_dst_ip_anno sample_datagram) (aq_table sample_stale_AQ) = None \<and>
   at_known (sample_clk 1) (p_dst_ip_anno sample_datagram) (aq_table sample_stale_AQ) \<noteq> None \<and>
   (\<exists>es st'. AQ_push (\<lambda>n. Some (\<lambda>i. 0)) True 7 (\<lambda>i. sample_clk) 0 sample_datagram sample_stale_AQ = Some (Inr (es, st')) \<and> aq_inv st')"
  using AQ_push_safe [OF sample_stale_facts(1) sample_datagram_facts(1), of "\<lambda>n. Some (\<lambda>i. 0)" "\<lambda>i. sample_clk" 7 0]
    sample_clk_ticking sample_stale_known sample_datagram_facts(3) by simp

text \<open>
  C28: What a querier with an address, its table in order and memory for packets does with a datagram, by what its table holds at the time of the
  lookup (the second one, if the entry became known again in between): for a next hop whose Ethernet address is known, or
  is computed for broadcast and multicast addresses, the datagram leaves at output 0 with that address and the querier's own in its
  Ethernet header, after a question to that host exactly when the entry is due for one; without next hop it is
  freed; it is refused and freed exactly when there is no memory for a new entry or the entry's queue is full; otherwise it becomes the last one that
  waits for its next hop, and a question is broadcast exactly when it is the first or the time since the last one is up. Waiting packets
  that are given up for it are freed, the oldest of a queue first.
\<close>

theorem AQ_sends_or_asks:
  assumes "aq_inv st" and "aq_my_ip st \<noteq> 0" and "wf_pkt p" and "\<forall>n. mem n \<noteq> None" and "ticking (clk 0)"
  shows "\<exists>q es st'. AQ_push mem alloc now clk 0 p st = Some (Inr (es, st')) \<and> aq_inv st' \<and>
    framed (p_dst_ip_anno p) (pkt_bytes p) q \<and>
    served mem alloc (aq_time (clk 0) (p_dst_ip_anno p) st) (clk 0 1) (p_dst_ip_anno p) (pkt_bytes p) q st es st'"
proof -
  obtain q where q: "framed (p_dst_ip_anno p) (pkt_bytes p) q"
      "resolved mem alloc (aq_time (clk 0) (p_dst_ip_anno p) st) (clk 0 1) (p_dst_ip_anno p) (pkt_bytes p) q st
         (AQ_handle_ip mem alloc (clk 0) p False st)"
    using AQ_handle_ip_ok [OF assms] by blast
  then show ?thesis unfolding resolved_def AQ_push_def by auto
qed

text \<open>The first datagram for a host is queued and the question leaves.\<close>

theorem AQ_sends_or_asks_witness:
  "\<exists>q ps qs st'. AQ_push (\<lambda>n. Some (\<lambda>i. 0)) True 7 (\<lambda>i j. 7) 0 sample_datagram sample_AQ = Some (Inr (map Kill ps @ qs, st')) \<and>
     question (replicate 6 0xFF) 0x0200A8C0 sample_AQ qs \<and> queue 0x0200A8C0 (aq_table st') = [q]"
proof -
  have t: "ticking (\<lambda>j. 7)" "aq_time (\<lambda>j. 7) 0x0200A8C0 sample_AQ = 7" by (simp_all add: ticking_const aq_time_const)
  obtain q es st' where x: "AQ_push (\<lambda>n. Some (\<lambda>i. 0)) True 7 (\<lambda>i j. 7) 0 sample_datagram sample_AQ = Some (Inr (es, st'))"
      "served (\<lambda>n. Some (\<lambda>i. 0)) True 7 7 0x0200A8C0 [0x45, 0, 0, 1] q sample_AQ es st'"
    using AQ_sends_or_asks [OF sample_AQ_facts(1,2) sample_datagram_facts(1), of "\<lambda>n. Some (\<lambda>i. 0)" "\<lambda>i j. 7" True 7] t
    unfolding sample_datagram_facts by auto
  have "\<not> at_refuses True 0x0200A8C0 (aq_table sample_AQ)" "at_may_ask 7 0x0200A8C0 (aq_table sample_AQ)"
    by (simp_all add: at_refuses_def at_may_ask_def sample_AQ_facts)
  with x sample_hop [of 7] show ?thesis by (auto simp: served_def sample_AQ_facts)
qed

section \<open>Where the querier fails\<close>

text \<open>
  The return value of the table's \<open>configure\<close> is ignored: with a \<open>CAPACITY_SLIM_FACTOR\<close> of zero the querier's own \<open>configure\<close> succeeds,
  and the first packet too many makes \<open>slim\<close> divide by zero.
\<close>

lemma AQ_zero_slim_factor:
  "case AQ_configure 0 (sample_arpq_args\<lparr>a_slim_factor := Given 0, a_capacity := Given 1\<rparr>) Absent sample_AQ of
     (r, st) \<Rightarrow> r = 0 \<and>
       run AT_step [Append True 7 0x0200A8C0 (sample_waiting 1), Append True 7 0x0200A8C0 (sample_waiting 2)] (aq_table st) =
         Inl DivisionByZero"
proof -
  let ?t = "(new_ARPTable 0)\<lparr>at_packet_capacity := 1, at_slim_factor := 0\<rparr>"
  have "run AT_step [Append True 7 0x0200A8C0 (sample_waiting 1), Append True 7 0x0200A8C0 (sample_waiting 2)] ?t = Inl DivisionByZero"
    by code_simp
  moreover have "snd (AT_configure (Given 1) Absent Absent (Given 0) Absent False (new_ARPTable 0)) = ?t"
    by (simp add: AT_configure_def Args_read_def new_ARPTable_def)
  ultimately show ?thesis
    by (simp add: AQ_configure_def sample_arpq_args_def arpq_keywords_ok_def given_arg_def Args_read_m_def Let_def)
qed

text \<open>When there is no memory for the entry of an answer, the loop over the released packets starts from an uninitialised pointer.\<close>

lemma AQ_answer_without_memory:
  assumes "AT_find ip (aq_table st) = None" and "length te = 6" "length e = 6" "\<not> is_group e"
    and p: "wf_pkt p" "pkt_bytes p = arp_reply te ti e ip"
  shows "AQ_handle_response mem False now clk p st = Some (Inl NullPointer)"
proof -
  note dec = dec_arp_frame [OF _ _ _ _ p [unfolded arp_reply_def], simplified, OF assms(2,3)]
  have "AT_insert False now ip e True (aq_table st) = Inr (- ENOMEM, [], aq_table st, [])"
    using assms(1) by (simp add: AT_insert_def AT_ensure_def)
  then show ?thesis using dec assms(4)
    by (simp add: AQ_handle_response_def sizeof_ether_def sizeof_ether_arp_def Let_def ENOMEM_def)
qed

end
