(* ===== verification/ARP_Responder.thy ===== *)
theory ARP_Responder
  imports ARP_Querier
begin

text \<open>
  \<^verbatim>\<open>click/elements/ethernet/arpresponder.{hh,cc}\<close>, which answers the questions of other hosts' \<^verbatim>\<open>ARPQuerier\<close>s for its own
  addresses. Shown: whom it answers and with what, and that question and answer together bring the waiting datagrams onto the link.
\<close>

unbundle bit_operations_syntax

section \<open>Entries\<close>

record ar_entry =
  are_dst :: ipaddr
  are_mask :: ipaddr
  are_ena :: ethaddr

record ARPResponder =
  ar_v :: "ar_entry list"
  ar_noutputs :: nat

fun AR_lookup :: "ipaddr \<Rightarrow> ar_entry list \<Rightarrow> ethaddr option" where
  "AR_lookup addr [] = None"
| "AR_lookup addr (it # its) = (if addr AND are_mask it = are_dst it then Some (are_ena it) else AR_lookup addr its)"

text \<open>
  A word of an argument is given by what it parses as: an address prefix (address and mask), an Ethernet address, both or
  neither.
\<close>

type_synonym ar_word = "(ipaddr \<times> ipaddr) option \<times> ethaddr option"

fun AR_add_words :: "ar_word list \<Rightarrow> ethaddr option \<Rightarrow> ((ipaddr \<times> ipaddr) list \<times> ethaddr option) option" where
  "AR_add_words [] ena = Some ([], ena)"
| "AR_add_words (w # ws) ena =
     (case w of
        (Some prefix, _) \<Rightarrow> map_option (\<lambda>(ps, ena). (prefix # ps, ena)) (AR_add_words ws ena)
      | (None, Some e) \<Rightarrow> if ena \<noteq> None then None else AR_add_words ws (Some e)
      | (None, None) \<Rightarrow> None)"

definition AR_add :: "ar_entry list \<Rightarrow> ar_word list \<Rightarrow> int \<times> ar_entry list" where
  "AR_add v words =
     (case AR_add_words words None of
        None \<Rightarrow> (- EINVAL, v)
      | Some (ps, ena) \<Rightarrow>
          let ena = (if ena = None then (case find (\<lambda>e. e \<noteq> None) (map snd words) of Some e \<Rightarrow> e | None \<Rightarrow> None) else ena) in
          if ps = [] then (- EINVAL, v)
          else
          case ena of
            None \<Rightarrow> (- EINVAL, v)
          | Some e \<Rightarrow> (0, v @ map (\<lambda>(addr, netmask). \<lparr>are_dst = addr AND netmask, are_mask = netmask, are_ena = e\<rparr>) ps))"

fun AR_remove :: "ipaddr \<Rightarrow> ipaddr \<Rightarrow> ar_entry list \<Rightarrow> ar_entry list option" where
  "AR_remove addr netmask [] = None"
| "AR_remove addr netmask (it # its) =
     (if are_dst it = addr \<and> are_mask it = netmask then Some its
      else map_option (\<lambda>v. it # v) (AR_remove addr netmask its))"

definition AR_remove_handler :: "(ipaddr \<times> ipaddr) arg \<Rightarrow> ARPResponder \<Rightarrow> int \<times> ARPResponder" where
  "AR_remove_handler s st =
     (case Args_read_m s of
        None \<Rightarrow> (- EINVAL, st)
      | Some (addr, netmask) \<Rightarrow>
          (case AR_remove (addr AND netmask) netmask (ar_v st) of None \<Rightarrow> (- EINVAL, st) | Some v \<Rightarrow> (0, st\<lparr>ar_v := v\<rparr>)))"

section \<open>Answers\<close>

definition AR_make_response :: "allocator \<Rightarrow> ethaddr \<Rightarrow> ipaddr \<Rightarrow> ethaddr \<Rightarrow> ipaddr \<Rightarrow> packet option res" where
  "AR_make_response mem target_eth target_ip src_eth src_ip =
     (case Packet_make mem default_headroom None (sizeof_ether + sizeof_ether_arp) 0 of
        None \<Rightarrow> Inr None
      | Some q \<Rightarrow>
          res_bind (set_ether_header (p_data q) q) (\<lambda>q.
          res_bind (wr q (p_data q)
             (enc_ether \<lparr>ether_dhost = target_eth, ether_shost = src_eth, ether_type = htons ETHERTYPE_ARP\<rparr> @
              enc_arp \<lparr>ar_hrd = htons ARPHRD_ETHER, ar_pro = htons ETHERTYPE_IP, ar_hln = 6, ar_pln = 4,
                       ar_op = htons ARPOP_REPLY, arp_sha = src_eth, arp_spa = src_ip, arp_tha = target_eth,
                       arp_tpa = target_ip\<rparr>)) (\<lambda>q.
          Inr (Some q))))"

definition AR_simple_action :: "allocator \<Rightarrow> packet \<Rightarrow> ARPResponder \<Rightarrow> (effect list \<times> packet option) res" where
  "AR_simple_action mem p st =
     res_bind
       (if p_len p < sizeof_ether + sizeof_ether_arp then Inr None
        else
        res_bind (rd p (p_data p) (sizeof_ether + sizeof_ether_arp)) (\<lambda>bs.
        let e = dec_ether bs; ea = dec_arp (drop sizeof_ether bs) in
        if ether_type e = htons ETHERTYPE_ARP \<and> ar_hrd ea = htons ARPHRD_ETHER \<and> ar_pro ea = htons ETHERTYPE_IP \<and>
           ar_op ea = htons ARPOP_REQUEST
        then
          case AR_lookup (arp_tpa ea) (ar_v st) of
            None \<Rightarrow> Inr None
          | Some ena \<Rightarrow> AR_make_response mem (arp_sha ea) (arp_spa ea) ena (arp_tpa ea)
        else Inr None)) (\<lambda>q.
     Inr (if q \<noteq> None then [Kill p] else [checked_output_push (ar_noutputs st) 1 p], q))"

section \<open>The answer to a question\<close>

lemma AR_lookup_length: "AR_lookup ip v = Some e \<Longrightarrow> \<forall>it \<in> set v. length (are_ena it) = 6 \<Longrightarrow> length e = 6"
  by (induction v) (auto split: if_splits)

lemma AR_make_response_ok:
  assumes l: "length te = 6" "length e = 6" and mem: "\<forall>n. mem n \<noteq> None"
  shows "\<exists>f. AR_make_response mem te ti e ip = Inr (Some f) \<and> frame_sent (arp_reply te ti e ip) f"
proof -
  let ?bs = "arp_reply te ti e ip"
  have lb: "length ?bs = 42" using length_arp_reply [OF l] .
  have "alloc_data mem 28 42 0 \<noteq> None" using mem by (auto simp: alloc_data_def Let_def)
  then obtain q where q: "Packet_make mem 28 None 42 0 = Some q" by (auto simp: Packet_make_def)
  note m = Packet_make_SomeD [OF q]
  have mk: "Packet_make mem 28 None (length ?bs) 0 = Some q" using q lb by simp
  note fs = fresh_store [OF mk]
  let ?q = "q\<lparr>p_mac := Some 28, p_nh := Some 42\<rparr>"
  let ?f = "store (p_data q) ?bs ?q"
  have eq: "?f = (store (p_data q) ?bs q)\<lparr>p_mac := Some 28, p_nh := Some 42\<rparr>" by (simp add: store_def)
  have "frame_sent ?bs ?f"
    unfolding eq frame_sent_def using fs by (simp add: wf_pkt_def pkt_bytes_def shared_def)
  moreover have "set_ether_header (p_data q) q = Inr ?q" "wr ?q (p_data q) ?bs = Inr ?f"
    using m lb by (simp_all add: set_ether_header_def set_mac_header_def wr_def store_def)
  then have "AR_make_response mem te ti e ip = Inr (Some ?f)"
    by (simp add: AR_make_response_def default_headroom_def sizeof_ether_def sizeof_ether_arp_def q arp_reply_def [symmetric])
  ultimately show ?thesis by blast
qed

text \<open>A question for an address of the table is answered with its Ethernet address; one for another address goes to output 1.\<close>

lemma AR_question:
  assumes p: "wf_pkt p" "pkt_bytes p = arp_query dhost en ip0 ip" and l: "length dhost = 6" "length en = 6"
    and v: "\<forall>it \<in> set (ar_v st). length (are_ena it) = 6" and mem: "\<forall>n. mem n \<noteq> None"
  shows "case AR_lookup ip (ar_v st) of
      None \<Rightarrow> AR_simple_action mem p st = Inr ([checked_output_push (ar_noutputs st) 1 p], None)
    | Some e \<Rightarrow> \<exists>f. AR_simple_action mem p st = Inr ([Kill p], Some f) \<and> frame_sent (arp_reply en ip0 e ip) f"
proof -
  note dec = dec_arp_frame [OF _ _ _ _ p [unfolded arp_query_def], simplified, OF l]
  show ?thesis
  proof (cases "AR_lookup ip (ar_v st)")
    case None
    then show ?thesis using dec by (simp add: AR_simple_action_def sizeof_ether_def sizeof_ether_arp_def Let_def)
  next
    case (Some e)
    have "length e = 6" using AR_lookup_length [OF Some v] .
    then obtain f where "AR_make_response mem en ip0 e ip = Inr (Some f)" "frame_sent (arp_reply en ip0 e ip) f"
      using AR_make_response_ok [OF l(2) _ mem] by blast
    then show ?thesis using dec Some by (simp add: AR_simple_action_def sizeof_ether_def sizeof_ether_arp_def Let_def)
  qed
qed
section \<open>Address resolution\<close>

text \<open>
  C27: Address resolution ends with the datagram on the link. A querier that gets a datagram for a next hop of which its table
  has no entry keeps it and sends a question; the responder of the host with that address answers it with its Ethernet address;
  and the querier that receives the answer sends the datagram, with that Ethernet address, and keeps none for it.
\<close>

theorem arp_resolution_completes:
  assumes "aq_inv st" and "aq_my_ip st \<noteq> 0" and "wf_pkt p" and "\<forall>n. mem n \<noteq> None"
    and "AT_find (p_dst_ip_anno p) (aq_table st) = None" and "aq_hop now (p_dst_ip_anno p) st = None" and "p_dst_ip_anno p \<noteq> 0"
    and "AR_lookup (p_dst_ip_anno p) (ar_v host) = Some e" and "\<forall>it \<in> set (ar_v host). length (are_ena it) = 6"
    and "\<not> is_group e" and "\<not> sint (at_timeout_j (aq_table st)) < 0" and "\<forall>i j. clk i j = now" and "\<forall>i j. clk' i j = now'"
  shows "\<exists>ks f st1. AQ_push mem True now clk 0 p st = Some (Inr (map Kill ks @ [Push (aq_noutputs st - 1) f], st1)) \<and>
    (\<forall>f'. wf_pkt f' \<and> pkt_bytes f' = pkt_bytes f \<longrightarrow>
       (\<exists>g. AR_simple_action mem f' host = Inr ([Kill f'], Some g) \<and>
          (\<forall>g'. wf_pkt g' \<and> pkt_bytes g' = pkt_bytes g \<longrightarrow>
             (\<exists>ks' qs h st2.
                AQ_push mem True now' clk' 1 g' st1 = Some (Inr (map Kill ks' @ qs @ [Push 0 h, Kill g'], st2)) \<and>
                questions (p_dst_ip_anno p) st qs \<and> pkt_bytes h = ether_frame e (aq_my_en st) (pkt_bytes p) \<and>
                queue (p_dst_ip_anno p) (aq_table st2) = [] \<and> at_known now' (p_dst_ip_anno p) (aq_table st2) = Some e))))"
proof -
  let ?ip = "p_dst_ip_anno p" and ?d = "pkt_bytes p"
  have c: "\<forall>n. clk 0 n = now" using assms(12) by simp
  obtain q where q: "framed ?ip ?d q" "resolved mem True now (clk 0 1) ?ip ?d q st (AQ_handle_ip mem True (clk 0) p False st)"
    using AQ_handle_ip_ok [OF assms(1-4) ticking_const [OF c], of True] unfolding aq_time_const [OF c] by blast
  have "mem 64 \<noteq> None" using assms(4) by blast
  then obtain ks f dhost st1 where r: "AQ_handle_ip mem True (clk 0) p False st = Some (Inr (map Kill ks @ [Push (aq_noutputs st - 1) f], st1))"
      "aq_inv st1" "same_aq st st1" "queue ?ip (aq_table st1) = [q]" "length dhost = 6"
      "frame_sent (arp_query dhost (aq_my_en st) (aq_my_ip st) ?ip) f"
    using resolved_first [OF q(2) assms(5-7)] by (metis length_replicate)
  have en: "length (aq_my_en st) = 6" using assms(1) by (simp add: aq_inv_def)
  have le: "length e = 6" using AR_lookup_length [OF assms(8,9)] .
  have sm: "aq_my_ip st1 \<noteq> 0" "\<not> sint (at_timeout_j (aq_table st1)) < 0" "aq_my_en st1 = aq_my_en st"
    using r(3) assms(2,11) by (simp_all add: same_aq_def same_conf_def)
  have answer: "\<exists>ks' qs h st2. AQ_push mem True now' clk' 1 g' st1 = Some (Inr (map Kill ks' @ qs @ [Push 0 h, Kill g'], st2)) \<and>
      questions ?ip st qs \<and> pkt_bytes h = ether_frame e (aq_my_en st) ?d \<and>
      queue ?ip (aq_table st2) = [] \<and> at_known now' ?ip (aq_table st2) = Some e"
    if g': "wf_pkt g'" "pkt_bytes g' = arp_reply (aq_my_en st) (aq_my_ip st) e ?ip" for g'
  proof -
    obtain ks' es st2 where x: "AQ_handle_response mem True now' clk' g' st1 = Some (Inr (map Kill ks' @ es, st2))"
        "released e ?ip st1 [q] es" "queue ?ip (aq_table st2) = []" "at_known now' ?ip (aq_table st2) = Some e"
      using AQ_reply_ok [OF r(2) sm(1) en le assms(10) g' assms(13) sm(2), of mem, unfolded r(4)] by blast
    have "released e ?ip st [q] es" using x(2) released_same [OF r(3)] by blast
    then obtain qs h where "es = qs @ [Push 0 h]" "questions ?ip st qs" "pkt_bytes h = ether_frame e (aq_my_en st) ?d"
      using framed_drop [OF q(1)] by (auto simp: frame_sent_def)
    with x show ?thesis by (auto simp: AQ_push_def)
  qed
  have "\<exists>g. AR_simple_action mem f' host = Inr ([Kill f'], Some g) \<and> pkt_bytes g = arp_reply (aq_my_en st) (aq_my_ip st) e ?ip"
    if "wf_pkt f'" "pkt_bytes f' = pkt_bytes f" for f'
    using AR_question [OF that(1) _ r(5) en assms(9,4), of "aq_my_ip st" ?ip] that(2) r(6) assms(8) by (auto simp: frame_sent_def)
  with r(1) answer show ?thesis by (fastforce simp: AQ_push_def)
qed

definition sample_AR :: ARPResponder where
  "sample_AR = \<lparr>ar_v = [\<lparr>are_dst = 0x0200A8C0, are_mask = 0xFFFFFFFF, are_ena = [2, 0, 0, 0, 0, 2]\<rparr>], ar_noutputs = 1\<rparr>"

theorem arp_resolution_completes_witness:
  "\<exists>ks f st1. AQ_push (\<lambda>n. Some (\<lambda>i. 0)) True 7 (\<lambda>i j. 7) 0 sample_datagram sample_AQ = Some (Inr (map Kill ks @ [Push 0 f], st1)) \<and>
     (\<forall>f'. wf_pkt f' \<and> pkt_bytes f' = pkt_bytes f \<longrightarrow>
        (\<exists>g. AR_simple_action (\<lambda>n. Some (\<lambda>i. 0)) f' sample_AR = Inr ([Kill f'], Some g)))"
proof -
  have "\<not> is_group [2, 0, 0, 0, 0, 2]" "\<not> sint (at_timeout_j (aq_table sample_AQ)) < 0"
    "AR_lookup 0x0200A8C0 (ar_v sample_AR) = Some [2, 0, 0, 0, 0, 2]" by code_simp+
  moreover have "\<forall>it \<in> set (ar_v sample_AR). length (are_ena it) = 6" "aq_noutputs sample_AQ - 1 = 0"
    by (simp_all add: sample_AR_def sample_AQ_def)
  ultimately show ?thesis
    using arp_resolution_completes [of sample_AQ sample_datagram "\<lambda>n. Some (\<lambda>i. 0)" 7 sample_AR "[2, 0, 0, 0, 0, 2]" "\<lambda>i j. 7" "\<lambda>i j. 9" 9]
      sample_AQ_facts sample_datagram_facts sample_hop by fastforce
qed

end
