(* ===== verification/Click_Sort.thy ===== *)
theory Click_Sort
  imports Prelude "HOL-Library.Multiset"
begin

text \<open>
  \<open>click_qsort\<close> of \<^verbatim>\<open>click/lib/glue.cc\<close>: a quicksort with three-way partition, an explicit stack and insertion sort for short
  ranges. The array is a list and a pointer into a range its distance from the start of the range, in elements; \<open>compar\<close> is the
  comparison function with its \<open>thunk\<close>. Shown: for every comparison function, however bogus, it ends with a permutation of the array
  and its stack does not overflow; for a consistent one the array is sorted.
\<close>

section \<open>Short ranges\<close>

definition cq_swap :: "nat \<Rightarrow> nat \<Rightarrow> 'a list \<Rightarrow> 'a list" where
  "cq_swap i j xs = xs[i := xs ! j, j := xs ! i]"

text \<open>The inner loop: the element at \<open>pj\<close> sinks.\<close>

fun cq_sink :: "('a \<Rightarrow> 'a \<Rightarrow> int) \<Rightarrow> nat \<Rightarrow> 'a list \<Rightarrow> 'a list" where
  "cq_sink compar 0 xs = xs"
| "cq_sink compar (Suc pj) xs =
     (if compar (xs ! pj) (xs ! Suc pj) > 0 then cq_sink compar pj (cq_swap (Suc pj) pj xs) else xs)"

definition cq_insertion :: "('a \<Rightarrow> 'a \<Rightarrow> int) \<Rightarrow> 'a list \<Rightarrow> 'a list" where
  "cq_insertion compar xs = fold (cq_sink compar) [1..<length xs] xs"

section \<open>Partition\<close>

definition cq_med3 :: "('a \<Rightarrow> 'a \<Rightarrow> int) \<Rightarrow> 'a list \<Rightarrow> nat \<Rightarrow> nat \<Rightarrow> nat \<Rightarrow> nat" where
  "cq_med3 compar xs a b c =
     (let ab = compar (xs ! a) (xs ! b); bc = compar (xs ! b) (xs ! c) in
      if ab < 0 then (if bc < 0 then b else if compar (xs ! a) (xs ! c) < 0 then c else a)
      else (if bc > 0 then b else if compar (xs ! a) (xs ! c) > 0 then c else a))"

definition cq_pivot :: "('a \<Rightarrow> 'a \<Rightarrow> int) \<Rightarrow> 'a list \<Rightarrow> nat" where
  "cq_pivot compar xs =
     (let n = length xs; pm = n div 2 in
      if n > 7 then
        let p1 = 0; p2 = n - 1; offset = n div 8;
            (p1, pm, p2) =
              (if n > 40
               then (cq_med3 compar xs p1 (p1 + offset) (p1 + 2 * offset), cq_med3 compar xs (pm - offset) pm (pm + offset),
                     cq_med3 compar xs (p2 - 2 * offset) (p2 - offset) p2)
               else (p1, pm, p2)) in
        cq_med3 compar xs p1 pm p2
      else pm)"

text \<open>The two scans, from the left and from the right.\<close>

function cq_up :: "('a \<Rightarrow> 'a \<Rightarrow> int) \<Rightarrow> 'a \<Rightarrow> nat \<Rightarrow> nat \<Rightarrow> nat \<Rightarrow> 'a list \<Rightarrow> nat \<times> nat \<times> 'a list" where
  "cq_up compar pivot pa pb pc xs =
     (if pb \<le> pc \<and> compar (xs ! pb) pivot \<le> 0 then
        if compar (xs ! pb) pivot = 0 then cq_up compar pivot (pa + 1) (pb + 1) pc (cq_swap pa pb xs)
        else cq_up compar pivot pa (pb + 1) pc xs
      else (pa, pb, xs))"
  by pat_completeness auto
termination
  by (relation "measure (\<lambda>(compar, pivot, pa, pb, pc, xs). Suc pc - pb)") auto

function cq_down :: "('a \<Rightarrow> 'a \<Rightarrow> int) \<Rightarrow> 'a \<Rightarrow> nat \<Rightarrow> nat \<Rightarrow> nat \<Rightarrow> 'a list \<Rightarrow> nat \<times> nat \<times> 'a list" where
  "cq_down compar pivot pb pc pd xs =
     (if pc \<ge> pb \<and> 0 < pb \<and> compar (xs ! pc) pivot \<ge> 0 then
        if compar (xs ! pc) pivot = 0 then cq_down compar pivot pb (pc - 1) (pd - 1) (cq_swap pc pd xs)
        else cq_down compar pivot pb (pc - 1) pd xs
      else (pc, pd, xs))"
  by pat_completeness auto
termination
  by (relation "measure (\<lambda>(compar, pivot, pb, pc, pd, xs). Suc pc - pb)") auto

declare cq_up.simps [simp del] cq_down.simps [simp del]

lemma cq_up_bounds: "cq_up compar v pa pb pc xs = (pa', pb', xs') \<Longrightarrow> pb \<le> pb' \<and> (pb \<le> Suc pc \<longrightarrow> pb' \<le> Suc pc)"
  by (induction compar v pa pb pc xs rule: cq_up.induct) (subst (asm) (3) cq_up.simps, auto split: if_splits)

lemma cq_down_bounds: "cq_down compar v pb pc pd xs = (pc', pd', xs') \<Longrightarrow> pc' \<le> pc"
  by (induction compar v pb pc pd xs rule: cq_down.induct) (subst (asm) (3) cq_down.simps, auto split: if_splits)

lemma cq_round_shrinks:
  assumes "cq_up compar v pa pb pc xs = (pa', pb', xs')" and "cq_down compar v pb' pc pd xs' = (pc', pd', xs'')" and "\<not> pc' < pb'"
  shows "pc' - Suc pb' < Suc pc - pb"
  using cq_up_bounds [OF assms(1)] cq_down_bounds [OF assms(2)] assms(3) by linarith

text \<open>\<open>pb\<close> is never 0, so that \<open>pc\<close> does not run below the range.\<close>

function cq_partition ::
  "('a \<Rightarrow> 'a \<Rightarrow> int) \<Rightarrow> 'a \<Rightarrow> nat \<Rightarrow> nat \<Rightarrow> nat \<Rightarrow> nat \<Rightarrow> 'a list \<Rightarrow> nat \<times> nat \<times> nat \<times> nat \<times> 'a list" where
  "cq_partition compar pivot pa pb pc pd xs =
     (let (pa, pb, xs) = cq_up compar pivot pa pb pc xs; (pc, pd, xs) = cq_down compar pivot pb pc pd xs in
      if pb > pc then (pa, pb, pc, pd, xs)
      else cq_partition compar pivot pa (pb + 1) (pc - 1) pd (cq_swap pb pc xs))"
  by pat_completeness auto
termination
  by (relation "measure (\<lambda>(compar, pivot, pa, pb, pc, pd, xs). Suc pc - pb)")
    (auto dest!: sym [of _ "cq_up _ _ _ _ _ _"] sym [of _ "cq_down _ _ _ _ _ _"] intro: cq_round_shrinks)

declare cq_partition.simps [simp del]

text \<open>\<open>cq_swapfunc\<close> on \<open>s\<close> elements.\<close>

definition cq_swapfunc :: "nat \<Rightarrow> nat \<Rightarrow> nat \<Rightarrow> 'a list \<Rightarrow> 'a list" where
  "cq_swapfunc a b s xs = fold (\<lambda>k. cq_swap (a + k) (b + k)) [0..<s] xs"

text \<open>One round on a longer range: the new range with the lengths of its lower and upper part.\<close>

definition cq_split :: "('a \<Rightarrow> 'a \<Rightarrow> int) \<Rightarrow> 'a list \<Rightarrow> 'a list \<times> nat \<times> nat" where
  "cq_split compar xs =
     (let n = length xs; pm = cq_pivot compar xs; pivot = xs ! pm;
          (pa, pb, pc, pd, xs) = cq_partition compar pivot 1 1 (n - 1) (n - 1) (cq_swap 0 pm xs);
          s = (if pa < pb - pa then pa else pb - pa);
          xs = cq_swapfunc 0 (pb - s) s xs;
          s = (if pd - pc < n - pd - 1 then pd - pc else n - pd - 1);
          xs = cq_swapfunc pb (n - s) s xs in
      (xs, pb - pa, pd - pc))"

section \<open>The stack\<close>

definition CQ_STACKSIZ :: nat where "CQ_STACKSIZ = (8 * 8 + 1) * 2"

text \<open>The larger range first, so that the smaller one is on top.\<close>

definition cq_ranges :: "nat \<times> nat \<Rightarrow> nat \<times> nat \<Rightarrow> (nat \<times> nat) list \<Rightarrow> (nat \<times> nat) list" where
  "cq_ranges r r' stack =
     (let (r, r') = (if snd r' - fst r' > snd r - fst r then (r', r) else (r, r')) in
      if fst r' \<noteq> snd r' then r' # r # stack else r # stack)"
section \<open>Permutations\<close>

lemma length_cq_swap [simp]: "length (cq_swap i j xs) = length xs"
  by (simp add: cq_swap_def)

lemma mset_cq_swap: "i < length xs \<Longrightarrow> j < length xs \<Longrightarrow> mset (cq_swap i j xs) = mset xs"
  by (simp add: cq_swap_def mset_swap)

lemma nth_cq_swap:
  "i < length xs \<Longrightarrow> j < length xs \<Longrightarrow> k < length xs \<Longrightarrow> cq_swap i j xs ! k = (if k = i then xs ! j else if k = j then xs ! i else xs ! k)"
  by (auto simp: cq_swap_def nth_list_update)

lemma cq_swap_first: "1 \<le> i \<Longrightarrow> 1 \<le> j \<Longrightarrow> cq_swap i j xs ! 0 = xs ! 0"
  by (simp add: cq_swap_def)

lemma length_cq_sink [simp]: "length (cq_sink compar j xs) = length xs"
  by (induction j arbitrary: xs) auto

lemma mset_cq_sink: "j < length xs \<Longrightarrow> mset (cq_sink compar j xs) = mset xs"
  by (induction j arbitrary: xs) (auto simp: mset_cq_swap)

lemma fold_cq_sink:
  "\<forall>j \<in> set js. j < length xs \<Longrightarrow> mset (fold (cq_sink compar) js xs) = mset xs \<and> length (fold (cq_sink compar) js xs) = length xs"
  by (induction js arbitrary: xs) (auto simp: mset_cq_sink)

lemma mset_cq_insertion: "mset (cq_insertion compar xs) = mset xs"
  using fold_cq_sink [of "[1..<length xs]" xs compar] by (simp add: cq_insertion_def)

section \<open>The partition\<close>

text \<open>
  The pointers are in order, and the elements they delimit have been compared with the pivot, which is the first element. This
  holds for every comparison function.
\<close>

definition cq_parts :: "('a \<Rightarrow> 'a \<Rightarrow> int) \<Rightarrow> 'a \<Rightarrow> nat \<Rightarrow> nat \<Rightarrow> nat \<Rightarrow> nat \<Rightarrow> 'a list \<Rightarrow> bool" where
  "cq_parts compar v pa pb pc pd xs \<longleftrightarrow>
     1 \<le> pa \<and> pa \<le> pb \<and> pb \<le> Suc pc \<and> pc \<le> pd \<and> pd < length xs \<and> xs ! 0 = v \<and>
     (\<forall>k. 0 < k \<longrightarrow> k < pa \<longrightarrow> compar (xs ! k) v = 0) \<and> (\<forall>k. pa \<le> k \<longrightarrow> k < pb \<longrightarrow> compar (xs ! k) v < 0) \<and>
     (\<forall>k. pc < k \<longrightarrow> k \<le> pd \<longrightarrow> compar (xs ! k) v > 0) \<and> (\<forall>k. pd < k \<longrightarrow> k < length xs \<longrightarrow> compar (xs ! k) v = 0)"

lemma cq_up_parts:
  assumes "cq_up compar v pa pb pc xs = (pa', pb', xs')" and "cq_parts compar v pa pb pc pd xs"
  shows "cq_parts compar v pa' pb' pc pd xs' \<and> mset xs' = mset xs \<and> length xs' = length xs \<and>
    (pb' \<le> pc \<longrightarrow> compar (xs' ! pb') v > 0)"
  using assms
proof (induction compar v pa pb pc xs rule: cq_up.induct)
  case (1 compar v pa pb pc xs)
  show ?case
  proof (cases "pb \<le> pc \<and> compar (xs ! pb) v \<le> 0")
    case False
    then show ?thesis using "1.prems" by (subst (asm) cq_up.simps) auto
  next
    case True
    note eq = "1.prems"(1) [unfolded cq_up.simps [of compar v pa pb pc xs] if_P [OF True]]
    have b: "pa < length xs" "pb < length xs" using "1.prems"(2) True by (auto simp: cq_parts_def)
    show ?thesis
    proof (cases "compar (xs ! pb) v = 0")
      case z: True
      have eq': "cq_up compar v (pa + 1) (pb + 1) pc (cq_swap pa pb xs) = (pa', pb', xs')" using eq z by simp
      have "cq_parts compar v (pa + 1) (pb + 1) pc pd (cq_swap pa pb xs)"
        using "1.prems"(2) True z b by (auto simp: cq_parts_def nth_cq_swap cq_swap_first)
      from "1.IH"(1) [OF True z eq' this] show ?thesis using b by (simp add: mset_cq_swap)
    next
      case z: False
      have "cq_parts compar v pa (pb + 1) pc pd xs"
        using "1.prems"(2) True z by (auto simp: cq_parts_def less_Suc_eq)
      from "1.IH"(2) [OF True z _ this] eq z show ?thesis by simp
    qed
  qed
qed

lemma cq_down_parts:
  assumes "cq_down compar v pb pc pd xs = (pc', pd', xs')" and "cq_parts compar v pa pb pc pd xs"
    and "pb \<le> pc \<longrightarrow> compar (xs ! pb) v > 0"
  shows "cq_parts compar v pa pb pc' pd' xs' \<and> mset xs' = mset xs \<and> length xs' = length xs \<and>
    (pb \<le> pc' \<longrightarrow> compar (xs' ! pc') v < 0 \<and> compar (xs' ! pb) v > 0)"
  using assms
proof (induction compar v pb pc pd xs rule: cq_down.induct)
  case (1 compar v pb pc pd xs)
  show ?case
  proof (cases "pc \<ge> pb \<and> 0 < pb \<and> compar (xs ! pc) v \<ge> 0")
    case False
    moreover have "0 < pb" using "1.prems"(2) by (auto simp: cq_parts_def)
    ultimately show ?thesis using "1.prems" by (subst (asm) cq_down.simps) auto
  next
    case True
    note eq = "1.prems"(1) [unfolded cq_down.simps [of compar v pb pc pd xs] if_P [OF True]]
    have b: "pc < length xs" "pd < length xs" "0 < pc" using "1.prems"(2) True by (auto simp: cq_parts_def)
    show ?thesis
    proof (cases "compar (xs ! pc) v = 0")
      case z: True
      then have ne: "pb \<noteq> pc" using "1.prems"(3) by auto
      have eq': "cq_down compar v pb (pc - 1) (pd - 1) (cq_swap pc pd xs) = (pc', pd', xs')" using eq z by simp
      have p: "cq_parts compar v pa pb (pc - 1) (pd - 1) (cq_swap pc pd xs)"
        using "1.prems"(2) True z b by (auto simp: cq_parts_def nth_cq_swap cq_swap_first)
      have "pb \<le> pc - 1 \<longrightarrow> compar (cq_swap pc pd xs ! pb) v > 0"
        using "1.prems"(2,3) True b ne by (auto simp: nth_cq_swap cq_parts_def)
      from "1.IH"(1) [OF True z eq' p this] show ?thesis using b by (simp add: mset_cq_swap)
    next
      case z: False
      have "pc - 1 < k \<longleftrightarrow> pc < k \<or> k = pc" for k using b(3) by auto
      then have p: "cq_parts compar v pa pb (pc - 1) pd xs"
        using "1.prems"(2) True z b unfolding cq_parts_def by simp arith
      have "pb \<le> pc - 1 \<longrightarrow> compar (xs ! pb) v > 0" using "1.prems"(3) by auto
      from "1.IH"(2) [OF True z _ p this] eq z show ?thesis by simp
    qed
  qed
qed

lemma cq_partition_parts:
  assumes "cq_partition compar v pa pb pc pd xs = (pa', pb', pc', pd', xs')" and "cq_parts compar v pa pb pc pd xs"
  shows "cq_parts compar v pa' pb' pc' pd' xs' \<and> mset xs' = mset xs \<and> length xs' = length xs \<and> pb' = Suc pc'"
  using assms
proof (induction compar v pa pb pc pd xs rule: cq_partition.induct)
  case (1 compar v pa pb pc pd xs)
  obtain pa1 pb1 xs1 where up: "cq_up compar v pa pb pc xs = (pa1, pb1, xs1)" by (metis prod.exhaust)
  obtain pc1 pd1 xs2 where down: "cq_down compar v pb1 pc pd xs1 = (pc1, pd1, xs2)" by (metis prod.exhaust)
  note u = cq_up_parts [OF up "1.prems"(2)]
  have d: "cq_parts compar v pa1 pb1 pc1 pd1 xs2" "mset xs2 = mset xs" "length xs2 = length xs"
      "pb1 \<le> pc1 \<longrightarrow> compar (xs2 ! pc1) v < 0 \<and> compar (xs2 ! pb1) v > 0"
    using cq_down_parts [OF down, of pa1] u by auto
  note eq = "1.prems"(1) [unfolded cq_partition.simps [of compar v pa pb pc pd xs] up down Let_def prod.case]
  show ?case
  proof (cases "pb1 > pc1")
    case True
    then show ?thesis using eq d by (auto simp: cq_parts_def)
  next
    case False
    then have lt: "pb1 < pc1" "compar (xs2 ! pc1) v < 0" "compar (xs2 ! pb1) v > 0"
      using d(4) by (auto simp: not_less le_less)
    have b: "pb1 < length xs2" "pc1 < length xs2" "1 \<le> pb1" "1 \<le> pc1" using d(1) lt(1) by (auto simp: cq_parts_def)
    have p: "cq_parts compar v pa1 (pb1 + 1) (pc1 - 1) pd1 (cq_swap pb1 pc1 xs2)"
      using d(1) lt b by (auto simp: cq_parts_def nth_cq_swap cq_swap_first less_Suc_eq)
    have eq': "cq_partition compar v pa1 (pb1 + 1) (pc1 - 1) pd1 (cq_swap pb1 pc1 xs2) = (pa', pb', pc', pd', xs')"
      using eq False by simp
    show ?thesis using "1.IH" [OF up [symmetric] _ _ down [symmetric] _ _ False eq' p] d b by (auto simp: mset_cq_swap)
  qed
qed

section \<open>Exchange of ranges\<close>

lemma cq_swapfunc_facts:
  assumes "a + s \<le> b" and "b + s \<le> length xs"
  shows "length (cq_swapfunc a b s xs) = length xs \<and> mset (cq_swapfunc a b s xs) = mset xs \<and>
    (\<forall>k < length xs. cq_swapfunc a b s xs ! k =
       (if a \<le> k \<and> k < a + s then xs ! (b + (k - a)) else if b \<le> k \<and> k < b + s then xs ! (a + (k - b)) else xs ! k))"
  using assms
proof (induction s)
  case 0
  then show ?case by (auto simp: cq_swapfunc_def)
next
  case (Suc s)
  let ?ys = "cq_swapfunc a b s xs"
  have e: "cq_swapfunc a b (Suc s) xs = cq_swap (a + s) (b + s) ?ys" by (simp add: cq_swapfunc_def)
  have i: "length ?ys = length xs" "mset ?ys = mset xs"
      "\<forall>k < length xs. ?ys ! k =
       (if a \<le> k \<and> k < a + s then xs ! (b + (k - a)) else if b \<le> k \<and> k < b + s then xs ! (a + (k - b)) else xs ! k)"
    using Suc by auto
  have b: "a + s < length ?ys" "b + s < length ?ys" using Suc.prems i(1) by auto
  show ?case unfolding e using i b Suc.prems by (auto simp: mset_cq_swap nth_cq_swap)
qed

lemma nth_swapfunc_low:
  fixes xs :: "'a list"
  assumes "p \<le> q" "q \<le> length xs"
  defines "s \<equiv> (if p < q - p then p else q - p)"
  defines "ys \<equiv> cq_swapfunc 0 (q - s) s xs"
  shows "length ys = length xs" "mset ys = mset xs"
    "k < q - p \<Longrightarrow> \<exists>j. p \<le> j \<and> j < q \<and> ys ! k = xs ! j" "q - p \<le> k \<Longrightarrow> k < q \<Longrightarrow> \<exists>j < p. ys ! k = xs ! j"
    "q \<le> k \<Longrightarrow> k < length xs \<Longrightarrow> ys ! k = xs ! k"
proof -
  have s: "0 + s \<le> q - s" "q - s + s \<le> length xs" "s \<le> p" "s \<le> q - p" "s = p \<or> s = q - p" using assms(1,2) by (auto simp: s_def)
  note f = cq_swapfunc_facts [OF s(1,2), folded ys_def]
  show "length ys = length xs" "mset ys = mset xs" using f by auto
  show "\<exists>j. p \<le> j \<and> j < q \<and> ys ! k = xs ! j" if "k < q - p"
  proof (cases "k < s")
    case True
    then have "ys ! k = xs ! (q - s + k)" using f that assms(1,2) by auto
    then show ?thesis using True s that by (intro exI [of _ "q - s + k"]) auto
  next
    case False
    then have "ys ! k = xs ! k" using f that s assms(1,2) by auto
    then show ?thesis using False s that by (intro exI [of _ k]) auto
  qed
  show "\<exists>j < p. ys ! k = xs ! j" if "q - p \<le> k" "k < q"
  proof (cases "q - s \<le> k")
    case True
    then have "ys ! k = xs ! (k - (q - s))" using f that s assms(1,2) by auto
    then show ?thesis using True s that by (intro exI [of _ "k - (q - s)"]) auto
  next
    case False
    then have "ys ! k = xs ! k" "k < p" using f that s assms(1,2) by auto
    then show ?thesis by blast
  qed
  show "ys ! k = xs ! k" if "q \<le> k" "k < length xs" using f that s by auto
qed

lemma nth_swapfunc_high:
  fixes xs :: "'a list"
  assumes "q \<le> r" "r \<le> length xs"
  defines "n \<equiv> length xs"
  defines "s \<equiv> (if r - q < n - r then r - q else n - r)"
  defines "ys \<equiv> cq_swapfunc q (n - s) s xs"
  shows "length ys = length xs" "mset ys = mset xs"
    "q \<le> k \<Longrightarrow> k < n - (r - q) \<Longrightarrow> \<exists>j. r \<le> j \<and> j < n \<and> ys ! k = xs ! j"
    "n - (r - q) \<le> k \<Longrightarrow> k < n \<Longrightarrow> \<exists>j. q \<le> j \<and> j < r \<and> ys ! k = xs ! j"
    "k < q \<Longrightarrow> ys ! k = xs ! k"
proof -
  have s: "q + s \<le> n - s" "n - s + s \<le> length xs" "s \<le> r - q" "s \<le> n - r" "s = r - q \<or> s = n - r" "r \<le> n"
    using assms(1,2) by (auto simp: s_def n_def)
  note f = cq_swapfunc_facts [OF s(1,2), folded ys_def]
  show "length ys = length xs" "mset ys = mset xs" using f by auto
  show "\<exists>j. r \<le> j \<and> j < n \<and> ys ! k = xs ! j" if "q \<le> k" "k < n - (r - q)"
  proof (cases "k < q + s")
    case True
    then have "ys ! k = xs ! (n - s + (k - q))" using f that s by (auto simp: n_def)
    then show ?thesis using True s that assms(1) by (intro exI [of _ "n - s + (k - q)"]) auto
  next
    case False
    then have "ys ! k = xs ! k" using f that s by (auto simp: n_def)
    then show ?thesis using False s that assms(1) by (intro exI [of _ k]) auto
  qed
  show "\<exists>j. q \<le> j \<and> j < r \<and> ys ! k = xs ! j" if "n - (r - q) \<le> k" "k < n"
  proof (cases "n - s \<le> k")
    case True
    then have "ys ! k = xs ! (q + (k - (n - s)))" using f that s by (auto simp: n_def)
    then show ?thesis using True s that assms(1) by (intro exI [of _ "q + (k - (n - s))"]) auto
  next
    case False
    then have "ys ! k = xs ! k" using f that s assms(1) by (auto simp: n_def)
    then show ?thesis using False s that assms(1) by (intro exI [of _ k]) auto
  qed
  show "ys ! k = xs ! k" if "k < q" using f that s by (auto simp: n_def)
qed

section \<open>One round\<close>

lemma cq_med3_cases: "cq_med3 compar xs a b c \<in> {a, b, c}"
  by (simp add: cq_med3_def Let_def)

lemma cq_med3_less: "a < n \<Longrightarrow> b < n \<Longrightarrow> c < n \<Longrightarrow> cq_med3 compar xs a b c < n"
  using cq_med3_cases [of compar xs a b c] by auto

lemma cq_pivot_less: "xs \<noteq> [] \<Longrightarrow> cq_pivot compar xs < length xs"
  by (auto simp: cq_pivot_def Let_def intro!: cq_med3_less)

text \<open>The three parts of a range after a round: smaller than the pivot, equal to it, larger.\<close>

definition cq_three :: "('a \<Rightarrow> 'a \<Rightarrow> int) \<Rightarrow> 'a \<Rightarrow> nat \<Rightarrow> nat \<Rightarrow> 'a list \<Rightarrow> bool" where
  "cq_three compar v l g xs \<longleftrightarrow>
     (\<forall>k < l. compar (xs ! k) v < 0) \<and> (\<forall>k. l \<le> k \<longrightarrow> k < length xs - g \<longrightarrow> xs ! k = v \<or> compar (xs ! k) v = 0) \<and>
     (\<forall>k. length xs - g \<le> k \<longrightarrow> k < length xs \<longrightarrow> compar (xs ! k) v > 0)"

lemma cq_split_facts:
  assumes s: "cq_split compar xs = (zs, l, g)" and ne: "xs \<noteq> []"
  obtains v where "v \<in> set xs" "mset zs = mset xs" "l + g < length xs" "cq_three compar v l g zs"
proof -
  define n where "n = length xs"
  define v where "v = xs ! cq_pivot compar xs"
  let ?ws = "cq_swap 0 (cq_pivot compar xs) xs"
  have b: "cq_pivot compar xs < length xs" "0 < length xs" using cq_pivot_less [OF ne] ne by auto
  obtain pa pb pc pd xs1 where p: "cq_partition compar v 1 1 (n - 1) (n - 1) ?ws = (pa, pb, pc, pd, xs1)" by (metis prod.exhaust)
  have "cq_parts compar v 1 1 (n - 1) (n - 1) ?ws" using b by (auto simp: cq_parts_def n_def v_def nth_cq_swap)
  from cq_partition_parts [OF p this] have q: "cq_parts compar v pa pb pc pd xs1" "mset xs1 = mset xs" "length xs1 = n" "pb = Suc pc"
    using b by (auto simp: mset_cq_swap n_def)
  define s1 where "s1 = (if pa < pb - pa then pa else pb - pa)"
  define ys where "ys = cq_swapfunc 0 (pb - s1) s1 xs1"
  have o: "pa \<le> pb" "pb \<le> length xs1" "1 \<le> pa" "pb \<le> Suc pd" "Suc pd \<le> n" using q by (auto simp: cq_parts_def)
  note low = nth_swapfunc_low [OF o(1,2), folded s1_def, folded ys_def]
  define s2 where "s2 = (if Suc pd - pb < n - Suc pd then Suc pd - pb else n - Suc pd)"
  have ly: "length ys = n" "Suc pd \<le> length ys" using low(1) q(3) o(5) by simp_all
  note high = nth_swapfunc_high [OF o(4) ly(2), unfolded ly(1), folded s2_def]
  have pc: "pd - pc = Suc pd - pb" "n - pd - 1 = n - Suc pd" using q(4) by auto
  have r: "zs = cq_swapfunc pb (n - s2) s2 ys" "l = pb - pa" "g = Suc pd - pb"
    using s p by (auto simp: cq_split_def Let_def n_def [symmetric] v_def [symmetric] s1_def [symmetric] ys_def [symmetric] pc s2_def)
  have lz: "length zs = n" using high(1) ly(1) by (simp add: r(1))
  note qq = q(1) [unfolded cq_parts_def]
  have "compar (zs ! k) v < 0" if k: "k < l" for k
  proof -
    obtain j where "pa \<le> j" "j < pb" "ys ! k = xs1 ! j" using low(3) k r(2) by blast
    moreover have "zs ! k = ys ! k" using high(5) [of k] k r(1,2) by simp
    ultimately show ?thesis using qq by auto
  qed
  moreover have "zs ! k = v \<or> compar (zs ! k) v = 0" if k: "l \<le> k" "k < n - g" for k
  proof (cases "k < pb")
    case True
    then obtain j where "j < pa" "ys ! k = xs1 ! j" using low(4) k(1) r(2) by blast
    moreover have "zs ! k = ys ! k" using high(5) [OF True] r(1) by simp
    ultimately show ?thesis using qq by (cases "j = 0") auto
  next
    case False
    then obtain j where j: "Suc pd \<le> j" "j < n" "zs ! k = ys ! j" using high(3) [of k] k(2) r(1,3) by auto
    moreover have "ys ! j = xs1 ! j" using low(5) [of j] j(1,2) o(4) q(3) by simp
    ultimately show ?thesis using qq q(3) by auto
  qed
  moreover have "compar (zs ! k) v > 0" if k: "n - g \<le> k" "k < n" for k
  proof -
    obtain j where j: "pb \<le> j" "j < Suc pd" "zs ! k = ys ! j" using high(4) [of k, folded r(1) r(3)] k by blast
    moreover have "ys ! j = xs1 ! j" using low(5) [of j] j(1,2) o(5) q(3) by simp
    ultimately show ?thesis using qq q(4) by auto
  qed
  ultimately have "cq_three compar v l g zs" by (simp add: cq_three_def lz)
  moreover have "mset zs = mset xs" using high(2) low(2) q(2) by (simp add: r(1))
  moreover have "l + g < length xs" using r(2,3) o by (simp add: n_def)
  ultimately show thesis using that [of v] b(1) by (simp add: v_def)
qed

section \<open>The loop\<close>

lemma cq_split_shrinks:
  assumes "cq_split compar (chunk lo (hi - lo) xs) = (ys, l, g)" and "\<not> hi - lo < 7"
  shows "l + g < hi - lo"
proof (cases "chunk lo (hi - lo) xs = []")
  case False
  from cq_split_facts [OF assms(1) this] have "l + g < length (chunk lo (hi - lo) xs)" by blast
  then show ?thesis by simp
next
  case True
  have "cq_up compar v 1 1 0 ws = (1, 1, ws)" "cq_down compar v 1 0 0 ws = (0, 0, ws)" for v :: 'a and ws
    by (simp_all add: cq_up.simps cq_down.simps)
  then have "cq_partition compar v 1 1 0 0 ws = (1, 1, 0, 0, ws)" for v ws by (simp add: cq_partition.simps)
  then show ?thesis using assms True by (auto simp: cq_split_def Let_def)
qed

definition cq_weight :: "(nat \<times> nat) list \<Rightarrow> nat" where
  "cq_weight stack = sum_list (map (\<lambda>(lo, hi). 2 * (hi - lo) + 1) stack)"

lemma cq_weight_ranges:
  assumes "l + g < hi - lo"
  shows "cq_weight (cq_ranges (lo, lo + l) (hi - g, hi) stack) < cq_weight ((lo, hi) # stack)"
  using assms by (auto simp: cq_weight_def cq_ranges_def)

text \<open>
  Ranges are taken from the stack and sorted, or partitioned and replaced by their lower and upper parts. The top of the stack is
  the head of the list.
\<close>

function cq_loop :: "('a \<Rightarrow> 'a \<Rightarrow> int) \<Rightarrow> (nat \<times> nat) list \<Rightarrow> 'a list \<Rightarrow> 'a list res" where
  "cq_loop compar [] xs = Inr xs"
| "cq_loop compar ((lo, hi) # stack) xs =
     (if hi - lo < 7 then cq_loop compar stack (patch lo (cq_insertion compar (chunk lo (hi - lo) xs)) xs)
      else
      let (ys, l, g) = cq_split compar (chunk lo (hi - lo) xs) in
      if l = 0 \<and> g = 0 then cq_loop compar stack (patch lo ys xs)
      else if \<not> 2 * length stack + 4 < CQ_STACKSIZ then Inl AssertionFailure
      else cq_loop compar (cq_ranges (lo, lo + l) (hi - g, hi) stack) (patch lo ys xs))"
  by pat_completeness auto
termination
proof (relation "measure (\<lambda>(compar, stack, xs). cq_weight stack)", goal_cases)
  case (4 compar lo hi stack xs x ys y l g)
  from 4(1,2,3,4) have "cq_split compar (chunk lo (hi - lo) xs) = (ys, l, g)" by simp
  from cq_weight_ranges [OF cq_split_shrinks [OF this 4(1)]] show ?case by simp
qed (auto simp: cq_weight_def)

definition click_qsort :: "('a \<Rightarrow> 'a \<Rightarrow> int) \<Rightarrow> 'a list \<Rightarrow> 'a list res" where
  "click_qsort compar xs = cq_loop compar [(0, length xs)] xs"
section \<open>Consistent comparison functions\<close>

text \<open>Antisymmetric and transitive on the elements of \<open>A\<close>.\<close>

definition consistent :: "'a set \<Rightarrow> ('a \<Rightarrow> 'a \<Rightarrow> int) \<Rightarrow> bool" where
  "consistent A compar \<longleftrightarrow> (\<forall>x \<in> A. \<forall>y \<in> A. compar x y > 0 \<longleftrightarrow> compar y x < 0) \<and>
     (\<forall>x \<in> A. \<forall>y \<in> A. \<forall>z \<in> A. compar x y \<le> 0 \<longrightarrow> compar y z \<le> 0 \<longrightarrow> compar x z \<le> 0)"

lemma consistentD:
  assumes "consistent A compar" "x \<in> A" "y \<in> A"
  shows "compar x y > 0 \<longleftrightarrow> compar y x < 0" "compar x y \<le> 0 \<Longrightarrow> compar y z \<le> 0 \<Longrightarrow> z \<in> A \<Longrightarrow> compar x z \<le> 0"
    "compar x x = 0" "compar x y = 0 \<Longrightarrow> compar y x = 0"
proof -
  have a: "compar x y > 0 \<longleftrightarrow> compar y x < 0" if "x \<in> A" "y \<in> A" for x y using assms(1) that by (simp add: consistent_def)
  show "compar x y > 0 \<longleftrightarrow> compar y x < 0" using a assms(2,3) .
  show "compar x z \<le> 0" if "compar x y \<le> 0" "compar y z \<le> 0" "z \<in> A" using assms that unfolding consistent_def by blast
  show "compar x x = 0" using a [OF assms(2,2)] by linarith
  show "compar y x = 0" if "compar x y = 0" using a [OF assms(2,3)] a [OF assms(3,2)] that by linarith
qed

text \<open>The element at \<open>j\<close> is still to sink among the first \<open>m + 1\<close>.\<close>

definition sinking :: "('a \<Rightarrow> 'a \<Rightarrow> int) \<Rightarrow> nat \<Rightarrow> nat \<Rightarrow> 'a list \<Rightarrow> bool" where
  "sinking compar m j xs \<longleftrightarrow> m < length xs \<and> j \<le> m \<and>
     (\<forall>i k. i < k \<longrightarrow> k \<le> m \<longrightarrow> i \<noteq> j \<longrightarrow> k \<noteq> j \<longrightarrow> compar (xs ! i) (xs ! k) \<le> 0) \<and>
     (\<forall>k. j < k \<longrightarrow> k \<le> m \<longrightarrow> compar (xs ! j) (xs ! k) \<le> 0)"

lemma sinking_swap:
  assumes c: "consistent (set xs) compar" and s: "sinking compar m (Suc j) xs" and g: "compar (xs ! j) (xs ! Suc j) > 0"
  shows "sinking compar m j (cq_swap (Suc j) j xs)"
proof -
  have b: "Suc j < length xs" "j < length xs" using s by (auto simp: sinking_def)
  have n: "cq_swap (Suc j) j xs ! k = (if k = Suc j then xs ! j else if k = j then xs ! Suc j else xs ! k)" if "k < length xs" for k
    using nth_cq_swap [OF b that] .
  have "compar (xs ! Suc j) (xs ! j) \<le> 0" using consistentD(1) [OF c, of "xs ! j" "xs ! Suc j"] g b by (simp add: less_imp_le)
  then show ?thesis using s b by (auto simp: sinking_def n)
qed

lemma cq_sink_sorted:
  "consistent (set xs) compar \<Longrightarrow> sinking compar m j xs \<Longrightarrow> i < k \<Longrightarrow> k \<le> m \<Longrightarrow> compar (cq_sink compar j xs ! i) (cq_sink compar j xs ! k) \<le> 0"
proof (induction j arbitrary: xs)
  case 0
  then show ?case by (cases "i = 0") (auto simp: sinking_def)
next
  case (Suc j)
  show ?case
  proof (cases "compar (xs ! j) (xs ! Suc j) > 0")
    case True
    have b: "Suc j < length xs" "j < length xs" using Suc.prems(2) by (auto simp: sinking_def)
    have "set (cq_swap (Suc j) j xs) = set xs" using mset_eq_setD [OF mset_cq_swap [OF b]] .
    then show ?thesis using Suc.IH [OF _ sinking_swap [OF Suc.prems(1,2) True] Suc.prems(3,4)] Suc.prems(1) True by simp
  next
    case False
    then have le: "compar (xs ! j) (xs ! Suc j) \<le> 0" by simp
    have "compar (xs ! i) (xs ! k) \<le> 0"
    proof (cases "k = Suc j")
      case True
      then have "i = j \<or> i < j" "j \<le> m" "j \<noteq> Suc j" "i \<noteq> Suc j" using Suc.prems by auto
      then have "i = j \<or> compar (xs ! i) (xs ! j) \<le> 0" using Suc.prems(2) unfolding sinking_def by blast
      moreover have "xs ! i \<in> set xs" "xs ! j \<in> set xs" "xs ! Suc j \<in> set xs"
        using Suc.prems(2,3) True by (auto simp: sinking_def)
      ultimately show ?thesis using le consistentD(2) [OF Suc.prems(1) _ _ _ le] True by auto
    next
      case False
      then show ?thesis using Suc.prems by (auto simp: sinking_def)
    qed
    then show ?thesis using False by simp
  qed
qed

lemma cq_insertion_sorted:
  assumes c: "consistent (set xs) compar"
  shows "i < k \<Longrightarrow> k < length xs \<Longrightarrow> compar (cq_insertion compar xs ! i) (cq_insertion compar xs ! k) \<le> 0"
proof -
  have "mset (fold (cq_sink compar) [1..<m] xs) = mset xs \<and>
      (\<forall>i k. i < k \<longrightarrow> k < m \<longrightarrow> compar (fold (cq_sink compar) [1..<m] xs ! i) (fold (cq_sink compar) [1..<m] xs ! k) \<le> 0)"
    if "m \<le> length xs" for m using that
  proof (induction m)
    case (Suc m)
    show ?case
    proof (cases "m = 0")
      case False
      let ?ys = "fold (cq_sink compar) [1..<m] xs"
      have e: "fold (cq_sink compar) [1..<Suc m] xs = cq_sink compar m ?ys" using False by simp
      have y: "mset ?ys = mset xs" "m < length xs" using Suc by simp_all
      note y = y mset_eq_length [OF y(1)] mset_eq_setD [OF y(1)]
      have "sinking compar m m ?ys" using Suc y(2,3) by (auto simp: sinking_def)
      then show ?thesis using cq_sink_sorted [of ?ys compar m m] c y mset_cq_sink [of m ?ys compar]
        unfolding e by (simp add: less_Suc_eq_le)
    qed simp
  qed simp
  from this [of "length xs"] show "i < k \<Longrightarrow> k < length xs \<Longrightarrow> ?thesis" by (simp add: cq_insertion_def)
qed

section \<open>The depth of the stack\<close>

text \<open>Ranges lie within the array, and the deeper the stack below a range, the shorter it is.\<close>

fun cq_deep :: "nat \<Rightarrow> (nat \<times> nat) list \<Rightarrow> bool" where
  "cq_deep N [] \<longleftrightarrow> True"
| "cq_deep N ((lo, hi) # stack) \<longleftrightarrow> lo \<le> hi \<and> hi \<le> N \<and> (hi - lo) * 2 ^ length stack \<le> N \<and> cq_deep N stack"

lemma cq_ranges_cases:
  assumes "l + g < hi - lo" and "l \<noteq> 0 \<or> g \<noteq> 0"
  obtains (both) r r' where "{r, r'} = {(lo, lo + l), (hi - g, hi)}" "cq_ranges (lo, lo + l) (hi - g, hi) stack = r' # r # stack"
      "snd r' - fst r' \<le> snd r - fst r" "fst r' < snd r'" "fst r < snd r"
    | (one) r where "cq_ranges (lo, lo + l) (hi - g, hi) stack = [r] @ stack" "fst r < snd r"
      "l = 0 \<and> r = (hi - g, hi) \<or> g = 0 \<and> r = (lo, lo + l)"
proof -
  have g: "hi - (hi - g) = g" using assms(1) by simp
  consider "g > l" | "\<not> g > l" by blast
  then show thesis
  proof cases
    case 1
    then show thesis
      using that(1) [of "(hi - g, hi)" "(lo, lo + l)"] that(2) [of "(hi - g, hi)"] assms
      by (cases "l = 0") (auto simp: cq_ranges_def insert_commute)
  next
    case 2
    then show thesis
      using that(1) [of "(lo, lo + l)" "(hi - g, hi)"] that(2) [of "(lo, lo + l)"] assms
      by (cases "g = 0") (auto simp: cq_ranges_def)
  qed
qed

lemma cq_deep_ranges:
  assumes d: "cq_deep N ((lo, hi) # stack)" and s: "l + g < hi - lo" "l \<noteq> 0 \<or> g \<noteq> 0"
  shows "cq_deep N (cq_ranges (lo, lo + l) (hi - g, hi) stack)"
proof -
  have part: "fst r \<le> snd r \<and> snd r \<le> N \<and> snd r - fst r < hi - lo" if "r = (lo, lo + l) \<or> r = (hi - g, hi)" for r
    using that d s by auto
  have size: "n * 2 ^ length stack \<le> N" if "n \<le> hi - lo" for n
    by (rule order.trans [OF mult_le_mono1 [OF that]]) (use d in simp)
  show ?thesis
  proof (rule cq_ranges_cases [OF s, of stack])
    fix r r'
    assume both: "{r, r'} = {(lo, lo + l), (hi - g, hi)}" "cq_ranges (lo, lo + l) (hi - g, hi) stack = r' # r # stack"
      "snd r' - fst r' \<le> snd r - fst r"
    have r: "r = (lo, lo + l) \<or> r = (hi - g, hi)" "r' = (lo, lo + l) \<or> r' = (hi - g, hi)" using both(1) by auto
    have "(snd r' - fst r') + (snd r - fst r) \<le> hi - lo"
      using both(1) s by (auto simp: doubleton_eq_iff)
    then have "2 * (snd r' - fst r') \<le> hi - lo" using both(3) by linarith
    from size [OF this] have "(snd r' - fst r') * 2 ^ length (r # stack) \<le> N" by (simp add: mult_ac)
    then show ?thesis using both(2) part [OF r(1)] part [OF r(2)] size [of "snd r - fst r"] d
      by (cases r; cases r') auto
  next
    fix r
    assume one: "cq_ranges (lo, lo + l) (hi - g, hi) stack = [r] @ stack"
      "l = 0 \<and> r = (hi - g, hi) \<or> g = 0 \<and> r = (lo, lo + l)"
    from one(2) have "r = (lo, lo + l) \<or> r = (hi - g, hi)" by auto
    then show ?thesis using one(1) part [of r] size [of "snd r - fst r"] d by (cases r) auto
  qed
qed

text \<open>With a range of seven or more elements on top, the stack has less than 62 below it.\<close>

lemma cq_deep_bound:
  assumes "cq_deep N ((lo, hi) # stack)" and "\<not> hi - lo < 7" and "N < 2 ^ 64"
  shows "2 * length stack + 4 < CQ_STACKSIZ"
proof (rule ccontr)
  assume "\<not> 2 * length stack + 4 < CQ_STACKSIZ"
  then have "63 \<le> length stack" by (simp add: CQ_STACKSIZ_def)
  then have "(2 :: nat) ^ 63 \<le> 2 ^ length stack" by (intro power_increasing) auto
  then have "7 * 2 ^ 63 \<le> (hi - lo) * 2 ^ length stack" using assms(2) by (intro mult_le_mono) auto
  then show False using assms(1,3) by simp
qed

section \<open>The order between ranges\<close>

text \<open>Two elements are in order unless one range of the stack holds both; ranges do not overlap.\<close>

definition cq_apart :: "nat \<times> nat \<Rightarrow> nat \<times> nat \<Rightarrow> bool" where
  "cq_apart r r' \<longleftrightarrow> snd r \<le> fst r' \<or> snd r' \<le> fst r"

definition cq_settled :: "('a \<Rightarrow> 'a \<Rightarrow> int) \<Rightarrow> (nat \<times> nat) list \<Rightarrow> 'a list \<Rightarrow> bool" where
  "cq_settled compar stack xs \<longleftrightarrow> sorted_wrt cq_apart stack \<and>
     (\<forall>i j. i < j \<longrightarrow> j < length xs \<longrightarrow> compar (xs ! i) (xs ! j) \<le> 0 \<or> (\<exists>r \<in> set stack. fst r \<le> i \<and> j < snd r))"

lemma nth_patch:
  "lo + length ys \<le> length xs \<Longrightarrow> k < length xs \<Longrightarrow>
    patch lo ys xs ! k = (if lo \<le> k \<and> k < lo + length ys then ys ! (k - lo) else xs ! k)"
  by (auto simp: patch_def nth_append min_def)

lemma mset_patch:
  assumes "lo + length ys \<le> length xs" and "mset ys = mset (chunk lo (length ys) xs)"
  shows "mset (patch lo ys xs) = mset xs"
proof -
  have "xs = take lo xs @ chunk lo (length ys) xs @ drop (lo + length ys) xs"
    by (metis append_take_drop_id chunk_def drop_drop add.commute)
  then have "mset xs = mset (take lo xs) + mset (chunk lo (length ys) xs) + mset (drop (lo + length ys) xs)"
    by (metis mset_append add.assoc)
  then show ?thesis using assms(2) by (simp add: patch_def)
qed

text \<open>A range is replaced: inside, elements are in order unless a new range holds both.\<close>

lemma cq_settled_step:
  assumes s: "cq_settled compar ((lo, hi) # stack) xs" and b: "lo \<le> hi" "hi \<le> length xs"
    and y: "length ys = hi - lo" "mset ys = mset (chunk lo (hi - lo) xs)"
    and new: "sorted_wrt cq_apart news" "\<forall>r \<in> set news. lo \<le> fst r \<and> snd r \<le> hi"
    and o: "\<And>i j. i < j \<Longrightarrow> j < hi - lo \<Longrightarrow> compar (ys ! i) (ys ! j) \<le> 0 \<or> (\<exists>r \<in> set news. fst r \<le> lo + i \<and> lo + j < snd r)"
  shows "cq_settled compar (news @ stack) (patch lo ys xs)"
proof -
  let ?zs = "patch lo ys xs"
  have n: "?zs ! k = (if lo \<le> k \<and> k < hi then ys ! (k - lo) else xs ! k)" if "k < length xs" for k
    using nth_patch [of lo ys xs k] that y(1) b by auto
  have inside: "\<exists>m. lo \<le> m \<and> m < hi \<and> ?zs ! k = xs ! m" if "lo \<le> k" "k < hi" for k
  proof -
    have "ys ! (k - lo) \<in> set ys" using that y(1) by simp
    then have "ys ! (k - lo) \<in> set (chunk lo (hi - lo) xs)" using mset_eq_setD [OF y(2)] by simp
    then obtain m where "m < hi - lo" "ys ! (k - lo) = xs ! (lo + m)" using b by (auto simp: in_set_conv_nth nth_chunk)
    then show ?thesis using n [of k] that b by (intro exI [of _ "lo + m"]) auto
  qed
  have apart: "\<forall>r \<in> set stack. cq_apart (lo, hi) r" "sorted_wrt cq_apart stack" using s by (auto simp: cq_settled_def)
  have old: "compar (xs ! i) (xs ! j) \<le> 0 \<or> (\<exists>r \<in> set stack. fst r \<le> i \<and> j < snd r)"
    if "i < j" "j < length xs" "\<not> (lo \<le> i \<and> j < hi)" for i j
    using s that by (auto simp: cq_settled_def)
  have "compar (?zs ! i) (?zs ! j) \<le> 0 \<or> (\<exists>r \<in> set (news @ stack). fst r \<le> i \<and> j < snd r)" if ij: "i < j" "j < length xs" for i j
  proof -
    consider "lo \<le> i" "j < hi" | "lo \<le> i" "i < hi" "hi \<le> j" | "i < lo" "lo \<le> j" "j < hi" | "i < lo \<or> hi \<le> i" "j < lo \<or> hi \<le> j"
      by linarith
    then show ?thesis
    proof cases
      case 1
      then have "lo + (i - lo) = i" "lo + (j - lo) = j" "i - lo < j - lo" "j - lo < hi - lo" using ij by auto
      then show ?thesis using o [of "i - lo" "j - lo"] 1 ij n by auto
    next
      case 2
      obtain m where m: "lo \<le> m" "m < hi" "?zs ! i = xs ! m" using inside 2 by blast
      have "\<not> (\<exists>r \<in> set stack. fst r \<le> m \<and> j < snd r)" using apart(1) m 2 by (auto simp: cq_apart_def)
      then show ?thesis using old [of m j] m 2 ij n by auto
    next
      case 3
      obtain m where m: "lo \<le> m" "m < hi" "?zs ! j = xs ! m" using inside 3 by blast
      have "\<not> (\<exists>r \<in> set stack. fst r \<le> i \<and> m < snd r)" using apart(1) m 3 by (auto simp: cq_apart_def)
      then show ?thesis using old [of i m] m 3 ij b n by auto
    next
      case 4
      then show ?thesis using old [of i j] ij n by auto
    qed
  qed
  moreover have "sorted_wrt cq_apart (news @ stack)"
    using new apart by (fastforce simp: sorted_wrt_append cq_apart_def)
  ultimately show ?thesis using y(1) b by (simp add: cq_settled_def)
qed

lemma cq_three_order:
  assumes c: "consistent (set ys) compar" and t: "cq_three compar v l g ys" "v \<in> set ys" and ij: "i < j" "j < length ys"
  shows "compar (ys ! i) (ys ! j) \<le> 0 \<or> j < l \<or> length ys - g \<le> i"
proof -
  have low: "compar (ys ! k) v < 0" if "k < l" for k using t(1) that by (simp add: cq_three_def)
  have mid: "compar (ys ! k) v = 0" if "l \<le> k" "k < length ys - g" for k
    using t(1) that consistentD(3) [OF c t(2) t(2)] by (auto simp: cq_three_def)
  have high: "compar (ys ! k) v > 0" if "length ys - g \<le> k" "k < length ys" for k using t(1) that by (simp add: cq_three_def)
  have s: "ys ! i \<in> set ys" "ys ! j \<in> set ys" using ij by auto
  have "compar (ys ! i) v \<le> 0" if "i < length ys - g" using low [of i] mid [of i] that by force
  moreover have "compar v (ys ! j) \<le> 0" if "l \<le> j"
    using mid [of j] high [of j] that ij(2) consistentD(1,4) [OF c s(2) t(2)] by force
  ultimately show ?thesis using consistentD(2) [OF c s(1) t(2), of "ys ! j"] s(2) by force
qed

lemma cq_settled_ranges:
  assumes s: "cq_settled compar ((lo, hi) # stack) xs" and b: "lo \<le> hi" "hi \<le> length xs"
    and y: "length ys = hi - lo" "mset ys = mset (chunk lo (hi - lo) xs)"
    and c: "consistent (set ys) compar" and t: "cq_three compar v l g ys" "l + g < hi - lo" "v \<in> set ys" and nz: "l \<noteq> 0 \<or> g \<noteq> 0"
  shows "cq_settled compar (cq_ranges (lo, lo + l) (hi - g, hi) stack) (patch lo ys xs)"
proof -
  have o: "compar (ys ! i) (ys ! j) \<le> 0 \<or> lo + j < lo + l \<or> hi - g \<le> lo + i" if "i < j" "j < hi - lo" for i j
    using cq_three_order [OF c t(1,3), of i j] that y(1) t(2) b(1) by auto
  have hi: "lo + j < hi" if "j < hi - lo" for j using that by simp
  show ?thesis
  proof (rule cq_ranges_cases [OF t(2) nz, of stack])
    fix r r'
    assume both: "{r, r'} = {(lo, lo + l), (hi - g, hi)}" "cq_ranges (lo, lo + l) (hi - g, hi) stack = r' # r # stack"
    have r: "set [r', r] = {(lo, lo + l), (hi - g, hi)}" unfolding both(1) [symmetric] by (simp add: insert_commute)
    have g: "lo + l \<le> hi - g" "lo + l \<le> hi" "lo \<le> hi - g" using t(2) by linarith+
    have "cq_apart r' r" using both(1) g(1) unfolding doubleton_eq_iff by (elim disjE) (simp_all add: cq_apart_def)
    then have a: "sorted_wrt cq_apart [r', r]" by simp
    have w: "\<forall>q \<in> set [r', r]. lo \<le> fst q \<and> snd q \<le> hi" unfolding r using g by simp
    have "compar (ys ! i) (ys ! j) \<le> 0 \<or> (\<exists>q \<in> set [r', r]. fst q \<le> lo + i \<and> lo + j < snd q)" if "i < j" "j < hi - lo" for i j
      using o [OF that] hi [OF that(2)] unfolding r by auto
    from cq_settled_step [OF s b y a w this] show ?thesis unfolding both(2) by simp
  next
    fix r
    assume one: "cq_ranges (lo, lo + l) (hi - g, hi) stack = [r] @ stack" "fst r < snd r"
      "l = 0 \<and> r = (hi - g, hi) \<or> g = 0 \<and> r = (lo, lo + l)"
    have r: "\<forall>q \<in> set [r]. lo \<le> fst q \<and> snd q \<le> hi" "sorted_wrt cq_apart [r]" using one(3) t(2) by auto
    have "compar (ys ! i) (ys ! j) \<le> 0 \<or> (\<exists>q \<in> set [r]. fst q \<le> lo + i \<and> lo + j < snd q)" if "i < j" "j < hi - lo" for i j
      using o [OF that] one(3) hi [OF that(2)] that b(1) by auto
    from cq_settled_step [OF s b y r(2,1) this] show ?thesis using one(1) by simp
  qed
qed

lemma cq_loop_ok:
  assumes "cq_deep (length xs) stack" and "length xs < 2 ^ 64"
  shows "\<exists>zs. cq_loop compar stack xs = Inr zs \<and> mset zs = mset xs \<and>
    (consistent (set xs) compar \<and> cq_settled compar stack xs \<longrightarrow> cq_settled compar [] zs)"
  using assms
proof (induction compar stack xs rule: cq_loop.induct)
  case (2 compar lo hi stack xs)
  let ?c = "chunk lo (hi - lo) xs"
  have b: "lo \<le> hi" "hi \<le> length xs" "cq_deep (length xs) stack" "length ?c = hi - lo" using "2.prems"(1) by auto
  have sub: "consistent (set ys) compar" if "mset ys = mset ?c" "consistent (set xs) compar" for ys
    using that(2) mset_eq_setD [OF that(1)] set_take_subset [of "hi - lo" "drop lo xs"] set_drop_subset [of lo xs]
    unfolding consistent_def chunk_def by blast
  have p: "length (patch lo ys xs) = length xs" "mset (patch lo ys xs) = mset xs" "set (patch lo ys xs) = set xs"
    if "mset ys = mset ?c" for ys
  proof -
    show "length (patch lo ys xs) = length xs" "mset (patch lo ys xs) = mset xs"
      using mset_patch [of lo ys xs] that mset_eq_length [OF that] b by simp_all
    then show "set (patch lo ys xs) = set xs" by (metis mset_eq_setD)
  qed
  show ?case
  proof (cases "hi - lo < 7")
    case True
    let ?ys = "cq_insertion compar ?c"
    have m: "mset ?ys = mset ?c" "length ?ys = hi - lo" using mset_cq_insertion mset_eq_length b(4) by metis+
    have "cq_settled compar ([] @ stack) (patch lo ?ys xs)" if "consistent (set xs) compar" "cq_settled compar ((lo, hi) # stack) xs"
      by (rule cq_settled_step [OF that(2) b(1,2) m(2,1)]) (use cq_insertion_sorted [OF sub [OF refl that(1)]] b(4) in auto)
    then show ?thesis using "2.IH"(1) [OF True] True p [OF m(1)] b(3) "2.prems"(2) by auto
  next
    case False
    then have ne: "?c \<noteq> []" using b(4) by (metis less_nat_zero_code list.size(3) zero_less_numeral)
    obtain ys l g where sp: "cq_split compar ?c = (ys, l, g)" by (metis prod.exhaust)
    obtain v where v: "v \<in> set ?c" "mset ys = mset ?c" "l + g < length ?c" "cq_three compar v l g ys"
      using cq_split_facts [OF sp ne] .
    have vy: "v \<in> set ys" using v(1) mset_eq_setD [OF v(2)] by simp
    have ly: "length ys = hi - lo" "l + g < hi - lo" using mset_eq_length [OF v(2)] v(3) b(4) by simp_all
    show ?thesis
    proof (cases "l = 0 \<and> g = 0")
      case True
      have "cq_settled compar ([] @ stack) (patch lo ys xs)" if "consistent (set xs) compar" "cq_settled compar ((lo, hi) # stack) xs"
        by (rule cq_settled_step [OF that(2) b(1,2) ly(1) v(2)])
          (use cq_three_order [OF sub [OF v(2) that(1)] v(4) vy] True ly in auto)
      then show ?thesis using "2.IH"(2) [OF False sp [symmetric] refl refl True] False True sp p [OF v(2)] b(3) "2.prems"(2)
        by (auto simp: Let_def)
    next
      case nz: False
      note d = cq_deep_bound [OF "2.prems"(1) False "2.prems"(2)]
      then have na: "\<not> \<not> 2 * length stack + 4 < CQ_STACKSIZ" by simp
      have "cq_deep (length xs) (cq_ranges (lo, lo + l) (hi - g, hi) stack)" using cq_deep_ranges [OF "2.prems"(1) ly(2)] nz by simp
      then show ?thesis
        using "2.IH"(3) [OF False sp [symmetric] refl refl nz na] False nz d sp p [OF v(2)] "2.prems"(2)
          cq_settled_ranges [OF _ b(1,2) ly(1) v(2) sub [OF v(2)] v(4) ly(2) vy]
        by (auto simp: Let_def)
    qed
  qed
qed simp

lemma sorted_wrt_mset_unique:
  assumes "sorted_wrt R zs" and "sorted_wrt R xs" and "mset zs = mset xs"
    and "\<And>x y. x \<in> set xs \<Longrightarrow> y \<in> set xs \<Longrightarrow> R x y \<Longrightarrow> R y x \<Longrightarrow> x = y"
  shows "zs = xs"
  using assms
proof (induction xs arbitrary: zs)
  case (Cons x xs)
  then obtain z zs' where z: "zs = z # zs'" by (cases zs) auto
  have s: "set zs = set (x # xs)" using mset_eq_setD [OF Cons.prems(3)] .
  have "z = x"
  proof (rule ccontr)
    assume n: "z \<noteq> x"
    then have m: "z \<in> set xs" "x \<in> set zs'" using s z by auto
    then have "R x z" "R z x" using Cons.prems(1,2) z by auto
    then show False using Cons.prems(4) [of x z] m n by auto
  qed
  then show ?case using Cons.IH [of zs'] Cons.prems z by auto
qed simp

section \<open>The contract of a sort function\<close>

text \<open>What the callers of \<open>click_qsort\<close> rely on.\<close>

locale array_sort =
  fixes qsort :: "('a \<Rightarrow> 'a \<Rightarrow> int) \<Rightarrow> 'a list \<Rightarrow> 'a list res"
  assumes permutes: "length xs < 2 ^ 64 \<Longrightarrow> \<exists>zs. qsort compar xs = Inr zs \<and> mset zs = mset xs"
    and sorts: "length xs < 2 ^ 64 \<Longrightarrow> consistent (set xs) compar \<Longrightarrow> qsort compar xs = Inr zs \<Longrightarrow>
      sorted_wrt (\<lambda>x y. compar x y \<le> 0) zs"
begin

lemma sort_distinct:
  assumes "length xs < 2 ^ 64" and "distinct xs"
  obtains zs where "qsort compar xs = Inr zs" "set zs = set xs" "distinct zs" "length zs = length xs"
    "consistent (set xs) compar \<Longrightarrow> sorted_wrt (\<lambda>x y. compar x y \<le> 0) zs"
proof -
  obtain zs where z: "qsort compar xs = Inr zs" "mset zs = mset xs" using permutes [OF assms(1)] by blast
  show thesis
  proof (rule that [OF z(1)])
    show "set zs = set xs" by (rule mset_eq_setD [OF z(2)])
    show "distinct zs" using mset_eq_imp_distinct_iff [OF z(2)] assms(2) by blast
    show "length zs = length xs" by (rule mset_eq_length [OF z(2)])
    show "sorted_wrt (\<lambda>x y. compar x y \<le> 0) zs" if "consistent (set xs) compar" by (rule sorts [OF assms(1) that z(1)])
  qed
qed

text \<open>If no two elements are equal for the comparison function, a sorted array stays as it is.\<close>

lemma sort_sorted:
  assumes "length xs < 2 ^ 64" and c: "consistent (set xs) compar" and s: "sorted_wrt (\<lambda>x y. compar x y < 0) xs"
  shows "qsort compar xs = Inr xs"
proof -
  obtain zs where z: "qsort compar xs = Inr zs" "mset zs = mset xs" using permutes [OF assms(1)] by blast
  have x: "x = y" if e: "x \<in> set xs" "y \<in> set xs" "compar x y = 0" for x y
  proof (rule ccontr)
    assume "x \<noteq> y"
    then obtain i j where ij: "i < length xs" "j < length xs" "x = xs ! i" "y = xs ! j" "i \<noteq> j" using e(1,2)
      unfolding in_set_conv_nth by blast
    then have "compar x y < 0 \<or> compar y x < 0" using s by (auto simp: sorted_wrt_iff_nth_less neq_iff)
    then show False using e(3) consistentD(4) [OF c e] by simp
  qed
  have "zs = xs"
  proof (rule sorted_wrt_mset_unique [OF _ _ z(2)])
    show "sorted_wrt (\<lambda>x y. compar x y \<le> 0) zs" by (rule sorts [OF assms(1) c z(1)])
    show "sorted_wrt (\<lambda>x y. compar x y \<le> 0) xs" by (rule sorted_wrt_mono_rel [OF _ s]) simp
  next
    fix x y
    assume "x \<in> set xs" "y \<in> set xs" "compar x y \<le> 0" "compar y x \<le> 0"
    then show "x = y" using x consistentD(1) [OF c, of x y] by force
  qed
  then show ?thesis using z(1) by simp
qed

end

lemma click_qsort_ok:
  assumes "length xs < 2 ^ 64"
  shows "\<exists>zs. click_qsort compar xs = Inr zs \<and> mset zs = mset xs \<and>
    (consistent (set xs) compar \<longrightarrow> sorted_wrt (\<lambda>x y. compar x y \<le> 0) zs)"
proof -
  have "cq_deep (length xs) [(0, length xs)]" "cq_settled compar [(0, length xs)] xs" by (simp_all add: cq_settled_def)
  with cq_loop_ok [OF this(1) assms, of compar] show ?thesis
    by (auto simp: click_qsort_def cq_settled_def sorted_wrt_iff_nth_less)
qed

interpretation cq: array_sort click_qsort
  by unfold_locales (use click_qsort_ok in fastforce)+

section \<open>Properties of the sort\<close>

text \<open>
  C33: For every comparison function, however bogus, \<open>click_qsort\<close> returns with a permutation of the array, and the assertion on
  its stack does not fail (for arrays of less than \<open>2 ^ 64\<close> elements). If the comparison function is consistent, that is
  antisymmetric and transitive, on the elements of the array, the array is sorted.
\<close>

theorem click_qsort_sorts:
  assumes "length xs < 2 ^ 64"
  shows "\<exists>zs. click_qsort compar xs = Inr zs \<and> mset zs = mset xs \<and>
    (consistent (set xs) compar \<longrightarrow> sorted_wrt (\<lambda>x y. compar x y \<le> 0) zs)"
  using cq.permutes [OF assms, of compar] cq.sorts [OF assms, of compar] by blast

theorem click_qsort_sorts_witness:
  "\<exists>zs. click_qsort (\<lambda>x y. x - y) [5, 3, 9, 1, 7, 3, 2, 8 :: int] = Inr zs \<and> sorted_wrt (\<lambda>x y. x - y \<le> 0) zs"
  using click_qsort_sorts [of "[5, 3, 9, 1, 7, 3, 2, 8 :: int]" "\<lambda>x y. x - y"] by (auto simp: consistent_def)

end
