(* ===== verification/ARP_Responder_Table.thy ===== *)
theory ARP_Responder_Table
  imports ARP_Responder Click_Sort
begin

text \<open>
  How \<^verbatim>\<open>ARPResponder\<close> builds its table (\<^verbatim>\<open>click/elements/ethernet/arpresponder.cc\<close>): \<open>normalize\<close> sorts the entries with
  \<open>click_qsort\<close> and drops duplicates, for \<open>configure\<close> and for the \<open>add\<close> handler. Shown: no prefix gets lost, and where the comparison
  function is consistent on the entries, a lookup finds the most specific prefix and the last of its entries. It is not consistent in
  general: two tables on which the order goes wrong are evaluated.
\<close>

unbundle bit_operations_syntax

section \<open>Operations\<close>

definition AR_entry_compare :: "ar_entry list \<Rightarrow> nat \<Rightarrow> nat \<Rightarrow> int" where
  "AR_entry_compare entries a b =
     (let ea = entries ! a; eb = entries ! b in
      if are_dst ea = are_dst eb \<and> are_mask ea = are_mask eb then int b - int a
      else if are_dst ea AND are_mask eb = are_dst eb then - 1
      else if are_dst eb AND are_mask ea = are_dst ea then 1
      else int a - int b)"

text \<open>The loop over the sorted indices, with the number of warnings.\<close>

fun AR_drop_duplicates :: "bool \<Rightarrow> ar_entry list \<Rightarrow> ar_entry list \<Rightarrow> nat \<Rightarrow> nat list \<Rightarrow> ar_entry list \<times> nat" where
  "AR_drop_duplicates warn v nv warnings [] = (nv, warnings)"
| "AR_drop_duplicates warn v nv warnings (i # permute) =
     (let e = v ! i in
      if nv = [] \<or> are_dst (last nv) \<noteq> are_dst e \<or> are_mask (last nv) \<noteq> are_mask e
      then AR_drop_duplicates warn v (nv @ [e]) warnings permute
      else AR_drop_duplicates warn v nv (if warn then warnings + 1 else warnings) permute)"

definition AR_normalize :: "bool \<Rightarrow> ar_entry list \<Rightarrow> (ar_entry list \<times> nat) res" where
  "AR_normalize warn v =
     res_bind (click_qsort (AR_entry_compare v) [0..<length v]) (\<lambda>permute. Inr (AR_drop_duplicates warn v [] 0 permute))"

text \<open>An argument that cannot be added is skipped and counted as an error.\<close>

fun AR_configure_args :: "ar_word list list \<Rightarrow> ar_entry list \<Rightarrow> nat \<Rightarrow> ar_entry list \<times> nat" where
  "AR_configure_args [] v nerrors = (v, nerrors)"
| "AR_configure_args (arg # conf) v nerrors =
     (let (r, v) = AR_add v arg in AR_configure_args conf v (if r < 0 then nerrors + 1 else nerrors))"

definition AR_configure :: "nat \<Rightarrow> ar_word list list \<Rightarrow> ARPResponder \<Rightarrow> (int \<times> ARPResponder) res" where
  "AR_configure nerrors conf st =
     (let (v, nerrors) = AR_configure_args conf [] nerrors in
      if nerrors = 0 then res_bind (AR_normalize True v) (\<lambda>(v, warnings). Inr (0, st\<lparr>ar_v := v\<rparr>))
      else Inr (- 1, st))"

definition AR_add_handler :: "ar_word list \<Rightarrow> ARPResponder \<Rightarrow> (int \<times> ARPResponder) res" where
  "AR_add_handler s st =
     (let (r, v) = AR_add (ar_v st) s in
      if r \<ge> 0 then res_bind (AR_normalize False v) (\<lambda>(v, warnings). Inr (0, st\<lparr>ar_v := v\<rparr>))
      else Inr (- 1, st))"

section \<open>Duplicates\<close>

definition AR_matches :: "ipaddr \<Rightarrow> ar_entry \<Rightarrow> bool" where
  "AR_matches addr e \<longleftrightarrow> addr AND are_mask e = are_dst e"

definition AR_prefix :: "ar_entry \<Rightarrow> ipaddr \<times> ipaddr" where
  "AR_prefix e = (are_dst e, are_mask e)"

lemma AR_lookup_find: "AR_lookup addr v = map_option are_ena (find (AR_matches addr) v)"
  by (induction v) (auto simp: AR_matches_def)

lemma AR_prefix_eq: "AR_prefix e = AR_prefix e' \<longleftrightarrow> are_dst e = are_dst e' \<and> are_mask e = are_mask e'"
  by (auto simp: AR_prefix_def)

lemma AR_matches_prefix: "AR_prefix e = AR_prefix e' \<Longrightarrow> AR_matches addr e = AR_matches addr e'"
  by (auto simp: AR_prefix_eq AR_matches_def)

lemma AR_lookup_append:
  "AR_lookup addr (v @ v') = (case AR_lookup addr v of None \<Rightarrow> AR_lookup addr v' | Some ena \<Rightarrow> Some ena)"
  by (induction v) auto

lemma AR_lookup_duplicate:
  assumes "e \<in> set nv" and "AR_prefix e = AR_prefix e'"
  shows "AR_lookup addr (nv @ e' # its) = AR_lookup addr (nv @ its)"
proof (cases "AR_matches addr e")
  case True
  then have "AR_lookup addr nv \<noteq> None" using assms(1) by (auto simp: AR_lookup_find find_None_iff)
  then show ?thesis by (auto simp: AR_lookup_append)
next
  case False
  then have "AR_lookup addr (e' # its) = AR_lookup addr its" using AR_matches_prefix [OF assms(2)] by (simp add: AR_matches_def)
  then show ?thesis by (simp only: AR_lookup_append)
qed

lemma AR_drop_duplicates_ok:
  "AR_drop_duplicates warn v nv w is = (nv', w') \<Longrightarrow>
    AR_lookup addr nv' = AR_lookup addr (nv @ map ((!) v) is) \<and> set nv' \<subseteq> set (nv @ map ((!) v) is) \<and>
    AR_prefix ` set nv' = AR_prefix ` set (nv @ map ((!) v) is) \<and> (warn \<longrightarrow> length nv' + w' = length nv + w + length is)"
proof (induction warn v nv w "is" rule: AR_drop_duplicates.induct)
  case (2 warn v nv w i permute)
  let ?e = "v ! i"
  show ?case
  proof (cases "nv = [] \<or> are_dst (last nv) \<noteq> are_dst ?e \<or> are_mask (last nv) \<noteq> are_mask ?e")
    case True
    then show ?thesis using "2.IH"(1) [OF refl True] "2.prems" by (simp add: Let_def)
  next
    case False
    then have l: "last nv \<in> set nv" "AR_prefix (last nv) = AR_prefix ?e" by (auto simp: AR_prefix_eq)
    then have "AR_prefix ?e \<in> AR_prefix ` set nv" by (metis imageI)
    then have "AR_prefix ` set (nv @ map ((!) v) (i # permute)) = AR_prefix ` set (nv @ map ((!) v) permute)" by auto
    moreover have "set (nv @ map ((!) v) permute) \<subseteq> set (nv @ map ((!) v) (i # permute))" by auto
    ultimately show ?thesis
      using "2.IH"(2) [OF refl False] "2.prems" False AR_lookup_duplicate [OF l, of addr "map ((!) v) permute"]
      by (auto simp: Let_def split: if_splits)
  qed
qed simp

section \<open>The order of the table\<close>

text \<open>Two netmasks are comparable: of the set bits of one all are set in the other, as for netmasks of address prefixes.\<close>

definition AR_nested :: "ar_entry list \<Rightarrow> bool" where
  "AR_nested v \<longleftrightarrow> (\<forall>e \<in> set v. \<forall>e' \<in> set v. are_mask e AND are_mask e' = are_mask e \<or> are_mask e AND are_mask e' = are_mask e')"

text \<open>Of two entries that match an address, the one that the order puts first is more specific, or later with the same prefix.\<close>

lemma AR_compare_matches:
  assumes c: "consistent A (AR_entry_compare v)" "k \<in> A" "j \<in> A" and le: "AR_entry_compare v k j \<le> 0"
    and m: "AR_matches addr (v ! k)" "AR_matches addr (v ! j)"
    and nest: "are_mask (v ! k) AND are_mask (v ! j) = are_mask (v ! k) \<or> are_mask (v ! k) AND are_mask (v ! j) = are_mask (v ! j)"
  shows "are_mask (v ! k) AND are_mask (v ! j) = are_mask (v ! j) \<and> (are_mask (v ! j) = are_mask (v ! k) \<longrightarrow> j \<le> k)"
proof (cases "are_mask (v ! j) = are_mask (v ! k)")
  case True
  then have "are_dst (v ! j) = are_dst (v ! k)" using m by (simp add: AR_matches_def)
  then show ?thesis using True le by (simp add: AR_entry_compare_def Let_def)
next
  case False
  have "are_mask (v ! k) AND are_mask (v ! j) = are_mask (v ! j)"
  proof (rule ccontr)
    assume "\<not> ?thesis"
    then have "are_mask (v ! k) AND are_mask (v ! j) = are_mask (v ! k)" using nest by blast
    moreover have "are_dst (v ! j) AND are_mask (v ! k) = addr AND (are_mask (v ! k) AND are_mask (v ! j))"
      using m(2) unfolding AR_matches_def by (metis and.assoc and.commute)
    ultimately have "are_dst (v ! j) AND are_mask (v ! k) = are_dst (v ! k)" using m(1) by (simp add: AR_matches_def)
    then have "AR_entry_compare v j k = - 1" "AR_entry_compare v k j = 1 \<or> AR_entry_compare v k j = - 1"
      using False by (auto simp: AR_entry_compare_def Let_def)
    then show False using le consistentD(1) [OF c(1,3,2)] consistentD(1) [OF c] by auto
  qed
  with False show ?thesis by simp
qed

lemma AR_permute:
  assumes "length v < 2 ^ 31"
  obtains ps where "click_qsort (AR_entry_compare v) [0..<length v] = Inr ps" "set ps = {0..<length v}" "length ps = length v"
    "consistent {0..<length v} (AR_entry_compare v) \<Longrightarrow> sorted_wrt (\<lambda>x y. AR_entry_compare v x y \<le> 0) ps"
proof (rule cq.sort_distinct [of "[0..<length v]" "AR_entry_compare v"])
  show "length [0..<length v] < 2 ^ 64" "distinct [0..<length v]" using assms by simp_all
qed (rule that, simp_all)

section \<open>Properties of the table\<close>

text \<open>
  C30: The table of an \<open>ARPResponder\<close>. \<open>normalize\<close> returns for every list of entries, and the new table has entries of the list only,
  for every prefix of the list; each entry that is dropped gives one warning. If the comparison function is consistent on the
  entries and the netmasks are nested, an address is answered by the entry with the longest prefix that matches it, the last one of
  several with that prefix, and an address that no entry matches by none.
\<close>

theorem ar_normalize_longest_prefix:
  assumes "length v < 2 ^ 31"
  shows "\<exists>nv w. AR_normalize True v = Inr (nv, w) \<and> set nv \<subseteq> set v \<and> AR_prefix ` set nv = AR_prefix ` set v \<and>
    length nv + w = length v \<and> (AR_lookup addr nv = None \<longleftrightarrow> (\<forall>e \<in> set v. \<not> AR_matches addr e)) \<and>
    (consistent {0..<length v} (AR_entry_compare v) \<and> AR_nested v \<longrightarrow>
      (\<forall>ena. AR_lookup addr nv = Some ena \<longrightarrow>
         (\<exists>k < length v. AR_matches addr (v ! k) \<and> are_ena (v ! k) = ena \<and>
            (\<forall>j < length v. AR_matches addr (v ! j) \<longrightarrow>
               are_mask (v ! k) AND are_mask (v ! j) = are_mask (v ! j) \<and> (are_mask (v ! j) = are_mask (v ! k) \<longrightarrow> j \<le> k)))))"
proof -
  obtain ps where q: "click_qsort (AR_entry_compare v) [0..<length v] = Inr ps" and ps: "set ps = {0..<length v}" "length ps = length v"
      and srt: "consistent {0..<length v} (AR_entry_compare v) \<Longrightarrow> sorted_wrt (\<lambda>x y. AR_entry_compare v x y \<le> 0) ps"
    by (rule AR_permute [OF assms]) blast
  obtain nv w where d: "AR_drop_duplicates True v [] 0 ps = (nv, w)" by fastforce
  have im: "set (map ((!) v) ps) = set v" by (simp add: ps(1) nth_image)
  have dd: "AR_lookup addr nv = AR_lookup addr (map ((!) v) ps)" "set nv \<subseteq> set v" "AR_prefix ` set nv = AR_prefix ` set v"
      "length nv + w = length v"
    using AR_drop_duplicates_ok [OF d, of addr] ps(2) unfolding append_Nil im by simp_all
  have lk: "AR_lookup addr nv = map_option are_ena (find (AR_matches addr) (map ((!) v) ps))" using dd(1) by (simp add: AR_lookup_find)
  have none: "AR_lookup addr nv = None \<longleftrightarrow> (\<forall>e \<in> set v. \<not> AR_matches addr e)" using im by (auto simp: lk find_None_iff)
  have "\<exists>k < length v. AR_matches addr (v ! k) \<and> are_ena (v ! k) = ena \<and>
      (\<forall>j < length v. AR_matches addr (v ! j) \<longrightarrow>
         are_mask (v ! k) AND are_mask (v ! j) = are_mask (v ! j) \<and> (are_mask (v ! j) = are_mask (v ! k) \<longrightarrow> j \<le> k))"
    if c: "consistent {0..<length v} (AR_entry_compare v)" and nest: "AR_nested v" and s: "AR_lookup addr nv = Some ena" for ena
  proof -
    obtain i where i: "i < length ps" "AR_matches addr (v ! (ps ! i))" "are_ena (v ! (ps ! i)) = ena"
        "\<forall>m < i. \<not> AR_matches addr (v ! (ps ! m))"
      using s unfolding lk by (auto simp: find_Some_iff)
    let ?k = "ps ! i"
    have k: "?k < length v" using i(1) ps(1) nth_mem by fastforce
    have "are_mask (v ! ?k) AND are_mask (v ! j) = are_mask (v ! j) \<and> (are_mask (v ! j) = are_mask (v ! ?k) \<longrightarrow> j \<le> ?k)"
      if j: "j < length v" "AR_matches addr (v ! j)" for j
    proof -
      obtain m where m: "m < length ps" "j = ps ! m" using j(1) ps(1) by (metis atLeastLessThan_iff in_set_conv_nth le0)
      then consider "m = i" | "i < m" using i(4) j(2) by (metis linorder_neqE_nat)
      then show ?thesis
      proof cases
        case 2
        then have "AR_entry_compare v ?k j \<le> 0" using srt [OF c] m by (auto simp: sorted_wrt_iff_nth_less)
        then show ?thesis using AR_compare_matches [OF c _ _ _ i(2) j(2)] k j nest by (simp add: AR_nested_def)
      qed (use m in simp)
    qed
    with k i(2,3) show ?thesis by blast
  qed
  with q d dd(2-) none show ?thesis by (auto simp: AR_normalize_def)
qed


definition sample_table :: "ar_entry list" where
  "sample_table = [\<lparr>are_dst = 0x02000001, are_mask = 0xFFFFFFFF, are_ena = [0, 1, 2, 3, 4, 5]\<rparr>,
                   \<lparr>are_dst = 0x02000001, are_mask = 0xFFFFFFFF, are_ena = [0, 1, 2, 3, 4, 7]\<rparr>,
                   \<lparr>are_dst = 0x00000001, are_mask = 0x00FFFFFF, are_ena = [0, 1, 2, 3, 4, 6]\<rparr>]"

theorem ar_normalize_longest_prefix_witness:
  "\<exists>nv w. AR_normalize True sample_table = Inr (nv, w) \<and> length nv + w = 3 \<and> consistent {0..<3} (AR_entry_compare sample_table) \<and>
     AR_nested sample_table \<and> AR_lookup 0x02000001 nv \<noteq> None"
proof -
  have "consistent (set [0..<length sample_table]) (AR_entry_compare sample_table)" "AR_nested sample_table" "length sample_table = 3"
    "list_ex (AR_matches 0x02000001) sample_table" by code_simp+
  then show ?thesis using ar_normalize_longest_prefix [of sample_table "0x02000001"] by (auto simp: list_ex_iff)
qed

section \<open>Prefixes without overlap\<close>

text \<open>The invariant of the table: no entry has address bits outside its netmask, and Ethernet addresses have six bytes.\<close>

definition AR_ok :: "ar_entry \<Rightarrow> bool" where
  "AR_ok e \<longleftrightarrow> are_dst e AND are_mask e = are_dst e \<and> length (are_ena e) = 6"

lemma AR_compare_disjoint:
  assumes ok: "\<forall>e \<in> set v. AR_ok e" and dis: "\<forall>i < length v. \<forall>j < length v. i \<noteq> j \<longrightarrow> are_dst (v ! i) AND are_mask (v ! j) \<noteq> are_dst (v ! j)"
    and ij: "i < length v" "j < length v"
  shows "AR_entry_compare v i j = int i - int j"
proof (cases "i = j")
  case False
  then have d: "are_dst (v ! i) AND are_mask (v ! j) \<noteq> are_dst (v ! j)" "are_dst (v ! j) AND are_mask (v ! i) \<noteq> are_dst (v ! i)"
    using dis ij by blast+
  moreover have "AR_ok (v ! j)" using ok ij by simp
  ultimately show ?thesis by (auto simp: AR_entry_compare_def Let_def AR_ok_def)
qed (simp add: AR_entry_compare_def)

lemma AR_drop_none:
  "(\<forall>a b. Suc a = b \<longrightarrow> b < length xs \<longrightarrow> AR_prefix (xs ! a) \<noteq> AR_prefix (xs ! b)) \<Longrightarrow> n \<le> length xs \<Longrightarrow>
    AR_drop_duplicates warn xs (take n xs) w [n..<length xs] = (xs, w)"
proof (induction "length xs - n" arbitrary: n)
  case (Suc d)
  then have n: "n < length xs" "take n xs @ [xs ! n] = take (Suc n) xs" by (simp_all add: take_Suc_conv_app_nth)
  then have u: "[n..<length xs] = n # [Suc n..<length xs]" by (simp add: upt_conv_Cons)
  have "take n xs = [] \<or> AR_prefix (last (take n xs)) \<noteq> AR_prefix (xs ! n)"
  proof (cases n)
    case (Suc m)
    then have "last (take n xs) = xs ! m" using n(1) by (simp add: take_Suc_conv_app_nth)
    then show ?thesis using Suc.prems n(1) \<open>n = Suc m\<close> by simp
  qed simp
  then have "take n xs = [] \<or> are_dst (last (take n xs)) \<noteq> are_dst (xs ! n) \<or> are_mask (last (take n xs)) \<noteq> are_mask (xs ! n)"
    by (simp add: AR_prefix_eq)
  then show ?case using Suc.hyps(1) [of "Suc n"] Suc.hyps(2) Suc.prems(1) n unfolding u AR_drop_duplicates.simps(2) Let_def
    by (simp only: if_True n(2))
qed simp

text \<open>Where no entry's network lies in another's, \<open>normalize\<close> keeps the table as it is.\<close>

theorem ar_disjoint_kept:
  assumes "length v < 2 ^ 31" and "\<forall>e \<in> set v. AR_ok e"
    and "\<forall>i < length v. \<forall>j < length v. i \<noteq> j \<longrightarrow> are_dst (v ! i) AND are_mask (v ! j) \<noteq> are_dst (v ! j)"
  shows "AR_normalize warn v = Inr (v, 0)"
proof -
  note c = AR_compare_disjoint [OF assms(2,3)]
  have q: "click_qsort (AR_entry_compare v) [0..<length v] = Inr [0..<length v]"
  proof (rule cq.sort_sorted)
    show "consistent (set [0..<length v]) (AR_entry_compare v)" by (auto simp: consistent_def c)
    show "sorted_wrt (\<lambda>x y. AR_entry_compare v x y < 0) [0..<length v]" by (auto simp: sorted_wrt_iff_nth_less c)
  qed (use assms(1) in simp)
  have "AR_prefix (v ! a) \<noteq> AR_prefix (v ! b)" if "Suc a = b" "b < length v" for a b
  proof
    assume "AR_prefix (v ! a) = AR_prefix (v ! b)"
    then have "are_dst (v ! a) AND are_mask (v ! b) = are_dst (v ! b)" using assms(2) that by (auto simp: AR_prefix_eq AR_ok_def)
    then show False using assms(3) that by auto
  qed
  from AR_drop_none [of v 0 warn 0] this show ?thesis by (simp add: AR_normalize_def q)
qed

section \<open>The invariant\<close>

definition AR_words_ok :: "ar_word list \<Rightarrow> bool" where
  "AR_words_ok ws \<longleftrightarrow> (\<forall>w \<in> set ws. case snd w of None \<Rightarrow> True | Some e \<Rightarrow> length e = 6)"

lemma AR_add_words_ok:
  "AR_add_words ws ena = Some (ps, ena') \<Longrightarrow> AR_words_ok ws \<Longrightarrow> pred_option (\<lambda>e. length e = 6) ena \<Longrightarrow>
    pred_option (\<lambda>e. length e = 6) ena'"
proof (induction ws arbitrary: ena ps)
  case (Cons w ws)
  obtain pr en where w: "w = (pr, en)" by fastforce
  have ok: "AR_words_ok ws" "pred_option (\<lambda>e. length e = 6) en"
    using Cons.prems(2) by (auto simp: AR_words_ok_def w option.pred_set split: option.splits)
  show ?case
  proof (cases pr)
    case (Some prefix)
    then obtain ps' where "AR_add_words ws ena = Some (ps', ena')" using Cons.prems(1) w by auto
    from Cons.IH [OF this ok(1) Cons.prems(3)] show ?thesis .
  next
    case None
    then obtain e where "en = Some e" "AR_add_words ws (Some e) = Some (ps, ena')"
      using Cons.prems(1) w by (auto split: option.splits if_splits)
    with Cons.IH [OF this(2) ok(1)] ok(2) show ?thesis by simp
  qed
qed simp

lemma find_in_set: "find P xs = Some x \<Longrightarrow> x \<in> set xs"
  by (induction xs) (auto split: if_splits)

lemma AR_add_ok:
  assumes "AR_add v ws = (r, v')" and "\<forall>e \<in> set v. AR_ok e" and "AR_words_ok ws"
  shows "\<forall>e \<in> set v'. AR_ok e"
proof (cases "AR_add_words ws None")
  case None
  then show ?thesis using assms by (simp add: AR_add_def)
next
  case (Some x)
  obtain ps ena where x: "AR_add_words ws None = Some (ps, ena)" using Some by (cases x) simp
  define ena' where "ena' = (if ena = None then (case find (\<lambda>e. e \<noteq> None) (map snd ws) of Some e \<Rightarrow> e | None \<Rightarrow> None) else ena)"
  have len: "length e = 6" if "ena' = Some e" for e
  proof (cases ena)
    case None
    then have "Some e \<in> set (map snd ws)" using that find_in_set [of _ "map snd ws" "Some e"] by (simp add: ena'_def split: option.splits)
    then show ?thesis using assms(3) by (auto simp: AR_words_ok_def)
  next
    case (Some e')
    then show ?thesis using that AR_add_words_ok [OF x assms(3)] by (simp add: ena'_def)
  qed
  have "v' = v \<or> (\<exists>e. ena' = Some e \<and>
      v' = v @ map (\<lambda>(addr, netmask). \<lparr>are_dst = addr AND netmask, are_mask = netmask, are_ena = e\<rparr>) ps)"
    using assms(1) by (simp add: AR_add_def x ena'_def [symmetric] Let_def split: option.splits if_splits)
  then show ?thesis using assms(2) len by (auto simp: AR_ok_def and.assoc)
qed

lemma AR_configure_args_ok:
  "AR_configure_args conf v n = (v', n') \<Longrightarrow> \<forall>e \<in> set v. AR_ok e \<Longrightarrow> \<forall>ws \<in> set conf. AR_words_ok ws \<Longrightarrow> \<forall>e \<in> set v'. AR_ok e"
  proof (induction conf v n rule: AR_configure_args.induct)
  case (2 arg conf v n)
  obtain r u where a: "AR_add v arg = (r, u)" by fastforce
  show ?case using "2.IH" [OF a [symmetric] refl] "2.prems" AR_add_ok [OF a] by (simp add: a)
qed simp

lemma AR_normalize_ok:
  assumes "length v < 2 ^ 31" and "\<forall>e \<in> set v. AR_ok e"
  shows "\<exists>nv w. AR_normalize warn v = Inr (nv, w) \<and> (\<forall>e \<in> set nv. AR_ok e)"
proof -
  obtain ps where q: "click_qsort (AR_entry_compare v) [0..<length v] = Inr ps" "set ps = {0..<length v}"
    by (rule AR_permute [OF assms(1)]) blast
  obtain nv w where d: "AR_drop_duplicates warn v [] 0 ps = (nv, w)" by fastforce
  have "set (map ((!) v) ps) = set v" by (simp add: q(2) nth_image)
  then have "set nv \<subseteq> set v" using AR_drop_duplicates_ok [OF d, of 0] unfolding append_Nil by simp
  then show ?thesis using q(1) d assms(2) by (auto simp: AR_normalize_def)
qed

lemma AR_remove_subset: "AR_remove addr netmask v = Some v' \<Longrightarrow> set v' \<subseteq> set v"
  by (induction v arbitrary: v') (auto split: if_splits)

text \<open>
  C34: The table of an \<open>ARPResponder\<close> keeps its invariant: \<open>configure\<close> and the handlers \<open>add\<close> and \<open>remove\<close> return, with 0 or an
  error, and leave a table in which no entry has address bits outside its netmask and every Ethernet address has six bytes; after an
  error the table is the old one.
\<close>

theorem ar_table_invariant:
  assumes "\<forall>e \<in> set (ar_v st). AR_ok e" and "\<forall>arg \<in> set conf. AR_words_ok arg" and "AR_words_ok s"
    and "length (fst (AR_configure_args conf [] nerrors)) < 2 ^ 31" and "length (snd (AR_add (ar_v st) s)) < 2 ^ 31"
  shows "\<forall>x \<in> {AR_configure nerrors conf st, AR_add_handler s st, Inr (AR_remove_handler prefix st)}.
    \<exists>r st'. x = Inr (r, st') \<and> (\<forall>e \<in> set (ar_v st'). AR_ok e) \<and> (r < 0 \<longrightarrow> st' = st)"
proof -
  obtain v n where c: "AR_configure_args conf [] nerrors = (v, n)" by fastforce
  obtain nv w where n: "AR_normalize True v = Inr (nv, w)" "\<forall>e \<in> set nv. AR_ok e"
    using AR_normalize_ok [of v True] AR_configure_args_ok [OF c] assms(2,4) c by auto
  obtain r u where a: "AR_add (ar_v st) s = (r, u)" by fastforce
  obtain nu w' where m: "AR_normalize False u = Inr (nu, w')" "\<forall>e \<in> set nu. AR_ok e"
    using AR_normalize_ok [of u False] AR_add_ok [OF a] assms(1,3,5) a by auto
  have "\<exists>r st'. AR_configure nerrors conf st = Inr (r, st') \<and> (\<forall>e \<in> set (ar_v st'). AR_ok e) \<and> (r < 0 \<longrightarrow> st' = st)"
    using c n assms(1) by (simp add: AR_configure_def)
  moreover have "\<exists>r st'. AR_add_handler s st = Inr (r, st') \<and> (\<forall>e \<in> set (ar_v st'). AR_ok e) \<and> (r < 0 \<longrightarrow> st' = st)"
    using a m assms(1) by (simp add: AR_add_handler_def)
  moreover have "\<exists>r st'. AR_remove_handler prefix st = (r, st') \<and> (\<forall>e \<in> set (ar_v st'). AR_ok e) \<and> (r < 0 \<longrightarrow> st' = st)"
    using assms(1) AR_remove_subset by (fastforce simp: AR_remove_handler_def split: option.splits)
  ultimately show ?thesis by simp
qed

theorem ar_table_invariant_witness:
  "\<exists>r st'. AR_add_handler [(Some (0x0300A8C0, 0xFFFFFFFF), None), (None, Some [2, 0, 0, 0, 0, 3])] sample_AR = Inr (r, st') \<and>
     (\<forall>e \<in> set (ar_v st'). AR_ok e)"
proof -
  let ?s = "[(Some (0x0300A8C0, 0xFFFFFFFF), None), (None, Some [2, 0, 0, 0, 0, 3])]"
  have "list_all AR_ok (ar_v sample_AR)" "AR_words_ok ?s" "length (snd (AR_add (ar_v sample_AR) ?s)) = 2" by code_simp+
  then show ?thesis using ar_table_invariant [of sample_AR "[]" ?s 0 Absent] by (auto simp: list_all_iff)
qed

section \<open>Where the order goes wrong\<close>

text \<open>
  The comparison function is neither transitive nor antisymmetric. With an entry between them, two entries for one address are not
  brought together: an entry that is added for an address of the table changes no answer. And a network is left before a
  network inside it, if both begin with the same address.
\<close>

definition AR_host :: "ipaddr \<Rightarrow> ethaddr \<Rightarrow> ar_entry" where
  "AR_host addr ena = \<lparr>are_dst = addr, are_mask = 0xFFFFFFFF, are_ena = ena\<rparr>"

theorem ar_add_no_effect:
  "\<exists>st. AR_add_handler [(Some (0x0200A8C0, 0xFFFFFFFF), None), (None, Some [2, 0, 0, 0, 0, 9])]
        \<lparr>ar_v = [AR_host 0x0200A8C0 [2, 0, 0, 0, 0, 2], AR_host 0x0300A8C0 [2, 0, 0, 0, 0, 3]], ar_noutputs = 1\<rparr> = Inr (0, st) \<and>
     AR_lookup 0x0200A8C0 (ar_v st) = Some [2, 0, 0, 0, 0, 2]"
proof -
  have "(case AR_add_handler [(Some (0x0200A8C0, 0xFFFFFFFF), None), (None, Some [2, 0, 0, 0, 0, 9])]
        \<lparr>ar_v = [AR_host 0x0200A8C0 [2, 0, 0, 0, 0, 2], AR_host 0x0300A8C0 [2, 0, 0, 0, 0, 3]], ar_noutputs = 1\<rparr> of
      Inl _ \<Rightarrow> False | Inr (r, st) \<Rightarrow> r = 0 \<and> AR_lookup 0x0200A8C0 (ar_v st) = Some [2, 0, 0, 0, 0, 2])" by code_simp
  then show ?thesis by (auto split: sum.splits prod.splits)
qed

theorem ar_wider_network_first:
  "AR_normalize True [\<lparr>are_dst = 10, are_mask = 0xFF, are_ena = [2, 0, 0, 0, 0, 1]\<rparr>, \<lparr>are_dst = 10, are_mask = 0xFFFF, are_ena = [2, 0, 0, 0, 0, 2]\<rparr>] =
     Inr ([\<lparr>are_dst = 10, are_mask = 0xFF, are_ena = [2, 0, 0, 0, 0, 1]\<rparr>, \<lparr>are_dst = 10, are_mask = 0xFFFF, are_ena = [2, 0, 0, 0, 0, 2]\<rparr>], 0)"
  by code_simp

end
