(* ===== verification/Spec2Isabelle.thy ===== *)
theory Spec2Isabelle
  imports Registration Advertiser Soliciter Mobile_IP_Classifier Linear_Lookup Output_Path ARP_Responder_Table
begin

text \<open>
  A verification of Mobile IP for IPv4 as a set of elements for the Click modular router. The program is \<^verbatim>\<open>src/elements\<close>; Click itself is \<^verbatim>\<open>src/click\<close>, of which the
  parts the elements rest on are modelled too. All theories are executable functional models:
  handlers take and return the state of their element as a record, port output and \<open>kill\<close> are a
  list of \<open>effect\<close>s, exceptions and faults (null pointer, read outside a buffer, \<open>back\<close> of an empty
  vector, failed assertion) are the \<open>Inl\<close> values of \<open>'a res\<close>, and integers are words of the width
  the source uses.

  \<^bold>\<open>The parts and how they interact.\<close> A mobile node (\<^verbatim>\<open>MobileIPNode\<close>) learns from advertisements where
  it is (\<^verbatim>\<open>MobileIPSoliciter\<close>, \<^verbatim>\<open>MobileIPAdvertiser\<close>) and registers its care-of address with its home
  agent (\<^verbatim>\<open>MobileIPHomeAgent\<close>) over a foreign agent (\<^verbatim>\<open>MobileIPForeignAgent\<close>). The home agent then
  tunnels its traffic (\<^verbatim>\<open>MobileIPEncapsulator\<close>) to the foreign agent, which unpacks it
  (\<^verbatim>\<open>MobileIPDecapsulator\<close>). \<^verbatim>\<open>MobileIPClassifier\<close> sorts incoming packets, \<^verbatim>\<open>MobileIPPacketTransformer\<close>
  redirects the node's own traffic while it is away.

  \<^bold>\<open>The theories.\<close>
  \<^item> \<open>Prelude\<close>: types, the result type and its bind, byte windows of lists, word lemmas.
  \<^item> \<open>Checksum\<close>: \<^verbatim>\<open>click/lib/in_cksum.c\<close>. The 32-bit loop with two folds is the RFC 1071 checksum; the
    pseudo-header variants; incremental update.
  \<^item> \<open>Packet_Buffer\<close>: \<^verbatim>\<open>Packet\<close> as a buffer with a data window and header pointers; push, pull, take,
    uniqueify. Every read and write is bounds-checked.
  \<^item> \<open>Wire_Formats\<close>: the packed structures of \<^verbatim>\<open>packets/packets.hh\<close> and the Click headers with their byte
    layout on a little-endian host, as interpretations of a codec locale, and the decoded structures.
  \<^item> \<open>Packet_Builders\<close>, \<open>Packet_Processors\<close>: one definition per function of \<^verbatim>\<open>PacketBuilders.cc\<close> and
    \<^verbatim>\<open>PacketProcessors.cc\<close>. \<open>Wire_Roundtrip\<close>: the bytes they produce and accept; \<open>arrives p bs\<close> says that a
    packet holds the datagram \<open>bs\<close> with its header pointers set.
  \<^item> \<open>Soft_State\<close>, \<open>Binding_List\<close>, \<open>Visitor_List\<close>, \<open>Request_List\<close>: the lists of \<^verbatim>\<open>lists/\<close>, each refined to a map
    through a locale that its clients use, and the ageing they share.
  \<^item> \<open>Element_Model\<close>: arguments, integer handlers, the environment of a handler call (allocator, clock,
    contents of uninitialised variables), runs of events and invariants over them (\<open>guarded_invariant\<close>, \<open>element_invariant\<close>). The invariants of the agents are
    stated for a run that starts from the configured and initialised element.
  \<^item> \<open>Home_Agent\<close>, \<open>Foreign_Agent\<close>, \<open>Mobile_Node\<close>, \<open>Advertiser\<close>, \<open>Soliciter\<close> (with the packet transformer),
    \<open>Mobile_IP_Classifier\<close>, \<open>Tunnel\<close> (encapsulator and decapsulator): one theory per element, with its
    record, one definition per member function, a specification where it has a contract
    (\<open>ha_answer\<close>, \<open>ha_update\<close>; \<open>fa_verdict\<close>, \<open>fa_visitors_after\<close>; \<open>mn_sends\<close>, \<open>mn_renews\<close>), the refinement, and the
    invariants of its event runs.
  \<^item> \<open>Click_IP\<close>: \<^verbatim>\<open>FromHost\<close>, \<^verbatim>\<open>Strip\<close>, \<^verbatim>\<open>CheckIPHeader\<close>, \<^verbatim>\<open>DecIPTTL\<close> and \<^verbatim>\<open>FixIPSrc\<close>, which bring packets into the
    form the elements rely on.
  \<^item> \<open>IP_Datagram\<close>: datagrams with options in a packet (\<open>holds_dgram\<close>), their header fields and checksum, shared by
    the elements of the forwarding path.
  \<^item> \<open>IP_Fragmenter\<close>: \<^verbatim>\<open>IPFragmenter\<close>, the last element of every forwarding path that changes a packet. Its
    loop is a partial function (no result if it does not end); shown is that it ends and that the
    fragments reassemble to the payload.
  \<^item> \<open>ICMP_Error\<close>: \<^verbatim>\<open>ICMPError\<close>, behind every error output of the routers. Shown: exactly whom it answers, and
    that the answer is a valid datagram with a verifying ICMP message.
  \<^item> \<open>IP_Options\<close>: \<^verbatim>\<open>IPGWOptions\<close>, whose loop over the bytes of the options refines a function on a list of options,
    and two of its faults.
  \<^item> \<open>Output_Path\<close>: \<^verbatim>\<open>HostEtherFilter\<close>, \<^verbatim>\<open>Paint\<close>, \<^verbatim>\<open>PaintTee\<close>, \<^verbatim>\<open>DropBroadcasts\<close>, and the path behind an output of
    the routing table as \<^verbatim>\<open>click/scripts/library/ha.click\<close> connects it: a datagram with hops left reaches the link
    with its payload, one without is answered.
  \<^item> \<open>ARP_Table\<close>: \<^verbatim>\<open>ARPTable\<close>, the Ethernet addresses of the neighbours with the packets that wait for an answer. Shown: exact
    counters and capacities after any sequence of calls in which setters and \<open>take_state\<close> leave room for what is held (with examples
    of the fault otherwise), no packet lost, first in first out.
  \<^item> \<open>ARP_Querier\<close>, \<open>ARP_Responder\<close>: \<^verbatim>\<open>ARPQuerier\<close>, the last element before the link, and \<^verbatim>\<open>ARPResponder\<close>. The retry loop of the
    querier is a partial function; shown is that it ends after at most one retry when the clock does not go back and a call takes less than \<open>2 ^ 31\<close>
    milliseconds, what becomes of each datagram and when a question is sent, and
    that question and answer bring the waiting datagram onto the link.
  \<^item> \<open>Click_Sort\<close>, \<open>ARP_Responder_Table\<close>: \<open>click_qsort\<close> of \<^verbatim>\<open>click/lib/glue.cc\<close> and the table of \<^verbatim>\<open>ARPResponder\<close> it sorts. Shown:
    the sort ends for every comparison function within its stack and is correct for consistent ones, a contract stated
    as a locale on which the table rests; a table with a consistent order answers by the longest prefix, and two tables without.
  \<^item> \<open>Route_Table\<close>, \<open>Route_Control\<close>, \<open>Linear_Lookup\<close>: the routing tables of the routers' configurations
    (\<^verbatim>\<open>click/elements/ip/lineariplookup.cc\<close>, \<^verbatim>\<open>lookupiproute.cc\<close>). The vector of routes with its next
    pointers refines a map from prefixes to gateway and port; the handlers of the superclass
    \<^verbatim>\<open>iproutetable.cc\<close> rest on a locale that the linear table interprets. Shown: longest prefix match
    in every reachable state, the consistency test \<open>check\<close>, and atomic \<open>ctrl\<close> requests.
  \<^item> \<open>Registration\<close>: a whole registration from the node to the home agent and back, and the tunnel it
    opens, over a network that keeps datagrams up to TTL and header checksum.
  \<^item> This theory: movement detection against the sequence numbers the advertiser produces.

  \<^bold>\<open>Assumptions.\<close> Theorems that a packet is sent assume that memory does not run out (\<open>mem_ok\<close>); clocks,
  random numbers, uninitialised memory and the contents of fresh buffers are arbitrary. The
  receiving theorems exclude datagrams whose correct header checksum is 0 and sources in
  8.0.0.0/16, which the decoders get wrong. Loops are structural recursions; those of the sort have a
  measure, and those of the fragmenter and the querier are partial functions shown to return. The loop of the
  \<open>ctrl\<close> handler need not end: it has fuel, and one iteration per line and one more are enough when no line
  is blank. Functions declared \<open>bool\<close> that end without a \<open>return\<close> (undefined behaviour in C++) are modelled by their
  effects, which is all their callers use.

  \<^bold>\<open>Not modelled.\<close> Text parsing of configurations and routes, scheduling of tasks and the router graph; output to
  the console; reference counting beyond the use count of a packet; the remaining elements of the
  input path (the byte pattern classifier); kernel module, drivers, tools
  and the other element packages of Click, which this program does not use.
\<close>

section \<open>Movement detection against the advertiser\<close>

text \<open>Advertisements with the sequence numbers an advertiser gives them after number \<open>n\<close>.\<close>

fun follows :: "u32 \<Rightarrow> routerAdvertisement list \<Rightarrow> bool" where
  "follows n [] = True"
| "follows n (adv # advs) =
     (ra_sequenceNumber adv = next_sequence n \<and> follows (ra_sequenceNumber adv) advs)"

lemma in_step_next:
  assumes "in_step m n"
  shows "in_step (m + 1) (next_sequence n)"
    and "next_sequence n < 256 \<Longrightarrow> next_sequence n - 1 = m"
proof -
  have n: "unat n < 65536" using assms by (simp add: in_step_def)
  note u = unat_next_sequence [OF n]
  show "in_step (m + 1) (next_sequence n)"
  proof (cases "255 \<le> unat n")
    case True
    with u n show ?thesis by (simp add: in_step_def)
  next
    case False
    then have "n \<noteq> 65535" "m = n" using assms by (auto simp: in_step_def)
    with u False show ?thesis by (simp add: in_step_def next_sequence_def)
  qed
  show "next_sequence n - 1 = m" if "next_sequence n < 256"
  proof -
    have "unat n < 255" using that u by (auto simp: small_word_less_256 split: if_splits)
    then have "n \<noteq> 65535" "m = n" using assms by (auto simp: in_step_def)
    then show ?thesis by (simp add: next_sequence_def)
  qed
qed

lemma SO_hears_next:
  assumes "so_connected st" and "so_agentAddress st = ipsource (ra_IP adv)"
    and "ipsource (ra_IP adv) \<noteq> mn_homeAgentPrivateAddress MN"
    and "in_step (so_advertisementSequenceNumber st) n" and "ra_sequenceNumber adv = next_sequence n"
  shows "SO_advertised e adv ether (st, MN) =
    Inr ((SO_raiseLifetime (ra_lifetime adv) (st\<lparr>so_advertisementSequenceNumber :=
            so_advertisementSequenceNumber st + 1\<rparr>), MN), [])"
  using assms in_step_next(2) [OF assms(4)] by (auto simp: SO_advertised_def Let_def)

lemma SO_hears_run:
  assumes "so_connected st" and "in_step (so_advertisementSequenceNumber st) n" and "follows n advs"
    and "\<forall>adv \<in> set advs. ipsource (ra_IP adv) = so_agentAddress st"
    and "so_agentAddress st \<noteq> mn_homeAgentPrivateAddress MN"
  shows "\<exists>st'. run (\<lambda>adv. SO_advertised e adv ether) advs (st, MN) = Inr ((st', MN), []) \<and>
    so_connected st' \<and> so_agentAddress st' = so_agentAddress st \<and> so_agentMAC st' = so_agentMAC st"
  using assms
proof (induction advs arbitrary: st n)
  case (Cons adv advs)
  define st1 where "st1 = SO_raiseLifetime (ra_lifetime adv)
    (st\<lparr>so_advertisementSequenceNumber := so_advertisementSequenceNumber st + 1\<rparr>)"
  have keep: "so_connected st1" "so_agentAddress st1 = so_agentAddress st" "so_agentMAC st1 = so_agentMAC st"
    "so_advertisementSequenceNumber st1 = so_advertisementSequenceNumber st + 1"
    using Cons.prems(1) by (simp_all add: st1_def SO_raiseLifetime_def)
  have "SO_advertised e adv ether (st, MN) = Inr ((st1, MN), [])"
    unfolding st1_def using Cons.prems by (intro SO_hears_next) auto
  moreover have "in_step (so_advertisementSequenceNumber st1) (ra_sequenceNumber adv)"
    using in_step_next(1) [OF Cons.prems(2)] Cons.prems(3) keep by simp
  then have "\<exists>st'. run (\<lambda>adv. SO_advertised e adv ether) advs (st1, MN) = Inr ((st', MN), []) \<and>
      so_connected st' \<and> so_agentAddress st' = so_agentAddress st \<and> so_agentMAC st' = so_agentMAC st"
    using Cons.IH [of st1 "ra_sequenceNumber adv"] Cons.prems keep by auto
  ultimately show ?case by auto
qed simp

text \<open>
  C15: No false restarts: a node that joined an agent at any point of its sequence and then hears its
  advertisements one after the other, for as long as the agent runs and through every wrap of the
  sequence number from 65535 to 256, stays connected to it and never registers again because of
  them, although the number it records only counts up.
\<close>

theorem SO_follows_agent:
  assumes "so_connected st" and "so_advertisementSequenceNumber st = n" and "unat n < 65536"
    and "follows n advs" and "\<forall>adv \<in> set advs. ipsource (ra_IP adv) = so_agentAddress st"
    and "so_agentAddress st \<noteq> mn_homeAgentPrivateAddress MN"
  shows "\<exists>st'. run (\<lambda>adv. SO_advertised e adv ether) advs (st, MN) = Inr ((st', MN), []) \<and>
    so_connected st' \<and> so_agentAddress st' = so_agentAddress st \<and> so_agentMAC st' = so_agentMAC st"
  by (rule SO_hears_run) (use assms in \<open>auto simp: in_step_def\<close>)

theorem SO_follows_agent_witness:
  "\<exists>st'. run (\<lambda>adv. SO_advertised sample_env adv sample_ether)
       [sample_adv, sample_adv\<lparr>ra_sequenceNumber := 43\<rparr>] (sample_SO, sample_MN) = Inr ((st', sample_MN), []) \<and>
     so_connected st' \<and> so_agentAddress st' = 0x0102A8C0 \<and> so_agentMAC st' = so_agentMAC sample_SO"
  using SO_follows_agent [of sample_SO 41 "[sample_adv, sample_adv\<lparr>ra_sequenceNumber := 43\<rparr>]" sample_MN
      sample_env sample_ether]
  by (simp add: sample_SO_def sample_adv_def sample_MN_def next_sequence_def)

end
